(* ===== verification/Gateway_Prelude.thy ===== *)
theory Gateway_Prelude
  imports Main "HOL-Library.Char_ord" "HOL-Library.List_Lexorder" "HOL-Library.Sublist"
begin

text \<open>
  The shared vocabulary of the gateway's components. It holds the parts of the Rust language and
  of its standard library that the sources use: byte strings, the UTF-8 check of
  \<open>std::str::from_utf8\<close>, white-space trimming, splitting at a byte, decimal printing and
  parsing of the fixed-width integers, and the sequencing of fallible steps (the \<open>?\<close> operator).
  A Rust \<open>String\<close> or \<open>Vec<u8>\<close> is a HOL \<open>string\<close>, one \<open>char\<close> per byte.
\<close>

section \<open>Collections of facts\<close>

named_theorems utf8_intros \<open>closure properties of valid UTF-8\<close>
named_theorems wire_simps \<open>equations that evaluate wire-format helpers\<close>

section \<open>Bytes\<close>

type_synonym bytes = "char list"

definition byte :: "char \<Rightarrow> nat" where
  "byte c = of_char c"

abbreviation (input) NUL :: char where "NUL \<equiv> CHR 0x00"
abbreviation (input) TAB :: char where "TAB \<equiv> CHR 0x09"
abbreviation (input) LF :: char where "LF \<equiv> CHR 0x0A"
abbreviation (input) CR :: char where "CR \<equiv> CHR 0x0D"
abbreviation (input) SPACE :: char where "SPACE \<equiv> CHR 0x20"
abbreviation (input) BSLASH :: char where "BSLASH \<equiv> CHR 0x5C"
abbreviation (input) QUOTE :: char where "QUOTE \<equiv> CHR 0x22"

lemma byte_less [simp]: "byte c < 256"
  unfolding byte_def by (metis of_char_mod_256 mod_less_divisor zero_less_numeral)

lemma byte_eq_iff: "byte c = byte d \<longleftrightarrow> c = d"
  by (simp add: byte_def)

lemma byte_char_of [simp]: "n < 256 \<Longrightarrow> byte (char_of n) = n"
  by (simp add: byte_def)

lemma char_of_byte [simp]: "char_of (byte c) = c"
  by (simp add: byte_def)

text \<open>\<open>u8::is_ascii_digit\<close>, \<open>is_ascii_alphanumeric\<close>, \<open>is_ascii_hexdigit\<close> and
  \<open>is_ascii_whitespace\<close> (which, unlike \<open>char::is_whitespace\<close>, has no vertical tab).\<close>

definition is_ascii_digit :: "char \<Rightarrow> bool" where
  "is_ascii_digit c \<longleftrightarrow> 48 \<le> byte c \<and> byte c \<le> 57"

definition is_ascii_lowercase :: "char \<Rightarrow> bool" where
  "is_ascii_lowercase c \<longleftrightarrow> 97 \<le> byte c \<and> byte c \<le> 122"

definition is_ascii_uppercase :: "char \<Rightarrow> bool" where
  "is_ascii_uppercase c \<longleftrightarrow> 65 \<le> byte c \<and> byte c \<le> 90"

definition is_ascii_alphanumeric :: "char \<Rightarrow> bool" where
  "is_ascii_alphanumeric c \<longleftrightarrow> is_ascii_digit c \<or> is_ascii_lowercase c \<or> is_ascii_uppercase c"

definition is_ascii_whitespace :: "char \<Rightarrow> bool" where
  "is_ascii_whitespace c \<longleftrightarrow> byte c \<in> {9, 10, 12, 13, 32}"

definition is_ascii_hexdigit :: "char \<Rightarrow> bool" where
  "is_ascii_hexdigit c \<longleftrightarrow> is_ascii_digit c \<or> (97 \<le> byte c \<and> byte c \<le> 102) \<or> (65 \<le> byte c \<and> byte c \<le> 70)"

definition to_ascii_uppercase :: "char \<Rightarrow> char" where
  "to_ascii_uppercase c = (if is_ascii_lowercase c then char_of (byte c - 32) else c)"

definition to_ascii_lowercase :: "char \<Rightarrow> char" where
  "to_ascii_lowercase c = (if is_ascii_uppercase c then char_of (byte c + 32) else c)"

section \<open>UTF-8\<close>

text \<open>A continuation byte of a multi-byte sequence.\<close>

definition utf8_cont :: "char \<Rightarrow> bool" where
  "utf8_cont c \<longleftrightarrow> 128 \<le> byte c \<and> byte c \<le> 191"

text \<open>The bytes that may follow a leading byte \<open>b\<close>, as inclusive ranges: RFC 3629, the
  relation \<open>std::str::from_utf8\<close> checks. \<open>None\<close> for a byte that cannot lead.\<close>

definition utf8_tail :: "nat \<Rightarrow> (nat \<times> nat) list option" where
  "utf8_tail b =
     (if b < 128 then Some []
      else if 194 \<le> b \<and> b \<le> 223 then Some [(128, 191)]
      else if b = 224 then Some [(160, 191), (128, 191)]
      else if b = 237 then Some [(128, 159), (128, 191)]
      else if 225 \<le> b \<and> b \<le> 239 then Some [(128, 191), (128, 191)]
      else if b = 240 then Some [(144, 191), (128, 191), (128, 191)]
      else if 241 \<le> b \<and> b \<le> 243 then Some [(128, 191), (128, 191), (128, 191)]
      else if b = 244 then Some [(128, 143), (128, 191), (128, 191)]
      else None)"

text \<open>The state of the check is what the sequence under way still needs.\<close>

fun utf8_run :: "(nat \<times> nat) list \<Rightarrow> bytes \<Rightarrow> bool" where
  "utf8_run need [] = (need = [])"
| "utf8_run [] (c # cs) =
     (case utf8_tail (byte c) of None \<Rightarrow> False | Some need \<Rightarrow> utf8_run need cs)"
| "utf8_run ((lo, hi) # need) (c # cs) =
     (lo \<le> byte c \<and> byte c \<le> hi \<and> utf8_run need cs)"

definition utf8_valid :: "bytes \<Rightarrow> bool" where
  "utf8_valid s = utf8_run [] s"

lemma utf8_valid_Nil [simp, utf8_intros]: "utf8_valid []"
  by (simp add: utf8_valid_def)

lemma utf8_run_append: "utf8_run need xs \<Longrightarrow> utf8_run need (xs @ ys) = utf8_run [] ys"
  by (induction need xs rule: utf8_run.induct) (auto split: option.splits)

lemma utf8_valid_append [simp]: "utf8_valid xs \<Longrightarrow> utf8_valid (xs @ ys) = utf8_valid ys"
  by (simp add: utf8_valid_def utf8_run_append)

lemma utf8_valid_append_intro [utf8_intros]: "utf8_valid xs \<Longrightarrow> utf8_valid ys \<Longrightarrow> utf8_valid (xs @ ys)"
  by simp

lemma utf8_valid_ascii_Cons [simp]: "byte c < 128 \<Longrightarrow> utf8_valid (c # cs) = utf8_valid cs"
  by (simp add: utf8_valid_def utf8_tail_def)

lemma utf8_valid_ascii: "list_all (\<lambda>c. byte c < 128) s \<Longrightarrow> utf8_valid s"
  by (induction s) auto

text \<open>Replacing single-byte characters by valid strings keeps a string valid: what every
  escaping function of the codecs relies on.\<close>

lemma utf8_run_subst:
  assumes f_high: "\<And>c. 128 \<le> byte c \<Longrightarrow> f c = [c]"
    and f_low: "\<And>c. byte c < 128 \<Longrightarrow> utf8_valid (f c)"
  shows "\<forall>(lo, hi) \<in> set need. 128 \<le> lo \<Longrightarrow> utf8_run need s \<Longrightarrow> utf8_run need (concat (map f s))"
proof (induction need s rule: utf8_run.induct)
  case (1 need)
  then show ?case by simp
next
  case (2 c cs)
  then obtain need where tail: "utf8_tail (byte c) = Some need" and run: "utf8_run need cs"
    by (auto split: option.splits)
  have hi: "\<forall>(lo, hi) \<in> set need. 128 \<le> lo"
    using tail by (auto simp: utf8_tail_def split: if_splits)
  have IH: "utf8_run need (concat (map f cs))"
    using "2.IH" [OF tail hi run] .
  show ?case
  proof (cases "byte c < 128")
    case True
    then have "need = []" using tail by (simp add: utf8_tail_def)
    then show ?thesis
      using IH f_low [OF True] by (simp add: utf8_valid_def utf8_run_append)
  next
    case False
    then show ?thesis using IH f_high [of c] tail by simp
  qed
next
  case (3 lo hi need c cs)
  then show ?case using f_high [of c] by auto
qed

lemma utf8_valid_subst:
  assumes "\<And>c. 128 \<le> byte c \<Longrightarrow> f c = [c]" and "\<And>c. byte c < 128 \<Longrightarrow> utf8_valid (f c)"
    and "utf8_valid s"
  shows "utf8_valid (concat (map f s))"
  using utf8_run_subst [where need = "[]", of f s] assms by (simp add: utf8_valid_def)

text \<open>\<open>str::chars().count()\<close>: the bytes of a valid string that are not continuation bytes.\<close>

definition char_count :: "bytes \<Rightarrow> nat" where
  "char_count s = length (filter (\<lambda>c. \<not> utf8_cont c) s)"

section \<open>White space\<close>

text \<open>The UTF-8 encodings of the characters with the Unicode property \<open>White_Space\<close>, which is
  what \<open>str::trim\<close> and its relatives strip.\<close>

definition unicode_ws :: "bytes list" where
  "unicode_ws =
     [[CHR 0x09], [CHR 0x0A], [CHR 0x0B], [CHR 0x0C], [CHR 0x0D], [CHR 0x20],
      [CHR 0xC2, CHR 0x85], [CHR 0xC2, CHR 0xA0], [CHR 0xE1, CHR 0x9A, CHR 0x80],
      [CHR 0xE2, CHR 0x80, CHR 0x80], [CHR 0xE2, CHR 0x80, CHR 0x81], [CHR 0xE2, CHR 0x80, CHR 0x82],
      [CHR 0xE2, CHR 0x80, CHR 0x83], [CHR 0xE2, CHR 0x80, CHR 0x84], [CHR 0xE2, CHR 0x80, CHR 0x85],
      [CHR 0xE2, CHR 0x80, CHR 0x86], [CHR 0xE2, CHR 0x80, CHR 0x87], [CHR 0xE2, CHR 0x80, CHR 0x88],
      [CHR 0xE2, CHR 0x80, CHR 0x89], [CHR 0xE2, CHR 0x80, CHR 0x8A], [CHR 0xE2, CHR 0x80, CHR 0xA8],
      [CHR 0xE2, CHR 0x80, CHR 0xA9], [CHR 0xE2, CHR 0x80, CHR 0xAF], [CHR 0xE2, CHR 0x81, CHR 0x9F],
      [CHR 0xE3, CHR 0x80, CHR 0x80]]"

lemma unicode_ws_nonempty: "w \<in> set unicode_ws \<Longrightarrow> w \<noteq> []"
  by (auto simp: unicode_ws_def)

function strip_any :: "bytes list \<Rightarrow> bytes \<Rightarrow> bytes" where
  "strip_any ws s =
     (case find (\<lambda>w. w \<noteq> [] \<and> prefix w s) ws of
        None \<Rightarrow> s
      | Some w \<Rightarrow> strip_any ws (drop (length w) s))"
  by pat_completeness auto
termination
  by (relation "measure (\<lambda>(ws, s). length s)")
    (auto simp: find_Some_iff prefix_def dest!: nth_mem)

declare strip_any.simps [simp del]

definition trim_start :: "bytes \<Rightarrow> bytes" where
  "trim_start s = strip_any unicode_ws s"

definition trim_end :: "bytes \<Rightarrow> bytes" where
  "trim_end s = rev (strip_any (map rev unicode_ws) (rev s))"

definition trim :: "bytes \<Rightarrow> bytes" where
  "trim s = trim_end (trim_start s)"

lemma strip_any_stop: "(\<And>w. w \<in> set ws \<Longrightarrow> w \<noteq> [] \<Longrightarrow> \<not> prefix w s) \<Longrightarrow> strip_any ws s = s"
  by (subst strip_any.simps) (auto split: option.splits simp: find_Some_iff)

lemma strip_any_suffix: "suffix (strip_any ws s) s"
proof (induction ws s rule: strip_any.induct)
  case (1 ws s)
  show ?case
  proof (cases "find (\<lambda>w. w \<noteq> [] \<and> prefix w s) ws")
    case None
    then show ?thesis by (subst strip_any.simps) simp
  next
    case (Some w)
    then have "suffix (strip_any ws (drop (length w) s)) (drop (length w) s)"
      by (rule "1.IH")
    moreover have "suffix (drop (length w) s) s" by (rule suffix_drop)
    ultimately have "suffix (strip_any ws (drop (length w) s)) s"
      by (rule suffix_order.trans)
    then show ?thesis using Some by (subst strip_any.simps) simp
  qed
qed

lemma trim_start_suffix: "suffix (trim_start s) s"
  by (simp add: trim_start_def strip_any_suffix)

section \<open>Splitting\<close>

text \<open>\<open>str::split(c)\<close> for a single-byte separator: never empty.\<close>

fun split_on :: "char \<Rightarrow> bytes \<Rightarrow> bytes list" where
  "split_on c [] = [[]]"
| "split_on c (x # xs) =
     (if x = c then [] # split_on c xs
      else (case split_on c xs of [] \<Rightarrow> [[x]] | l # ls \<Rightarrow> (x # l) # ls))"

lemma split_on_nonempty [simp]: "split_on c s \<noteq> []"
  by (induction s) (auto split: list.splits)

lemma split_on_absent: "c \<notin> set l \<Longrightarrow> split_on c l = [l]"
  by (induction l) auto

lemma split_on_append: "c \<notin> set l \<Longrightarrow> split_on c (l @ c # s) = l # split_on c s"
  by (induction l) auto

text \<open>\<open>str::split_once(c)\<close>.\<close>

fun split_once :: "char \<Rightarrow> bytes \<Rightarrow> (bytes \<times> bytes) option" where
  "split_once c [] = None"
| "split_once c (x # xs) =
     (if x = c then Some ([], xs) else map_option (\<lambda>(a, b). (x # a, b)) (split_once c xs))"

lemma split_once_append: "c \<notin> set a \<Longrightarrow> split_once c (a @ c # b) = Some (a, b)"
  by (induction a) auto

lemma split_once_None: "split_once c s = None \<longleftrightarrow> c \<notin> set s"
  by (induction s) auto

text \<open>\<open>[String]::join\<close>.\<close>

fun join :: "bytes \<Rightarrow> bytes list \<Rightarrow> bytes" where
  "join sep [] = []"
| "join sep [x] = x"
| "join sep (x # y # xs) = x @ sep @ join sep (y # xs)"

text \<open>\<open>str::strip_prefix\<close> and \<open>Iterator::position\<close>.\<close>

definition strip_prefix :: "bytes \<Rightarrow> bytes \<Rightarrow> bytes option" where
  "strip_prefix p s = (if prefix p s then Some (drop (length p) s) else None)"

lemma strip_prefix_append [simp]: "strip_prefix p (p @ s) = Some s"
  by (simp add: strip_prefix_def)

lemma strip_prefix_Some: "strip_prefix p s = Some r \<longleftrightarrow> s = p @ r"
  by (auto simp: strip_prefix_def prefix_def)

fun position :: "('a \<Rightarrow> bool) \<Rightarrow> 'a list \<Rightarrow> nat option" where
  "position P [] = None"
| "position P (x # xs) = (if P x then Some 0 else map_option Suc (position P xs))"

lemma position_None: "position P xs = None \<longleftrightarrow> (\<forall>x \<in> set xs. \<not> P x)"
  by (induction xs) auto

lemma position_Some_lt: "position P xs = Some i \<Longrightarrow> i < length xs \<and> P (xs ! i)"
  by (induction xs arbitrary: i) (auto split: if_splits simp: less_Suc_eq_0_disj)

lemma position_append: "(\<And>x. x \<in> set xs \<Longrightarrow> \<not> P x) \<Longrightarrow> P y \<Longrightarrow> position P (xs @ y # ys) = Some (length xs)"
  by (induction xs) auto

lemma position_take_drop:
  "position P xs = Some i \<Longrightarrow> takeWhile (\<lambda>x. \<not> P x) xs = take i xs \<and> dropWhile (\<lambda>x. \<not> P x) xs = drop i xs"
  by (induction xs arbitrary: i) (auto split: if_splits)

section \<open>Decimal integers\<close>

definition digit_char :: "nat \<Rightarrow> char" where
  "digit_char d = char_of (48 + d)"

definition digit_val :: "char \<Rightarrow> nat" where
  "digit_val c = byte c - 48"

text \<open>\<open>u64::to_string\<close> and its relatives.\<close>

fun show_nat :: "nat \<Rightarrow> bytes" where
  "show_nat n = (if n < 10 then [digit_char n] else show_nat (n div 10) @ [digit_char (n mod 10)])"

declare show_nat.simps [simp del]

definition show_int :: "int \<Rightarrow> bytes" where
  "show_int i = (if i < 0 then CHR ''-'' # show_nat (nat (- i)) else show_nat (nat i))"

definition digits_val :: "bytes \<Rightarrow> nat" where
  "digits_val s = foldl (\<lambda>a c. 10 * a + digit_val c) 0 s"

text \<open>\<open>str::parse::<uN>\<close>: an optional \<open>+\<close>, at least one digit, and a value below \<open>2 ^ w\<close>.\<close>

definition parse_unsigned :: "nat \<Rightarrow> bytes \<Rightarrow> nat option" where
  "parse_unsigned w s =
     (let ds = (case s of [] \<Rightarrow> [] | c # cs \<Rightarrow> if c = CHR ''+'' then cs else s)
      in if ds \<noteq> [] \<and> list_all is_ascii_digit ds \<and> digits_val ds < 2 ^ w
         then Some (digits_val ds) else None)"

text \<open>\<open>str::parse::<iN>\<close>: an optional sign, and a value in the two's-complement range.\<close>

definition parse_signed :: "nat \<Rightarrow> bytes \<Rightarrow> int option" where
  "parse_signed w s =
     (let neg = (case s of [] \<Rightarrow> False | c # cs \<Rightarrow> c = CHR ''-'');
          ds = (case s of [] \<Rightarrow> [] | c # cs \<Rightarrow> if c = CHR ''+'' \<or> c = CHR ''-'' then cs else s);
          v = (if neg then - int (digits_val ds) else int (digits_val ds))
      in if ds \<noteq> [] \<and> list_all is_ascii_digit ds \<and> - (2 ^ (w - 1)) \<le> v \<and> v < 2 ^ (w - 1)
         then Some v else None)"

lemma digit_chars [simp]:
  "digit_char 0 = CHR ''0''" "digit_char (Suc 0) = CHR ''1''" "digit_char 1 = CHR ''1''"
  "digit_char 2 = CHR ''2''" "digit_char 3 = CHR ''3''" "digit_char 4 = CHR ''4''"
  "digit_char 5 = CHR ''5''" "digit_char 6 = CHR ''6''" "digit_char 7 = CHR ''7''"
  "digit_char 8 = CHR ''8''" "digit_char 9 = CHR ''9''"
  by code_simp+

lemma digit_char_digit: "d < 10 \<Longrightarrow> is_ascii_digit (digit_char d)"
  by (simp add: is_ascii_digit_def digit_char_def)

lemma digit_val_char: "d < 10 \<Longrightarrow> digit_val (digit_char d) = d"
  by (simp add: digit_val_def digit_char_def)

lemma show_nat_digits: "list_all is_ascii_digit (show_nat n)"
proof (induction n rule: show_nat.induct)
  case (1 n)
  then show ?case
    by (cases "n < 10") (simp_all add: show_nat.simps [of n] digit_char_digit)
qed

lemma show_nat_nonempty [simp]: "show_nat n \<noteq> []"
  by (subst show_nat.simps) simp

lemma digits_val_snoc: "digits_val (s @ [c]) = 10 * digits_val s + digit_val c"
  by (simp add: digits_val_def)

lemma digits_val_show_nat [simp]: "digits_val (show_nat n) = n"
proof (induction n rule: show_nat.induct)
  case (1 n)
  then show ?case
    by (cases "n < 10")
      (simp_all add: show_nat.simps [of n] digits_val_snoc digit_val_char, simp add: digits_val_def digit_val_char)
qed

lemma digit_not_sign: "is_ascii_digit c \<Longrightarrow> c \<noteq> CHR ''+'' \<and> c \<noteq> CHR ''-''"
  by (auto simp: is_ascii_digit_def byte_def)

lemma show_nat_Cons: "\<exists>c cs. show_nat n = c # cs \<and> is_ascii_digit c"
  using show_nat_digits [of n] by (cases "show_nat n") auto

lemma parse_unsigned_show_nat:
  assumes "n < 2 ^ w"
  shows "parse_unsigned w (show_nat n) = Some n"
proof -
  obtain c cs where eq: "show_nat n = c # cs" and dig: "is_ascii_digit c"
    using show_nat_Cons by blast
  have "(case show_nat n of [] \<Rightarrow> [] | c # cs \<Rightarrow> if c = CHR ''+'' then cs else show_nat n) = show_nat n"
    using digit_not_sign [OF dig] by (simp add: eq)
  then show ?thesis
    using assms show_nat_digits [of n] by (simp add: parse_unsigned_def)
qed

lemma show_nat_ascii: "list_all (\<lambda>c. byte c < 128) (show_nat n)"
  using show_nat_digits [of n] by (auto simp: list_all_iff is_ascii_digit_def)

lemma show_nat_utf8 [simp, utf8_intros]: "utf8_valid (show_nat n)"
  by (rule utf8_valid_ascii [OF show_nat_ascii])

lemma show_nat_inj: "show_nat m = show_nat n \<longleftrightarrow> m = n"
  by (metis digits_val_show_nat)

section \<open>Fallible steps\<close>

text \<open>\<open>Result<T, E>\<close> is \<open>'e + 'a\<close>, with \<open>Inl\<close> the error; \<open>res_bind\<close> is the
  \<open>?\<close> operator and \<open>map_res\<close> is \<open>collect::<Result<Vec<_>, _>>()\<close>: the first error wins.\<close>

definition res_bind :: "'e + 'a \<Rightarrow> ('a \<Rightarrow> 'e + 'b) \<Rightarrow> 'e + 'b" where
  "res_bind r f = (case r of Inl e \<Rightarrow> Inl e | Inr a \<Rightarrow> f a)"

definition ok_or :: "'a option \<Rightarrow> 'e \<Rightarrow> 'e + 'a" where
  "ok_or o' e = (case o' of None \<Rightarrow> Inl e | Some a \<Rightarrow> Inr a)"

definition map_err :: "('e \<Rightarrow> 'f) \<Rightarrow> 'e + 'a \<Rightarrow> 'f + 'a" where
  "map_err f r = (case r of Inl e \<Rightarrow> Inl (f e) | Inr a \<Rightarrow> Inr a)"

lemma res_bind_simps [simp]:
  "res_bind (Inl e) f = Inl e"
  "res_bind (Inr a) f = f a"
  by (simp_all add: res_bind_def)

lemma ok_or_simps [simp]:
  "ok_or None e = Inl e"
  "ok_or (Some a) e = Inr a"
  by (simp_all add: ok_or_def)

lemma map_err_simps [simp]:
  "map_err f (Inl e) = Inl (f e)"
  "map_err f (Inr a) = Inr a"
  by (simp_all add: map_err_def)

lemma res_bind_Inr: "res_bind r f = Inr b \<longleftrightarrow> (\<exists>a. r = Inr a \<and> f a = Inr b)"
  by (cases r) auto

lemma ok_or_Inr: "ok_or o' e = Inr a \<longleftrightarrow> o' = Some a"
  by (cases o') auto

lemma map_err_Inr: "map_err f r = Inr a \<longleftrightarrow> r = Inr a"
  by (cases r) auto

lemma res_bind_cong [fundef_cong]:
  "r = r' \<Longrightarrow> (\<And>a. r' = Inr a \<Longrightarrow> f a = g a) \<Longrightarrow> res_bind r f = res_bind r' g"
  by (cases r') auto

lemmas res_elims = res_bind_Inr ok_or_Inr map_err_Inr

end
