(* ===== verification/Btree_Map.thy ===== *)
theory Btree_Map
  imports Gateway_Prelude
begin

text \<open>
  \<open>std::collections::BTreeMap\<close>, the container of envelope headers and of every JSON object
  (\<open>serde_json\<close> is built without \<open>preserve_order\<close>). The model is an association list
  kept strictly sorted by key, so that iteration is the list itself. The locale \<open>map_spec\<close>
  states what the client code relies on; \<open>bt\<close> interprets it on this model.
\<close>

section \<open>The interface\<close>

locale map_spec =
  fixes empty :: "'m"
    and insert :: "'k \<Rightarrow> 'v \<Rightarrow> 'm \<Rightarrow> 'm"
    and get :: "'m \<Rightarrow> 'k \<Rightarrow> 'v option"
    and invar :: "'m \<Rightarrow> bool"
  assumes get_empty: "get empty k = None"
    and get_insert: "get (insert k v m) j = (if j = k then Some v else get m j)"
    and invar_empty: "invar empty"
    and invar_insert: "invar m \<Longrightarrow> invar (insert k v m)"
    and get_ext: "invar m \<Longrightarrow> invar n \<Longrightarrow> (\<And>k. get m k = get n k) \<Longrightarrow> m = n"
begin

lemma get_insert_same [simp]: "get (insert k v m) k = Some v"
  by (simp add: get_insert)

lemma get_insert_other [simp]: "j \<noteq> k \<Longrightarrow> get (insert k v m) j = get m j"
  by (simp add: get_insert)

lemma insert_twice: "invar m \<Longrightarrow> insert k v (insert k w m) = insert k v m"
  by (rule get_ext) (auto simp: get_insert intro: invar_insert)

lemma insert_commute:
  "invar m \<Longrightarrow> j \<noteq> k \<Longrightarrow> insert j v (insert k w m) = insert k w (insert j v m)"
  by (rule get_ext) (auto simp: get_insert intro: invar_insert)

lemma insert_same_value: "invar m \<Longrightarrow> get m k = Some v \<Longrightarrow> insert k v m = m"
  by (rule get_ext) (auto simp: get_insert intro: invar_insert)

end

section \<open>Sorted association lists\<close>

fun bt_insert :: "'k::linorder \<Rightarrow> 'v \<Rightarrow> ('k \<times> 'v) list \<Rightarrow> ('k \<times> 'v) list" where
  "bt_insert k v [] = [(k, v)]"
| "bt_insert k v ((j, w) # m) =
     (if k < j then (k, v) # (j, w) # m
      else if k = j then (k, v) # m
      else (j, w) # bt_insert k v m)"

definition bt_get :: "('k \<times> 'v) list \<Rightarrow> 'k \<Rightarrow> 'v option" where
  "bt_get m k = map_of m k"

definition bt_inv :: "('k::linorder \<times> 'v) list \<Rightarrow> bool" where
  "bt_inv m = sorted_wrt (<) (map fst m)"

lemma bt_get_simps [simp]:
  "bt_get [] k = None"
  "bt_get ((j, v) # m) k = (if k = j then Some v else bt_get m k)"
  by (auto simp: bt_get_def)

lemma bt_get_insert: "bt_get (bt_insert k v m) j = (if j = k then Some v else bt_get m j)"
  by (induction k v m rule: bt_insert.induct) auto

lemma fst_set_bt_insert: "fst ` set (bt_insert k v m) = insert k (fst ` set m)"
  by (induction k v m rule: bt_insert.induct) auto

lemma set_bt_insert: "x \<in> set (bt_insert k v m) \<Longrightarrow> x = (k, v) \<or> x \<in> set m"
  by (induction k v m rule: bt_insert.induct) (auto split: if_splits)

lemma bt_inv_Nil [simp]: "bt_inv []"
  by (simp add: bt_inv_def)

lemma bt_inv_insert: "bt_inv m \<Longrightarrow> bt_inv (bt_insert k v m)"
proof (induction k v m rule: bt_insert.induct)
  case (2 k v j w m)
  then have IH: "\<not> k < j \<Longrightarrow> k \<noteq> j \<Longrightarrow> bt_inv (bt_insert k v m)"
    by (simp add: bt_inv_def)
  have keys: "x \<in> fst ` set (bt_insert k v m) \<Longrightarrow> x = k \<or> x \<in> fst ` set m" for x
    by (simp add: fst_set_bt_insert)
  show ?case
  proof (cases "k < j \<or> k = j")
    case True
    with "2.prems" show ?thesis by (auto simp: bt_inv_def intro: less_trans)
  next
    case False
    with IH "2.prems" show ?thesis
      by (auto simp: bt_inv_def dest!: keys [OF imageI])
  qed
qed (simp add: bt_inv_def)

lemma bt_inv_distinct: "bt_inv m \<Longrightarrow> distinct (map fst m)"
  by (induction m) (auto simp: bt_inv_def)

lemma bt_get_mem: "bt_inv m \<Longrightarrow> bt_get m k = Some v \<longleftrightarrow> (k, v) \<in> set m"
  by (simp add: bt_get_def bt_inv_distinct map_of_eq_Some_iff)

lemma bt_ext:
  assumes "bt_inv m" "bt_inv n" "\<And>k. bt_get m k = bt_get n k"
  shows "m = n"
proof -
  have eq: "set m = set n"
    using assms by (auto simp: bt_get_mem [symmetric])
  have dist: "distinct (map fst m)" "distinct (map fst n)"
    using assms(1,2) by (simp_all add: bt_inv_distinct)
  then have "inj_on fst (set m \<union> set n)"
    by (simp add: distinct_map eq)
  moreover have "sorted (map fst m)" "sorted (map fst n)"
    using assms(1,2) by (simp_all add: bt_inv_def strict_sorted_iff)
  ultimately show ?thesis
    using dist eq by (simp add: map_sorted_distinct_set_unique)
qed

interpretation bt: map_spec "[]" bt_insert bt_get bt_inv
  by unfold_locales (auto simp: bt_get_insert bt_inv_insert intro: bt_ext)

declare bt.get_insert_same [simp] bt.get_insert_other [simp]

end
