(* ===== verification/Core_Types.thy ===== *)
theory Core_Types
  imports Btree_Map
begin

text \<open>
  The data of \<open>oa-gateway-core\<close>: the id newtypes (\<open>ids.rs\<close>), the header names
  (\<open>headers.rs\<close>), the addressing key (\<open>route.rs\<close>) and the envelope (\<open>envelope.rs\<close>).
  A UUID is the number it encodes; the fresh one that \<open>Uuid::new_v4\<close> draws is an argument of
  the constructor that uses it.
\<close>

section \<open>Identifiers\<close>

datatype AdapterId = AdapterId (adapter_str: string)
datatype SubId = SubId (sub_str: string)
datatype MessageId = MessageId (as_uuid: nat)

text \<open>\<open>AdapterId\<close> and \<open>SubId\<close> derive \<open>Ord\<close>: the order of the wrapped strings.\<close>

instantiation AdapterId :: linorder
begin

definition less_eq_AdapterId :: "AdapterId \<Rightarrow> AdapterId \<Rightarrow> bool" where
  "less_eq_AdapterId a b \<longleftrightarrow> adapter_str a \<le> adapter_str b"

definition less_AdapterId :: "AdapterId \<Rightarrow> AdapterId \<Rightarrow> bool" where
  "less_AdapterId a b \<longleftrightarrow> adapter_str a < adapter_str b"

instance
  by standard (auto simp: less_eq_AdapterId_def less_AdapterId_def intro: AdapterId.expand)

end

instantiation SubId :: linorder
begin

definition less_eq_SubId :: "SubId \<Rightarrow> SubId \<Rightarrow> bool" where
  "less_eq_SubId a b \<longleftrightarrow> sub_str a \<le> sub_str b"

definition less_SubId :: "SubId \<Rightarrow> SubId \<Rightarrow> bool" where
  "less_SubId a b \<longleftrightarrow> sub_str a < sub_str b"

instance
  by standard (auto simp: less_eq_SubId_def less_SubId_def intro: SubId.expand)

end

section \<open>Header names\<close>

definition HDR_ORIGIN :: string where "HDR_ORIGIN = ''oag.origin_adapter''"
definition HDR_TOPIC :: string where "HDR_TOPIC = ''oag.topic''"
definition HDR_TYPE_HINT :: string where "HDR_TYPE_HINT = ''oag.type_hint''"
definition HDR_ID :: string where "HDR_ID = ''oag.id''"

lemmas hdr_defs = HDR_ORIGIN_def HDR_TOPIC_def HDR_TYPE_HINT_def HDR_ID_def

section \<open>Routes\<close>

record RouteKey =
  topic :: string
  type_hint :: "string option"

definition route_topic :: "string \<Rightarrow> RouteKey" where
  "route_topic t = \<lparr>topic = t, type_hint = None\<rparr>"

definition route_typed :: "string \<Rightarrow> string \<Rightarrow> RouteKey" where
  "route_typed t h = \<lparr>topic = t, type_hint = Some h\<rparr>"

definition is_wildcard :: "RouteKey \<Rightarrow> bool" where
  "is_wildcard r \<longleftrightarrow> type_hint r = None"

text \<open>\<open>str::trim_end_matches(c)\<close> and the \<open>Display\<close> instance.\<close>

definition trim_end_matches :: "char \<Rightarrow> string \<Rightarrow> string" where
  "trim_end_matches c s = rev (dropWhile (\<lambda>x. x = c) (rev s))"

definition show_route :: "RouteKey \<Rightarrow> string" where
  "show_route r = (case type_hint r of
     Some h \<Rightarrow> topic r @ ''/'' @ h
   | None \<Rightarrow> trim_end_matches (CHR ''/'') (topic r) @ ''/'')"

lemma route_simps [simp]:
  "topic (route_topic t) = t" "type_hint (route_topic t) = None"
  "topic (route_typed t h) = t" "type_hint (route_typed t h) = Some h"
  by (simp_all add: route_topic_def route_typed_def)

lemma route_eq_iff:
  "r = route_topic t \<longleftrightarrow> topic r = t \<and> type_hint r = None"
  "r = route_typed t h \<longleftrightarrow> topic r = t \<and> type_hint r = Some h"
  by (auto simp: route_topic_def route_typed_def)

section \<open>Content types\<close>

datatype ContentType = ContentType (ct_str: string)

definition octet_stream :: ContentType where "octet_stream = ContentType ''application/octet-stream''"
definition ct_json :: ContentType where "ct_json = ContentType ''application/json''"
definition ct_xml :: ContentType where "ct_xml = ContentType ''application/xml''"

lemma content_types_distinct [simp]:
  "ct_json \<noteq> ct_xml" "ct_xml \<noteq> ct_json" "ct_json \<noteq> octet_stream" "octet_stream \<noteq> ct_json"
  "ct_xml \<noteq> octet_stream" "octet_stream \<noteq> ct_xml"
  by (simp_all add: ct_json_def ct_xml_def octet_stream_def)

section \<open>Envelopes\<close>

record Envelope =
  env_id :: MessageId
  route :: RouteKey
  headers :: "(string \<times> string) list"
  content_type :: ContentType
  payload :: bytes

definition new_envelope :: "MessageId \<Rightarrow> RouteKey \<Rightarrow> bytes \<Rightarrow> Envelope" where
  "new_envelope fresh r p =
     \<lparr>env_id = fresh, route = r, headers = [], content_type = octet_stream, payload = p\<rparr>"

definition with_content_type :: "ContentType \<Rightarrow> Envelope \<Rightarrow> Envelope" where
  "with_content_type ct e = e\<lparr>content_type := ct\<rparr>"

definition with_header :: "string \<Rightarrow> string \<Rightarrow> Envelope \<Rightarrow> Envelope" where
  "with_header k v e = e\<lparr>headers := bt_insert k v (headers e)\<rparr>"

definition with_origin :: "AdapterId \<Rightarrow> Envelope \<Rightarrow> Envelope" where
  "with_origin a e = with_header HDR_ORIGIN (adapter_str a) e"

definition origin :: "Envelope \<Rightarrow> string option" where
  "origin e = bt_get (headers e) HDR_ORIGIN"

definition is_echo_of :: "Envelope \<Rightarrow> AdapterId \<Rightarrow> bool" where
  "is_echo_of e a \<longleftrightarrow> origin e = Some (adapter_str a)"

definition env_wf :: "Envelope \<Rightarrow> bool" where
  "env_wf e \<longleftrightarrow> bt_inv (headers e)"

lemma envelope_simps [simp]:
  "route (with_header k v e) = route e" "payload (with_header k v e) = payload e"
  "content_type (with_header k v e) = content_type e" "env_id (with_header k v e) = env_id e"
  "route (with_origin a e) = route e" "payload (with_origin a e) = payload e"
  "content_type (with_origin a e) = content_type e"
  "route (with_content_type ct e) = route e" "payload (with_content_type ct e) = payload e"
  "content_type (with_content_type ct e) = ct" "headers (with_content_type ct e) = headers e"
  "route (new_envelope i r p) = r" "payload (new_envelope i r p) = p"
  "headers (new_envelope i r p) = []" "content_type (new_envelope i r p) = octet_stream"
  by (simp_all add: with_header_def with_origin_def with_content_type_def new_envelope_def)

lemma get_with_header [simp]:
  "bt_get (headers (with_header k v e)) j = (if j = k then Some v else bt_get (headers e) j)"
  by (simp add: with_header_def bt.get_insert)

lemma env_wf_intros [simp, intro]:
  "env_wf (new_envelope i r p)"
  "env_wf e \<Longrightarrow> env_wf (with_header k v e)"
  "env_wf e \<Longrightarrow> env_wf (with_origin a e)"
  "env_wf e \<Longrightarrow> env_wf (with_content_type ct e)"
  by (simp_all add: env_wf_def with_header_def with_origin_def bt_inv_insert)

lemma origin_with_origin [simp]: "origin (with_origin a e) = Some (adapter_str a)"
  by (simp add: origin_def with_origin_def)

lemma origin_with_header_other [simp]: "k \<noteq> HDR_ORIGIN \<Longrightarrow> origin (with_header k v e) = origin e"
  by (simp add: origin_def)

lemma is_echo_of_with_origin: "is_echo_of (with_origin a e) b \<longleftrightarrow> a = b"
  by (auto simp: is_echo_of_def intro: AdapterId.expand)

lemma new_not_echo: "\<not> is_echo_of (new_envelope i r p) a"
  by (simp add: is_echo_of_def origin_def)

end
