(* ===== verification/Core_Engine.thy ===== *)
theory Core_Engine
  imports Core_Types "HOL-Library.Finite_Map" "HOL-Library.Word"
begin

text \<open>
  The routing engine, \<open>oa-gateway-core/src/engine.rs\<close>. A \<open>HashMap\<close> is a finite map and a
  \<open>HashSet\<close> a finite set; the order in which a \<open>HashSet\<close> is iterated is unspecified, so the
  operations that iterate one take that order as an argument (\<open>hash_order\<close> is all that is
  known of it). A \<open>tokio::sync::mpsc::Sender\<close> is the number of its channel; the state of the
  channels and the operation \<open>try_send\<close> on it are arguments, and \<open>mpsc\<close> is the documented
  contract of a bounded channel. Each operation on the subscription state runs under the engine's
  \<open>RwLock\<close>, so it is one atomic function here; \<open>Core_Concurrent\<close> interleaves them.
\<close>

section \<open>Data\<close>

definition DEFAULT_CHANNEL_CAPACITY :: nat where
  "DEFAULT_CHANNEL_CAPACITY = 64"

datatype SubscriberKey = SubscriberKey (adapter_id: AdapterId) (sub_id: SubId)

instantiation SubscriberKey :: linorder
begin

definition less_eq_SubscriberKey :: "SubscriberKey \<Rightarrow> SubscriberKey \<Rightarrow> bool" where
  "less_eq_SubscriberKey j k \<longleftrightarrow>
     adapter_id j < adapter_id k \<or> (adapter_id j = adapter_id k \<and> sub_id j \<le> sub_id k)"

definition less_SubscriberKey :: "SubscriberKey \<Rightarrow> SubscriberKey \<Rightarrow> bool" where
  "less_SubscriberKey j k \<longleftrightarrow>
     adapter_id j < adapter_id k \<or> (adapter_id j = adapter_id k \<and> sub_id j < sub_id k)"

instance
  by standard (auto simp: less_eq_SubscriberKey_def less_SubscriberKey_def intro: SubscriberKey.expand)

end

type_synonym chan = nat

record Delivery =
  del_sub :: SubId
  del_envelope :: Envelope

record EngineStats =
  stat_published :: "64 word"
  stat_delivered :: "64 word"
  stat_dropped :: "64 word"

record PublishOutcome =
  matched :: nat
  delivered :: nat
  dropped :: nat

datatype EngineError = DuplicateSub SubId | UnknownSub SubId

definition show_engine_error :: "EngineError \<Rightarrow> string" where
  "show_engine_error e = (case e of
     DuplicateSub s \<Rightarrow> ''duplicate subscription '' @ sub_str s
   | UnknownSub s \<Rightarrow> ''unknown subscription '' @ sub_str s)"

record Subscription =
  sub_route :: RouteKey
  tx :: chan

record State =
  by_key :: "(SubscriberKey, Subscription) fmap"
  by_adapter :: "(AdapterId, SubId fset) fmap"
  exact :: "(string, (string, SubscriberKey fset) fmap) fmap"
  wildcards :: "(string, SubscriberKey fset) fmap"

record Engine =
  engine_state :: State
  stats :: EngineStats

definition empty_state :: State where
  "empty_state = \<lparr>by_key = fmempty, by_adapter = fmempty, exact = fmempty, wildcards = fmempty\<rparr>"

definition new_engine :: Engine where
  "new_engine = \<lparr>engine_state = empty_state,
     stats = \<lparr>stat_published = 0, stat_delivered = 0, stat_dropped = 0\<rparr>\<rparr>"

section \<open>Operations\<close>

text \<open>\<open>HashMap::entry(k).or_default()\<close> read as a value.\<close>

definition or_default :: "'a \<Rightarrow> 'a option \<Rightarrow> 'a" where
  "or_default d o' = (case o' of None \<Rightarrow> d | Some x \<Rightarrow> x)"

definition insert_index :: "State \<Rightarrow> SubscriberKey \<Rightarrow> RouteKey \<Rightarrow> State" where
  "insert_index st key r =
     (case type_hint r of
        Some hint \<Rightarrow>
          (let by_hint = or_default fmempty (fmlookup (exact st) (topic r));
               keys = or_default {||} (fmlookup by_hint hint)
           in st\<lparr>exact := fmupd (topic r) (fmupd hint (finsert key keys) by_hint) (exact st)\<rparr>)
      | None \<Rightarrow>
          (let keys = or_default {||} (fmlookup (wildcards st) (topic r))
           in st\<lparr>wildcards := fmupd (topic r) (finsert key keys) (wildcards st)\<rparr>))"

definition subscribe_state ::
  "State \<Rightarrow> AdapterId \<Rightarrow> SubId \<Rightarrow> RouteKey \<Rightarrow> chan \<Rightarrow> EngineError + State \<times> SubscriberKey" where
  "subscribe_state st a s r c =
     (let key = SubscriberKey a s in
      if fmlookup (by_key st) key \<noteq> None then Inl (DuplicateSub s)
      else
        let st1 = insert_index st key r;
            sids = or_default {||} (fmlookup (by_adapter st1) a);
            st2 = st1\<lparr>by_adapter := fmupd a (finsert s sids) (by_adapter st1)\<rparr>
        in Inr (st2\<lparr>by_key := fmupd key \<lparr>sub_route = r, tx = c\<rparr> (by_key st2)\<rparr>, key))"

text \<open>The three index updates of \<open>remove_subscription\<close>, in its order: the adapter's set, then
  the exact index or the wildcard index. An entry that becomes empty is dropped.\<close>

definition unindex_adapter :: "State \<Rightarrow> SubscriberKey \<Rightarrow> State" where
  "unindex_adapter st key =
     (case fmlookup (by_adapter st) (adapter_id key) of
        None \<Rightarrow> st
      | Some sids \<Rightarrow>
          (let sids' = sids |-| {|sub_id key|} in
           if sids' = {||} then st\<lparr>by_adapter := fmdrop (adapter_id key) (by_adapter st)\<rparr>
           else st\<lparr>by_adapter := fmupd (adapter_id key) sids' (by_adapter st)\<rparr>))"

definition unindex_exact :: "State \<Rightarrow> SubscriberKey \<Rightarrow> string \<Rightarrow> string \<Rightarrow> State" where
  "unindex_exact st key t hint =
     (case fmlookup (exact st) t of
        None \<Rightarrow> st
      | Some by_hint \<Rightarrow>
          (let by_hint' =
             (case fmlookup by_hint hint of
                None \<Rightarrow> by_hint
              | Some keys \<Rightarrow>
                  (let keys' = keys |-| {|key|} in
                   if keys' = {||} then fmdrop hint by_hint else fmupd hint keys' by_hint))
           in if by_hint' = fmempty then st\<lparr>exact := fmdrop t (exact st)\<rparr>
              else st\<lparr>exact := fmupd t by_hint' (exact st)\<rparr>))"

definition unindex_wildcard :: "State \<Rightarrow> SubscriberKey \<Rightarrow> string \<Rightarrow> State" where
  "unindex_wildcard st key t =
     (case fmlookup (wildcards st) t of
        None \<Rightarrow> st
      | Some keys \<Rightarrow>
          (let keys' = keys |-| {|key|} in
           if keys' = {||} then st\<lparr>wildcards := fmdrop t (wildcards st)\<rparr>
           else st\<lparr>wildcards := fmupd t keys' (wildcards st)\<rparr>))"

definition remove_subscription :: "State \<Rightarrow> SubscriberKey \<Rightarrow> State option" where
  "remove_subscription st key =
     (case fmlookup (by_key st) key of
        None \<Rightarrow> None
      | Some sub \<Rightarrow>
          (let st1 = st\<lparr>by_key := fmdrop key (by_key st)\<rparr>;
               st2 = unindex_adapter st1 key
           in Some (case type_hint (sub_route sub) of
                Some hint \<Rightarrow> unindex_exact st2 key (topic (sub_route sub)) hint
              | None \<Rightarrow> unindex_wildcard st2 key (topic (sub_route sub)))))"

definition unsubscribe_state :: "State \<Rightarrow> AdapterId \<Rightarrow> SubId \<Rightarrow> EngineError + State" where
  "unsubscribe_state st a s = ok_or (remove_subscription st (SubscriberKey a s)) (UnknownSub s)"

fun remove_all :: "AdapterId \<Rightarrow> SubId list \<Rightarrow> State \<Rightarrow> State \<times> nat" where
  "remove_all a [] st = (st, 0)"
| "remove_all a (s # ss) st =
     (case remove_subscription st (SubscriberKey a s) of
        None \<Rightarrow> remove_all a ss st
      | Some st' \<Rightarrow> (let (st'', n) = remove_all a ss st' in (st'', Suc n)))"

definition drop_adapter_state :: "(SubId fset \<Rightarrow> SubId list) \<Rightarrow> State \<Rightarrow> AdapterId \<Rightarrow> State \<times> nat" where
  "drop_adapter_state order st a =
     (case fmlookup (by_adapter st) a of
        None \<Rightarrow> (st, 0)
      | Some sids \<Rightarrow> remove_all a (order sids) (st\<lparr>by_adapter := fmdrop a (by_adapter st)\<rparr>))"

definition target_keys :: "State \<Rightarrow> RouteKey \<Rightarrow> SubscriberKey fset" where
  "target_keys st r =
     or_default {||} (fmlookup (wildcards st) (topic r)) |\<union>|
     (case type_hint r of
        None \<Rightarrow> {||}
      | Some hint \<Rightarrow>
          (case fmlookup (exact st) (topic r) of
             None \<Rightarrow> {||}
           | Some by_hint \<Rightarrow> or_default {||} (fmlookup by_hint hint)))"

definition collect_targets ::
  "(SubscriberKey fset \<Rightarrow> SubscriberKey list) \<Rightarrow> State \<Rightarrow> RouteKey \<Rightarrow> (chan \<times> SubId) list" where
  "collect_targets order st r =
     List.map_filter
       (\<lambda>key. map_option (\<lambda>sub. (tx sub, sub_id key)) (fmlookup (by_key st) key))
       (order (target_keys st r))"

text \<open>What \<open>try_send\<close> answers (\<open>Ok\<close> or one of the two \<open>TrySendError\<close>s), and the loop over
  the targets: the channels afterwards and the two counts.\<close>

datatype try_send_result = SendOk | Full | Closed

fun fan_out ::
  "('w \<Rightarrow> chan \<Rightarrow> Delivery \<Rightarrow> try_send_result \<times> 'w) \<Rightarrow> Envelope \<Rightarrow> (chan \<times> SubId) list \<Rightarrow> 'w \<Rightarrow>
     'w \<times> nat \<times> nat" where
  "fan_out try_send e [] w = (w, 0, 0)"
| "fan_out try_send e ((c, s) # ts) w =
     (let (r, w') = try_send w c \<lparr>del_sub = s, del_envelope = e\<rparr>;
          (w'', ok, lost) = fan_out try_send e ts w'
      in case r of SendOk \<Rightarrow> (w'', Suc ok, lost) | Full \<Rightarrow> (w'', ok, Suc lost) | Closed \<Rightarrow> (w'', ok, Suc lost))"

definition publish ::
  "('w \<Rightarrow> chan \<Rightarrow> Delivery \<Rightarrow> try_send_result \<times> 'w) \<Rightarrow> (SubscriberKey fset \<Rightarrow> SubscriberKey list) \<Rightarrow>
     Engine \<Rightarrow> 'w \<Rightarrow> Envelope \<Rightarrow> Engine \<times> 'w \<times> PublishOutcome" where
  "publish try_send order eng w e =
     (let st0 = (stats eng)\<lparr>stat_published := stat_published (stats eng) + 1\<rparr>;
          targets = collect_targets order (engine_state eng) (route e);
          (w', ok, lost) = fan_out try_send e targets w;
          st1 = st0\<lparr>stat_delivered := stat_delivered st0 + of_nat ok,
                    stat_dropped := stat_dropped st0 + of_nat lost\<rparr>
      in (eng\<lparr>stats := st1\<rparr>, w', \<lparr>matched = length targets, delivered = ok, dropped = lost\<rparr>))"

definition subscribe ::
  "Engine \<Rightarrow> AdapterId \<Rightarrow> SubId \<Rightarrow> RouteKey \<Rightarrow> chan \<Rightarrow> EngineError + Engine \<times> SubscriberKey" where
  "subscribe eng a s r c =
     res_bind (subscribe_state (engine_state eng) a s r c)
       (\<lambda>(st, key). Inr (eng\<lparr>engine_state := st\<rparr>, key))"

definition unsubscribe :: "Engine \<Rightarrow> AdapterId \<Rightarrow> SubId \<Rightarrow> EngineError + Engine" where
  "unsubscribe eng a s =
     res_bind (unsubscribe_state (engine_state eng) a s) (\<lambda>st. Inr (eng\<lparr>engine_state := st\<rparr>))"

definition drop_adapter :: "(SubId fset \<Rightarrow> SubId list) \<Rightarrow> Engine \<Rightarrow> AdapterId \<Rightarrow> Engine \<times> nat" where
  "drop_adapter order eng a =
     (let (st, n) = drop_adapter_state order (engine_state eng) a in (eng\<lparr>engine_state := st\<rparr>, n))"

definition subscription_count :: "Engine \<Rightarrow> nat" where
  "subscription_count eng = fcard (fmdom (by_key (engine_state eng)))"

section \<open>Invariant and abstract specification\<close>

text \<open>The indexes as total functions, and what each must hold for a given table of
  subscriptions. \<open>no_empty\<close> says that no index keeps an entry with nothing in it.\<close>

definition wild_keys :: "State \<Rightarrow> string \<Rightarrow> SubscriberKey fset" where
  "wild_keys st t = or_default {||} (fmlookup (wildcards st) t)"

definition exact_keys :: "State \<Rightarrow> string \<Rightarrow> string \<Rightarrow> SubscriberKey fset" where
  "exact_keys st t h = or_default {||} (fmlookup (or_default fmempty (fmlookup (exact st) t)) h)"

definition adapter_subs :: "State \<Rightarrow> AdapterId \<Rightarrow> SubId fset" where
  "adapter_subs st a = or_default {||} (fmlookup (by_adapter st) a)"

definition routed :: "State \<Rightarrow> SubscriberKey \<Rightarrow> RouteKey \<Rightarrow> bool" where
  "routed st k r \<longleftrightarrow> (\<exists>sub. fmlookup (by_key st) k = Some sub \<and> sub_route sub = r)"

definition wild_ok :: "State \<Rightarrow> bool" where
  "wild_ok st \<longleftrightarrow> (\<forall>t k. k |\<in>| wild_keys st t \<longleftrightarrow> routed st k (route_topic t))"

definition exact_ok :: "State \<Rightarrow> bool" where
  "exact_ok st \<longleftrightarrow> (\<forall>t h k. k |\<in>| exact_keys st t h \<longleftrightarrow> routed st k (route_typed t h))"

definition adapter_ok :: "State \<Rightarrow> AdapterId \<Rightarrow> bool" where
  "adapter_ok st a \<longleftrightarrow>
     (\<forall>s. s |\<in>| adapter_subs st a \<longleftrightarrow> fmlookup (by_key st) (SubscriberKey a s) \<noteq> None)"

definition no_empty :: "State \<Rightarrow> bool" where
  "no_empty st \<longleftrightarrow>
     (\<forall>t. fmlookup (wildcards st) t \<noteq> Some {||}) \<and>
     (\<forall>a. fmlookup (by_adapter st) a \<noteq> Some {||}) \<and>
     (\<forall>t m. fmlookup (exact st) t = Some m \<longrightarrow> m \<noteq> fmempty \<and> (\<forall>h. fmlookup m h \<noteq> Some {||}))"

definition index_ok :: "State \<Rightarrow> bool" where
  "index_ok st \<longleftrightarrow> wild_ok st \<and> exact_ok st \<and> no_empty st"

definition engine_inv :: "State \<Rightarrow> bool" where
  "engine_inv st \<longleftrightarrow> index_ok st \<and> (\<forall>a. adapter_ok st a)"

text \<open>The abstract router is the bare table of subscriptions. A subscription matches a publish
  on the same topic when it is a wildcard or has the publish's hint.\<close>

type_synonym table = "(SubscriberKey, Subscription) fmap"

definition spec_matches :: "RouteKey \<Rightarrow> RouteKey \<Rightarrow> bool" where
  "spec_matches sub pub \<longleftrightarrow>
     topic sub = topic pub \<and> (type_hint sub = None \<or> type_hint sub = type_hint pub)"

definition spec_subscribe ::
  "table \<Rightarrow> AdapterId \<Rightarrow> SubId \<Rightarrow> RouteKey \<Rightarrow> chan \<Rightarrow> EngineError + table" where
  "spec_subscribe tb a s r c =
     (if SubscriberKey a s |\<in>| fmdom tb then Inl (DuplicateSub s)
      else Inr (fmupd (SubscriberKey a s) \<lparr>sub_route = r, tx = c\<rparr> tb))"

definition spec_unsubscribe :: "table \<Rightarrow> AdapterId \<Rightarrow> SubId \<Rightarrow> EngineError + table" where
  "spec_unsubscribe tb a s =
     (if SubscriberKey a s |\<in>| fmdom tb then Inr (fmdrop (SubscriberKey a s) tb) else Inl (UnknownSub s))"

definition spec_drop_adapter :: "table \<Rightarrow> AdapterId \<Rightarrow> table" where
  "spec_drop_adapter tb a = fmfilter (\<lambda>k. adapter_id k \<noteq> a) tb"

definition spec_targets :: "table \<Rightarrow> RouteKey \<Rightarrow> SubscriberKey fset" where
  "spec_targets tb r =
     fmdom (fmfilter (\<lambda>k. case fmlookup tb k of None \<Rightarrow> False | Some sub \<Rightarrow> spec_matches (sub_route sub) r) tb)"

text \<open>The subscriptions of a publish that send to channel \<open>b\<close>, in iteration order, and the room
  a channel has.\<close>

definition spec_share ::
  "(SubscriberKey fset \<Rightarrow> SubscriberKey list) \<Rightarrow> table \<Rightarrow> RouteKey \<Rightarrow> chan \<Rightarrow> SubscriberKey list" where
  "spec_share order tb r b = filter (\<lambda>k. tx (the (fmlookup tb k)) = b) (order (spec_targets tb r))"

definition chan_room ::
  "('w \<Rightarrow> chan \<Rightarrow> 'd list) \<Rightarrow> ('w \<Rightarrow> chan \<Rightarrow> nat) \<Rightarrow> ('w \<Rightarrow> chan \<Rightarrow> bool) \<Rightarrow> 'w \<Rightarrow> chan \<Rightarrow> nat" where
  "chan_room queue capacity closed w b = (if closed w b then 0 else capacity w b - length (queue w b))"

definition hash_order :: "('a fset \<Rightarrow> 'a list) \<Rightarrow> bool" where
  "hash_order order \<longleftrightarrow> (\<forall>S. fset_of_list (order S) = S \<and> distinct (order S))"

section \<open>Index lemmas\<close>

lemma or_default_simps [simp]: "or_default d None = d" "or_default d (Some x) = x"
  by (simp_all add: or_default_def)

lemma insert_index_views [simp]:
  "by_key (insert_index st k r) = by_key st"
  "by_adapter (insert_index st k r) = by_adapter st"
  "adapter_subs (insert_index st k r) a = adapter_subs st a"
  "wild_keys (insert_index st k r) t =
     (if r = route_topic t then finsert k (wild_keys st t) else wild_keys st t)"
  "exact_keys (insert_index st k r) t h =
     (if r = route_typed t h then finsert k (exact_keys st t h) else exact_keys st t h)"
  by (auto simp: insert_index_def adapter_subs_def wild_keys_def exact_keys_def route_eq_iff Let_def
      split: option.splits)

lemma unindex_adapter_views [simp]:
  "by_key (unindex_adapter st k) = by_key st"
  "exact (unindex_adapter st k) = exact st"
  "wildcards (unindex_adapter st k) = wildcards st"
  "adapter_subs (unindex_adapter st k) a =
     (if a = adapter_id k then adapter_subs st a |-| {|sub_id k|} else adapter_subs st a)"
  by (auto simp: unindex_adapter_def adapter_subs_def Let_def split: option.splits)

lemma unindex_wildcard_views [simp]:
  "by_key (unindex_wildcard st k t) = by_key st"
  "by_adapter (unindex_wildcard st k t) = by_adapter st"
  "exact (unindex_wildcard st k t) = exact st"
  "wild_keys (unindex_wildcard st k t) u =
     (if u = t then wild_keys st u |-| {|k|} else wild_keys st u)"
  by (auto simp: unindex_wildcard_def wild_keys_def Let_def split: option.splits)

lemma unindex_exact_views [simp]:
  "by_key (unindex_exact st k t h) = by_key st"
  "by_adapter (unindex_exact st k t h) = by_adapter st"
  "wildcards (unindex_exact st k t h) = wildcards st"
  by (auto simp: unindex_exact_def Let_def split: option.splits)

lemma exact_keys_unindex_exact [simp]:
  "exact_keys (unindex_exact st k t h) u g =
     (if u = t \<and> g = h then exact_keys st u g |-| {|k|} else exact_keys st u g)"
proof (cases "fmlookup (exact st) t")
  case None
  then show ?thesis by (simp add: unindex_exact_def exact_keys_def)
next
  case (Some m)
  define m' where "m' = (case fmlookup m h of None \<Rightarrow> m
     | Some keys \<Rightarrow> (let keys' = keys |-| {|k|} in if keys' = {||} then fmdrop h m else fmupd h keys' m))"
  have st': "unindex_exact st k t h =
      (if m' = fmempty then st\<lparr>exact := fmdrop t (exact st)\<rparr> else st\<lparr>exact := fmupd t m' (exact st)\<rparr>)"
    unfolding unindex_exact_def Some option.case m'_def [symmetric] by (simp only: Let_def)
  have entry: "or_default fmempty (fmlookup (exact (unindex_exact st k t h)) u) =
      (if u = t then m' else or_default fmempty (fmlookup (exact st) u))"
    by (simp add: st')
  have look: "or_default {||} (fmlookup m' g) =
      (if g = h then or_default {||} (fmlookup m g) |-| {|k|} else or_default {||} (fmlookup m g))" for g
    by (auto simp: m'_def Let_def split: option.split)
  show ?thesis
    using Some by (simp add: exact_keys_def entry look)
qed

lemma view_congs:
  "wildcards st = wildcards st' \<Longrightarrow> wild_keys st t = wild_keys st' t"
  "exact st = exact st' \<Longrightarrow> exact_keys st t h = exact_keys st' t h"
  "by_adapter st = by_adapter st' \<Longrightarrow> adapter_subs st a = adapter_subs st' a"
  by (simp_all add: wild_keys_def exact_keys_def adapter_subs_def)

lemma view_frames [simp]:
  "wild_keys (st\<lparr>by_key := b\<rparr>) t = wild_keys st t" "wild_keys (st\<lparr>by_adapter := ba\<rparr>) t = wild_keys st t"
  "exact_keys (st\<lparr>by_key := b\<rparr>) t h = exact_keys st t h"
  "exact_keys (st\<lparr>by_adapter := ba\<rparr>) t h = exact_keys st t h"
  "adapter_subs (st\<lparr>by_key := b\<rparr>) a = adapter_subs st a"
  "wild_keys (unindex_adapter st k) t = wild_keys st t"
  "exact_keys (unindex_adapter st k) t h = exact_keys st t h"
  "exact_keys (unindex_wildcard st k u) t h = exact_keys st t h"
  "wild_keys (unindex_exact st k u g) t = wild_keys st t"
  "adapter_subs (unindex_wildcard st k u) a = adapter_subs st a"
  "adapter_subs (unindex_exact st k u g) a = adapter_subs st a"
  by (rule view_congs; simp)+

text \<open>What removal does, on every index at once.\<close>

lemma remove_subscription_None: "remove_subscription st k = None \<longleftrightarrow> fmlookup (by_key st) k = None"
  by (simp add: remove_subscription_def Let_def split: option.splits)

lemma remove_subscription_effect:
  assumes "remove_subscription st k = Some st'"
  shows "\<exists>sub. fmlookup (by_key st) k = Some sub \<and> by_key st' = fmdrop k (by_key st) \<and>
    (\<forall>a. adapter_subs st' a = (if a = adapter_id k then adapter_subs st a |-| {|sub_id k|} else adapter_subs st a)) \<and>
    (\<forall>t. wild_keys st' t = (if sub_route sub = route_topic t then wild_keys st t |-| {|k|} else wild_keys st t)) \<and>
    (\<forall>t h. exact_keys st' t h = (if sub_route sub = route_typed t h then exact_keys st t h |-| {|k|} else exact_keys st t h))"
proof -
  obtain sub where sub: "fmlookup (by_key st) k = Some sub"
    using assms by (auto simp: remove_subscription_def split: option.splits)
  define mid where "mid = unindex_adapter (st\<lparr>by_key := fmdrop k (by_key st)\<rparr>) k"
  have "st' = (case type_hint (sub_route sub) of
      Some h \<Rightarrow> unindex_exact mid k (topic (sub_route sub)) h
    | None \<Rightarrow> unindex_wildcard mid k (topic (sub_route sub)))"
    using assms sub unfolding remove_subscription_def mid_def Let_def by simp
  then show ?thesis
    by (intro exI [of _ sub]) (auto simp: sub mid_def route_eq_iff split: option.splits)
qed

lemma remove_subscription_by_key: "remove_subscription st k = Some st' \<Longrightarrow> by_key st' = fmdrop k (by_key st)"
  using remove_subscription_effect by blast

lemma remove_subscription_adapters:
  "remove_subscription st k = Some st' \<Longrightarrow> adapter_subs st' a =
     (if a = adapter_id k then adapter_subs st a |-| {|sub_id k|} else adapter_subs st a)"
  using remove_subscription_effect by blast

lemma SubscriberKey_eq_iff:
  "k = SubscriberKey a s \<longleftrightarrow> adapter_id k = a \<and> sub_id k = s"
  "SubscriberKey a s = k \<longleftrightarrow> adapter_id k = a \<and> sub_id k = s"
  by (cases k; auto)+

text \<open>No index keeps an empty entry.\<close>

lemma no_emptyI:
  assumes "\<And>t. fmlookup (wildcards st) t \<noteq> Some {||}" and "\<And>a. fmlookup (by_adapter st) a \<noteq> Some {||}"
    and "\<And>t m. fmlookup (exact st) t = Some m \<Longrightarrow> m \<noteq> fmempty \<and> (\<forall>h. fmlookup m h \<noteq> Some {||})"
  shows "no_empty st"
  using assms by (auto simp: no_empty_def)

lemma no_empty_insert_index: "no_empty st \<Longrightarrow> no_empty (insert_index st k r)"
  by (cases "type_hint r"; cases "fmlookup (exact st) (topic r)")
    (auto simp: insert_index_def no_empty_def Let_def split: if_splits)

lemma no_empty_unindex_adapter: "no_empty st \<Longrightarrow> no_empty (unindex_adapter st k)"
  by (auto simp: unindex_adapter_def no_empty_def Let_def split: option.splits)

lemma no_empty_unindex_wildcard: "no_empty st \<Longrightarrow> no_empty (unindex_wildcard st k t)"
  by (auto simp: unindex_wildcard_def no_empty_def Let_def split: option.splits)

lemma no_empty_unindex_exact:
  assumes "no_empty st"
  shows "no_empty (unindex_exact st k t h)"
proof (cases "fmlookup (exact st) t")
  case None
  then show ?thesis using assms by (simp add: unindex_exact_def)
next
  case (Some m)
  have "\<forall>g. fmlookup m g \<noteq> Some {||}"
    using assms Some by (auto simp: no_empty_def)
  then show ?thesis
    using assms Some
    by (auto simp: unindex_exact_def no_empty_def Let_def split: option.splits if_splits)
qed

lemma no_empty_frames [simp]:
  "no_empty (st\<lparr>by_key := b\<rparr>) = no_empty st"
  "no_empty st \<Longrightarrow> no_empty (st\<lparr>by_adapter := fmdrop a (by_adapter st)\<rparr>)"
  "no_empty st \<Longrightarrow> S \<noteq> {||} \<Longrightarrow> no_empty (st\<lparr>by_adapter := fmupd a S (by_adapter st)\<rparr>)"
  by (auto simp: no_empty_def)

lemmas no_empty_intros = no_empty_insert_index no_empty_unindex_adapter no_empty_unindex_wildcard
  no_empty_unindex_exact

lemma no_empty_remove: "remove_subscription st k = Some st' \<Longrightarrow> no_empty st \<Longrightarrow> no_empty st'"
  by (auto simp: remove_subscription_def Let_def no_empty_intros split: option.splits)

section \<open>Preservation\<close>

lemma engine_inv_empty: "engine_inv empty_state"
  by (simp add: engine_inv_def index_ok_def wild_ok_def exact_ok_def adapter_ok_def no_empty_def
      wild_keys_def exact_keys_def adapter_subs_def routed_def empty_state_def)

lemma subscribe_state_Inr:
  "subscribe_state st a s r c = Inr (st', key) \<longleftrightarrow>
     fmlookup (by_key st) (SubscriberKey a s) = None \<and> key = SubscriberKey a s \<and>
     st' = (insert_index st key r)
       \<lparr>by_adapter := fmupd a (finsert s (adapter_subs st a)) (by_adapter st),
        by_key := fmupd key \<lparr>sub_route = r, tx = c\<rparr> (by_key st)\<rparr>"
  by (auto simp: subscribe_state_def Let_def adapter_subs_def)

lemma routed_fmupd:
  "fmlookup (by_key st) k = None \<Longrightarrow> by_key st' = fmupd k \<lparr>sub_route = r, tx = c\<rparr> (by_key st) \<Longrightarrow>
   routed st' j q \<longleftrightarrow> (if j = k then q = r else routed st j q)"
  by (auto simp: routed_def)

lemma index_ok_subscribe:
  assumes "subscribe_state st a s r c = Inr (st', key)" and "index_ok st"
  shows "index_ok st'"
proof -
  note st' = assms(1) [unfolded subscribe_state_Inr]
  have fresh: "fmlookup (by_key st) key = None" and by_key': "by_key st' = fmupd key \<lparr>sub_route = r, tx = c\<rparr> (by_key st)"
    and wild: "\<And>t. wild_keys st' t = wild_keys (insert_index st key r) t"
    and ex: "\<And>t h. exact_keys st' t h = exact_keys (insert_index st key r) t h"
    using st' by auto
  note routed' = routed_fmupd [OF fresh by_key']
  have notin: "\<not> routed st key q" for q
    using fresh by (simp add: routed_def)
  have "wild_ok st'"
    using assms(2) notin by (auto simp: index_ok_def wild_ok_def routed' wild)
  moreover have "exact_ok st'"
    using assms(2) notin by (auto simp: index_ok_def exact_ok_def routed' ex)
  moreover have "no_empty st'"
  proof -
    have "no_empty (insert_index st key r)"
      using assms(2) by (simp add: index_ok_def no_empty_insert_index)
    then have "no_empty ((insert_index st key r)\<lparr>by_adapter := fmupd a (finsert s (adapter_subs st a)) (by_adapter (insert_index st key r))\<rparr>)"
      by (rule no_empty_frames(3)) simp
    then show ?thesis using st' by simp
  qed
  ultimately show ?thesis by (simp add: index_ok_def)
qed

lemma adapter_subs_update [simp]:
  "adapter_subs (st\<lparr>by_adapter := fmupd a S (by_adapter st')\<rparr>) b = (if b = a then S else adapter_subs st' b)"
  "adapter_subs (st\<lparr>by_adapter := fmdrop a (by_adapter st')\<rparr>) b = (if b = a then {||} else adapter_subs st' b)"
  by (simp_all add: adapter_subs_def)

lemma engine_inv_subscribe:
  assumes "subscribe_state st a s r c = Inr (st', key)" and "engine_inv st"
  shows "engine_inv st'"
proof -
  have "adapter_ok st' b" for b
  proof -
    have "adapter_ok st b" "adapter_ok st a"
      using assms(2) by (simp_all add: engine_inv_def)
    then show ?thesis
      using assms(1) by (auto simp: subscribe_state_Inr adapter_ok_def)
  qed
  then show ?thesis
    using assms index_ok_subscribe by (simp add: engine_inv_def)
qed

lemma index_ok_remove:
  assumes "remove_subscription st k = Some st'" and "index_ok st"
  shows "index_ok st'"
proof -
  obtain sub where sub: "fmlookup (by_key st) k = Some sub" and bk: "by_key st' = fmdrop k (by_key st)"
    and wild: "\<forall>t. wild_keys st' t = (if sub_route sub = route_topic t then wild_keys st t |-| {|k|} else wild_keys st t)"
    and ex: "\<forall>t h. exact_keys st' t h = (if sub_route sub = route_typed t h then exact_keys st t h |-| {|k|} else exact_keys st t h)"
    using remove_subscription_effect [OF assms(1)] by blast
  have routed': "routed st' j q \<longleftrightarrow> j \<noteq> k \<and> routed st j q" for j q
    by (auto simp: routed_def bk)
  have only: "routed st k q \<longleftrightarrow> q = sub_route sub" for q
    using sub by (auto simp: routed_def)
  have "wild_ok st'" "exact_ok st'"
    using assms(2) only by (auto simp: index_ok_def wild_ok_def exact_ok_def routed' wild ex)
  moreover have "no_empty st'"
    using assms no_empty_remove by (simp add: index_ok_def)
  ultimately show ?thesis by (simp add: index_ok_def)
qed

lemma adapter_ok_remove:
  assumes "remove_subscription st k = Some st'" and "adapter_ok st a"
  shows "adapter_ok st' a"
  using assms(2) remove_subscription_by_key [OF assms(1)] remove_subscription_adapters [OF assms(1)]
  by (auto simp: adapter_ok_def SubscriberKey_eq_iff)

lemma engine_inv_remove: "remove_subscription st k = Some st' \<Longrightarrow> engine_inv st \<Longrightarrow> engine_inv st'"
  by (auto simp: engine_inv_def intro: index_ok_remove adapter_ok_remove)

lemma engine_inv_unsubscribe: "unsubscribe_state st a s = Inr st' \<Longrightarrow> engine_inv st \<Longrightarrow> engine_inv st'"
  by (auto simp: unsubscribe_state_def ok_or_Inr intro: engine_inv_remove)

text \<open>The loop of \<open>drop_adapter\<close> removes exactly the keys it is given, and counts them.\<close>

lemma remove_all_Some [simp]:
  "remove_subscription st (SubscriberKey a s) = Some st' \<Longrightarrow>
   remove_all a (s # ss) st = (fst (remove_all a ss st'), Suc (snd (remove_all a ss st')))"
  by (simp add: case_prod_unfold Let_def)

lemma remove_all_index: "index_ok st \<Longrightarrow> index_ok (fst (remove_all a ss st))"
proof (induction a ss st rule: remove_all.induct)
  case (2 a s ss st)
  show ?case
  proof (cases "remove_subscription st (SubscriberKey a s)")
    case None
    then show ?thesis using 2 by simp
  next
    case (Some st')
    have "index_ok st'" using Some "2.prems" by (rule index_ok_remove)
    then have "index_ok (fst (remove_all a ss st'))" by (rule "2.IH"(2) [OF Some])
    then show ?thesis using Some by (simp del: remove_all.simps)
  qed
qed simp

lemma remove_all_adapters_other:
  "b \<noteq> a \<Longrightarrow> adapter_subs (fst (remove_all a ss st)) b = adapter_subs st b"
proof (induction ss arbitrary: st)
  case (Cons s ss)
  show ?case
  proof (cases "remove_subscription st (SubscriberKey a s)")
    case None
    then show ?thesis using Cons by simp
  next
    case (Some st')
    have "adapter_subs st' b = adapter_subs st b"
      using remove_subscription_adapters [OF Some, of b] Cons.prems by simp
    then show ?thesis using Cons.IH [OF Cons.prems, of st'] Some by (simp del: remove_all.simps)
  qed
qed simp

lemma remove_all_adapters_own: "adapter_subs st a = {||} \<Longrightarrow> adapter_subs (fst (remove_all a ss st)) a = {||}"
proof (induction ss arbitrary: st)
  case (Cons s ss)
  show ?case
  proof (cases "remove_subscription st (SubscriberKey a s)")
    case None
    then show ?thesis using Cons by simp
  next
    case (Some st')
    have "adapter_subs st' a = {||}"
      using remove_subscription_adapters [OF Some, of a] Cons.prems by simp
    then show ?thesis using Cons.IH [of st'] Some by (simp del: remove_all.simps)
  qed
qed simp

lemma remove_all_by_key:
  "by_key (fst (remove_all a ss st)) = fmfilter (\<lambda>k. \<not> (adapter_id k = a \<and> sub_id k \<in> set ss)) (by_key st)"
proof (induction a ss st rule: remove_all.induct)
  case (1 a st)
  then show ?case by (simp add: fmfilter_true)
next
  case (2 a s ss st)
  show ?case
  proof (cases "remove_subscription st (SubscriberKey a s)")
    case None
    then have "fmlookup (by_key st) (SubscriberKey a s) = None"
      by (simp add: remove_subscription_None)
    then have "fmlookup (by_key st) k = None" if "adapter_id k = a" "sub_id k = s" for k
      using that by (metis SubscriberKey.collapse)
    then show ?thesis
      using None "2.IH"(1) by (auto intro!: fmap_ext)
  next
    case (Some st')
    show ?thesis
      using "2.IH"(2) [OF Some] remove_subscription_by_key [OF Some] Some
      by (auto simp del: remove_all.simps simp: SubscriberKey_eq_iff intro!: fmap_ext)
  qed
qed

lemma remove_all_count:
  "distinct ss \<Longrightarrow> (\<And>s. s \<in> set ss \<Longrightarrow> fmlookup (by_key st) (SubscriberKey a s) \<noteq> None) \<Longrightarrow>
   snd (remove_all a ss st) = length ss"
proof (induction ss arbitrary: st)
  case (Cons s ss)
  then obtain st' where st': "remove_subscription st (SubscriberKey a s) = Some st'"
    by (metis list.set_intros(1) not_None_eq remove_subscription_None)
  then have bk: "by_key st' = fmdrop (SubscriberKey a s) (by_key st)"
    by (rule remove_subscription_by_key)
  have "snd (remove_all a ss st') = length ss"
    using Cons.prems by (intro Cons.IH) (auto simp: bk)
  then show ?case using st' by (simp del: remove_all.simps)
qed simp

lemma engine_inv_subs:
  "engine_inv st \<Longrightarrow> s |\<in>| adapter_subs st a \<longleftrightarrow> fmlookup (by_key st) (SubscriberKey a s) \<noteq> None"
  unfolding engine_inv_def adapter_ok_def by blast

lemma drop_adapter_state_by_key:
  assumes "engine_inv st" "hash_order order"
  shows "by_key (fst (drop_adapter_state order st a)) = spec_drop_adapter (by_key st) a"
proof (cases "fmlookup (by_adapter st) a")
  case None
  then have "adapter_subs st a = {||}"
    by (simp add: adapter_subs_def)
  then have "fmlookup (by_key st) (SubscriberKey a s) = None" for s
    using assms(1) by (auto simp: engine_inv_def adapter_ok_def)
  then have "adapter_id k \<noteq> a" if "fmlookup (by_key st) k \<noteq> None" for k
    using that by (cases k) auto
  then show ?thesis
    using None by (auto simp: drop_adapter_state_def spec_drop_adapter_def intro!: fmap_ext)
next
  case (Some sids)
  have "set (order sids) = fset sids"
    using assms(2) by (metis fset_of_list.rep_eq hash_order_def)
  moreover have "s |\<in>| sids \<longleftrightarrow> fmlookup (by_key st) (SubscriberKey a s) \<noteq> None" for s
    using engine_inv_subs [OF assms(1), of s a] Some by (simp add: adapter_subs_def)
  then have "sub_id k |\<in>| sids" if "adapter_id k = a" "fmlookup (by_key st) k \<noteq> None" for k
    using that by (cases k) auto
  ultimately show ?thesis
    using Some by (auto simp: drop_adapter_state_def spec_drop_adapter_def remove_all_by_key intro!: fmap_ext) fastforce
qed

lemma engine_inv_drop_adapter:
  assumes "engine_inv st" "hash_order order"
  shows "engine_inv (fst (drop_adapter_state order st a))"
proof (cases "fmlookup (by_adapter st) a")
  case None
  then show ?thesis using assms by (simp add: drop_adapter_state_def)
next
  case (Some sids)
  let ?st = "st\<lparr>by_adapter := fmdrop a (by_adapter st)\<rparr>"
  let ?st' = "fst (remove_all a (order sids) ?st)"
  have st': "fst (drop_adapter_state order st a) = ?st'"
    using Some by (simp add: drop_adapter_state_def)
  have "index_ok ?st"
    using assms(1) by (auto simp: engine_inv_def index_ok_def wild_ok_def exact_ok_def routed_def)
  then have "index_ok ?st'" by (rule remove_all_index)
  moreover have "adapter_ok ?st' b" for b
  proof (cases "b = a")
    case True
    have "adapter_subs ?st' a = {||}"
      by (rule remove_all_adapters_own) simp
    moreover have "fmlookup (by_key ?st') (SubscriberKey a s) = None" for s
      using drop_adapter_state_by_key [OF assms, of a] by (simp add: st' spec_drop_adapter_def)
    ultimately show ?thesis using True by (simp add: adapter_ok_def)
  next
    case False
    have "by_key ?st' = spec_drop_adapter (by_key st) a"
      using drop_adapter_state_by_key [OF assms, of a] by (simp add: st')
    then show ?thesis
      using assms(1) False remove_all_adapters_other [OF False, of "order sids" ?st]
      by (simp add: engine_inv_def adapter_ok_def spec_drop_adapter_def)
  qed
  ultimately show ?thesis by (simp add: st' engine_inv_def)
qed

lemma drop_adapter_state_count:
  assumes "engine_inv st" "hash_order order"
  shows "snd (drop_adapter_state order st a) = fcard (ffilter (\<lambda>k. adapter_id k = a) (fmdom (by_key st)))"
proof -
  have subs: "s |\<in>| adapter_subs st a \<longleftrightarrow> SubscriberKey a s |\<in>| fmdom (by_key st)" for s
    using assms(1) by (auto simp: engine_inv_def adapter_ok_def fmlookup_dom_iff)
  have img: "ffilter (\<lambda>k. adapter_id k = a) (fmdom (by_key st)) = SubscriberKey a |`| adapter_subs st a"
    by (auto simp: subs image_iff) (metis SubscriberKey.collapse subs)
  have inj: "inj (SubscriberKey a)" by (simp add: inj_def)
  then have card: "fcard (SubscriberKey a |`| adapter_subs st a) = fcard (adapter_subs st a)"
    by (simp add: fcard.rep_eq card_image inj_on_subset)
  show ?thesis
  proof (cases "fmlookup (by_adapter st) a")
    case None
    then show ?thesis using img card by (simp add: drop_adapter_state_def adapter_subs_def)
  next
    case (Some sids)
    have ord: "distinct (order sids)" "set (order sids) = fset sids"
      using assms(2) by (auto simp: hash_order_def) (metis fset_of_list.rep_eq)+
    have "snd (remove_all a (order sids) (st\<lparr>by_adapter := fmdrop a (by_adapter st)\<rparr>)) = length (order sids)"
      using ord subs Some by (intro remove_all_count) (auto simp: adapter_subs_def fmlookup_dom_iff)
    moreover have "length (order sids) = fcard sids"
      using ord by (metis distinct_card fcard.rep_eq)
    ultimately show ?thesis
      using Some img card by (simp add: drop_adapter_state_def adapter_subs_def)
  qed
qed

section \<open>Targets\<close>

lemma target_keys_spec:
  assumes "engine_inv st"
  shows "target_keys st r = spec_targets (by_key st) r"
proof -
  have "target_keys st r = wild_keys st (topic r) |\<union>|
      (case type_hint r of None \<Rightarrow> {||} | Some h \<Rightarrow> exact_keys st (topic r) h)"
    by (auto simp: target_keys_def wild_keys_def exact_keys_def split: option.splits)
  moreover have "k |\<in>| wild_keys st t \<longleftrightarrow> routed st k (route_topic t)"
    "k |\<in>| exact_keys st t h \<longleftrightarrow> routed st k (route_typed t h)" for k t h
    using assms by (simp_all add: engine_inv_def index_ok_def wild_ok_def exact_ok_def)
  ultimately show ?thesis
    by (auto simp: spec_targets_def spec_matches_def routed_def route_eq_iff fmlookup_dom_iff
        split: option.splits if_splits)
qed

lemma collect_targets_spec:
  assumes "engine_inv st" and "hash_order order"
  shows "collect_targets order st r =
    map (\<lambda>k. (tx (the (fmlookup (by_key st) k)), sub_id k)) (order (spec_targets (by_key st) r))"
proof -
  let ?ks = "order (spec_targets (by_key st) r)"
  have "set ?ks = fset (spec_targets (by_key st) r)"
    using assms(2) by (metis fset_of_list.rep_eq hash_order_def)
  then have "\<forall>k \<in> set ?ks. fmlookup (by_key st) k \<noteq> None"
    by (auto simp: spec_targets_def fmlookup_dom_iff split: if_splits)
  then have "List.map_filter (\<lambda>key. map_option (\<lambda>sub. (tx sub, sub_id key)) (fmlookup (by_key st) key)) ?ks =
      map (\<lambda>k. (tx (the (fmlookup (by_key st) k)), sub_id k)) ?ks"
    by (induction ?ks) (auto simp: List.map_filter_def)
  then show ?thesis
    by (simp add: collect_targets_def target_keys_spec [OF assms(1)])
qed

section \<open>Bounded channels\<close>

text \<open>What the engine relies on of \<open>tokio::sync::mpsc\<close>: a send to a channel whose receiver is
  gone fails, a send to a full one fails, any other appends, and no send touches another channel.\<close>

locale mpsc =
  fixes try_send :: "'w \<Rightarrow> chan \<Rightarrow> 'd \<Rightarrow> try_send_result \<times> 'w"
    and queue :: "'w \<Rightarrow> chan \<Rightarrow> 'd list"
    and capacity :: "'w \<Rightarrow> chan \<Rightarrow> nat"
    and closed :: "'w \<Rightarrow> chan \<Rightarrow> bool"
  assumes send_result: "fst (try_send w c d) =
      (if closed w c then Closed else if capacity w c \<le> length (queue w c) then Full else SendOk)"
    and send_queue: "queue (snd (try_send w c d)) b =
      (if b = c \<and> fst (try_send w c d) = SendOk then queue w c @ [d] else queue w b)"
    and send_capacity: "capacity (snd (try_send w c d)) = capacity w"
    and send_closed: "closed (snd (try_send w c d)) = closed w"
begin

abbreviation room :: "'w \<Rightarrow> chan \<Rightarrow> nat" where
  "room \<equiv> chan_room queue capacity closed"

lemma room_send: "room (snd (try_send w c d)) b = (if b = c then room w b - 1 else room w b)"
  by (auto simp: chan_room_def send_queue send_capacity send_closed send_result)

lemma send_iff_room: "fst (try_send w c d) = SendOk \<longleftrightarrow> 0 < room w c"
  by (auto simp: chan_room_def send_result)

end

text \<open>The fan-out of one publish, over any such channels.\<close>

locale delivery_channels = mpsc try_send queue capacity closed
  for try_send :: "'w \<Rightarrow> chan \<Rightarrow> Delivery \<Rightarrow> try_send_result \<times> 'w" and queue capacity closed
begin

lemma fan_out_counts: "fan_out try_send e ts w = (w', ok, lost) \<Longrightarrow> ok + lost = length ts"
  by (induction try_send e ts w arbitrary: w' ok lost rule: fan_out.induct)
    (auto simp: Let_def split: prod.splits try_send_result.splits)

lemma fan_out_queue:
  "queue (fst (fan_out try_send e ts w)) b =
     queue w b @ map (\<lambda>(c, s). \<lparr>del_sub = s, del_envelope = e\<rparr>) (take (room w b) (filter (\<lambda>(c, s). c = b) ts))"
proof (induction ts arbitrary: w)
  case (Cons t ts)
  obtain c s where t: "t = (c, s)" by (cases t)
  let ?d = "\<lparr>del_sub = s, del_envelope = e\<rparr>"
  let ?w = "snd (try_send w c ?d)"
  have step: "fst (fan_out try_send e (t # ts) w) = fst (fan_out try_send e ts ?w)"
    by (simp add: t Let_def case_prod_unfold split: try_send_result.split)
  show ?case
  proof (cases "b = c \<and> 0 < room w c")
    case True
    then obtain n where n: "room w b = Suc n" by (auto simp: gr0_conv_Suc)
    have "queue ?w b = queue w b @ [?d]" "room ?w b = n"
      using True n by (simp_all add: send_queue send_iff_room room_send)
    then show ?thesis using True n unfolding step Cons.IH by (simp add: t)
  next
    case False
    then have "queue ?w b = queue w b" "room ?w b = room w b"
      by (auto simp: send_queue send_iff_room room_send)
    then show ?thesis using False unfolding step Cons.IH by (auto simp: t)
  qed
qed simp

lemma fan_out_room: "room (fst (fan_out try_send e ts w)) b = room w b - length (filter (\<lambda>(c, s). c = b) ts)"
proof (induction ts arbitrary: w)
  case (Cons t ts)
  obtain c s where t: "t = (c, s)" by (cases t)
  have "fst (fan_out try_send e (t # ts) w) = fst (fan_out try_send e ts (snd (try_send w c \<lparr>del_sub = s, del_envelope = e\<rparr>)))"
    by (simp add: t Let_def case_prod_unfold split: try_send_result.split)
  then show ?case by (simp add: Cons.IH room_send t)
qed simp

lemma fan_out_lossless:
  assumes "fan_out try_send e ts w = (w', ok, lost)"
  shows "lost = 0 \<longleftrightarrow> (\<forall>b. length (filter (\<lambda>(c, s). c = b) ts) \<le> room w b)"
  using assms
proof (induction ts arbitrary: w w' ok lost)
  case (Cons t ts)
  obtain c s where t: "t = (c, s)" by (cases t)
  define ww where "ww = snd (try_send w c \<lparr>del_sub = s, del_envelope = e\<rparr>)"
  obtain w2 ok2 lost2 where rest: "fan_out try_send e ts ww = (w2, ok2, lost2)"
    by (cases "fan_out try_send e ts ww")
  let ?n = "\<lambda>b. length (filter (\<lambda>(c, s). c = b) ts)"
  have IH: "lost2 = 0 \<longleftrightarrow> (\<forall>b. ?n b \<le> room ww b)"
    using Cons.IH [OF rest] .
  have lost: "lost = (if 0 < room w c then lost2 else Suc lost2)"
    using Cons.prems rest send_iff_room [of w c "\<lparr>del_sub = s, del_envelope = e\<rparr>"]
    by (auto simp: t ww_def Let_def case_prod_unfold split: try_send_result.splits)
  have count: "length (filter (\<lambda>(c, s). c = b) (t # ts)) = (if b = c then Suc (?n b) else ?n b)" for b
    by (simp add: t)
  have room': "room ww b = (if b = c then room w b - 1 else room w b)" for b
    by (simp add: ww_def room_send)
  show ?case
  proof (cases "0 < room w c")
    case True
    then have "(?n b \<le> room ww b) \<longleftrightarrow> length (filter (\<lambda>(c, s). c = b) (t # ts)) \<le> room w b" for b
      unfolding count room' by auto
    then show ?thesis using True IH lost by simp
  next
    case False
    then have "\<not> length (filter (\<lambda>(b, s). b = c) (t # ts)) \<le> room w c"
      by (simp add: t)
    then show ?thesis using False lost by (metis nat.distinct(1))
  qed
qed simp

end

text \<open>A reference channel: capacity, whether the receiver is gone, and the queued messages.\<close>

type_synonym 'd bq = "chan \<Rightarrow> nat \<times> bool \<times> 'd list"

definition bq_queue :: "'d bq \<Rightarrow> chan \<Rightarrow> 'd list" where "bq_queue w c = snd (snd (w c))"
definition bq_capacity :: "'d bq \<Rightarrow> chan \<Rightarrow> nat" where "bq_capacity w c = fst (w c)"
definition bq_closed :: "'d bq \<Rightarrow> chan \<Rightarrow> bool" where "bq_closed w c = fst (snd (w c))"

definition bq_send :: "'d bq \<Rightarrow> chan \<Rightarrow> 'd \<Rightarrow> try_send_result \<times> 'd bq" where
  "bq_send w c d =
     (if bq_closed w c then (Closed, w)
      else if bq_capacity w c \<le> length (bq_queue w c) then (Full, w)
      else (SendOk, w(c := (bq_capacity w c, False, bq_queue w c @ [d]))))"

lemma mpsc_bq: "mpsc bq_send bq_queue bq_capacity bq_closed"
  by unfold_locales
    (auto simp: bq_send_def bq_queue_def bq_capacity_def bq_closed_def fun_eq_iff)

interpretation bq: delivery_channels bq_send bq_queue bq_capacity bq_closed
  by (rule delivery_channels.intro [OF mpsc_bq])

section \<open>The engine as a router\<close>

text \<open>What the adapters rely on of the engine, over the table of subscriptions it stands for.\<close>

locale router =
  fixes tbl :: "'e \<Rightarrow> table"
    and inv :: "'e \<Rightarrow> bool"
    and sub :: "'e \<Rightarrow> AdapterId \<Rightarrow> SubId \<Rightarrow> RouteKey \<Rightarrow> chan \<Rightarrow> EngineError + 'e \<times> SubscriberKey"
    and unsub :: "'e \<Rightarrow> AdapterId \<Rightarrow> SubId \<Rightarrow> EngineError + 'e"
    and dropa :: "(SubId fset \<Rightarrow> SubId list) \<Rightarrow> 'e \<Rightarrow> AdapterId \<Rightarrow> 'e \<times> nat"
  assumes sub_table: "map_err id (res_bind (sub e a s r c) (\<lambda>(e', k). Inr (tbl e'))) = spec_subscribe (tbl e) a s r c"
    and sub_key: "sub e a s r c = Inr (e', k) \<Longrightarrow> k = SubscriberKey a s"
    and sub_inv: "inv e \<Longrightarrow> sub e a s r c = Inr (e', k) \<Longrightarrow> inv e'"
    and unsub_table: "res_bind (unsub e a s) (\<lambda>e'. Inr (tbl e')) = spec_unsubscribe (tbl e) a s"
    and unsub_inv: "inv e \<Longrightarrow> unsub e a s = Inr e' \<Longrightarrow> inv e'"
    and drop_table: "inv e \<Longrightarrow> hash_order ord \<Longrightarrow> tbl (fst (dropa ord e a)) = spec_drop_adapter (tbl e) a"
    and drop_inv: "inv e \<Longrightarrow> hash_order ord \<Longrightarrow> inv (fst (dropa ord e a))"
begin

lemma sub_Inr: "sub e a s r c = Inr (e', k) \<Longrightarrow>
    SubscriberKey a s |\<notin>| fmdom (tbl e) \<and> tbl e' = fmupd (SubscriberKey a s) \<lparr>sub_route = r, tx = c\<rparr> (tbl e)"
  using sub_table [of e a s r c] by (auto simp: spec_subscribe_def split: if_splits)

lemma sub_succeeds: "SubscriberKey a s |\<notin>| fmdom (tbl e) \<Longrightarrow> \<exists>e' k. sub e a s r c = Inr (e', k)"
  using sub_table [of e a s r c] by (cases "sub e a s r c") (auto simp: spec_subscribe_def)

lemma sub_fails: "SubscriberKey a s |\<in>| fmdom (tbl e) \<Longrightarrow> sub e a s r c = Inl (DuplicateSub s)"
  using sub_table [of e a s r c] by (cases "sub e a s r c") (auto simp: spec_subscribe_def)

lemma unsub_Inr: "unsub e a s = Inr e' \<Longrightarrow>
    SubscriberKey a s |\<in>| fmdom (tbl e) \<and> tbl e' = fmdrop (SubscriberKey a s) (tbl e)"
  using unsub_table [of e a s] by (auto simp: spec_unsubscribe_def split: if_splits)

lemma unsub_succeeds: "SubscriberKey a s |\<in>| fmdom (tbl e) \<Longrightarrow> \<exists>e'. unsub e a s = Inr e'"
  using unsub_table [of e a s] by (cases "unsub e a s") (auto simp: spec_unsubscribe_def)

lemma unsub_after_sub:
  assumes "sub e a s r c = Inr (e', k)"
  obtains e'' where "unsub e' a s = Inr e''" and "tbl e'' = tbl e"
proof -
  have tbl': "tbl e' = fmupd (SubscriberKey a s) \<lparr>sub_route = r, tx = c\<rparr> (tbl e)"
    and fresh: "SubscriberKey a s |\<notin>| fmdom (tbl e)"
    using sub_Inr [OF assms] by auto
  then obtain e'' where e'': "unsub e' a s = Inr e''"
    using unsub_succeeds [of a s e'] by auto
  moreover have "tbl e'' = tbl e"
    using unsub_Inr [OF e''] fresh tbl' by (auto intro!: fmap_ext simp: fmdom_notI fmdom_notD)
  ultimately show thesis by (rule that)
qed

lemma sub_after_drop:
  "inv e \<Longrightarrow> hash_order ord \<Longrightarrow> \<exists>e' k. sub (fst (dropa ord e a)) a s r c = Inr (e', k)"
  by (rule sub_succeeds) (simp add: drop_table spec_drop_adapter_def)

end

lemma subscribe_table:
  "res_bind (subscribe eng a s r c) (\<lambda>(eng', k). Inr (by_key (engine_state eng'))) =
     spec_subscribe (by_key (engine_state eng)) a s r c"
  by (auto simp: subscribe_def subscribe_state_def spec_subscribe_def Let_def fmlookup_dom_iff)

lemma unsubscribe_table:
  "res_bind (unsubscribe eng a s) (\<lambda>eng'. Inr (by_key (engine_state eng'))) =
     spec_unsubscribe (by_key (engine_state eng)) a s"
proof (cases "remove_subscription (engine_state eng) (SubscriberKey a s)")
  case None
  then have "SubscriberKey a s |\<notin>| fmdom (by_key (engine_state eng))"
    by (simp add: remove_subscription_None fmdom_notI)
  then show ?thesis
    using None by (simp add: unsubscribe_def unsubscribe_state_def spec_unsubscribe_def)
next
  case (Some st')
  then have "SubscriberKey a s |\<in>| fmdom (by_key (engine_state eng))"
    by (metis fmdom_notD option.distinct(1) remove_subscription_None)
  then show ?thesis
    using Some remove_subscription_by_key [OF Some]
    by (simp add: unsubscribe_def unsubscribe_state_def spec_unsubscribe_def)
qed

lemma engine_state_drop [simp]:
  "engine_state (fst (drop_adapter order eng a)) = fst (drop_adapter_state order (engine_state eng) a)"
  "snd (drop_adapter order eng a) = snd (drop_adapter_state order (engine_state eng) a)"
  by (simp_all add: drop_adapter_def case_prod_unfold Let_def)

interpretation eng: router "\<lambda>eng. by_key (engine_state eng)" "\<lambda>eng. engine_inv (engine_state eng)"
  subscribe unsubscribe drop_adapter
proof (unfold_locales, goal_cases)
  case (1 e a s r c)
  then show ?case
    using subscribe_table [of e a s r c] by (simp add: map_err_def split: sum.split)
next
  case (2 e a s r c e' k)
  then show ?case by (auto simp: subscribe_def res_bind_Inr subscribe_state_Inr)
next
  case (3 e a s r c e' k)
  then show ?case by (auto simp: subscribe_def res_bind_Inr dest: engine_inv_subscribe)
next
  case (4 e a s)
  then show ?case by (rule unsubscribe_table)
next
  case (5 e a s e')
  then show ?case by (auto simp: unsubscribe_def res_bind_Inr dest: engine_inv_unsubscribe)
next
  case (6 e ord a)
  then show ?case by (simp add: drop_adapter_state_by_key)
next
  case (7 e ord a)
  then show ?case by (simp add: engine_inv_drop_adapter)
qed

section \<open>Publishing\<close>

lemma publish_state [simp]: "engine_state (fst (publish try_send order eng w e)) = engine_state eng"
  by (simp add: publish_def Let_def case_prod_unfold)

lemma publish_world:
  "fst (snd (publish try_send order eng w e)) =
     fst (fan_out try_send e (collect_targets order (engine_state eng) (route e)) w)"
  by (simp add: publish_def Let_def case_prod_unfold)

lemma publish_outcome:
  "snd (snd (publish try_send order eng w e)) =
     (let ts = collect_targets order (engine_state eng) (route e); r = fan_out try_send e ts w
      in \<lparr>matched = length ts, delivered = fst (snd r), dropped = snd (snd r)\<rparr>)"
  by (simp add: publish_def Let_def case_prod_unfold)

lemma hash_order_length: "hash_order order \<Longrightarrow> length (order S) = fcard S"
  unfolding hash_order_def by (metis distinct_card fcard.rep_eq fset_of_list.rep_eq)

lemma hash_order_set: "hash_order order \<Longrightarrow> set (order S) = fset S"
  unfolding hash_order_def by (metis fset_of_list.rep_eq)

lemma hash_order_sorted: "hash_order (sorted_list_of_fset :: 'a::linorder fset \<Rightarrow> 'a list)"
  by (simp add: hash_order_def sorted_list_of_fset.rep_eq fset_eq_iff fset_of_list_elem)

section \<open>The invariant determines the indexes\<close>

lemma lookup_from_view:
  "fmlookup m k \<noteq> Some {||} \<Longrightarrow>
   fmlookup m k = (if or_default {||} (fmlookup m k) = {||} then None else Some (or_default {||} (fmlookup m k)))"
  by (cases "fmlookup m k") auto

lemma fmap_eq_from_views:
  assumes "\<And>k. fmlookup m k \<noteq> Some {||}" "\<And>k. fmlookup n k \<noteq> Some {||}"
    and "\<And>k. or_default {||} (fmlookup m k) = or_default {||} (fmlookup n k)"
  shows "m = n"
  by (rule fmap_ext) (metis assms lookup_from_view)

lemma exact_from_views:
  assumes "no_empty st" "no_empty st'" "\<And>t h. exact_keys st t h = exact_keys st' t h"
  shows "exact st = exact st'"
proof (rule fmap_ext)
  fix t
  define m m' where "m = or_default fmempty (fmlookup (exact st) t)" and "m' = or_default fmempty (fmlookup (exact st') t)"
  have entry: "fmlookup (exact st) t = (if m = fmempty then None else Some m)"
    "fmlookup (exact st') t = (if m' = fmempty then None else Some m')"
    using assms(1,2) by (auto simp: no_empty_def m_def m'_def or_default_def split: option.splits)
  have "m = m'"
  proof (rule fmap_eq_from_views)
    show "fmlookup m k \<noteq> Some {||}" "fmlookup m' k \<noteq> Some {||}" for k
      using assms(1,2) by (auto simp: no_empty_def m_def m'_def or_default_def split: option.splits)
    show "or_default {||} (fmlookup m k) = or_default {||} (fmlookup m' k)" for k
      using assms(3) [of t k] by (simp add: exact_keys_def m_def m'_def)
  qed
  then show "fmlookup (exact st) t = fmlookup (exact st') t" by (simp add: entry)
qed

lemma engine_inv_unique:
  assumes "engine_inv st" "engine_inv st'" "by_key st = by_key st'"
  shows "st = st'"
proof -
  have ne: "no_empty st" "no_empty st'"
    using assms(1,2) by (simp_all add: engine_inv_def index_ok_def)
  have "routed st = routed st'"
    using assms(3) by (auto simp: routed_def fun_eq_iff)
  then have wild: "wild_keys st t = wild_keys st' t" and ex: "exact_keys st t h = exact_keys st' t h" for t h
    using assms(1,2) by (auto simp: engine_inv_def index_ok_def wild_ok_def exact_ok_def)
  have ad: "adapter_subs st a = adapter_subs st' a" for a
    using engine_inv_subs [OF assms(1)] engine_inv_subs [OF assms(2)] assms(3) by auto
  have "wildcards st = wildcards st'"
    using ne wild by (intro fmap_eq_from_views) (auto simp: no_empty_def wild_keys_def)
  moreover have "by_adapter st = by_adapter st'"
    using ne ad by (intro fmap_eq_from_views) (auto simp: no_empty_def adapter_subs_def)
  moreover have "exact st = exact st'"
    using ne ex by (rule exact_from_views)
  ultimately show ?thesis using assms(3) by simp
qed

section \<open>Properties\<close>

text \<open>A small engine for the witnesses: a typed and a wildcard subscription on one topic, owned
  by two adapters, the first with a full channel.\<close>

definition demo_engine :: Engine where
  "demo_engine =
     (case subscribe new_engine (AdapterId ''owp'') (SubId ''s1'') (route_typed ''demo'' ''Ping'') 0 of
        Inl _ \<Rightarrow> new_engine
      | Inr (e1, _) \<Rightarrow>
          (case subscribe e1 (AdapterId ''stomp'') (SubId ''w'') (route_topic ''demo'') 1 of
             Inl _ \<Rightarrow> new_engine | Inr (e2, _) \<Rightarrow> e2))"

definition demo_world :: "Delivery bq" where
  "demo_world = (\<lambda>c. (if c = 0 then 0 else 64, False, []))"

definition demo_envelope :: Envelope where
  "demo_envelope = new_envelope (MessageId 7) (route_typed ''demo'' ''Ping'') ''x''"

lemma new_engine_inv: "engine_inv (engine_state new_engine)"
  by (simp add: new_engine_def engine_inv_empty)

lemma demo_engine_inv: "engine_inv (engine_state demo_engine)"
  by (auto simp: demo_engine_def new_engine_inv split: sum.split prod.split
      dest!: eng.sub_inv [OF new_engine_inv] dest: eng.sub_inv)

text \<open>C1: under the index invariant the engine refines the bare table of subscriptions. Subscribe
  and unsubscribe answer and update as the table does, \<open>drop_adapter\<close> removes exactly the
  adapter's rows and reports how many there were, and the keys the indexes select for a publish are
  the rows whose route matches.\<close>

theorem engine_implements_table:
  assumes "engine_inv (engine_state eng)" and "hash_order sorder"
  shows "res_bind (subscribe eng a s r c) (\<lambda>(eng', k). Inr (by_key (engine_state eng'))) =
           spec_subscribe (by_key (engine_state eng)) a s r c \<and>
         res_bind (unsubscribe eng a s) (\<lambda>eng'. Inr (by_key (engine_state eng'))) =
           spec_unsubscribe (by_key (engine_state eng)) a s \<and>
         by_key (engine_state (fst (drop_adapter sorder eng a))) = spec_drop_adapter (by_key (engine_state eng)) a \<and>
         snd (drop_adapter sorder eng a) =
           fcard (ffilter (\<lambda>k. adapter_id k = a) (fmdom (by_key (engine_state eng)))) \<and>
         target_keys (engine_state eng) q = spec_targets (by_key (engine_state eng)) q"
  using subscribe_table unsubscribe_table eng.drop_table [OF assms] drop_adapter_state_count [OF assms]
    target_keys_spec [OF assms(1)]
  by simp

theorem engine_implements_table_witness:
  "by_key (engine_state (fst (drop_adapter sorted_list_of_fset demo_engine (AdapterId ''owp'')))) =
     spec_drop_adapter (by_key (engine_state demo_engine)) (AdapterId ''owp'') \<and>
   snd (drop_adapter sorted_list_of_fset demo_engine (AdapterId ''owp'')) = 1"
proof -
  have "fcard (ffilter (\<lambda>k. adapter_id k = AdapterId ''owp'') (fmdom (by_key (engine_state demo_engine)))) = 1"
    by code_simp
  then show ?thesis
    using engine_implements_table [OF demo_engine_inv hash_order_sorted, where a = "AdapterId ''owp''"] by auto
qed

text \<open>C3: every operation that changes the subscriptions keeps the index invariant, so the exact
  index, the wildcard index and the per-adapter sets always describe the same subscriptions, with no
  empty entry left behind.\<close>

theorem engine_ops_keep_inv:
  assumes "engine_inv (engine_state eng)" and "hash_order sorder"
  shows "(case subscribe eng a s r c of Inl _ \<Rightarrow> True | Inr (eng', k) \<Rightarrow> engine_inv (engine_state eng')) \<and>
         (case unsubscribe eng a s of Inl _ \<Rightarrow> True | Inr eng' \<Rightarrow> engine_inv (engine_state eng')) \<and>
         engine_inv (engine_state (fst (drop_adapter sorder eng a))) \<and>
         engine_inv (engine_state (fst (publish try_send order eng w e)))"
  using assms eng.sub_inv [OF assms(1)] eng.unsub_inv [OF assms(1)] eng.drop_inv [OF assms]
  by (auto split: sum.split prod.split)

theorem engine_ops_keep_inv_witness:
  "engine_inv (engine_state (fst (drop_adapter sorted_list_of_fset demo_engine (AdapterId ''owp''))))"
  using engine_ops_keep_inv [OF demo_engine_inv hash_order_sorted, where a = "AdapterId ''owp''"] by simp

text \<open>Subscribing and then removing the same subscription restores the whole state of the
  indexes, not only the table: nothing leaks.\<close>

theorem subscribe_unsubscribe_restores:
  assumes "engine_inv (engine_state eng)" and "subscribe eng a s r c = Inr (eng', k)"
  shows "unsubscribe eng' a s = Inr eng"
proof -
  obtain eng'' where eng'': "unsubscribe eng' a s = Inr eng''"
    and tbl: "by_key (engine_state eng'') = by_key (engine_state eng)"
    using eng.unsub_after_sub [OF assms(2)] .
  have "engine_inv (engine_state eng'')"
    using eng.unsub_inv [OF eng.sub_inv [OF assms] eng''] .
  then have "engine_state eng'' = engine_state eng"
    using assms(1) tbl by (rule engine_inv_unique)
  moreover have "stats eng'' = stats eng"
    using assms(2) eng'' by (auto simp: subscribe_def unsubscribe_def res_bind_Inr)
  ultimately show ?thesis using eng'' by simp
qed

theorem subscribe_unsubscribe_restores_witness:
  "\<exists>eng'. subscribe demo_engine (AdapterId ''owp'') (SubId ''s2'') (route_topic ''demo'') 2 =
      Inr (eng', SubscriberKey (AdapterId ''owp'') (SubId ''s2'')) \<and>
    unsubscribe eng' (AdapterId ''owp'') (SubId ''s2'') = Inr demo_engine"
proof -
  have "SubscriberKey (AdapterId ''owp'') (SubId ''s2'') |\<notin>| fmdom (by_key (engine_state demo_engine))"
    by code_simp
  then obtain eng' k where "subscribe demo_engine (AdapterId ''owp'') (SubId ''s2'') (route_topic ''demo'') 2 = Inr (eng', k)"
    using eng.sub_succeeds by blast
  then show ?thesis
    using subscribe_unsubscribe_restores [OF demo_engine_inv] eng.sub_key by blast
qed

text \<open>What one publish appends to a channel: one delivery for each of its matching subscriptions, in
  iteration order, as long as there is room.\<close>

lemma targets_share:
  assumes "engine_inv st" "hash_order order"
  shows "filter (\<lambda>(c, s). c = b) (collect_targets order st r) =
    map (\<lambda>k. (tx (the (fmlookup (by_key st) k)), sub_id k)) (spec_share order (by_key st) r b)"
  by (simp add: collect_targets_spec [OF assms] filter_map o_def spec_share_def)

lemma publish_queue:
  assumes "engine_inv (engine_state eng)" "hash_order order" "mpsc try_send queue capacity closed"
  shows "queue (fst (snd (publish try_send order eng w e))) b = queue w b @
    map (\<lambda>k. \<lparr>del_sub = sub_id k, del_envelope = e\<rparr>)
      (take (chan_room queue capacity closed w b) (spec_share order (by_key (engine_state eng)) (route e) b))"
proof -
  have chans: "delivery_channels try_send queue capacity closed"
    using assms(3) by (rule delivery_channels.intro)
  show ?thesis
    using delivery_channels.fan_out_queue [OF chans, of e "collect_targets order (engine_state eng) (route e)" w b]
    by (simp add: publish_world targets_share [OF assms(1,2)] take_map o_def)
qed

lemma publish_room:
  assumes "engine_inv (engine_state eng)" "hash_order order" "mpsc try_send queue capacity closed"
  shows "chan_room queue capacity closed (fst (snd (publish try_send order eng w e))) b =
    chan_room queue capacity closed w b - length (spec_share order (by_key (engine_state eng)) (route e) b)"
  using delivery_channels.fan_out_room [OF delivery_channels.intro [OF assms(3)],
      of e "collect_targets order (engine_state eng) (route e)" w b]
  by (simp add: publish_world targets_share [OF assms(1,2)])

text \<open>C2: what one publish does to every channel. Each channel receives, in the iteration order of
  the target set, one delivery of the envelope for each matching subscription that sends to it, up to
  the room it has; a closed channel receives nothing. The outcome counts all matching subscriptions,
  and delivered plus dropped is that number; nothing is dropped exactly when every channel has room
  for its share.\<close>

theorem publish_delivers:
  assumes "engine_inv (engine_state eng)" and "hash_order order"
    and "mpsc try_send queue capacity closed"
    and "publish try_send order eng w e = (eng', w', out)"
  shows "(\<forall>b. queue w' b = queue w b @
            map (\<lambda>k. \<lparr>del_sub = sub_id k, del_envelope = e\<rparr>)
              (take (chan_room queue capacity closed w b) (spec_share order (by_key (engine_state eng)) (route e) b))) \<and>
         matched out = fcard (spec_targets (by_key (engine_state eng)) (route e)) \<and>
         delivered out + dropped out = matched out \<and>
         (dropped out = 0 \<longleftrightarrow>
            (\<forall>b. length (spec_share order (by_key (engine_state eng)) (route e) b) \<le> chan_room queue capacity closed w b))"
proof -
  let ?tb = "by_key (engine_state eng)" and ?ts = "collect_targets order (engine_state eng) (route e)"
  obtain ok lost where fan: "fan_out try_send e ?ts w = (w', ok, lost)"
    and out: "out = \<lparr>matched = length ?ts, delivered = ok, dropped = lost\<rparr>"
    using assms(4) unfolding publish_def Let_def by (auto split: prod.splits)
  have chans: "delivery_channels try_send queue capacity closed"
    using assms(3) by (rule delivery_channels.intro)
  have len: "length ?ts = fcard (spec_targets ?tb (route e))"
    by (simp add: collect_targets_spec [OF assms(1,2)] hash_order_length [OF assms(2)])
  have "queue w' b = queue w b @ map (\<lambda>k. \<lparr>del_sub = sub_id k, del_envelope = e\<rparr>)
      (take (chan_room queue capacity closed w b) (spec_share order ?tb (route e) b))" for b
    using publish_queue [OF assms(1-3), of w e b] assms(4) by simp
  moreover have "lost = 0 \<longleftrightarrow> (\<forall>b. length (spec_share order ?tb (route e) b) \<le> chan_room queue capacity closed w b)"
    using delivery_channels.fan_out_lossless [OF chans fan] by (simp add: targets_share [OF assms(1,2)])
  ultimately show ?thesis
    using delivery_channels.fan_out_counts [OF chans fan] by (simp add: out len)
qed

theorem publish_delivers_witness:
  "bq_queue (fst (snd (publish bq_send sorted_list_of_fset demo_engine demo_world demo_envelope))) 1 =
     [\<lparr>del_sub = SubId ''w'', del_envelope = demo_envelope\<rparr>] \<and>
   matched (snd (snd (publish bq_send sorted_list_of_fset demo_engine demo_world demo_envelope))) = 2 \<and>
   dropped (snd (snd (publish bq_send sorted_list_of_fset demo_engine demo_world demo_envelope))) \<noteq> 0"
proof -
  let ?p = "publish bq_send sorted_list_of_fset demo_engine demo_world demo_envelope"
  let ?tb = "by_key (engine_state demo_engine)"
  have p: "?p = (fst ?p, fst (snd ?p), snd (snd ?p))" by simp
  have share: "spec_share sorted_list_of_fset ?tb (route demo_envelope) 1 = [SubscriberKey (AdapterId ''stomp'') (SubId ''w'')]"
    "spec_share sorted_list_of_fset ?tb (route demo_envelope) 0 = [SubscriberKey (AdapterId ''owp'') (SubId ''s1'')]"
    and card: "fcard (spec_targets ?tb (route demo_envelope)) = 2"
    by code_simp+
  have room: "chan_room bq_queue bq_capacity bq_closed demo_world b = (if b = 0 then 0 else 64)"
    and empty: "bq_queue demo_world b = []" for b
    by (simp_all add: demo_world_def bq_queue_def bq_capacity_def bq_closed_def chan_room_def)
  note facts = publish_delivers [OF demo_engine_inv hash_order_sorted mpsc_bq p]
  have "bq_queue (fst (snd ?p)) 1 = [\<lparr>del_sub = SubId ''w'', del_envelope = demo_envelope\<rparr>]"
    using facts [THEN conjunct1, THEN spec, of 1] unfolding share room empty by simp
  moreover have "dropped (snd (snd ?p)) \<noteq> 0"
    using facts share(2) room [of 0] by (metis length_Cons list.size(3) not_one_le_zero One_nat_def)
  ultimately show ?thesis using facts card by simp
qed

end
