(* ===== verification/Core_Concurrent.thy ===== *)
theory Core_Concurrent
  imports Core_Engine
begin

text \<open>
  The engine under concurrent callers. \<open>Engine::publish\<close> is not atomic: it bumps one counter,
  takes a snapshot of the targets under the read lock, sends to them one by one with no lock held,
  and then bumps the two other counters. Between any two of these points other tasks may subscribe,
  unsubscribe, drop an adapter, publish, or read from a channel. A configuration is the engine, the
  channels and the publishes in flight; \<open>cstep\<close> has one rule per atomic action of the source.
\<close>

section \<open>Publishes in flight\<close>

datatype phase =
    Counted Envelope
  | Sending Envelope "(chan \<times> SubId) list" nat nat
  | Sent nat nat
  | Added nat

text \<open>\<open>total_matched\<close> is a ghost counter: the sum of the \<open>matched\<close> fields of every publish that
  has taken its snapshot.\<close>

record 'w config =
  c_engine :: Engine
  c_world :: 'w
  c_inflight :: "phase list"
  total_matched :: nat
  total_published :: nat

definition bump_published :: "Engine \<Rightarrow> Engine" where
  "bump_published eng = eng\<lparr>stats := (stats eng)\<lparr>stat_published := stat_published (stats eng) + 1\<rparr>\<rparr>"

definition bump_delivered :: "nat \<Rightarrow> Engine \<Rightarrow> Engine" where
  "bump_delivered n eng = eng\<lparr>stats := (stats eng)\<lparr>stat_delivered := stat_delivered (stats eng) + of_nat n\<rparr>\<rparr>"

definition bump_dropped :: "nat \<Rightarrow> Engine \<Rightarrow> Engine" where
  "bump_dropped n eng = eng\<lparr>stats := (stats eng)\<lparr>stat_dropped := stat_dropped (stats eng) + of_nat n\<rparr>\<rparr>"

definition count_send :: "try_send_result \<Rightarrow> nat \<times> nat \<Rightarrow> nat \<times> nat" where
  "count_send r = (\<lambda>(ok, lost). case r of SendOk \<Rightarrow> (Suc ok, lost) | Full \<Rightarrow> (ok, Suc lost) | Closed \<Rightarrow> (ok, Suc lost))"

inductive cstep ::
  "('w \<Rightarrow> chan \<Rightarrow> Delivery \<Rightarrow> try_send_result \<times> 'w) \<Rightarrow> (SubscriberKey fset \<Rightarrow> SubscriberKey list) \<Rightarrow>
   (SubId fset \<Rightarrow> SubId list) \<Rightarrow> 'w config \<Rightarrow> 'w config \<Rightarrow> bool"
  for try_send order sorder where
  step_subscribe: "subscribe (c_engine s) a i r c = Inr (eng', k) \<Longrightarrow>
     cstep try_send order sorder s (s\<lparr>c_engine := eng'\<rparr>)"
| step_unsubscribe: "unsubscribe (c_engine s) a i = Inr eng' \<Longrightarrow>
     cstep try_send order sorder s (s\<lparr>c_engine := eng'\<rparr>)"
| step_drop: "cstep try_send order sorder s (s\<lparr>c_engine := fst (drop_adapter sorder (c_engine s) a)\<rparr>)"
| step_channels: "cstep try_send order sorder s (s\<lparr>c_world := w'\<rparr>)"
| step_count: "cstep try_send order sorder s
     (s\<lparr>c_engine := bump_published (c_engine s), c_inflight := Counted e # c_inflight s,
       total_published := Suc (total_published s)\<rparr>)"
| step_snapshot: "c_inflight s = xs @ Counted e # ys \<Longrightarrow>
     ts = collect_targets order (engine_state (c_engine s)) (route e) \<Longrightarrow>
     cstep try_send order sorder s
       (s\<lparr>c_inflight := xs @ Sending e ts 0 0 # ys, total_matched := total_matched s + length ts\<rparr>)"
| step_send: "c_inflight s = xs @ Sending e ((c, i) # ts) ok lost # ys \<Longrightarrow>
     try_send (c_world s) c \<lparr>del_sub = i, del_envelope = e\<rparr> = (r, w') \<Longrightarrow>
     count_send r (ok, lost) = (ok', lost') \<Longrightarrow>
     cstep try_send order sorder s (s\<lparr>c_world := w', c_inflight := xs @ Sending e ts ok' lost' # ys\<rparr>)"
| step_sent: "c_inflight s = xs @ Sending e [] ok lost # ys \<Longrightarrow>
     cstep try_send order sorder s (s\<lparr>c_inflight := xs @ Sent ok lost # ys\<rparr>)"
| step_delivered: "c_inflight s = xs @ Sent ok lost # ys \<Longrightarrow>
     cstep try_send order sorder s
       (s\<lparr>c_engine := bump_delivered ok (c_engine s), c_inflight := xs @ Added lost # ys\<rparr>)"
| step_dropped: "c_inflight s = xs @ Added lost # ys \<Longrightarrow>
     cstep try_send order sorder s
       (s\<lparr>c_engine := bump_dropped lost (c_engine s), c_inflight := xs @ ys\<rparr>)"

definition cinit :: "'w \<Rightarrow> 'w config" where
  "cinit w = \<lparr>c_engine = new_engine, c_world = w, c_inflight = [], total_matched = 0, total_published = 0\<rparr>"

inductive creach ::
  "('w \<Rightarrow> chan \<Rightarrow> Delivery \<Rightarrow> try_send_result \<times> 'w) \<Rightarrow> (SubscriberKey fset \<Rightarrow> SubscriberKey list) \<Rightarrow>
   (SubId fset \<Rightarrow> SubId list) \<Rightarrow> 'w config \<Rightarrow> bool"
  for try_send order sorder where
  creach_init: "creach try_send order sorder (cinit w)"
| creach_step: "creach try_send order sorder s \<Longrightarrow> cstep try_send order sorder s t \<Longrightarrow>
     creach try_send order sorder t"

section \<open>Invariants\<close>

text \<open>The deliveries a publish in flight still owes the two counters.\<close>

fun pending :: "phase \<Rightarrow> nat" where
  "pending (Counted e) = 0"
| "pending (Sending e ts ok lost) = length ts + ok + lost"
| "pending (Sent ok lost) = ok + lost"
| "pending (Added lost) = lost"

definition pending_total :: "phase list \<Rightarrow> nat" where
  "pending_total ps = sum_list (map pending ps)"

definition conserved :: "'w config \<Rightarrow> bool" where
  "conserved s \<longleftrightarrow>
     stat_delivered (stats (c_engine s)) + stat_dropped (stats (c_engine s)) + of_nat (pending_total (c_inflight s)) =
       of_nat (total_matched s) \<and>
     stat_published (stats (c_engine s)) = of_nat (total_published s)"

lemma pending_total_simps [simp]:
  "pending_total [] = 0"
  "pending_total (p # ps) = pending p + pending_total ps"
  "pending_total (ps @ qs) = pending_total ps + pending_total qs"
  by (simp_all add: pending_total_def)

lemma bump_state [simp]:
  "engine_state (bump_published eng) = engine_state eng"
  "engine_state (bump_delivered n eng) = engine_state eng"
  "engine_state (bump_dropped n eng) = engine_state eng"
  by (simp_all add: bump_published_def bump_delivered_def bump_dropped_def)

lemma ops_keep_stats:
  "subscribe eng a i r c = Inr (eng', k) \<Longrightarrow> stats eng' = stats eng"
  "unsubscribe eng a i = Inr eng' \<Longrightarrow> stats eng' = stats eng"
  "stats (fst (drop_adapter sorder eng a)) = stats eng"
  by (auto simp: subscribe_def unsubscribe_def drop_adapter_def res_bind_Inr split: prod.splits)

lemma count_send_total: "count_send r (ok, lost) = (ok', lost') \<Longrightarrow> ok' + lost' = Suc (ok + lost)"
  by (auto simp: count_send_def split: try_send_result.splits)

lemma cstep_inv:
  assumes "cstep try_send order sorder s t" "hash_order sorder" "engine_inv (engine_state (c_engine s))"
  shows "engine_inv (engine_state (c_engine t))"
  using assms
proof (induction rule: cstep.induct)
  case (step_subscribe s a i r c eng' k)
  then show ?case using eng.sub_inv by simp
next
  case (step_unsubscribe s a i eng')
  then show ?case using eng.unsub_inv by simp
next
  case (step_drop s a)
  then show ?case using eng.drop_inv by simp
qed simp_all

lemma cstep_conserved:
  assumes "cstep try_send order sorder s t" "conserved s"
  shows "conserved t"
  using assms
proof (induction rule: cstep.induct)
  case (step_send s xs e c i ts ok lost ys r w' ok' lost')
  then have "ok' + lost' = Suc (ok + lost)" by (simp add: count_send_total)
  then have "pending (Sending e ts ok' lost') = pending (Sending e ((c, i) # ts) ok lost)" by simp
  then show ?case using step_send by (simp add: conserved_def del: pending.simps)
next
  case (step_subscribe s a i r c eng' k)
  then show ?case by (simp add: conserved_def ops_keep_stats)
next
  case (step_unsubscribe s a i eng')
  then show ?case by (simp add: conserved_def ops_keep_stats)
qed (simp_all add: conserved_def ops_keep_stats bump_published_def bump_delivered_def bump_dropped_def algebra_simps)

lemma creach_inv:
  assumes "creach try_send order sorder s" "hash_order sorder"
  shows "engine_inv (engine_state (c_engine s)) \<and> conserved s"
  using assms(1)
proof (induction rule: creach.induct)
  case (creach_init w)
  then show ?case by (simp add: cinit_def new_engine_def engine_inv_empty conserved_def)
next
  case (creach_step s t)
  then show ?case using cstep_inv [OF creach_step.hyps(2) assms(2)] cstep_conserved by blast
qed

section \<open>Properties\<close>

text \<open>C4: in every reachable state of any number of concurrent callers the indexes agree, and once no
  publish is in flight the counters account for everything: delivered plus dropped is the number of
  matches of all publishes and published is the number of publishes, up to the wrap-around of the
  64-bit counters.\<close>

theorem concurrent_accounting:
  assumes "creach try_send order sorder s" and "hash_order sorder" and "c_inflight s = []"
  shows "engine_inv (engine_state (c_engine s)) \<and>
    stat_delivered (stats (c_engine s)) + stat_dropped (stats (c_engine s)) = of_nat (total_matched s) \<and>
    stat_published (stats (c_engine s)) = of_nat (total_published s)"
  using creach_inv [OF assms(1,2)] assms(3) by (simp add: conserved_def)

text \<open>One publish to a wildcard subscriber whose channel is full, step by step.\<close>

definition run_engine :: Engine where
  "run_engine = (case subscribe new_engine (AdapterId ''stomp'') (SubId ''w'') (route_topic ''demo'') 0 of
     Inl _ \<Rightarrow> new_engine | Inr (e, _) \<Rightarrow> e)"

abbreviation (input) run_state :: "Engine \<Rightarrow> phase list \<Rightarrow> nat \<Rightarrow> nat \<Rightarrow> Delivery bq config" where
  "run_state e ps m p \<equiv>
     \<lparr>c_engine = e, c_world = demo_world, c_inflight = ps, total_matched = m, total_published = p\<rparr>"

lemma run_end_reachable:
  "creach bq_send sorted_list_of_fset sorted_list_of_fset
     (run_state (bump_dropped 1 (bump_delivered 0 (bump_published run_engine))) [] 1 1)"
proof -
  let ?R = "creach bq_send sorted_list_of_fset sorted_list_of_fset"
  let ?S = "cstep bq_send sorted_list_of_fset sorted_list_of_fset"
  let ?e = demo_envelope
  let ?e1 = "bump_published run_engine"
  let ?e2 = "bump_delivered 0 ?e1"
  have sub: "\<exists>k. subscribe new_engine (AdapterId ''stomp'') (SubId ''w'') (route_topic ''demo'') 0 = Inr (run_engine, k)"
    by (auto simp: run_engine_def subscribe_def subscribe_state_def new_engine_def empty_state_def Let_def)
  have ts: "collect_targets sorted_list_of_fset (engine_state run_engine) (route ?e) = [(0, SubId ''w'')]"
    by code_simp
  have full: "bq_send demo_world 0 \<lparr>del_sub = SubId ''w'', del_envelope = ?e\<rparr> = (Full, demo_world)"
    by (simp add: bq_send_def demo_world_def bq_closed_def bq_capacity_def)
  have 0: "?R (run_state new_engine [] 0 0)"
    using creach_init [of _ _ _ demo_world] by (simp add: cinit_def)
  have 1: "?R (run_state run_engine [] 0 0)"
    using sub creach_step [OF 0] step_subscribe [where s = "run_state new_engine [] 0 0"] by fastforce
  have 2: "?R (run_state ?e1 [Counted ?e] 0 1)"
    using creach_step [OF 1 step_count [where e = ?e]] by simp
  have "?S (run_state ?e1 [Counted ?e] 0 1) (run_state ?e1 [Sending ?e [(0, SubId ''w'')] 0 0] 1 1)"
    using step_snapshot [where s = "run_state ?e1 [Counted ?e] 0 1" and xs = "[]" and ys = "[]" and e = ?e
        and order = sorted_list_of_fset and ts = "[(0, SubId ''w'')]"] by (simp add: ts)
  note 3 = creach_step [OF 2 this]
  have "?S (run_state ?e1 [Sending ?e [(0, SubId ''w'')] 0 0] 1 1) (run_state ?e1 [Sending ?e [] 0 1] 1 1)"
    using step_send [where s = "run_state ?e1 [Sending ?e [(0, SubId ''w'')] 0 0] 1 1" and xs = "[]" and ys = "[]"
        and try_send = bq_send and e = ?e and c = 0 and i = "SubId ''w''" and ts = "[]" and ok = 0 and lost = 0] full
    by (simp add: count_send_def)
  note 4 = creach_step [OF 3 this]
  have "?S (run_state ?e1 [Sending ?e [] 0 1] 1 1) (run_state ?e1 [Sent 0 1] 1 1)"
    using step_sent [where s = "run_state ?e1 [Sending ?e [] 0 1] 1 1" and xs = "[]" and ys = "[]"] by simp
  note 5 = creach_step [OF 4 this]
  have "?S (run_state ?e1 [Sent 0 1] 1 1) (run_state ?e2 [Added 1] 1 1)"
    using step_delivered [where s = "run_state ?e1 [Sent 0 1] 1 1" and xs = "[]" and ys = "[]"] by simp
  note 6 = creach_step [OF 5 this]
  have "?S (run_state ?e2 [Added 1] 1 1) (run_state (bump_dropped 1 ?e2) [] 1 1)"
    using step_dropped [where s = "run_state ?e2 [Added 1] 1 1" and xs = "[]" and ys = "[]"] by simp
  then show ?thesis by (rule creach_step [OF 6])
qed

theorem concurrent_accounting_witness:
  "stat_delivered (stats (bump_dropped 1 (bump_delivered 0 (bump_published run_engine)))) +
   stat_dropped (stats (bump_dropped 1 (bump_delivered 0 (bump_published run_engine)))) = (1 :: 64 word)"
  using concurrent_accounting [OF run_end_reachable hash_order_sorted] by simp

end
