(* ===== verification/Json_Value.thy ===== *)
theory Json_Value
  imports Btree_Map "HOL-Library.Log_Nat" Complex_Main
begin

text \<open>
  The values that cross the JSON and XML libraries. \<open>Value\<close> and \<open>Number\<close> are the data
  types of \<open>serde_json\<close> (an object is a \<open>BTreeMap\<close>, so a sorted association list), and
  \<open>xelem\<close> is an element as the code sees one through \<open>roxmltree\<close>: its local name, its
  \<open>text()\<close>, its attributes by namespace and name, and its child elements. The parsers and the
  printer themselves are arguments of the definitions that call them. The theory also holds the
  part of \<open>f64\<close> that the sources use: parsing, rounding and comparison.
\<close>

section \<open>Floating point\<close>

text \<open>A finite value keeps its sign, so that the two zeros differ; its magnitude is exact.\<close>

datatype f64 = NaN | Inf bool | Fin bool rat

definition f64_exponent :: "rat \<Rightarrow> int" where
  "f64_exponent q =
     (let (n, d) = quotient_of q;
          e = int (floorlog 2 (nat n)) - int (floorlog 2 (nat d)) - 53;
          e' = (if q < 2 powi (e + 53) then e else e + 1)
      in max (-1074) e')"

definition round_half_even :: "rat \<Rightarrow> int" where
  "round_half_even q =
     (let f = \<lfloor>q\<rfloor>; r = q - of_int f in
      if r < 1 / 2 \<or> (r = 1 / 2 \<and> even f) then f else f + 1)"

definition f64_of :: "bool \<Rightarrow> rat \<Rightarrow> f64" where
  "f64_of neg q =
     (if q = 0 then Fin neg 0
      else let e = f64_exponent q;
               v = of_int (round_half_even (q / 2 powi e)) * 2 powi e
           in if v \<ge> 2 powi 1024 then Inf neg else Fin neg v)"

fun f64_key :: "f64 \<Rightarrow> (int \<times> rat) option" where
  "f64_key NaN = None"
| "f64_key (Inf neg) = Some (if neg then -1 else 1, 0)"
| "f64_key (Fin neg m) = Some (0, if neg then - m else m)"

text \<open>The comparison operators of \<open>f64\<close>: false when either side is a NaN.\<close>

definition f64_lt :: "f64 \<Rightarrow> f64 \<Rightarrow> bool" where
  "f64_lt a b = (case (f64_key a, f64_key b) of
     (Some (i, x), Some (j, y)) \<Rightarrow> i < j \<or> (i = j \<and> x < y) | _ \<Rightarrow> False)"

definition f64_eq :: "f64 \<Rightarrow> f64 \<Rightarrow> bool" where
  "f64_eq a b = (case (f64_key a, f64_key b) of
     (Some k, Some l) \<Rightarrow> k = l | _ \<Rightarrow> False)"

definition f64_le :: "f64 \<Rightarrow> f64 \<Rightarrow> bool" where
  "f64_le a b \<longleftrightarrow> f64_lt a b \<or> f64_eq a b"

text \<open>\<open>f64::max\<close> and \<open>f64::min\<close>: the other argument when one is a NaN.\<close>

definition f64_max :: "f64 \<Rightarrow> f64 \<Rightarrow> f64" where
  "f64_max a b = (if a = NaN then b else if f64_lt a b then b else a)"

definition f64_min :: "f64 \<Rightarrow> f64 \<Rightarrow> f64" where
  "f64_min a b = (if a = NaN then b else if f64_lt b a then b else a)"

text \<open>\<open>str::parse::<f64>\<close>: a sign, then \<open>inf\<close>, \<open>infinity\<close> or \<open>nan\<close> in any case, or
  digits with an optional point (a digit on at least one side) and an optional exponent.\<close>

definition eq_ignore_ascii_case :: "string \<Rightarrow> string \<Rightarrow> bool" where
  "eq_ignore_ascii_case s t \<longleftrightarrow> map to_ascii_lowercase s = map to_ascii_lowercase t"

definition parse_exponent :: "string \<Rightarrow> int option" where
  "parse_exponent s =
     (case s of
        [] \<Rightarrow> Some 0
      | c # r \<Rightarrow>
          if c = CHR ''e'' \<or> c = CHR ''E'' then
            (let neg = (r \<noteq> [] \<and> hd r = CHR ''-'');
                 ds = (if r \<noteq> [] \<and> (hd r = CHR ''-'' \<or> hd r = CHR ''+'') then tl r else r)
             in if ds \<noteq> [] \<and> list_all is_ascii_digit ds
                then Some (if neg then - int (digits_val ds) else int (digits_val ds)) else None)
          else None)"

definition parse_decimal :: "string \<Rightarrow> rat option" where
  "parse_decimal s =
     (let whole = takeWhile is_ascii_digit s;
          r1 = dropWhile is_ascii_digit s;
          point = (r1 \<noteq> [] \<and> hd r1 = CHR ''.'');
          frac = (if point then takeWhile is_ascii_digit (tl r1) else []);
          r2 = (if point then dropWhile is_ascii_digit (tl r1) else r1)
      in if whole = [] \<and> frac = [] then None
         else map_option (\<lambda>e. of_nat (digits_val (whole @ frac)) * 10 powi (e - int (length frac)))
                (parse_exponent r2))"

definition parse_f64 :: "string \<Rightarrow> f64 option" where
  "parse_f64 s =
     (let neg = (s \<noteq> [] \<and> hd s = CHR ''-'');
          r = (if s \<noteq> [] \<and> (hd s = CHR ''-'' \<or> hd s = CHR ''+'') then tl s else s)
      in if eq_ignore_ascii_case r ''inf'' \<or> eq_ignore_ascii_case r ''infinity'' then Some (Inf neg)
         else if eq_ignore_ascii_case r ''nan'' then Some NaN
         else map_option (f64_of neg) (parse_decimal r))"

section \<open>JSON\<close>

datatype Number = PosInt nat | NegInt int | Float f64

text \<open>\<open>Number::from(i64)\<close>, \<open>Number::from(u64)\<close> and \<open>Number::from_f64\<close>.\<close>

definition number_of_int :: "int \<Rightarrow> Number" where
  "number_of_int i = (if i < 0 then NegInt i else PosInt (nat i))"

definition number_of_f64 :: "f64 \<Rightarrow> Number option" where
  "number_of_f64 x = (case x of Fin _ _ \<Rightarrow> Some (Float x) | _ \<Rightarrow> None)"

datatype Value =
    JNull
  | JBool bool
  | JNumber Number
  | JString string
  | JArray "Value list"
  | JObject "(string \<times> Value) list"

text \<open>The \<open>json!\<close> macro on an object literal: the members inserted in the order written.\<close>

definition json_object :: "(string \<times> Value) list \<Rightarrow> Value" where
  "json_object kvs = JObject (fold (\<lambda>(k, v). bt_insert k v) kvs [])"

definition as_object :: "Value \<Rightarrow> (string \<times> Value) list option" where
  "as_object v = (case v of JObject m \<Rightarrow> Some m | _ \<Rightarrow> None)"

definition as_str :: "Value \<Rightarrow> string option" where
  "as_str v = (case v of JString s \<Rightarrow> Some s | _ \<Rightarrow> None)"

definition json_get :: "Value \<Rightarrow> string \<Rightarrow> Value option" where
  "json_get v k = Option.bind (as_object v) (\<lambda>m. bt_get m k)"

text \<open>\<open>Value::pointer\<close> for a pointer of two names, and \<open>data[k] = v\<close> on an object.\<close>

definition json_pointer2 :: "Value \<Rightarrow> string \<Rightarrow> string \<Rightarrow> Value option" where
  "json_pointer2 v a b = Option.bind (json_get v a) (\<lambda>w. json_get w b)"

definition json_set :: "string \<Rightarrow> Value \<Rightarrow> Value \<Rightarrow> Value" where
  "json_set k x v = (case v of JObject m \<Rightarrow> JObject (bt_insert k x m) | _ \<Rightarrow> v)"

definition is_object :: "Value \<Rightarrow> bool" where
  "is_object v \<longleftrightarrow> as_object v \<noteq> None"

lemma json_get_set: "json_get (json_set k x v) j = (if is_object v \<and> j = k then Some x else json_get v j)"
  by (cases v) (simp_all add: json_get_def json_set_def as_object_def is_object_def bt.get_insert)

lemma is_object_simps [simp]: "is_object (JObject m)" "is_object (json_set k x v) = is_object v" "is_object (json_object kvs)"
  by (cases v; simp add: is_object_def json_set_def as_object_def json_object_def)+

lemma json_get_object [simp]: "json_get (JObject m) k = bt_get m k"
  by (simp add: json_get_def as_object_def)

lemma bt_get_fold:
  "bt_get (fold (\<lambda>(k, v). bt_insert k v) kvs m) k =
     (case map_of (rev kvs) k of Some v \<Rightarrow> Some v | None \<Rightarrow> bt_get m k)"
  by (induction kvs arbitrary: m)
    (auto simp: bt.get_insert map_add_def split: option.splits)

lemma json_get_json_object: "json_get (json_object kvs) k = map_of (rev kvs) k"
  by (simp add: json_object_def bt_get_fold split: option.splits)

lemma json_object_single: "json_object [(k, v)] = JObject [(k, v)]"
  by (simp add: json_object_def)

text \<open>What \<open>serde_json\<close> documents of a value that is an object: its compact text begins and ends
  with a brace, is UTF-8, and parses back to the value.\<close>

definition json_faithful :: "(string \<Rightarrow> string + Value) \<Rightarrow> (Value \<Rightarrow> string + string) \<Rightarrow> Value \<Rightarrow> bool" where
  "json_faithful json_parse json_print v \<longleftrightarrow>
     (case json_print v of
        Inl _ \<Rightarrow> False
      | Inr t \<Rightarrow> json_parse t = Inr v \<and> utf8_valid t \<and> t \<noteq> [] \<and> hd t = CHR ''{'' \<and> last t = CHR ''}'')"

text \<open>\<open>serde_json\<close> refuses text whose arrays and objects nest more than 127 deep, and without its feature
  \<open>float_roundtrip\<close> a float may be read back one unit off. \<open>json_exact k\<close> is a value without floats that
  nests at most \<open>k\<close> levels; on such objects, for \<open>k = 127\<close>, printing and parsing is documented to be faithful.\<close>

definition number_exact :: "Number \<Rightarrow> bool" where
  "number_exact n = (case n of PosInt k \<Rightarrow> k < 2 ^ 64 | NegInt i \<Rightarrow> - (2 ^ 63) \<le> i \<and> i < 0 | Float _ \<Rightarrow> False)"

fun json_exact :: "nat \<Rightarrow> Value \<Rightarrow> bool" where
  "json_exact k (JNumber n) = number_exact n"
| "json_exact k (JArray vs) = (0 < k \<and> list_all (json_exact (k - 1)) vs)"
| "json_exact k (JObject m) = (0 < k \<and> list_all (\<lambda>p. json_exact (k - 1) (snd p)) m)"
| "json_exact k v = True"

definition SERDE_DEPTH :: nat where "SERDE_DEPTH = 127"

definition serde_reproduces :: "(string \<Rightarrow> string + Value) \<Rightarrow> (Value \<Rightarrow> string + string) \<Rightarrow> Value \<Rightarrow> bool" where
  "serde_reproduces json_parse json_print v \<longleftrightarrow>
     (is_object v \<and> json_exact SERDE_DEPTH v \<longrightarrow> json_faithful json_parse json_print v)"

lemma json_faithfulE:
  assumes "json_faithful json_parse json_print v"
  obtains t where "json_print v = Inr t" "json_parse t = Inr v" "utf8_valid t" "prefix ''{'' t" "trim t = t" "trim_start t = t"
proof -
  obtain t where t: "json_print v = Inr t" "json_parse t = Inr v" "utf8_valid t" "t \<noteq> []" "hd t = CHR ''{''" "last t = CHR ''}''"
    using assms by (auto simp: json_faithful_def split: sum.splits)
  have p: "prefix ''{'' t" using t(4,5) by (cases t) auto
  have q: "\<exists>u. rev t = CHR ''}'' # u" using t(4,6) by (cases t rule: rev_cases) auto
  have start: "trim_start t = t" unfolding trim_start_def
    using t(4,5) by (intro strip_any_stop) (cases t, auto simp: unicode_ws_def)
  moreover have "trim_end t = t"
  proof -
    have "strip_any (map rev unicode_ws) (rev t) = rev t"
      using q by (intro strip_any_stop) (auto simp: unicode_ws_def)
    then show ?thesis by (simp add: trim_end_def)
  qed
  ultimately have "trim t = t" by (simp add: trim_def)
  then show thesis using that t p start by blast
qed

section \<open>XML elements\<close>

datatype xelem =
  XElem (xname: string) (xtext: "string option") (xattrs: "((string \<times> string) \<times> string) list") (xkids: "xelem list")

definition xattr :: "xelem \<Rightarrow> string \<Rightarrow> string \<Rightarrow> string option" where
  "xattr x ns n = map_of (xattrs x) (ns, n)"

text \<open>\<open>Node::descendants\<close> restricted to elements: the element itself, then its descendants in
  document order.\<close>

fun descendants :: "xelem \<Rightarrow> xelem list" where
  "descendants (XElem n t a ks) = XElem n t a ks # concat (map descendants ks)"

fun xdepth :: "xelem \<Rightarrow> nat" where
  "xdepth (XElem n t a ks) = Suc (fold max (map xdepth ks) 0)"

end
