(* ===== verification/Xml_Text.thy ===== *)
theory Xml_Text
  imports Gateway_Prelude
begin

text \<open>
  Scanning XML as text. Before \<open>roxmltree\<close> may build a tree, two crates bound the element
  nesting on the raw bytes: \<open>oa-gateway-agra/src/lib.rs\<close> and \<open>oa-gateway-uci/src/xml.rs\<close>. This
  theory holds the helpers both scans are made of, a grammar of well-formed documents, and the
  locale \<open>nesting_scanner\<close>: a scan that treats each construct as the locale says decides
  exactly whether a document nests too deeply. Each crate's scan is an interpretation of it.
\<close>

section \<open>Helpers of the scans\<close>

text \<open>\<open>body.windows(n).position(|w| w == close)\<close>.\<close>

fun find_sub :: "bytes \<Rightarrow> bytes \<Rightarrow> nat option" where
  "find_sub pat [] = (if pat = [] then Some 0 else None)"
| "find_sub pat (c # s) = (if prefix pat (c # s) then Some 0 else map_option Suc (find_sub pat s))"

definition skip_past :: "bytes \<Rightarrow> bytes \<Rightarrow> bytes \<Rightarrow> nat option" where
  "skip_past rest open_tag close_tag =
     (if \<not> prefix open_tag rest then None
      else let body = drop (length open_tag) rest;
               e = (case find_sub close_tag body of None \<Rightarrow> length body | Some p \<Rightarrow> p + length close_tag)
           in Some (length open_tag + e))"

fun scan_tag :: "char option \<Rightarrow> char \<Rightarrow> bytes \<Rightarrow> nat \<times> bool" where
  "scan_tag q prev [] = (0, False)"
| "scan_tag q prev (c # s) =
     (case q of
        Some d \<Rightarrow> (case scan_tag (if c = d then None else Some d) c s of (n, b) \<Rightarrow> (Suc n, b))
      | None \<Rightarrow>
          (if c = QUOTE \<or> c = CHR 0x27 then (case scan_tag (Some c) c s of (n, b) \<Rightarrow> (Suc n, b))
           else if c = CHR ''>'' then (1, prev = CHR ''/'')
           else (case scan_tag None c s of (n, b) \<Rightarrow> (Suc n, b))))"

definition scan_start_tag :: "bytes \<Rightarrow> nat \<times> bool" where
  "scan_start_tag rest = scan_tag None NUL rest"

definition through_gt :: "bytes \<Rightarrow> nat" where
  "through_gt rest = (case position (\<lambda>c. c = CHR ''>'') rest of None \<Rightarrow> length rest | Some p \<Rightarrow> p + 1)"

section \<open>Where constructs end\<close>

lemma find_sub_Some_append: "find_sub pat s = Some n \<Longrightarrow> pat \<noteq> [] \<Longrightarrow> find_sub pat (s @ t) = Some n"
proof (induction s arbitrary: n)
  case (Cons c s)
  show ?case
  proof (cases "prefix pat (c # s)")
    case True
    then have "prefix pat ((c # s) @ t)" by (rule prefix_prefix)
    then show ?thesis using Cons.prems True by simp
  next
    case False
    then obtain m where m: "find_sub pat s = Some m" "n = Suc m" using Cons.prems by auto
    have "length pat \<le> length s"
      using m(1) by (induction s arbitrary: m) (auto split: if_splits dest: prefix_length_le)
    then have "\<not> prefix pat (c # s @ t)"
      using False by (metis append_Cons le_SucI length_Cons prefix_length_prefix prefixI)
    then show ?thesis using Cons.IH [OF m(1)] Cons.prems m by simp
  qed
qed simp

text \<open>A body that its closing delimiter ends, and not earlier.\<close>

definition closed_by :: "bytes \<Rightarrow> bytes \<Rightarrow> bool" where
  "closed_by close_tag b \<longleftrightarrow> find_sub close_tag (b @ close_tag) = Some (length b)"

lemma skip_past_closed:
  assumes "closed_by cl b" "cl \<noteq> []"
  shows "skip_past (op_tag @ b @ cl @ s) op_tag cl = Some (length op_tag + length b + length cl)"
  using find_sub_Some_append [OF assms(1) [unfolded closed_by_def] assms(2), of s]
  by (simp add: skip_past_def)

lemma skip_past_other: "\<not> prefix op_tag s \<Longrightarrow> skip_past s op_tag cl = None"
  by (simp add: skip_past_def)

lemma through_gt_name: "CHR ''>'' \<notin> set n \<Longrightarrow> through_gt (n @ CHR ''>'' # s) = length n + 1"
  unfolding through_gt_def by (subst position_append) auto

lemma decl_not_open:
  assumes "CHR ''>'' \<notin> set b" "\<not> prefix p b" "CHR ''>'' \<notin> set p"
  shows "\<not> prefix p (b @ CHR ''>'' # s)"
  using assms by (auto simp: prefix_append prefix_Cons)

text \<open>The quoting state after a piece of a start tag; \<open>None\<close> once an unquoted \<open>>\<close> is met.\<close>

fun tag_run :: "char option \<Rightarrow> bytes \<Rightarrow> char option option" where
  "tag_run q [] = Some q"
| "tag_run q (c # s) =
     (case q of
        Some d \<Rightarrow> tag_run (if c = d then None else Some d) s
      | None \<Rightarrow> (if c = QUOTE \<or> c = CHR 0x27 then tag_run (Some c) s
                 else if c = CHR ''>'' then None
                 else tag_run None s))"

definition tag_ok :: "bytes \<Rightarrow> bool" where
  "tag_ok t \<longleftrightarrow> t \<noteq> [] \<and> hd t \<notin> {CHR ''!'', CHR ''?'', CHR ''/''} \<and> last t \<noteq> CHR ''/'' \<and> tag_run None t = Some None"

lemma scan_tag_run:
  "tag_run q t = Some None \<Longrightarrow> scan_tag q p (t @ CHR ''>'' # s) = (length t + 1, last (p # t) = CHR ''/'')"
proof (induction t arbitrary: q p)
  case (Cons c t)
  then show ?case by (cases q) (auto split: if_splits)
qed simp

lemma tag_run_append: "tag_run q s = Some r \<Longrightarrow> tag_run q (s @ t) = tag_run r t"
proof (induction s arbitrary: q)
  case (Cons c s)
  then show ?case by (cases q) (auto split: if_splits)
qed simp

lemma scan_open: "tag_ok t \<Longrightarrow> scan_start_tag (t @ CHR ''>'' # s) = (length t + 1, False)"
  using scan_tag_run [of None t NUL s] by (simp add: tag_ok_def scan_start_tag_def)

lemma scan_empty: "tag_ok t \<Longrightarrow> scan_start_tag (t @ CHR ''/'' # CHR ''>'' # s) = (length t + 2, True)"
  using scan_tag_run [of None "t @ ''/''" NUL s] tag_run_append [of None t None "''/''"]
  by (simp add: tag_ok_def scan_start_tag_def)

section \<open>Documents\<close>

text \<open>The grammar contains every well-formed document whose markup declarations hold no \<open>>\<close>; the
  name of an end tag may be any. A \<open>Doctype\<close> has what comes before the internal subset, and the
  declarations of the subset, each with the white space that follows it; with none it has no subset.\<close>

datatype xitem =
    Chars bytes
  | Comment bytes
  | CData bytes
  | Doctype bytes "(bytes \<times> bytes) list"
  | PI bytes
  | Empty bytes
  | Elem bytes "xitem list" bytes

fun item_text :: "xitem \<Rightarrow> bytes" where
  "item_text (Chars t) = t"
| "item_text (Comment b) = ''<!--'' @ b @ ''-->''"
| "item_text (CData b) = ''<![CDATA['' @ b @ '']]>''"
| "item_text (Doctype h ds) = ''<!DOCTYPE'' @ h @
     (if ds = [] then [] else ''['' @ concat (map (\<lambda>(d, w). ''<!'' @ d @ ''>'' @ w) ds) @ '']'') @ ''>''"
| "item_text (PI b) = ''<?'' @ b @ ''?>''"
| "item_text (Empty t) = ''<'' @ t @ ''/>''"
| "item_text (Elem t ks n) = ''<'' @ t @ ''>'' @ concat (map item_text ks) @ ''</'' @ n @ ''>''"

fun decl_wf :: "bytes \<times> bytes \<Rightarrow> bool" where
  "decl_wf (d, w) \<longleftrightarrow> CHR ''>'' \<notin> set d \<and> \<not> prefix ''--'' d \<and> \<not> prefix ''[CDATA['' d \<and> CHR ''<'' \<notin> set w"

fun item_wf :: "bool \<Rightarrow> xitem \<Rightarrow> bool" where
  "item_wf cd (Chars t) = (CHR ''<'' \<notin> set t)"
| "item_wf cd (Comment b) = closed_by ''-->'' b"
| "item_wf cd (CData b) = (cd \<and> closed_by '']]>'' b)"
| "item_wf cd (Doctype h ds) = (CHR ''>'' \<notin> set h \<and> list_all decl_wf ds)"
| "item_wf cd (PI b) = closed_by ''?>'' b"
| "item_wf cd (Empty t) = tag_ok t"
| "item_wf cd (Elem t ks n) = (tag_ok t \<and> CHR ''>'' \<notin> set n \<and> list_all (item_wf cd) ks)"

fun item_depth :: "xitem \<Rightarrow> nat" where
  "item_depth (Empty t) = 1"
| "item_depth (Elem t ks n) = Suc (Max (insert 0 (set (map item_depth ks))))"
| "item_depth _ = 0"

definition doc_text :: "xitem list \<Rightarrow> bytes" where
  "doc_text its = concat (map item_text its)"

definition doc_depth :: "xitem list \<Rightarrow> nat" where
  "doc_depth its = Max (insert 0 (set (map item_depth its)))"

lemma less_add_Max:
  fixes A :: "nat set"
  assumes "finite A" "A \<noteq> {}"
  shows "l < d + Max A \<longleftrightarrow> (\<exists>x \<in> A. l < d + x)"
proof
  show "l < d + Max A \<Longrightarrow> \<exists>x \<in> A. l < d + x"
    using Max_in [OF assms] by blast
  assume "\<exists>x \<in> A. l < d + x"
  then obtain x where x: "x \<in> A" "l < d + x" by blast
  have "x \<le> Max A" using assms x(1) by simp
  then show "l < d + Max A" using x(2) by linarith
qed

locale nesting_scanner =
  fixes scan :: "nat \<Rightarrow> nat \<Rightarrow> bytes \<Rightarrow> bool" and cdata :: bool
  assumes scan_Nil: "scan l d [] = False"
    and scan_char: "c \<noteq> CHR ''<'' \<Longrightarrow> scan l d (c # s) = scan l d s"
    and scan_comment: "closed_by ''-->'' b \<Longrightarrow> scan l d (''<!--'' @ b @ ''-->'' @ s) = scan l d s"
    and scan_pi: "closed_by ''?>'' b \<Longrightarrow> scan l d (''<?'' @ b @ ''?>'' @ s) = scan l d s"
    and scan_cdata: "cdata \<Longrightarrow> closed_by '']]>'' b \<Longrightarrow> scan l d (''<![CDATA['' @ b @ '']]>'' @ s) = scan l d s"
    and scan_decl: "CHR ''>'' \<notin> set b \<Longrightarrow> \<not> prefix ''--'' b \<Longrightarrow> \<not> prefix ''[CDATA['' b \<Longrightarrow>
      scan l d (''<!'' @ b @ ''>'' @ s) = scan l d s"
    and scan_empty_tag: "tag_ok t \<Longrightarrow> scan l d (''<'' @ t @ ''/>'' @ s) = (l < d + 1 \<or> scan l d s)"
    and scan_start: "tag_ok t \<Longrightarrow> scan l d (''<'' @ t @ ''>'' @ s) = (l < d + 1 \<or> scan l (d + 1) s)"
    and scan_end: "CHR ''>'' \<notin> set n \<Longrightarrow> scan l d (''</'' @ n @ ''>'' @ s) = scan l (d - 1) s"
begin

lemma scan_chars: "CHR ''<'' \<notin> set t \<Longrightarrow> scan l d (t @ s) = scan l d s"
  by (induction t) (auto simp: scan_char)

lemma scan_decls:
  "list_all decl_wf ds \<Longrightarrow> scan l d (concat (map (\<lambda>(b, w). ''<!'' @ b @ ''>'' @ w) ds) @ s) = scan l d s"
proof (induction ds)
  case (Cons x ds)
  obtain b w where x: "x = (b, w)" by fastforce
  then show ?case
    using Cons scan_decl [of b l d] scan_chars [of w l d] by simp
qed simp

lemma scan_doctype:
  assumes "item_wf cd (Doctype h ds)"
  shows "scan l d (item_text (Doctype h ds) @ s) = scan l d s"
proof (cases ds)
  case Nil
  then show ?thesis using assms scan_decl [of "''DOCTYPE'' @ h" l d s] by simp
next
  case (Cons x ds')
  obtain b w where x: "x = (b, w)" by fastforce
  have "scan l d (item_text (Doctype h ds) @ s) =
      scan l d (w @ concat (map (\<lambda>(b, w). ''<!'' @ b @ ''>'' @ w) ds') @ '']>'' @ s)"
    using assms Cons x scan_decl [of "''DOCTYPE'' @ h @ ''[<!'' @ b" l d] by simp
  also have "\<dots> = scan l d ('']>'' @ s)"
    using assms Cons x scan_chars [of w l d] scan_decls [of ds' l d "'']>'' @ s"] by simp
  finally show ?thesis using scan_chars [of "'']>''" l d s] by simp
qed

lemma scan_item:
  "item_wf cdata i \<Longrightarrow> scan l d (item_text i @ s) = (l < d + item_depth i \<and> 0 < item_depth i \<or> scan l d s)"
proof (induction i arbitrary: d s)
  case (Elem t ks n)
  have kids: "scan l (d + 1) (concat (map item_text ks') @ s') =
      ((\<exists>k \<in> set ks'. l < d + 1 + item_depth k \<and> 0 < item_depth k) \<or> scan l (d + 1) s')"
    if "set ks' \<subseteq> set ks" for ks' s'
    using that
  proof (induction ks')
    case (Cons k ks')
    then have "scan l (d + 1) (item_text k @ concat (map item_text ks') @ s') =
      (l < d + 1 + item_depth k \<and> 0 < item_depth k \<or> scan l (d + 1) (concat (map item_text ks') @ s'))"
      using Elem.IH [of k "d + 1"] Elem.prems by (auto simp: list_all_iff)
    then show ?case using Cons by auto
  qed simp
  let ?m = "Max (insert 0 (set (map item_depth ks)))"
  have m: "l < d + 1 \<or> (\<exists>k \<in> set ks. l < d + 1 + item_depth k \<and> 0 < item_depth k) \<longleftrightarrow> l < d + Suc ?m"
  proof -
    have "l < d + Suc ?m \<longleftrightarrow> l < d + 1 + ?m" by simp
    also have "\<dots> \<longleftrightarrow> (\<exists>x \<in> insert 0 (set (map item_depth ks)). l < d + 1 + x)"
      by (rule less_add_Max) simp_all
    finally show ?thesis by auto
  qed
  have "scan l d (item_text (Elem t ks n) @ s) =
    (l < d + 1 \<or> scan l (d + 1) (concat (map item_text ks) @ ''</'' @ n @ ''>'' @ s))"
    using Elem.prems scan_start [of t l d] by simp
  also have "\<dots> = (l < d + Suc ?m \<or> scan l (d + 1) (''</'' @ n @ ''>'' @ s))"
    using kids [of ks "''</'' @ n @ ''>'' @ s"] m by auto
  also have "\<dots> = (l < d + Suc ?m \<or> scan l d s)"
    using Elem.prems scan_end [of n l "d + 1" s] by simp
  finally show ?case by simp
next
  case (Comment b)
  then show ?case using scan_comment [of b l d s] by simp
next
  case (CData b)
  then show ?case using scan_cdata [of b l d s] by simp
next
  case (Doctype h ds)
  then show ?case using scan_doctype by (metis item_depth.simps(6) less_nat_zero_code)
next
  case (PI b)
  then show ?case using scan_pi [of b l d s] by simp
next
  case (Empty t)
  then show ?case using scan_empty_tag [of t l d s] by simp
next
  case (Chars t)
  then show ?case by (simp add: scan_chars)
qed

lemma scan_items:
  "list_all (item_wf cdata) its \<Longrightarrow> scan l 0 (doc_text its) = (l < doc_depth its)"
proof -
  assume wf: "list_all (item_wf cdata) its"
  have "scan l 0 (doc_text its) = (\<exists>i \<in> set its. l < item_depth i)"
    using wf by (induction its) (auto simp: doc_text_def scan_Nil scan_item)
  also have "\<dots> = (l < doc_depth its)"
    by (auto simp: doc_depth_def Max_gr_iff)
  finally show ?thesis .
qed

end

end
