(* ===== verification/Agra.thy ===== *)
theory Agra
  imports Core_Types Json_Value Xml_Text
begin

text \<open>
  A-GRA offboard payload envelopes, \<open>oa-gateway-agra/src/lib.rs\<close>: recognising an Rx/Tx wrapper,
  peeling one, building one, the hand-written \<open>hexBinary\<close> decoder, and the scan that bounds
  element nesting before the XML parser runs. \<open>serde_json\<close> and \<open>roxmltree\<close> are the
  arguments \<open>json_parse\<close>, \<open>json_print\<close> and \<open>xml_parse\<close>; a fresh UUID, already printed, is
  the argument \<open>uuid\<close>.
\<close>

type_synonym json_parser = "string \<Rightarrow> string + Value"
type_synonym json_printer = "Value \<Rightarrow> string + string"
type_synonym xml_parser = "string \<Rightarrow> string + xelem"

section \<open>Names and kinds\<close>

definition RX_ELEMENT :: string where "RX_ELEMENT = ''MA_RxDataPayload''"
definition TX_ELEMENT :: string where "TX_ELEMENT = ''MA_TxDataPayloadCommand''"
definition TX_STATUS_ELEMENT :: string where "TX_STATUS_ELEMENT = ''MA_TxDataPayloadCommandStatus''"

definition HDR_WRAPPER :: string where "HDR_WRAPPER = ''agra.wrapper''"
definition HDR_MESSAGE_TYPE :: string where "HDR_MESSAGE_TYPE = ''agra.message_type''"
definition HDR_ORIGINATOR :: string where "HDR_ORIGINATOR = ''agra.originator_uuid''"
definition HDR_RX_ID :: string where "HDR_RX_ID = ''agra.rx_payload_id''"
definition HDR_COMMAND_ID :: string where "HDR_COMMAND_ID = ''agra.command_id''"
definition HDR_DEST_ROUTING :: string where "HDR_DEST_ROUTING = ''agra.destination_routing''"
definition HDR_INNER_CT :: string where "HDR_INNER_CT = ''agra.inner_content_type''"

lemmas agra_hdr_defs = HDR_WRAPPER_def HDR_MESSAGE_TYPE_def HDR_ORIGINATOR_def HDR_RX_ID_def
  HDR_COMMAND_ID_def HDR_DEST_ROUTING_def HDR_INNER_CT_def

datatype WrapperKind = Rx | Tx

definition element_name :: "WrapperKind \<Rightarrow> string" where
  "element_name k = (case k of Rx \<Rightarrow> RX_ELEMENT | Tx \<Rightarrow> TX_ELEMENT)"

definition from_element :: "string \<Rightarrow> WrapperKind option" where
  "from_element n = (if n = RX_ELEMENT then Some Rx else if n = TX_ELEMENT then Some Tx else None)"

datatype hex_reason = InvalidCharacter char | OddDigits

datatype AgraError =
    NotAWrapper | Json string | MissingField string | BadHex hex_reason | PayloadTooLarge

text \<open>\<open>{:?}\<close> of \<open>char::from(b)\<close>: quoted, with what is not printable escaped, and a byte above 127
  written as the two bytes of its character.\<close>

definition hex_lower :: "nat \<Rightarrow> char" where
  "hex_lower n = (if n < 10 then char_of (48 + n) else char_of (87 + n))"

definition debug_char :: "char \<Rightarrow> string" where
  "debug_char c =
     (let b = byte c;
          body = (if b = 0 then [BSLASH, CHR ''0''] else if b = 9 then [BSLASH, CHR ''t'']
                  else if b = 10 then [BSLASH, CHR ''n''] else if b = 13 then [BSLASH, CHR ''r'']
                  else if b = 39 \<or> b = 92 then [BSLASH, c]
                  else if b < 32 \<or> 127 \<le> b \<and> b \<le> 160 \<or> b = 173 then
                    [BSLASH] @ ''u{'' @ (if b < 16 then [] else [hex_lower (b div 16)]) @ [hex_lower (b mod 16)] @ ''}''
                  else if b < 128 then [c]
                  else [char_of (192 + b div 64), char_of (128 + b mod 64)])
      in [CHR 0x27] @ body @ [CHR 0x27])"

definition show_agra_error :: "AgraError \<Rightarrow> string" where
  "show_agra_error e = (case e of
     NotAWrapper \<Rightarrow> ''not an MA Rx/Tx data-payload wrapper''
   | Json m \<Rightarrow> ''invalid OMS JSON: '' @ m
   | MissingField f \<Rightarrow> ''wrapper missing MessageData.'' @ f
   | BadHex r \<Rightarrow> ''EncodedPayload is not hexBinary: '' @
       (case r of InvalidCharacter c \<Rightarrow> ''invalid character '' @ debug_char c | OddDigits \<Rightarrow> ''odd number of digits'')
   | PayloadTooLarge \<Rightarrow> ''EncodedPayload decodes to more than 8388608 bytes'')"

record WrapperMeta =
  kind :: WrapperKind
  message_type_enum :: string
  originator_uuid :: "string option"
  rx_payload_id :: "string option"
  command_id :: "string option"
  destination_routing :: "string option"

record Unwrapped =
  wrapper :: Envelope
  inner :: Envelope
  meta :: WrapperMeta

section \<open>The nesting scan\<close>

function nesting_scan :: "nat \<Rightarrow> nat \<Rightarrow> bytes \<Rightarrow> bool" where
  "nesting_scan limit depth [] = False"
| "nesting_scan limit depth (c # rest) =
     (if c \<noteq> CHR ''<'' then nesting_scan limit depth rest
      else case skip_past rest ''!--'' ''-->'' of
        Some e \<Rightarrow> nesting_scan limit depth (drop e rest)
      | None \<Rightarrow>
     (case skip_past rest ''?'' ''?>'' of
        Some e \<Rightarrow> nesting_scan limit depth (drop e rest)
      | None \<Rightarrow>
     (if prefix ''!'' rest then nesting_scan limit depth (drop (through_gt rest) rest)
      else if prefix ''/'' rest then nesting_scan limit (depth - 1) (drop (through_gt rest) rest)
      else if depth + 1 > limit then True
      else case scan_start_tag rest of
        (consumed, self_closing) \<Rightarrow>
          nesting_scan limit (if self_closing then depth else depth + 1) (drop consumed rest))))"
  by pat_completeness auto
termination by (relation "measure (\<lambda>(l, d, s). length s)") auto

definition nesting_exceeds :: "string \<Rightarrow> nat \<Rightarrow> bool" where
  "nesting_exceeds text limit = nesting_scan limit 0 text"

definition MAX_WRAPPER_DEPTH :: nat where "MAX_WRAPPER_DEPTH = 64"

definition parse_checked :: "xml_parser \<Rightarrow> string \<Rightarrow> xelem option" where
  "parse_checked xml_parse xml =
     (if nesting_exceeds xml MAX_WRAPPER_DEPTH then None
      else case xml_parse xml of Inl _ \<Rightarrow> None | Inr d \<Rightarrow> Some d)"

definition xml_root_local_name :: "xml_parser \<Rightarrow> string \<Rightarrow> string option" where
  "xml_root_local_name xml_parse xml = map_option xname (parse_checked xml_parse xml)"

section \<open>Looking at a payload\<close>

text \<open>The key of a single-member JSON object.\<close>

definition single_key :: "Value \<Rightarrow> string option" where
  "single_key v = (case as_object v of Some [(k, w)] \<Rightarrow> Some k | _ \<Rightarrow> None)"

definition wrapper_kind :: "json_parser \<Rightarrow> xml_parser \<Rightarrow> bytes \<Rightarrow> WrapperKind option" where
  "wrapper_kind json_parse xml_parse data =
     (if utf8_valid data then
        (let trimmed = trim_start data in
         if prefix ''{'' trimmed then
           (case json_parse trimmed of
              Inl _ \<Rightarrow> None
            | Inr v \<Rightarrow> Option.bind (single_key v) from_element)
         else if prefix ''<'' trimmed then
           Option.bind (xml_root_local_name xml_parse trimmed) from_element
         else None)
      else None)"

definition sniff_inner_content_type :: "bytes \<Rightarrow> ContentType" where
  "sniff_inner_content_type bs =
     (if utf8_valid bs then
        (if prefix ''{'' (trim_start bs) then ct_json
         else if prefix ''<'' (trim_start bs) then ct_xml
         else octet_stream)
      else octet_stream)"

definition type_hint_from_inner :: "json_parser \<Rightarrow> xml_parser \<Rightarrow> bytes \<Rightarrow> string \<Rightarrow> string" where
  "type_hint_from_inner json_parse xml_parse bs enum_name =
     (if utf8_valid bs then
        (let t = trim bs in
         if prefix ''{'' t then
           (case json_parse t of
              Inl _ \<Rightarrow> enum_name
            | Inr v \<Rightarrow> (case single_key v of Some k \<Rightarrow> k | None \<Rightarrow> enum_name))
         else if prefix ''<'' t then
           (case xml_root_local_name xml_parse t of Some n \<Rightarrow> n | None \<Rightarrow> enum_name)
         else enum_name)
      else enum_name)"

section \<open>Hex\<close>

definition MAX_DECODED_PAYLOAD :: nat where "MAX_DECODED_PAYLOAD = 8 * 1024 * 1024"

definition hex_nibble :: "char \<Rightarrow> nat option" where
  "hex_nibble b =
     (if is_ascii_digit b then Some (byte b - 48)
      else if 97 \<le> byte b \<and> byte b \<le> 102 then Some (byte b - 97 + 10)
      else if 65 \<le> byte b \<and> byte b \<le> 70 then Some (byte b - 65 + 10)
      else None)"

fun hex_loop :: "bytes \<Rightarrow> nat option \<Rightarrow> AgraError + bytes" where
  "hex_loop [] high = (if high \<noteq> None then Inl (BadHex OddDigits) else Inr [])"
| "hex_loop (b # s) high =
     (if is_ascii_whitespace b then hex_loop s high
      else case hex_nibble b of
        None \<Rightarrow> Inl (BadHex (InvalidCharacter b))
      | Some nibble \<Rightarrow>
          (case high of
             None \<Rightarrow> hex_loop s (Some nibble)
           | Some hi \<Rightarrow> res_bind (hex_loop s None) (\<lambda>out. Inr (char_of (16 * hi + nibble) # out))))"

definition decode_hex :: "string \<Rightarrow> AgraError + bytes" where
  "decode_hex s =
     (if length s div 2 > MAX_DECODED_PAYLOAD \<and>
         length (filter (\<lambda>b. \<not> is_ascii_whitespace b) s) div 2 > MAX_DECODED_PAYLOAD
      then Inl PayloadTooLarge
      else hex_loop s None)"

text \<open>\<open>hex::encode_upper\<close>.\<close>

definition hex_digit :: "nat \<Rightarrow> char" where
  "hex_digit n = (if n < 10 then char_of (48 + n) else char_of (55 + n))"

definition encode_upper :: "bytes \<Rightarrow> string" where
  "encode_upper bs = concat (map (\<lambda>b. [hex_digit (byte b div 16), hex_digit (byte b mod 16)]) bs)"

section \<open>Envelopes\<close>

definition with_header_opt :: "string \<Rightarrow> string option \<Rightarrow> Envelope \<Rightarrow> Envelope" where
  "with_header_opt k v e = (case v of None \<Rightarrow> e | Some x \<Rightarrow> with_header k x e)"

definition inner_envelope ::
  "MessageId \<Rightarrow> string \<Rightarrow> bytes \<Rightarrow> ContentType \<Rightarrow> string \<Rightarrow> WrapperMeta \<Rightarrow> Envelope" where
  "inner_envelope fresh tp inner_bytes inner_ct inner_hint m =
     (let e0 = with_content_type inner_ct (new_envelope fresh (route_typed tp inner_hint) inner_bytes);
          e1 = with_header HDR_WRAPPER (element_name (kind m)) e0;
          e2 = with_header HDR_MESSAGE_TYPE (message_type_enum m) e1;
          e3 = with_header HDR_INNER_CT (ct_str inner_ct) e2;
          e4 = with_header_opt HDR_ORIGINATOR (originator_uuid m) e3;
          e5 = with_header_opt HDR_RX_ID (rx_payload_id m) e4;
          e6 = with_header_opt HDR_COMMAND_ID (command_id m) e5
      in with_header_opt HDR_DEST_ROUTING (destination_routing m) e6)"

definition json_str :: "Value \<Rightarrow> string \<Rightarrow> AgraError + string" where
  "json_str data field = ok_or (Option.bind (json_get data field) as_str) (MissingField field)"

definition json_uuid :: "Value \<Rightarrow> string \<Rightarrow> string option" where
  "json_uuid data field = Option.bind (json_pointer2 data field ''UUID'') as_str"

text \<open>The two fresh message ids are those of the wrapper and of the inner envelope.\<close>

definition unwrap_json ::
  "json_parser \<Rightarrow> xml_parser \<Rightarrow> MessageId \<times> MessageId \<Rightarrow> string \<Rightarrow> string \<Rightarrow> AgraError + Unwrapped" where
  "unwrap_json json_parse xml_parse ids tp text =
     res_bind (map_err Json (json_parse text)) (\<lambda>root.
     res_bind (ok_or (as_object root) (Json ''root must be an object'')) (\<lambda>obj.
     (case obj of
        [(name, b)] \<Rightarrow>
          res_bind (ok_or (from_element name) NotAWrapper) (\<lambda>k.
          res_bind (ok_or (json_get b ''MessageData'') (MissingField ''MessageData'')) (\<lambda>data.
          res_bind (json_str data ''MessageType'') (\<lambda>mt.
          res_bind (json_str data ''EncodedPayload'') (\<lambda>hex_payload.
          res_bind (decode_hex hex_payload) (\<lambda>inner_bytes.
          let m = \<lparr>kind = k, message_type_enum = mt,
                originator_uuid = json_uuid data ''DataPayloadOriginatorID'',
                rx_payload_id = json_uuid data ''RxDataPayloadID'',
                command_id = json_uuid data ''CommandID'',
                destination_routing = Option.bind (json_get data ''DestinationRouting'') as_str\<rparr>
          in Inr \<lparr>wrapper = with_content_type ct_json (new_envelope (fst ids) (route_typed tp (element_name k)) text),
                inner = inner_envelope (snd ids) tp inner_bytes (sniff_inner_content_type inner_bytes)
                          (type_hint_from_inner json_parse xml_parse inner_bytes mt) m,
                meta = m\<rparr>)))))
      | _ \<Rightarrow> Inl NotAWrapper)))"

definition local_text :: "xelem \<Rightarrow> string \<Rightarrow> string option" where
  "local_text node local =
     Option.bind (find (\<lambda>n. xname n = local) (descendants node)) xtext"

definition nested_uuid :: "xelem \<Rightarrow> string \<Rightarrow> string option" where
  "nested_uuid node parent_local =
     Option.bind (find (\<lambda>n. xname n = parent_local) (descendants node)) (\<lambda>p. local_text p ''UUID'')"

definition unwrap_xml ::
  "json_parser \<Rightarrow> xml_parser \<Rightarrow> MessageId \<times> MessageId \<Rightarrow> string \<Rightarrow> string \<Rightarrow> AgraError + Unwrapped" where
  "unwrap_xml json_parse xml_parse ids tp text =
     res_bind (ok_or (parse_checked xml_parse text) NotAWrapper) (\<lambda>root.
     res_bind (ok_or (from_element (xname root)) NotAWrapper) (\<lambda>k.
     res_bind (ok_or (local_text root ''MessageType'') (MissingField ''MessageType'')) (\<lambda>mt.
     res_bind (ok_or (local_text root ''EncodedPayload'') (MissingField ''EncodedPayload'')) (\<lambda>hex_payload.
     res_bind (decode_hex (trim hex_payload)) (\<lambda>inner_bytes.
     let m = \<lparr>kind = k, message_type_enum = mt,
           originator_uuid = nested_uuid root ''DataPayloadOriginatorID'',
           rx_payload_id = nested_uuid root ''RxDataPayloadID'',
           command_id = nested_uuid root ''CommandID'',
           destination_routing = local_text root ''DestinationRouting''\<rparr>
     in Inr \<lparr>wrapper = with_content_type ct_xml (new_envelope (fst ids) (route_typed tp (element_name k)) text),
           inner = inner_envelope (snd ids) tp inner_bytes (sniff_inner_content_type inner_bytes)
                     (type_hint_from_inner json_parse xml_parse inner_bytes mt) m,
           meta = m\<rparr>)))))"

definition unwrap ::
  "json_parser \<Rightarrow> xml_parser \<Rightarrow> MessageId \<times> MessageId \<Rightarrow> string \<Rightarrow> bytes \<Rightarrow> AgraError + Unwrapped" where
  "unwrap json_parse xml_parse ids tp data =
     (if \<not> utf8_valid data then Inl (Json ''wrapper payload is not UTF-8'')
      else let trimmed = trim data in
           if prefix ''{'' trimmed then unwrap_json json_parse xml_parse ids tp trimmed
           else if prefix ''<'' trimmed then unwrap_xml json_parse xml_parse ids tp trimmed
           else Inl NotAWrapper)"

section \<open>Building wrappers\<close>

definition uuid_object :: "string \<Rightarrow> Value" where
  "uuid_object u = json_object [(''UUID'', JString u)]"

definition json_set_opt :: "string \<Rightarrow> (string \<Rightarrow> Value) \<Rightarrow> string option \<Rightarrow> Value \<Rightarrow> Value" where
  "json_set_opt k f v data = (case v of None \<Rightarrow> data | Some x \<Rightarrow> json_set k (f x) data)"

definition minimal_root :: "WrapperMeta \<Rightarrow> bytes \<Rightarrow> Value" where
  "minimal_root m inner_bytes =
     (let d0 = json_object [(''MessageType'', JString (message_type_enum m)),
                            (''EncodedPayload'', JString (encode_upper inner_bytes))];
          d1 = json_set_opt ''DataPayloadOriginatorID'' uuid_object (originator_uuid m) d0;
          d2 = json_set_opt ''RxDataPayloadID'' uuid_object (rx_payload_id m) d1;
          d3 = json_set_opt ''CommandID'' uuid_object (command_id m) d2;
          d4 = json_set_opt ''DestinationRouting'' JString (destination_routing m) d3
      in json_object [(element_name (kind m), json_object [(''MessageData'', d4)])])"

definition minimal_wrapper_json :: "json_printer \<Rightarrow> WrapperMeta \<Rightarrow> bytes \<Rightarrow> AgraError + bytes" where
  "minimal_wrapper_json json_print m inner_bytes = map_err Json (json_print (minimal_root m inner_bytes))"

definition unwrapped_from_parts ::
  "json_parser \<Rightarrow> xml_parser \<Rightarrow> json_printer \<Rightarrow> MessageId \<times> MessageId \<Rightarrow> string \<Rightarrow> WrapperMeta \<Rightarrow> bytes \<Rightarrow>
     AgraError + Unwrapped" where
  "unwrapped_from_parts json_parse xml_parse json_print ids tp m encoded =
     (if length encoded > MAX_DECODED_PAYLOAD then Inl PayloadTooLarge
      else res_bind (minimal_wrapper_json json_print m encoded) (\<lambda>wrapper_json.
        Inr \<lparr>wrapper = with_content_type ct_json
               (new_envelope (fst ids) (route_typed tp (element_name (kind m))) wrapper_json),
             inner = inner_envelope (snd ids) tp encoded (sniff_inner_content_type encoded)
               (type_hint_from_inner json_parse xml_parse encoded (message_type_enum m)) m,
             meta = m\<rparr>))"

record WrapShell =
  security_information :: Value
  message_header :: Value

record WrapRequest =
  req_topic :: string
  req_kind :: WrapperKind
  req_inner :: bytes
  req_message_type_enum :: string
  shell :: WrapShell
  req_destination_routing :: string
  req_originator_uuid :: "string option"
  specific_destination_uuids :: "string list"
  timestamp :: string
  priority :: nat
  precedence :: nat

definition nil_uuid :: string where
  "nil_uuid = ''00000000-0000-0000-0000-000000000000''"

definition wrap_data :: "string \<Rightarrow> WrapRequest \<Rightarrow> Value" where
  "wrap_data uuid req =
     (let encoded = encode_upper (req_inner req);
          ranking = json_object [(''Priority'', JNumber (PosInt (priority req))),
                                 (''PrecedenceWithinPriority'', JNumber (PosInt (precedence req)))];
          destinations = map uuid_object (specific_destination_uuids req);
          data = (case req_kind req of
              Rx \<Rightarrow> json_object
                [(''RxDataPayloadID'', uuid_object uuid),
                 (''DataPayloadOriginatorID'',
                    uuid_object (case req_originator_uuid req of Some o' \<Rightarrow> o' | None \<Rightarrow> nil_uuid)),
                 (''EncodedPayload'', JString encoded),
                 (''Timestamp'', JString (timestamp req)),
                 (''MessageType'', JString (req_message_type_enum req)),
                 (''DestinationRouting'', JString (req_destination_routing req))]
            | Tx \<Rightarrow> json_object
                [(''CommandID'', uuid_object uuid),
                 (''CommandState'', JString ''NEW''),
                 (''EncodedPayload'', JString encoded),
                 (''MessageType'', JString (req_message_type_enum req)),
                 (''Priority'', ranking),
                 (''Timestamp'', JString (timestamp req)),
                 (''DestinationRouting'', JString (req_destination_routing req))]);
          data1 = (if req_kind req = Rx then json_set ''Priority'' ranking data else data)
      in if destinations \<noteq> [] then json_set ''SpecificDestinationID'' (JArray destinations) data1 else data1)"

definition wrap_root :: "string \<Rightarrow> WrapRequest \<Rightarrow> Value" where
  "wrap_root uuid req =
     json_object [(element_name (req_kind req), json_object
       [(''SecurityInformation'', security_information (shell req)),
        (''MessageHeader'', message_header (shell req)),
        (''MessageData'', wrap_data uuid req)])]"

definition wrap :: "json_printer \<Rightarrow> MessageId \<Rightarrow> string \<Rightarrow> WrapRequest \<Rightarrow> AgraError + Envelope" where
  "wrap json_print fresh uuid req =
     res_bind (map_err Json (json_print (wrap_root uuid req))) (\<lambda>text.
       Inr (with_content_type ct_json
         (new_envelope fresh (route_typed (req_topic req) (element_name (req_kind req))) text)))"

fun enum_loop :: "string \<Rightarrow> char option \<Rightarrow> string \<Rightarrow> string" where
  "enum_loop [] prev out = out"
| "enum_loop (ch # s) prev out =
     (if ch = CHR ''_'' then enum_loop s (Some CHR ''_'') (out @ ''_'')
      else
        (let out1 = (if is_ascii_uppercase ch \<and> (case prev of None \<Rightarrow> False | Some p \<Rightarrow> is_ascii_lowercase p)
                        \<and> \<not> suffix ''_'' out
                     then out @ ''_'' else out)
         in enum_loop s (Some ch) (out1 @ [to_ascii_uppercase ch])))"

definition element_to_enum :: "string \<Rightarrow> string" where
  "element_to_enum name = enum_loop name None []"

section \<open>Hex\<close>

lemma byte_hex_digit: "n < 16 \<Longrightarrow> byte (hex_digit n) = (if n < 10 then 48 + n else 55 + n)"
  by (simp add: hex_digit_def)

lemma hex_nibble_iff: "hex_nibble c = Some n \<longleftrightarrow> n < 16 \<and> to_ascii_uppercase c = hex_digit n"
proof -
  have up: "byte (to_ascii_uppercase c) = (if 97 \<le> byte c \<and> byte c \<le> 122 then byte c - 32 else byte c)"
  proof -
    have "byte c - 32 < 256" using byte_less [of c] by linarith
    then show ?thesis by (simp add: to_ascii_uppercase_def is_ascii_lowercase_def)
  qed
  have "n < 16 \<and> to_ascii_uppercase c = hex_digit n \<longleftrightarrow>
    n < 16 \<and> byte (to_ascii_uppercase c) = (if n < 10 then 48 + n else 55 + n)"
    using byte_hex_digit [of n] byte_eq_iff [of "to_ascii_uppercase c" "hex_digit n"] by auto
  then show ?thesis
    unfolding up by (auto simp: hex_nibble_def is_ascii_digit_def split: if_splits)
qed

lemma hex_digit_inj: "i < 16 \<Longrightarrow> j < 16 \<Longrightarrow> hex_digit i = hex_digit j \<longleftrightarrow> i = j"
proof
  assume ij: "i < 16" "j < 16" "hex_digit i = hex_digit j"
  have "(if i < 10 then 48 + i else 55 + i) = (if j < 10 then 48 + j else 55 + j)"
    using byte_hex_digit [OF ij(1)] byte_hex_digit [OF ij(2)] unfolding ij(3) by (rule trans [OF sym])
  then show "i = j" by (auto split: if_splits)
qed simp

lemma div16: "byte b div 16 < 16"
  using byte_less [of b] by (simp add: less_mult_imp_div_less)

lemma hex_pair_inj:
  assumes "h < 16" "n < 16"
  shows "hex_digit h = hex_digit (byte b div 16) \<and> hex_digit n = hex_digit (byte b mod 16) \<longleftrightarrow> b = char_of (16 * h + n)"
proof -
  have lt: "16 * h + n < 256" using assms by simp
  have "hex_digit h = hex_digit (byte b div 16) \<and> hex_digit n = hex_digit (byte b mod 16) \<longleftrightarrow>
      h = byte b div 16 \<and> n = byte b mod 16"
    using assms div16 [of b] by (simp add: hex_digit_inj)
  also have "\<dots> \<longleftrightarrow> byte b = 16 * h + n" using assms by auto
  also have "\<dots> \<longleftrightarrow> b = char_of (16 * h + n)"
    using byte_char_of [OF lt] byte_eq_iff [of b "char_of (16 * h + n)"] by simp
  finally show ?thesis .
qed

lemma encode_upper_simps [simp]:
  "encode_upper [] = []"
  "encode_upper (b # bs) = hex_digit (byte b div 16) # hex_digit (byte b mod 16) # encode_upper bs"
  by (simp_all add: encode_upper_def)

lemma length_encode_upper [simp]: "length (encode_upper bs) = 2 * length bs"
  by (induction bs) auto

lemma encode_upper_digit: "c \<in> set (encode_upper bs) \<Longrightarrow> \<exists>n < 16. c = hex_digit n"
proof (induction bs)
  case (Cons b bs)
  have "byte b mod 16 < 16" by simp
  then show ?case using Cons div16 [of b] by (auto simp del: mod_less_divisor)
qed simp

definition pending :: "nat option \<Rightarrow> bytes" where
  "pending high = (case high of None \<Rightarrow> [] | Some h \<Rightarrow> [hex_digit h])"

lemma hex_loop_iff:
  assumes "\<And>h. high = Some h \<Longrightarrow> h < 16"
  shows "hex_loop s high = Inr out \<longleftrightarrow>
    pending high @ map to_ascii_uppercase (filter (\<lambda>b. \<not> is_ascii_whitespace b) s) = encode_upper out"
  using assms
proof (induction s arbitrary: high out)
  case Nil
  then show ?case by (cases high; cases out) (auto simp: pending_def)
next
  case (Cons b s)
  let ?u = "map to_ascii_uppercase (filter (\<lambda>b. \<not> is_ascii_whitespace b) s)"
  consider (ws) "is_ascii_whitespace b"
    | (bad) "\<not> is_ascii_whitespace b" "hex_nibble b = None"
    | (nib) n where "\<not> is_ascii_whitespace b" "hex_nibble b = Some n" "n < 16" "to_ascii_uppercase b = hex_digit n"
    using hex_nibble_iff by blast
  then show ?case
  proof cases
    case ws
    then show ?thesis using Cons by simp
  next
    case bad
    then have "to_ascii_uppercase b \<notin> set (encode_upper out)"
      using encode_upper_digit hex_nibble_iff by (metis option.distinct(1))
    moreover have "to_ascii_uppercase b \<in> set (pending high @ to_ascii_uppercase b # ?u)" by simp
    ultimately have "pending high @ to_ascii_uppercase b # ?u \<noteq> encode_upper out" by metis
    then show ?thesis using bad by simp
  next
    case nib
    show ?thesis
    proof (cases high)
      case None
      then show ?thesis using nib Cons.IH [of "Some n"] by (simp add: pending_def)
    next
      case (Some h)
      then have h: "h < 16" using Cons.prems by blast
      have "hex_loop (b # s) high = Inr out \<longleftrightarrow>
        (\<exists>o'. hex_loop s None = Inr o' \<and> out = char_of (16 * h + n) # o')"
        using nib Some by (auto simp: res_bind_Inr)
      also have "\<dots> \<longleftrightarrow> (\<exists>o'. ?u = encode_upper o' \<and> out = char_of (16 * h + n) # o')"
        using Cons.IH [of None] by (simp add: pending_def)
      also have "\<dots> \<longleftrightarrow> hex_digit h # hex_digit n # ?u = encode_upper out"
        using hex_pair_inj [OF h nib(3)] by (cases out) auto
      finally show ?thesis using nib Some by (simp add: pending_def)
    qed
  qed
qed

text \<open>The hex decoder is exact. It returns \<open>out\<close> precisely when the characters of its input
  other than white space are, up to letter case, the upper-case hex encoding of \<open>out\<close>, and
  \<open>out\<close> is within the payload limit: nothing else is accepted, and nothing that is legal is
  refused.\<close>

theorem decode_hex_exact:
  "decode_hex s = Inr out \<longleftrightarrow>
     map to_ascii_uppercase (filter (\<lambda>b. \<not> is_ascii_whitespace b) s) = encode_upper out \<and>
     length out \<le> MAX_DECODED_PAYLOAD"
proof -
  let ?d = "filter (\<lambda>b. \<not> is_ascii_whitespace b) s"
  have loop: "hex_loop s None = Inr out \<longleftrightarrow> map to_ascii_uppercase ?d = encode_upper out"
    using hex_loop_iff [of None s out] by (simp add: pending_def)
  have len: "length ?d = 2 * length out" if "map to_ascii_uppercase ?d = encode_upper out"
    using arg_cong [OF that, of length] by simp
  have "length ?d div 2 \<le> length s div 2" by (intro div_le_mono length_filter_le)
  then show ?thesis
    using loop len by (auto simp: decode_hex_def)
qed

section \<open>The nesting bound\<close>

lemma tag_head: "tag_ok t \<Longrightarrow> \<exists>c u. t = c # u \<and> c \<noteq> CHR ''!'' \<and> c \<noteq> CHR ''?'' \<and> c \<noteq> CHR ''/''"
  by (cases t) (auto simp: tag_ok_def)

lemma scan_tag_step:
  assumes "tag_ok t"
  shows "nesting_scan l d (''<'' @ t @ s) =
    (l < d + 1 \<or> (case scan_start_tag (t @ s) of (n, b) \<Rightarrow> nesting_scan l (if b then d else d + 1) (drop n (t @ s))))"
  using tag_head [OF assms] by (auto simp: skip_past_other simp del: drop_append)

interpretation agra_scan: nesting_scanner nesting_scan False
proof unfold_locales
  show "nesting_scan l d (''<!--'' @ b @ ''-->'' @ s) = nesting_scan l d s" if "closed_by ''-->'' b" for l d b s
    using skip_past_closed [OF that, of "''!--''" s] by simp
  show "nesting_scan l d (''<?'' @ b @ ''?>'' @ s) = nesting_scan l d s" if "closed_by ''?>'' b" for l d b s
    using skip_past_closed [OF that, of "''?''" s] by (simp add: skip_past_other)
  show "nesting_scan l d (''<'' @ t @ ''>'' @ s) = (l < d + 1 \<or> nesting_scan l (d + 1) s)" if "tag_ok t" for l d t s
    using scan_tag_step [OF that, of l d "''>'' @ s"] scan_open [OF that, of s] by simp
  show "nesting_scan l d (''<'' @ t @ ''/>'' @ s) = (l < d + 1 \<or> nesting_scan l d s)" if "tag_ok t" for l d t s
    using scan_tag_step [OF that, of l d "''/>'' @ s"] scan_empty [OF that, of s] by simp
  show "nesting_scan l d (''</'' @ n @ ''>'' @ s) = nesting_scan l (d - 1) s" if "CHR ''>'' \<notin> set n" for l d n s
    using through_gt_name [of "CHR ''/'' # n" s] that by (simp add: skip_past_other)
  show "nesting_scan l d (''<!'' @ b @ ''>'' @ s) = nesting_scan l d s"
    if "CHR ''>'' \<notin> set b" "\<not> prefix ''--'' b" "\<not> prefix ''[CDATA['' b" for l d b s
    using through_gt_name [of "CHR ''!'' # b" s] decl_not_open [OF that(1,2)] decl_not_open [OF that(1,3)] that(1)
    by (simp add: skip_past_other)
qed simp_all

text \<open>An entity value may hold \<open>>\<close>, and a declaration with one is outside \<open>item_wf\<close>: the scan resumes
  after the first \<open>>\<close> of the value and counts the start tags that follow in it.\<close>

definition entity_doc :: "nat \<Rightarrow> xitem list" where
  "entity_doc k = [Doctype '' a '' [(''ENTITY x \"'' @ concat (replicate k ''<b>'') @ [QUOTE], [])], Empty ''a'']"

lemma scan_start_tags: "l < d + k \<Longrightarrow> 0 < k \<Longrightarrow> nesting_scan l d (concat (replicate k ''<b>'') @ s)"
proof (induction k arbitrary: d)
  case (Suc k)
  have "nesting_scan l d (''<'' @ ''b'' @ ''>'' @ t) = (l < d + 1 \<or> nesting_scan l (d + 1) t)" for t
    by (rule agra_scan.scan_start) (simp add: tag_ok_def)
  from this [of "concat (replicate k ''<b>'') @ s"] show ?case
    using Suc.IH [of "d + 1"] Suc.prems by (cases k) auto
qed simp

lemma entity_overcounted: "nesting_exceeds (doc_text (entity_doc (Suc (Suc limit)))) limit"
proof -
  have "nesting_scan limit 0 (''<!'' @ (''DOCTYPE a [<!ENTITY x \"<b'') @ ''>'' @ s) = nesting_scan limit 0 s" for s
    by (rule agra_scan.scan_decl) simp_all
  then show ?thesis
    using scan_start_tags [of limit 0 "Suc limit" "[QUOTE] @ ''>]><a/>''"]
    by (simp add: nesting_exceeds_def doc_text_def entity_doc_def del: nesting_scan.simps)
qed


definition demo_doc :: "xitem list" where
  "demo_doc = [PI ''xml version'', Doctype '' a '' [(''ENTITY e \"<b\"'', '' '')], Elem ''a x=\"/>\"'' [Comment '' <b><c> '', Empty ''d'', Chars ''t''] ''a'']"


text \<open>A CDATA section is not one of the constructs the scan skips: it resumes after the first
  \<open>>\<close>, and an end tag inside the section lowers the count. A document of any depth can so pass
  for one of depth two.\<close>

fun hidden :: "nat \<Rightarrow> xitem" where
  "hidden 0 = Empty ''n''"
| "hidden (Suc k) = Elem ''n'' [CData ''></n>'', hidden k] ''n''"

lemma hidden_wf: "item_wf True (hidden k)"
  by (induction k) (auto simp: closed_by_def tag_ok_def)

lemma hidden_depth: "item_depth (hidden k) = Suc k"
  by (induction k) auto

lemma scan_hidden_closing: "\<not> nesting_scan l d (concat (replicate k ''</n>''))"
  by (induction k arbitrary: d) (auto simp: skip_past_other through_gt_def)

lemma item_text_hidden:
  "item_text (hidden k) = concat (replicate k ''<n><![CDATA[></n>]]>'') @ ''<n/>'' @ concat (replicate k ''</n>'')"
proof (induction k)
  case (Suc k)
  have "concat (replicate (Suc k) ''</n>'') = concat (replicate k ''</n>'') @ ''</n>''"
    by (simp only: replicate_Suc replicate_append_same [symmetric]) simp
  then show ?case using Suc by simp
qed simp

lemma hidden_step: "2 \<le> l \<Longrightarrow> nesting_scan l 0 (''<n><![CDATA[></n>]]>'' @ s) = nesting_scan l 0 s"
  by (simp add: skip_past_other scan_start_tag_def through_gt_def)

lemma cdata_hides_depth: "2 \<le> limit \<Longrightarrow> \<not> nesting_exceeds (doc_text [hidden k]) limit"
proof -
  assume l: "2 \<le> limit"
  have "nesting_scan limit 0 (concat (replicate k ''<n><![CDATA[></n>]]>'') @ s) = nesting_scan limit 0 s" for s
    by (induction k) (simp_all add: hidden_step [OF l, simplified])
  moreover have "\<not> nesting_scan limit 0 (''<n/>'' @ concat (replicate k ''</n>''))"
    using l scan_hidden_closing [of limit 0 k] by (simp add: skip_past_other scan_start_tag_def)
  ultimately show ?thesis by (simp add: nesting_exceeds_def doc_text_def item_text_hidden)
qed

text \<open>C10: The nesting bound of this crate can be evaded. For every depth there is a well-formed
  document, using CDATA sections, that nests that deep and that the scan lets through to the parser
  under the wrapper limit.\<close>

theorem agra_nesting_evaded:
  "\<exists>doc. list_all (item_wf True) doc \<and> doc_depth doc = Suc k \<and> \<not> nesting_exceeds (doc_text doc) MAX_WRAPPER_DEPTH"
  by (rule exI [where x = "[hidden k]"])
    (use cdata_hides_depth [of MAX_WRAPPER_DEPTH k] hidden_wf in
      \<open>simp add: hidden_depth doc_depth_def MAX_WRAPPER_DEPTH_def\<close>)

section \<open>Round trips\<close>

lemma from_element_name [simp]: "from_element (element_name k) = Some k"
  by (cases k) (simp_all add: from_element_def element_name_def RX_ELEMENT_def TX_ELEMENT_def)

lemma upper_hex_digit: "n < 16 \<Longrightarrow> to_ascii_uppercase (hex_digit n) = hex_digit n \<and> \<not> is_ascii_whitespace (hex_digit n)"
  using byte_hex_digit [of n]
  by (auto simp: to_ascii_uppercase_def is_ascii_lowercase_def is_ascii_whitespace_def split: if_splits)

lemma encode_upper_plain:
  "map to_ascii_uppercase (filter (\<lambda>b. \<not> is_ascii_whitespace b) (encode_upper bs)) = encode_upper bs"
proof -
  have "to_ascii_uppercase c = c \<and> \<not> is_ascii_whitespace c" if "c \<in> set (encode_upper bs)" for c
    using encode_upper_digit [OF that] upper_hex_digit by blast
  then show ?thesis by (simp add: filter_id_conv [THEN iffD2] map_idI)
qed

lemma decode_hex_encode_upper: "length bs \<le> MAX_DECODED_PAYLOAD \<Longrightarrow> decode_hex (encode_upper bs) = Inr bs"
  using hex_loop_iff [of None "encode_upper bs" bs] encode_upper_plain [of bs]
  by (simp add: decode_hex_def pending_def)

lemmas json_eval = json_get_json_object json_get_set json_set_opt_def json_pointer2_def json_uuid_def
  json_str_def as_str_def uuid_object_def

lemma inner_payload [simp]: "payload (inner_envelope i tp bs ct h m) = bs"
  by (simp add: inner_envelope_def Let_def with_header_opt_def split: option.splits)

text \<open>The record a peer reads off a wrapper, and peeling a JSON wrapper whose fields are known.\<close>

definition read_meta :: "WrapperKind \<Rightarrow> string \<Rightarrow> Value \<Rightarrow> WrapperMeta" where
  "read_meta k mt data =
     \<lparr>kind = k, message_type_enum = mt,
      originator_uuid = json_uuid data ''DataPayloadOriginatorID'',
      rx_payload_id = json_uuid data ''RxDataPayloadID'',
      command_id = json_uuid data ''CommandID'',
      destination_routing = Option.bind (json_get data ''DestinationRouting'') as_str\<rparr>"

lemma unwrap_json_object:
  assumes "json_faithful json_parse json_print doc" "doc = JObject [(element_name k, b)]"
    and "json_get b ''MessageData'' = Some data" "json_str data ''MessageType'' = Inr mt"
    and "json_str data ''EncodedPayload'' = Inr (encode_upper bs)" "length bs \<le> MAX_DECODED_PAYLOAD"
    and "json_print doc = Inr text"
  shows "unwrap json_parse xml_parse ids tp text = Inr
    \<lparr>wrapper = with_content_type ct_json (new_envelope (fst ids) (route_typed tp (element_name k)) text),
     inner = inner_envelope (snd ids) tp bs (sniff_inner_content_type bs)
       (type_hint_from_inner json_parse xml_parse bs mt) (read_meta k mt data),
     meta = read_meta k mt data\<rparr>"
proof (rule json_faithfulE [OF assms(1)])
  fix t
  assume t: "json_print doc = Inr t" "json_parse t = Inr doc" "utf8_valid t" "prefix ''{'' t" "trim t = t"
  then have "text = t" using assms(7) by simp
  then have "unwrap json_parse xml_parse ids tp text = unwrap_json json_parse xml_parse ids tp text"
    using t by (simp add: unwrap_def)
  then show ?thesis
    using t assms(2-6) \<open>text = t\<close>
    by (simp add: unwrap_json_def as_object_def decode_hex_encode_upper read_meta_def Let_def)
qed

text \<open>C8: Peeling what this crate wraps gives the payload back. For every request within the size
  limit, \<open>wrap\<close> succeeds; its envelope is recognised as a wrapper of the same kind; and peeling
  it yields the inner bytes unchanged, the message type, routing and identifiers that were written,
  and the wrapper text itself.\<close>

theorem unwrap_wrap:
  assumes "json_faithful json_parse json_print (wrap_root uuid req)"
    and "length (req_inner req) \<le> MAX_DECODED_PAYLOAD"
  shows "\<exists>env u. wrap json_print fresh uuid req = Inr env \<and>
    wrapper_kind json_parse xml_parse (payload env) = Some (req_kind req) \<and>
    unwrap json_parse xml_parse ids tp (payload env) = Inr u \<and>
    payload (inner u) = req_inner req \<and> payload (wrapper u) = payload env \<and>
    meta u = \<lparr>kind = req_kind req, message_type_enum = req_message_type_enum req,
      originator_uuid = (if req_kind req = Rx then Some (case req_originator_uuid req of Some o' \<Rightarrow> o' | None \<Rightarrow> nil_uuid) else None),
      rx_payload_id = (if req_kind req = Rx then Some uuid else None),
      command_id = (if req_kind req = Tx then Some uuid else None),
      destination_routing = Some (req_destination_routing req)\<rparr>"
proof (rule json_faithfulE [OF assms(1)])
  fix t
  assume t: "json_print (wrap_root uuid req) = Inr t" "json_parse t = Inr (wrap_root uuid req)"
    "utf8_valid t" "prefix ''{'' t" "trim t = t" "trim_start t = t"
  let ?b = "json_object [(''SecurityInformation'', security_information (shell req)),
    (''MessageHeader'', message_header (shell req)), (''MessageData'', wrap_data uuid req)]"
  have doc: "wrap_root uuid req = JObject [(element_name (req_kind req), ?b)]"
    by (simp add: wrap_root_def json_object_single)
  have fields: "json_get ?b ''MessageData'' = Some (wrap_data uuid req)"
    "json_str (wrap_data uuid req) ''MessageType'' = Inr (req_message_type_enum req)"
    "json_str (wrap_data uuid req) ''EncodedPayload'' = Inr (encode_upper (req_inner req))"
    by (cases "req_kind req"; simp add: json_eval wrap_data_def Let_def)+
  have meta: "read_meta (req_kind req) (req_message_type_enum req) (wrap_data uuid req) =
    \<lparr>kind = req_kind req, message_type_enum = req_message_type_enum req,
      originator_uuid = (if req_kind req = Rx then Some (case req_originator_uuid req of Some o' \<Rightarrow> o' | None \<Rightarrow> nil_uuid) else None),
      rx_payload_id = (if req_kind req = Rx then Some uuid else None),
      command_id = (if req_kind req = Tx then Some uuid else None),
      destination_routing = Some (req_destination_routing req)\<rparr>"
    by (cases "req_kind req") (simp_all add: json_eval wrap_data_def read_meta_def Let_def)
  have kind: "wrapper_kind json_parse xml_parse t = Some (req_kind req)"
    using t by (simp add: wrapper_kind_def Let_def doc single_key_def as_object_def)
  show ?thesis
    using unwrap_json_object [OF assms(1) doc fields assms(2) t(1)] kind t(1)
    by (simp add: wrap_def meta inner_payload)
qed

definition demo_request :: WrapRequest where
  "demo_request = \<lparr>req_topic = ''offboard'', req_kind = Rx, req_inner = ''{}'', req_message_type_enum = ''PING'',
     shell = \<lparr>security_information = JNull, message_header = JNull\<rparr>, req_destination_routing = ''TOPIC'',
     req_originator_uuid = None, specific_destination_uuids = [''d''], timestamp = ''now'', priority = 1, precedence = 2\<rparr>"

text \<open>A parser and a printer that agree on one value.\<close>

definition one_value_parser :: "string \<Rightarrow> Value \<Rightarrow> json_parser" where
  "one_value_parser t v s = (if s = t then Inr v else Inl ''no'')"

definition one_value_printer :: "string \<Rightarrow> json_printer" where
  "one_value_printer t v = Inr t"

definition no_xml :: xml_parser where
  "no_xml s = Inl ''no''"

lemma one_value_faithful: "json_faithful (one_value_parser ''{x}'' v) (one_value_printer ''{x}'') v"
  by (simp add: json_faithful_def one_value_parser_def one_value_printer_def byte_def)

theorem unwrap_wrap_witness:
  "\<exists>env u. wrap (one_value_printer ''{x}'') (MessageId 1) ''u'' demo_request = Inr env \<and>
    unwrap (one_value_parser ''{x}'' (wrap_root ''u'' demo_request)) no_xml (MessageId 2, MessageId 3) ''t'' (payload env) = Inr u \<and>
    payload (inner u) = ''{}'' \<and> rx_payload_id (meta u) = Some ''u'' \<and> command_id (meta u) = None"
proof -
  have len: "length (req_inner demo_request) \<le> MAX_DECODED_PAYLOAD"
    by (simp add: demo_request_def MAX_DECODED_PAYLOAD_def)
  show ?thesis
    using unwrap_wrap [OF one_value_faithful len, where uuid = "''u''" and fresh = "MessageId 1" and xml_parse = no_xml
      and ids = "(MessageId 2, MessageId 3)" and tp = "''t''"]
    by (auto simp: demo_request_def)
qed

lemma minimal_data:
  "\<exists>data. minimal_root m bs = JObject [(element_name (kind m), JObject [(''MessageData'', data)])] \<and>
     json_str data ''MessageType'' = Inr (message_type_enum m) \<and>
     json_str data ''EncodedPayload'' = Inr (encode_upper bs) \<and>
     read_meta (kind m) (message_type_enum m) data = m"
  unfolding minimal_root_def Let_def json_object_single
  by (rule exI, rule conjI, rule refl)
    (cases "originator_uuid m"; cases "rx_payload_id m"; cases "command_id m"; cases "destination_routing m";
      simp add: json_eval read_meta_def)

lemma unwrap_parts_eq:
  assumes "json_faithful json_parse json_print (minimal_root m bs)"
    and "length bs \<le> MAX_DECODED_PAYLOAD"
  shows "\<exists>u. unwrapped_from_parts json_parse xml_parse json_print ids tp m bs = Inr u \<and>
    unwrap json_parse xml_parse ids tp (payload (wrapper u)) = Inr u \<and> meta u = m \<and> payload (inner u) = bs"
proof -
  obtain data where doc: "minimal_root m bs = JObject [(element_name (kind m), JObject [(''MessageData'', data)])]"
    and data: "json_str data ''MessageType'' = Inr (message_type_enum m)"
      "json_str data ''EncodedPayload'' = Inr (encode_upper bs)" "read_meta (kind m) (message_type_enum m) data = m"
    using minimal_data by metis
  obtain t where t: "json_print (minimal_root m bs) = Inr t"
    using assms(1) by (auto elim: json_faithfulE)
  have "json_get (JObject [(''MessageData'', data)]) ''MessageData'' = Some data" by simp
  from unwrap_json_object [OF assms(1) doc this data(1,2) assms(2) t] show ?thesis
    using assms(2) t data(3) by (simp add: unwrapped_from_parts_def minimal_wrapper_json_def)
qed

text \<open>The envelopes built from structured fields (the DDS path) are what peeling the wrapper text
  would give: within the size limit they are built, and \<open>unwrap\<close> on the wrapper returns the very
  same wrapper, inner envelope and metadata.\<close>

theorem unwrap_parts:
  assumes "json_faithful json_parse json_print (minimal_root m bs)"
    and "length bs \<le> MAX_DECODED_PAYLOAD"
  shows "\<exists>u. unwrapped_from_parts json_parse xml_parse json_print ids tp m bs = Inr u \<and>
    unwrap json_parse xml_parse ids tp (payload (wrapper u)) = Inr u \<and> meta u = m \<and> payload (inner u) = bs"
  using unwrap_parts_eq [OF assms] .


definition demo_meta :: WrapperMeta where
  "demo_meta = \<lparr>kind = Tx, message_type_enum = ''PING'', originator_uuid = None, rx_payload_id = None,
     command_id = Some ''c'', destination_routing = Some ''TOPIC''\<rparr>"

theorem unwrap_parts_witness:
  "\<exists>u. unwrap (one_value_parser ''{x}'' (minimal_root demo_meta ''x'')) no_xml (MessageId 2, MessageId 3) ''t'' (payload (wrapper u)) = Inr u \<and>
    meta u = demo_meta \<and> payload (inner u) = ''x''"
proof -
  have "length ''x'' \<le> MAX_DECODED_PAYLOAD" by (simp add: MAX_DECODED_PAYLOAD_def)
  from unwrap_parts [OF one_value_faithful this, where m = demo_meta and xml_parse = no_xml
      and ids = "(MessageId 2, MessageId 3)" and tp = "''t''"]
  show ?thesis by blast
qed

section \<open>Element names and enumeration names\<close>

lemma enum_loop_letters:
  "filter (\<lambda>c. c \<noteq> CHR ''_'') (enum_loop s prev out) =
     filter (\<lambda>c. c \<noteq> CHR ''_'') out @ map to_ascii_uppercase (filter (\<lambda>c. c \<noteq> CHR ''_'') s)"
proof (induction s arbitrary: prev out)
  case (Cons ch s)
  have "to_ascii_uppercase ch \<noteq> CHR ''_''" if "ch \<noteq> CHR ''_''"
  proof
    assume up: "to_ascii_uppercase ch = CHR ''_''"
    have "byte ch - 32 < 256" using byte_less [of ch] by linarith
    then have "byte (to_ascii_uppercase ch) = (if is_ascii_lowercase ch then byte ch - 32 else byte ch)"
      by (simp add: to_ascii_uppercase_def)
    then show False
      using up that by (auto simp: to_ascii_uppercase_def is_ascii_lowercase_def byte_def split: if_splits)
  qed
  then show ?case using Cons by (simp add: Let_def)
qed simp

end
