(* ===== verification/Adapter_Host.thy ===== *)
theory Adapter_Host
  imports Core_Engine Agra
begin

text \<open>
  What every adapter shares: the adapter contract's error type (\<open>oa-gateway-adapter/src/lib.rs\<close>),
  the supervision of a session loop (\<open>supervise.rs\<close>), and the world an adapter's handlers run in:
  the engine, the channels behind it, and a supply of fresh message ids. The record \<open>Host\<close> gathers
  the code the adapters call and that is not theirs: the channels' \<open>try_send\<close>, the iteration
  orders of a hash set, \<open>serde_json\<close>, \<open>roxmltree\<close>, \<open>Uuid::new_v4\<close> and the text form of a UUID.
\<close>

section \<open>Errors and supervision\<close>

datatype AdapterError = Failed string string | AdapterIo string

definition failed :: "AdapterId \<Rightarrow> string \<Rightarrow> AdapterError" where
  "failed a message = Failed (adapter_str a) message"

definition show_adapter_error :: "AdapterError \<Rightarrow> string" where
  "show_adapter_error e = (case e of
     Failed a m \<Rightarrow> ''adapter '' @ a @ '' failed: '' @ m
   | AdapterIo m \<Rightarrow> m)"

text \<open>A \<open>Duration\<close> and an \<open>Instant\<close> are counts of nanoseconds.\<close>

definition from_secs :: "nat \<Rightarrow> nat" where "from_secs n = n * 1000000000"

datatype OnPanic = Abort | Reconnect

definition show_on_panic :: "OnPanic \<Rightarrow> string" where
  "show_on_panic p = (case p of Abort \<Rightarrow> ''abort'' | Reconnect \<Rightarrow> ''reconnect'')"

definition on_panic_from_str :: "string \<Rightarrow> string + OnPanic" where
  "on_panic_from_str s =
     (if s = ''abort'' then Inr Abort
      else if s = ''reconnect'' then Inr Reconnect
      else Inl (''unknown on_panic '' @ [CHR 0x27] @ s @ [CHR 0x27] @ ''; expected abort or reconnect''))"

datatype AfterSession = ReturnOk | ReturnErr AdapterError | Retry string

text \<open>How a joined session task ended: it returned, it panicked, or it was cancelled.\<close>

datatype joined = Returned "AdapterError + unit" | Panicked | Cancelled

definition after_join :: "joined \<Rightarrow> bool \<Rightarrow> OnPanic \<Rightarrow> AdapterId \<Rightarrow> AfterSession" where
  "after_join j reconnect on_panic a =
     (case j of
        Returned (Inr _) \<Rightarrow>
          (if reconnect then Retry ''session ended, reconnecting'' else ReturnOk)
      | Returned (Inl err) \<Rightarrow>
          (if reconnect then Retry (''session failed, retrying: '' @ show_adapter_error err) else ReturnErr err)
      | Panicked \<Rightarrow>
          (case (on_panic, reconnect) of
             (Abort, _) \<Rightarrow> ReturnErr (failed a ''session panicked'')
           | (Reconnect, False) \<Rightarrow> ReturnErr (failed a ''session panicked'')
           | (Reconnect, True) \<Rightarrow> Retry ''session panicked, retrying'')
      | Cancelled \<Rightarrow> ReturnOk)"

text \<open>One turn of a session loop: whether shutdown had fired when the turn began, how the session
  ended, whether shutdown had fired by then, and whether it fired during the delay that follows.\<close>

datatype turn = Turn (at_top: bool) (ended: joined) (after_session: bool) (in_delay: bool)

text \<open>The loop of \<open>StompAdapter::serve_inner\<close> and \<open>DdsAdapter::run\<close>: its result and the number of
  sessions it started. \<open>None\<close> is a loop that is still turning when the given turns are used up.\<close>

fun supervise :: "bool \<Rightarrow> OnPanic \<Rightarrow> AdapterId \<Rightarrow> turn list \<Rightarrow> (AdapterError + unit) option \<times> nat" where
  "supervise reconnect on_panic a [] = (None, 0)"
| "supervise reconnect on_panic a (t # ts) =
     (if at_top t then (Some (Inr ()), 0)
      else case after_join (ended t) reconnect on_panic a of
        ReturnOk \<Rightarrow> (Some (Inr ()), 1)
      | ReturnErr err \<Rightarrow> (Some (Inl err), 1)
      | Retry message \<Rightarrow>
          (if after_session t then (Some (Inr ()), 1)
           else if in_delay t then (Some (Inr ()), 1)
           else (case supervise reconnect on_panic a ts of (r, n) \<Rightarrow> (r, Suc n))))"

lemma on_panic_round_trip: "on_panic_from_str (show_on_panic p) = Inr p"
  by (cases p) (simp_all add: on_panic_from_str_def show_on_panic_def)

lemma after_join_simps [simp]:
  "after_join (Returned (Inr u)) rc onp a = (if rc then Retry ''session ended, reconnecting'' else ReturnOk)"
  "after_join (Returned (Inl err)) rc onp a =
     (if rc then Retry (''session failed, retrying: '' @ show_adapter_error err) else ReturnErr err)"
  "after_join Panicked rc onp a =
     (if rc \<and> onp = Reconnect then Retry ''session panicked, retrying'' else ReturnErr (failed a ''session panicked''))"
  "after_join Cancelled rc onp a = ReturnOk"
  by (cases onp; cases rc; simp add: after_join_def)+

lemma joined_cases:
  obtains (ok) "j = Returned (Inr ())" | (err) e where "j = Returned (Inl e)" | (panic) "j = Panicked" | (cancel) "j = Cancelled"
  by (cases j) (metis old.unit.exhaust sum.exhaust)+

text \<open>A turn the loop goes round again after, and a session end it gives up on.\<close>

definition retried :: "bool \<Rightarrow> OnPanic \<Rightarrow> turn \<Rightarrow> bool" where
  "retried rc onp t \<longleftrightarrow> \<not> at_top t \<and> \<not> after_session t \<and> \<not> in_delay t \<and> rc \<and>
     ended t \<noteq> Cancelled \<and> (ended t = Panicked \<longrightarrow> onp = Reconnect)"

definition fatal :: "bool \<Rightarrow> OnPanic \<Rightarrow> AdapterId \<Rightarrow> joined \<Rightarrow> AdapterError option" where
  "fatal rc onp a j =
     (case j of
        Returned (Inl err) \<Rightarrow> if rc then None else Some err
      | Panicked \<Rightarrow> if rc \<and> onp = Reconnect then None else Some (failed a ''session panicked'')
      | _ \<Rightarrow> None)"

lemma supervise_step:
  "supervise rc onp a (t # ts) = (Some (Inl err), n) \<longleftrightarrow>
     (\<not> at_top t \<and> fatal rc onp a (ended t) = Some err \<and> n = 1) \<or>
     (retried rc onp t \<and> (\<exists>k. n = Suc k \<and> supervise rc onp a ts = (Some (Inl err), k)))"
  by (cases "ended t" rule: joined_cases) (auto simp: fatal_def retried_def split: prod.splits)

text \<open>C11: Supervision of an adapter. The loop fails exactly when some session ends fatally (it failed
  or panicked with reconnect off, or panicked under \<open>on_panic = abort\<close>) after turns that were all
  left to retry, with shutdown not fired before that session; the error is that session's, and no
  session is started after it. A loop with reconnect off starts at most one session, and one whose
  shutdown has already fired returns without an error and starts none; the documentation of the STOMP
  adapter's \<open>serve\<close> says that it fails then.\<close>

theorem supervise_fails_iff:
  "(supervise rc onp a ts = (Some (Inl err), n) \<longleftrightarrow>
     (\<exists>pre t post. ts = pre @ t # post \<and> n = Suc (length pre) \<and> list_all (retried rc onp) pre \<and>
        \<not> at_top t \<and> fatal rc onp a (ended t) = Some err)) \<and>
   snd (supervise False onp a ts) \<le> 1 \<and>
   supervise rc onp a (Turn True j fired delayed # ts) = (Some (Inr ()), 0)"
proof (intro conjI)
  show "supervise rc onp a ts = (Some (Inl err), n) \<longleftrightarrow>
     (\<exists>pre t post. ts = pre @ t # post \<and> n = Suc (length pre) \<and> list_all (retried rc onp) pre \<and>
        \<not> at_top t \<and> fatal rc onp a (ended t) = Some err)"
  proof (induction ts arbitrary: n)
    case (Cons t ts)
    show ?case unfolding supervise_step Cons.IH
    proof (intro iffI, elim disjE conjE exE)
      fix k pre u post
      assume "retried rc onp t" "ts = pre @ u # post" "n = Suc k" "k = Suc (length pre)" "list_all (retried rc onp) pre"
        "\<not> at_top u" "fatal rc onp a (ended u) = Some err"
      then show "\<exists>pre u post. t # ts = pre @ u # post \<and> n = Suc (length pre) \<and> list_all (retried rc onp) pre \<and>
        \<not> at_top u \<and> fatal rc onp a (ended u) = Some err"
        by (intro exI [where x = "t # pre"]) simp
    next
      assume "\<not> at_top t" "fatal rc onp a (ended t) = Some err" "n = 1"
      then show "\<exists>pre u post. t # ts = pre @ u # post \<and> n = Suc (length pre) \<and> list_all (retried rc onp) pre \<and>
        \<not> at_top u \<and> fatal rc onp a (ended u) = Some err"
        by (intro exI [where x = "[]"]) simp
    qed (auto simp: Cons_eq_append_conv)
  qed simp
  show "snd (supervise False onp a ts) \<le> 1"
  proof (cases ts)
    case (Cons t us)
    then show ?thesis by (cases "ended t" rule: joined_cases) simp_all
  qed simp
qed simp

section \<open>The world of a handler\<close>

record 'w Host =
  try_send :: "'w \<Rightarrow> chan \<Rightarrow> Delivery \<Rightarrow> try_send_result \<times> 'w"
  key_order :: "SubscriberKey fset \<Rightarrow> SubscriberKey list"
  sub_order :: "SubId fset \<Rightarrow> SubId list"
  json_parse :: json_parser
  json_print :: json_printer
  xml_parse :: xml_parser
  new_v4 :: "nat \<Rightarrow> nat"
  uuid_string :: "nat \<Rightarrow> string"

record 'w World =
  engine :: Engine
  chans :: 'w
  drawn :: nat

text \<open>The id that the \<open>i\<close>-th next draw from \<open>Uuid::new_v4\<close> gives.\<close>

definition fresh_id :: "'w Host \<Rightarrow> 'w World \<Rightarrow> nat \<Rightarrow> MessageId" where
  "fresh_id h W i = MessageId (new_v4 h (drawn W + i))"

definition publish_one :: "'w Host \<Rightarrow> Envelope \<Rightarrow> 'w World \<Rightarrow> 'w World" where
  "publish_one h e W =
     (case publish (try_send h) (key_order h) (engine W) (chans W) e of
        (eng, w, out) \<Rightarrow> W\<lparr>engine := eng, chans := w\<rparr>)"

definition publish_all :: "'w Host \<Rightarrow> Envelope list \<Rightarrow> 'w World \<Rightarrow> 'w World" where
  "publish_all h es W = fold (publish_one h) es W"

definition drop_subs :: "'w Host \<Rightarrow> AdapterId \<Rightarrow> 'w World \<Rightarrow> 'w World" where
  "drop_subs h a W = W\<lparr>engine := fst (drop_adapter (sub_order h) (engine W) a)\<rparr>"

text \<open>The channels a handler may write to start from: what the world promises of them.\<close>

definition host_ok :: "'w Host \<Rightarrow> bool" where
  "host_ok h \<longleftrightarrow> hash_order (key_order h) \<and> hash_order (sub_order h)"

definition subs_of :: "'w World \<Rightarrow> AdapterId \<Rightarrow> SubscriberKey set" where
  "subs_of W a = {k. k |\<in>| fmdom (by_key (engine_state (engine W))) \<and> adapter_id k = a}"

definition world_ok :: "'w World \<Rightarrow> bool" where
  "world_ok W \<longleftrightarrow> engine_inv (engine_state (engine W))"

lemma publish_one_state [simp]:
  "engine_state (engine (publish_one h e W)) = engine_state (engine W)" "drawn (publish_one h e W) = drawn W"
  by (simp_all add: publish_one_def case_prod_unfold)

lemma publish_all_drawn:
  "publish_all h es (W\<lparr>drawn := n\<rparr>) = (publish_all h es W)\<lparr>drawn := n\<rparr>"
proof (induction es arbitrary: W)
  case (Cons e es)
  have "publish_one h e (W\<lparr>drawn := n\<rparr>) = (publish_one h e W)\<lparr>drawn := n\<rparr>"
    by (simp add: publish_one_def case_prod_unfold)
  then show ?case using Cons.IH [of "publish_one h e W"] by (simp add: publish_all_def)
qed (simp add: publish_all_def)

lemma publish_all_state [simp]:
  "engine_state (engine (publish_all h es W)) = engine_state (engine W)" "drawn (publish_all h es W) = drawn W"
  by (induction es arbitrary: W) (simp_all add: publish_all_def)

lemma publish_all_keeps [simp]:
  "world_ok (publish_all h es W) = world_ok W" "subs_of (publish_all h es W) a = subs_of W a"
  by (simp_all add: world_ok_def subs_of_def)

lemma drop_subs_by_key:
  assumes "world_ok W" "host_ok h"
  shows "by_key (engine_state (engine (drop_subs h a W))) = spec_drop_adapter (by_key (engine_state (engine W))) a"
  using drop_adapter_state_by_key [of "engine_state (engine W)" "sub_order h" a] assms
  by (simp add: drop_subs_def drop_adapter_def world_ok_def host_ok_def case_prod_unfold Let_def)

lemma drop_subs_ok:
  assumes "world_ok W" "host_ok h"
  shows "world_ok (drop_subs h a W)" "subs_of (drop_subs h a W) a = {}"
    and "b \<noteq> a \<Longrightarrow> subs_of (drop_subs h a W) b = subs_of W b"
  using drop_subs_by_key [OF assms, of a] engine_inv_drop_adapter [of "engine_state (engine W)" "sub_order h" a] assms
  by (auto simp: subs_of_def spec_drop_adapter_def world_ok_def host_ok_def drop_subs_def drop_adapter_def
      case_prod_unfold Let_def)

text \<open>What publishing a list of envelopes can add to a channel: deliveries of those envelopes.\<close>

lemma publish_one_queue:
  assumes "mpsc (try_send h) queue capacity shut"
  shows "\<exists>ds. queue (chans (publish_one h e W)) b = queue (chans W) b @ ds \<and> (\<forall>d \<in> set ds. del_envelope d = e)"
proof -
  have chans: "delivery_channels (try_send h) queue capacity shut"
    using assms by (rule delivery_channels.intro)
  show ?thesis
    using delivery_channels.fan_out_queue [OF chans, of e _ "chans W" b]
    by (auto simp: publish_one_def case_prod_unfold publish_world dest!: in_set_takeD)
qed

lemma publish_all_queue:
  assumes "mpsc (try_send h) queue capacity shut"
  shows "\<exists>ds. queue (chans (publish_all h es W)) b = queue (chans W) b @ ds \<and> del_envelope ` set ds \<subseteq> set es"
proof (induction es arbitrary: W)
  case (Cons e es)
  obtain ds where ds: "queue (chans (publish_one h e W)) b = queue (chans W) b @ ds" "\<forall>d \<in> set ds. del_envelope d = e"
    using publish_one_queue [OF assms] by blast
  obtain ds' where "queue (chans (publish_all h es (publish_one h e W))) b = queue (chans (publish_one h e W)) b @ ds'"
    "del_envelope ` set ds' \<subseteq> set es"
    using Cons.IH by blast
  then show ?case
    using ds by (intro exI [where x = "ds @ ds'"]) (auto simp: publish_all_def)
qed (simp add: publish_all_def)

section \<open>Bridges\<close>

text \<open>The contract of an adapter that bridges a bus. What comes in is published in envelopes stamped
  with the adapter's id, each of which passes the adapter's check \<open>admits\<close>, and touches nothing else of
  the engine; what goes out skips the envelopes that carry the id. Then nothing that comes in goes out
  again.\<close>

locale stamped_bridge =
  fixes h :: "'w Host" and a :: AdapterId
    and inbound :: "'i \<Rightarrow> 'w World \<Rightarrow> 'w World"
    and admits :: "Envelope \<Rightarrow> bool"
    and outbound :: "Delivery \<Rightarrow> 's \<Rightarrow> 'r" and skip :: "'s \<Rightarrow> 'r"
  assumes inbound_publishes:
      "\<exists>es n. inbound i W = publish_all h es (W\<lparr>drawn := drawn W + n\<rparr>) \<and> (\<forall>e \<in> set es. is_echo_of e a \<and> admits e)"
    and outbound_skips: "is_echo_of (del_envelope d) a \<Longrightarrow> outbound d s = skip s"
begin

lemma inbound_state: "engine_state (engine (inbound i W)) = engine_state (engine W)"
  using inbound_publishes [of i W] by auto

lemma no_echo:
  assumes "mpsc (try_send h) queue capacity shut"
  shows "\<exists>ds. queue (chans (inbound i W)) b = queue (chans W) b @ ds \<and> 
    (\<forall>d \<in> set ds. outbound d s = skip s \<and> admits (del_envelope d))"
proof -
  obtain es n where es: "inbound i W = publish_all h es (W\<lparr>drawn := drawn W + n\<rparr>)" "\<forall>e \<in> set es. is_echo_of e a \<and> admits e"
    using inbound_publishes by blast
  obtain ds where "queue (chans (inbound i W)) b = queue (chans W) b @ ds" "del_envelope ` set ds \<subseteq> set es"
    using publish_all_queue [OF assms, of es "W\<lparr>drawn := drawn W + n\<rparr>" b] es(1) by auto
  then show ?thesis using es(2) outbound_skips by blast
qed

end

text \<open>What a session leaves behind: one that only publishes between its subscriptions and the final
  \<open>drop_adapter\<close> leaves none of its own and all of the others'.\<close>

lemma session_clean_up:
  assumes "world_ok W" "host_ok h" and "world_ok W2" "\<And>b. b \<noteq> a \<Longrightarrow> subs_of W2 b = subs_of (drop_subs h a W) b"
    and "engine_state (engine W3) = engine_state (engine W2)"
  shows "world_ok (drop_subs h a W3) \<and> subs_of (drop_subs h a W3) a = {} \<and>
    (\<forall>b. b \<noteq> a \<longrightarrow> subs_of (drop_subs h a W3) b = subs_of W b)"
proof -
  have W3: "world_ok W3" "\<And>b. subs_of W3 b = subs_of W2 b" using assms(3,5) by (simp_all add: world_ok_def subs_of_def)
  show ?thesis
    using drop_subs_ok [OF W3(1) assms(2)] drop_subs_ok(3) [OF assms(1,2)] assms(4) W3(2) by auto
qed

end
