(* ===== verification/Owp_Codec.thy ===== *)
theory Owp_Codec
  imports Json_Value
begin

text \<open>
  The OWP 1.0 text-frame codec: \<open>oa-gateway-owp/src/codec.rs\<close>. Deserializing \<open>InitPayload\<close> and
  \<open>InfoPayload\<close> and serializing \<open>InfoPayload\<close> is code that \<open>serde\<close> derives; it is the record
  \<open>OwpSerde\<close>. A \<open>Display\<close> that fails, which makes \<open>to_string\<close> panic, is \<open>None\<close>.
\<close>

section \<open>Frames\<close>

definition is_identifier :: "string \<Rightarrow> bool" where
  "is_identifier s \<longleftrightarrow>
     s \<noteq> [] \<and> list_all (\<lambda>b. is_ascii_alphanumeric b \<or> b = CHR ''_'' \<or> b = CHR ''-'' \<or> b = CHR ''.'') s"

datatype OwpError =
    UnsupportedVersion | UnsupportedSchema | UnsupportedService | IllegalOperation
  | IllegalArgument | IllegalState | InternalError | InvalidMessage

definition show_owp_error :: "OwpError \<Rightarrow> string" where
  "show_owp_error e = (case e of
     UnsupportedVersion \<Rightarrow> ''Unsupported-Version''
   | UnsupportedSchema \<Rightarrow> ''Unsupported-Schema''
   | UnsupportedService \<Rightarrow> ''Unsupported-Service''
   | IllegalOperation \<Rightarrow> ''Illegal-Operation''
   | IllegalArgument \<Rightarrow> ''Illegal-Argument''
   | IllegalState \<Rightarrow> ''Illegal-State''
   | InternalError \<Rightarrow> ''Internal-Error''
   | InvalidMessage \<Rightarrow> ''Invalid-Message'')"

datatype ParseError =
    EmptyFrame
  | UnknownOp string
  | OwpMissingField string string
  | OwpExtraFields string
  | InvalidIdentifier string string string
  | InvalidJson string string

definition owp_error_from_str :: "string \<Rightarrow> ParseError + OwpError" where
  "owp_error_from_str s =
     (if s = ''Unsupported-Version'' then Inr UnsupportedVersion
      else if s = ''Unsupported-Schema'' then Inr UnsupportedSchema
      else if s = ''Unsupported-Service'' then Inr UnsupportedService
      else if s = ''Illegal-Operation'' then Inr IllegalOperation
      else if s = ''Illegal-Argument'' then Inr IllegalArgument
      else if s = ''Illegal-State'' then Inr IllegalState
      else if s = ''Internal-Error'' then Inr InternalError
      else if s = ''Invalid-Message'' then Inr InvalidMessage
      else Inl (UnknownOp s))"

fun show_parse_error :: "ParseError \<Rightarrow> string" where
  "show_parse_error EmptyFrame = ''empty frame''"
| "show_parse_error (UnknownOp k) = ''unknown operation '' @ [CHR 0x27] @ k @ [CHR 0x27]"
| "show_parse_error (OwpMissingField k f) = k @ '': missing '' @ [CHR 0x27] @ f @ [CHR 0x27]"
| "show_parse_error (OwpExtraFields k) = k @ '': unexpected extra fields''"
| "show_parse_error (InvalidIdentifier k f v) =
     k @ '': '' @ [CHR 0x27] @ f @ [CHR 0x27] @ '' value '' @ [CHR 0x27] @ v @ [CHR 0x27] @ '' is not an OWP identifier''"
| "show_parse_error (InvalidJson k m) = k @ '': invalid JSON: '' @ m"

record InitPayload =
  versions :: "string list"
  init_schema :: string
  init_verbose :: "bool option"
  init_service_id :: string

record Identifiers =
  system :: string
  service :: string
  subsystem :: "string option"

record InfoPayload =
  info_version :: string
  info_server_id :: string
  uuids :: Identifiers
  info_system_label :: string

datatype ClientOp =
    Init InitPayload
  | Pub string string
  | Sub string string string "string option"
  | Unsub string

datatype ServerOp =
    OkOp
  | ErrOp OwpError "string option"
  | InfoOp InfoPayload
  | MsgOp string string

record OwpSerde =
  init_from_str :: "string \<Rightarrow> string + InitPayload"
  info_from_str :: "string \<Rightarrow> string + InfoPayload"
  info_to_string :: "InfoPayload \<Rightarrow> string + string"

definition show_server_op :: "OwpSerde \<Rightarrow> ServerOp \<Rightarrow> string option" where
  "show_server_op sd x = (case x of
     OkOp \<Rightarrow> Some ''+OK''
   | ErrOp e d \<Rightarrow> (case d of
        Some u \<Rightarrow> Some (''-ERR '' @ show_owp_error e @ '' '' @ u)
      | None \<Rightarrow> Some (''-ERR '' @ show_owp_error e))
   | InfoOp p \<Rightarrow> (case info_to_string sd p of Inl _ \<Rightarrow> None | Inr j \<Rightarrow> Some (''INFO '' @ j))
   | MsgOp sid p \<Rightarrow> Some (''MSG '' @ sid @ '' '' @ p))"

section \<open>Tokens\<close>

definition is_delim :: "char \<Rightarrow> bool" where
  "is_delim b \<longleftrightarrow> b = SPACE \<or> b = TAB"

definition split_first_token :: "string \<Rightarrow> (string \<times> string) option" where
  "split_first_token s =
     (case position (\<lambda>b. \<not> is_delim b) s of
        None \<Rightarrow> None
      | Some start \<Rightarrow>
          (let e = (case position is_delim (drop start s) of None \<Rightarrow> length s | Some p \<Rightarrow> start + p);
               token = take (e - start) (drop start s);
               rest_start = (case position (\<lambda>b. \<not> is_delim b) (drop e s) of None \<Rightarrow> length s | Some p \<Rightarrow> e + p)
           in Some (token, drop rest_start s)))"

fun tokenize :: "string \<Rightarrow> nat \<Rightarrow> string list" where
  "tokenize s 0 = []"
| "tokenize s (Suc n) =
     (case split_first_token s of
        Some (token, rest) \<Rightarrow> token # tokenize rest n
      | None \<Rightarrow> [])"

section \<open>Parsing\<close>

definition parse_init :: "OwpSerde \<Rightarrow> string \<Rightarrow> ParseError + ClientOp" where
  "parse_init sd rest =
     (if rest = [] then Inl (OwpMissingField ''INIT'' ''payload'')
      else res_bind (map_err (InvalidJson ''INIT'') (init_from_str sd rest)) (\<lambda>p.
        if versions p = [] then Inl (OwpMissingField ''INIT'' ''versions'')
        else if \<not> is_identifier (init_service_id p) then Inl (InvalidIdentifier ''INIT'' ''service_id'' (init_service_id p))
        else Inr (Init p)))"

definition parse_pub :: "string \<Rightarrow> ParseError + ClientOp" where
  "parse_pub rest =
     res_bind (ok_or (split_first_token rest) (OwpMissingField ''PUB'' ''topic'')) (\<lambda>(t, p).
       if \<not> is_identifier t then Inl (InvalidIdentifier ''PUB'' ''topic'' t)
       else if p = [] then Inl (OwpMissingField ''PUB'' ''payload'')
       else Inr (Pub t p))"

definition sub_fields :: "string \<Rightarrow> string \<Rightarrow> string \<Rightarrow> string option \<Rightarrow> ParseError + ClientOp" where
  "sub_fields sid n t g =
     (if \<not> is_identifier sid then Inl (InvalidIdentifier ''SUB'' ''sid'' sid)
      else if \<not> is_identifier t then Inl (InvalidIdentifier ''SUB'' ''topic'' t)
      else if (case g of Some x \<Rightarrow> \<not> is_identifier x | None \<Rightarrow> False) then Inl (InvalidIdentifier ''SUB'' ''group'' (the g))
      else if n = [] then Inl (OwpMissingField ''SUB'' ''message_name'')
      else Inr (Sub sid n t g))"

definition parse_sub :: "string \<Rightarrow> ParseError + ClientOp" where
  "parse_sub rest =
     (case tokenize rest 5 of
        [] \<Rightarrow> Inl (OwpMissingField ''SUB'' ''sid'')
      | [a] \<Rightarrow> Inl (OwpMissingField ''SUB'' ''message_name'')
      | [a, b] \<Rightarrow> Inl (OwpMissingField ''SUB'' ''topic'')
      | [a, b, c] \<Rightarrow> sub_fields a b c None
      | [a, b, c, d] \<Rightarrow> sub_fields a b c (Some d)
      | _ \<Rightarrow> Inl (OwpExtraFields ''SUB''))"

definition parse_unsub :: "string \<Rightarrow> ParseError + ClientOp" where
  "parse_unsub rest =
     (case tokenize rest 2 of
        [] \<Rightarrow> Inl (OwpMissingField ''UNSUB'' ''sid'')
      | [a] \<Rightarrow> (if \<not> is_identifier a then Inl (InvalidIdentifier ''UNSUB'' ''sid'' a) else Inr (Unsub a))
      | _ \<Rightarrow> Inl (OwpExtraFields ''UNSUB''))"

definition parse_client :: "OwpSerde \<Rightarrow> string \<Rightarrow> ParseError + ClientOp" where
  "parse_client sd frame =
     res_bind (ok_or (split_first_token frame) EmptyFrame) (\<lambda>(keyword, rest).
       if keyword = ''INIT'' then parse_init sd rest
       else if keyword = ''PUB'' then parse_pub rest
       else if keyword = ''SUB'' then parse_sub rest
       else if keyword = ''UNSUB'' then parse_unsub rest
       else Inl (UnknownOp keyword))"

definition parse_err :: "string \<Rightarrow> ParseError + ServerOp" where
  "parse_err rest =
     res_bind (ok_or (split_first_token rest) (OwpMissingField ''-ERR'' ''error'')) (\<lambda>(n, details).
     res_bind (owp_error_from_str n) (\<lambda>e. Inr (ErrOp e (if details = [] then None else Some details))))"

definition parse_info :: "OwpSerde \<Rightarrow> string \<Rightarrow> ParseError + ServerOp" where
  "parse_info sd rest =
     (if rest = [] then Inl (OwpMissingField ''INFO'' ''payload'')
      else res_bind (map_err (InvalidJson ''INFO'') (info_from_str sd rest)) (\<lambda>p. Inr (InfoOp p)))"

definition parse_msg :: "string \<Rightarrow> ParseError + ServerOp" where
  "parse_msg rest =
     res_bind (ok_or (split_first_token rest) (OwpMissingField ''MSG'' ''sid'')) (\<lambda>(sid, p).
       if \<not> is_identifier sid then Inl (InvalidIdentifier ''MSG'' ''sid'' sid)
       else if p = [] then Inl (OwpMissingField ''MSG'' ''payload'')
       else Inr (MsgOp sid p))"

definition parse_server :: "OwpSerde \<Rightarrow> string \<Rightarrow> ParseError + ServerOp" where
  "parse_server sd frame =
     res_bind (ok_or (split_first_token frame) EmptyFrame) (\<lambda>(keyword, rest).
       if keyword = ''+OK'' then (if rest = [] then Inr OkOp else Inl (OwpExtraFields ''+OK''))
       else if keyword = ''-ERR'' then parse_err rest
       else if keyword = ''INFO'' then parse_info sd rest
       else if keyword = ''MSG'' then parse_msg rest
       else Inl (UnknownOp keyword))"

definition type_hint_from_json :: "(string \<Rightarrow> string + Value) \<Rightarrow> string \<Rightarrow> ParseError + string" where
  "type_hint_from_json json_parse t =
     res_bind (map_err (InvalidJson ''PUB'') (json_parse t)) (\<lambda>v.
     res_bind (ok_or (as_object v) (InvalidJson ''PUB'' ''root must be a JSON object'')) (\<lambda>m.
       case m of
         [(k, w)] \<Rightarrow> Inr k
       | _ \<Rightarrow> Inl (InvalidJson ''PUB'' ''root object must have exactly one member'')))"

section \<open>What splitting does\<close>

lemma while_all: "\<forall>x \<in> set s. P x \<Longrightarrow> takeWhile P s = s \<and> dropWhile P s = []"
  by (induction s) auto

lemma split_first_token_eq:
  "split_first_token s =
     (let u = dropWhile is_delim s in
      if u = [] then None
      else Some (takeWhile (\<lambda>b. \<not> is_delim b) u, dropWhile is_delim (dropWhile (\<lambda>b. \<not> is_delim b) u)))"
proof (cases "position (\<lambda>b. \<not> is_delim b) s")
  case None
  then have "dropWhile is_delim s = []" by (auto simp: position_None)
  then show ?thesis using None by (simp add: split_first_token_def)
next
  case (Some start)
  let ?u = "drop start s"
  have u: "dropWhile is_delim s = ?u" using position_take_drop [OF Some] by simp
  have ne: "?u \<noteq> []" using position_Some_lt [OF Some] by simp
  define e where "e = (case position is_delim ?u of None \<Rightarrow> length s | Some p \<Rightarrow> start + p)"
  have token: "take (e - start) ?u = takeWhile (\<lambda>b. \<not> is_delim b) ?u \<and> drop e s = dropWhile (\<lambda>b. \<not> is_delim b) ?u"
  proof (cases "position is_delim ?u")
    case None
    then have "\<forall>x \<in> set ?u. \<not> is_delim x" by (simp add: position_None)
    then have "takeWhile (\<lambda>b. \<not> is_delim b) ?u = ?u \<and> dropWhile (\<lambda>b. \<not> is_delim b) ?u = []"
      by (rule while_all)
    moreover have "take (e - start) ?u = ?u" "drop e s = []" using None by (simp_all add: e_def)
    ultimately show ?thesis by metis
  next
    case (Some p)
    then show ?thesis using position_take_drop [OF Some] by (simp add: e_def add.commute)
  qed
  have rest: "drop (case position (\<lambda>b. \<not> is_delim b) (drop e s) of None \<Rightarrow> length s | Some p \<Rightarrow> e + p) s = dropWhile is_delim (drop e s)"
  proof (cases "position (\<lambda>b. \<not> is_delim b) (drop e s)")
    case None
    then have d: "dropWhile is_delim (drop e s) = []" using while_all [of "drop e s" is_delim] by (simp add: position_None)
    show ?thesis unfolding None option.case d by simp
  next
    case (Some p)
    then show ?thesis using position_take_drop [OF Some] by (simp add: add.commute)
  qed
  show ?thesis
    unfolding split_first_token_def Some u Let_def option.case e_def [symmetric] using ne token rest by simp
qed

definition token :: "string \<Rightarrow> bool" where
  "token s \<longleftrightarrow> s \<noteq> [] \<and> list_all (\<lambda>b. \<not> is_delim b) s"

definition line :: "string \<Rightarrow> bool" where
  "line s \<longleftrightarrow> s \<noteq> [] \<and> \<not> is_delim (hd s)"

lemma split_token: "token a \<Longrightarrow> split_first_token a = Some (a, [])"
proof -
  assume a: "token a"
  then have "dropWhile is_delim a = a" by (cases a) (auto simp: token_def)
  moreover have "takeWhile (\<lambda>b. \<not> is_delim b) a = a \<and> dropWhile (\<lambda>b. \<not> is_delim b) a = []"
    using a by (intro while_all) (simp add: token_def list_all_iff)
  ultimately show ?thesis using a by (simp only: split_first_token_eq Let_def token_def dropWhile.simps) simp
qed

lemma split_token_rest: "token a \<Longrightarrow> line r \<Longrightarrow> split_first_token (a @ SPACE # r) = Some (a, r)"
proof -
  assume a: "token a" and r: "line r"
  have "dropWhile is_delim (a @ SPACE # r) = a @ SPACE # r" using a by (cases a) (auto simp: token_def)
  moreover have "takeWhile (\<lambda>b. \<not> is_delim b) (a @ SPACE # r) = a"
    using a by (subst takeWhile_append2) (auto simp: token_def list_all_iff is_delim_def)
  moreover have "dropWhile (\<lambda>b. \<not> is_delim b) (a @ SPACE # r) = SPACE # r"
    using a by (subst dropWhile_append2) (auto simp: token_def list_all_iff is_delim_def)
  moreover have "dropWhile is_delim (SPACE # r) = r" using r by (cases r) (auto simp: line_def is_delim_def)
  ultimately show ?thesis by (simp add: split_first_token_eq)
qed

lemma identifier_token: "is_identifier s \<Longrightarrow> token s"
proof -
  assume s: "is_identifier s"
  have "\<not> is_delim b" if "is_ascii_alphanumeric b \<or> b = CHR ''_'' \<or> b = CHR ''-'' \<or> b = CHR ''.''" for b
    using that by (auto simp: is_delim_def is_ascii_alphanumeric_def is_ascii_digit_def is_ascii_lowercase_def is_ascii_uppercase_def byte_def)
  then show ?thesis using s by (auto simp: is_identifier_def token_def list_all_iff)
qed

lemma token_line: "token s \<Longrightarrow> line s" "token a \<Longrightarrow> line (a @ r)"
  by (cases s; auto simp: token_def line_def) (cases a; auto simp: token_def line_def)

lemma line_dropWhile: "dropWhile is_delim s = [] \<or> line (dropWhile is_delim s)"
  using hd_dropWhile [of is_delim s] by (auto simp: line_def)

lemma split_result:
  assumes "split_first_token s = Some (a, r)"
  shows "token a \<and> (r = [] \<or> line r)"
proof -
  let ?u = "dropWhile is_delim s"
  have u: "?u \<noteq> []" "a = takeWhile (\<lambda>b. \<not> is_delim b) ?u" "r = dropWhile is_delim (dropWhile (\<lambda>b. \<not> is_delim b) ?u)"
    using assms by (auto simp: split_first_token_eq Let_def split: if_splits)
  have "\<not> is_delim (hd ?u)" using u(1) by (rule hd_dropWhile)
  then have "a \<noteq> []" using u(1,2) by (cases ?u) auto
  moreover have "list_all (\<lambda>b. \<not> is_delim b) a" unfolding u(2) list_all_iff by (auto dest: set_takeWhileD)
  ultimately show ?thesis using line_dropWhile u(3) by (simp add: token_def)
qed

lemma tokenize_result: "tokenize s n = ts \<Longrightarrow> list_all token ts \<and> length ts \<le> n"
  by (induction s n arbitrary: ts rule: tokenize.induct) (auto split: option.splits dest: split_result)

section \<open>Round trips\<close>

text \<open>A server frame whose fields survive the line format: an identifier for a sid, and text that
  neither is empty nor starts with a delimiter.\<close>

definition server_op_ok :: "OwpSerde \<Rightarrow> ServerOp \<Rightarrow> bool" where
  "server_op_ok sd x = (case x of
     OkOp \<Rightarrow> True
   | ErrOp e d \<Rightarrow> (case d of None \<Rightarrow> True | Some u \<Rightarrow> line u)
   | InfoOp p \<Rightarrow> (case info_to_string sd p of Inl _ \<Rightarrow> False | Inr j \<Rightarrow> line j \<and> info_from_str sd j = Inr p)
   | MsgOp sid p \<Rightarrow> is_identifier sid \<and> line p)"

lemma owp_error_token: "token (show_owp_error e)" "owp_error_from_str (show_owp_error e) = Inr e"
  by (cases e; simp add: show_owp_error_def token_def is_delim_def owp_error_from_str_def)+

lemma keyword_tokens: "token ''+OK''" "token ''-ERR''" "token ''INFO''" "token ''MSG''" "token ''PUB''" "token ''SUB''" "token ''UNSUB''" "token ''INIT''"
  by (simp_all add: token_def is_delim_def)

lemma keyword_split: "token k \<Longrightarrow> line r \<Longrightarrow> split_first_token (k @ '' '' @ r) = Some (k, r)"
  using split_token_rest by simp

lemmas keyword_splits = keyword_tokens [THEN keyword_split, simplified]

text \<open>Every server frame that the session can put on the wire is read back as itself: \<open>+OK\<close>,
  \<open>-ERR\<close> with its error name and details, \<open>INFO\<close> with its payload, and \<open>MSG\<close> with its subscription
  id and the whole payload, spaces included.\<close>

theorem server_op_roundtrip:
  assumes "server_op_ok sd x"
  shows "\<exists>t. show_server_op sd x = Some t \<and> parse_server sd t = Inr x"
proof (cases x)
  case OkOp
  then show ?thesis using split_token [OF keyword_tokens(1)] by (simp add: show_server_op_def parse_server_def)
next
  case (ErrOp e d)
  show ?thesis
  proof (cases d)
    case None
    then show ?thesis using ErrOp split_token [OF owp_error_token(1), of e] keyword_splits(2) [OF token_line(1) [OF owp_error_token(1)], of e]
      by (simp add: show_server_op_def parse_server_def parse_err_def owp_error_token(2))
  next
    case (Some u)
    then have u: "line u" using assms ErrOp by (simp add: server_op_ok_def)
    have "split_first_token (show_owp_error e @ '' '' @ u) = Some (show_owp_error e, u)"
      using split_token_rest [OF owp_error_token(1) u] by simp
    then show ?thesis using ErrOp Some keyword_splits(2) [OF token_line(2) [OF owp_error_token(1)], of e "'' '' @ u"]
      by (simp add: show_server_op_def parse_server_def parse_err_def owp_error_token(2), use u in \<open>auto simp: line_def\<close>)
  qed
next
  case (InfoOp p)
  then obtain j where "info_to_string sd p = Inr j" "line j" "info_from_str sd j = Inr p"
    using assms by (auto simp: server_op_ok_def split: sum.splits)
  then show ?thesis using InfoOp keyword_splits(3) [of j]
    by (auto simp: show_server_op_def parse_server_def parse_info_def line_def)
next
  case (MsgOp sid p)
  then have ok: "is_identifier sid" "line p" using assms by (simp_all add: server_op_ok_def)
  have "split_first_token (sid @ '' '' @ p) = Some (sid, p)"
    using split_token_rest [OF identifier_token [OF ok(1)] ok(2)] by simp
  then show ?thesis using MsgOp ok keyword_splits(4) [OF token_line(2) [OF identifier_token [OF ok(1)]], of "'' '' @ p"]
    by (auto simp: show_server_op_def parse_server_def parse_msg_def line_def)
qed

definition demo_serde :: OwpSerde where
  "demo_serde = \<lparr>init_from_str = (\<lambda>_. Inl ''no''), info_from_str = (\<lambda>_. Inl ''no''), info_to_string = (\<lambda>_. Inl ''no'')\<rparr>"

theorem server_op_roundtrip_witness:
  "\<exists>t. show_server_op demo_serde (MsgOp ''s1'' ''{ x }'') = Some t \<and> parse_server demo_serde t = Inr (MsgOp ''s1'' ''{ x }'')"
  by (rule server_op_roundtrip)
    (simp add: server_op_ok_def is_identifier_def is_ascii_alphanumeric_def is_ascii_digit_def is_ascii_lowercase_def byte_def line_def is_delim_def)

text \<open>What the client grammar allows, and the frame that says it with single spaces.\<close>

definition client_op_ok :: "ClientOp \<Rightarrow> bool" where
  "client_op_ok x = (case x of
     Init p \<Rightarrow> versions p \<noteq> [] \<and> is_identifier (init_service_id p)
   | Pub t p \<Rightarrow> is_identifier t \<and> line p
   | Sub sid n t g \<Rightarrow> is_identifier sid \<and> token n \<and> is_identifier t \<and> pred_option is_identifier g
   | Unsub sid \<Rightarrow> is_identifier sid)"

definition client_text :: "ClientOp \<Rightarrow> string option" where
  "client_text x = (case x of
     Init p \<Rightarrow> None
   | Pub t p \<Rightarrow> Some (''PUB '' @ t @ '' '' @ p)
   | Sub sid n t g \<Rightarrow> Some (''SUB '' @ sid @ '' '' @ n @ '' '' @ t @ (case g of None \<Rightarrow> [] | Some x \<Rightarrow> '' '' @ x))
   | Unsub sid \<Rightarrow> Some (''UNSUB '' @ sid))"

lemma tokenize_Cons: "token a \<Longrightarrow> line r \<Longrightarrow> tokenize (a @ SPACE # r) (Suc n) = a # tokenize r n"
  by (simp add: split_token_rest)

lemma tokenize_last: "token a \<Longrightarrow> tokenize a (Suc n) = [a]"
proof -
  assume "token a"
  moreover have "tokenize [] n = []" by (cases n) (simp_all add: split_first_token_def)
  ultimately show ?thesis by (simp add: split_token)
qed

lemma numeral_tokens: "tokenize s 5 = tokenize s (Suc (Suc (Suc (Suc (Suc 0)))))" "tokenize s 2 = tokenize s (Suc (Suc 0))"
  by (simp_all add: eval_nat_numeral del: tokenize.simps)

lemma parse_client_frame: "token k \<Longrightarrow> line r \<Longrightarrow> parse_client sd (k @ SPACE # r) =
   (if k = ''INIT'' then parse_init sd r else if k = ''PUB'' then parse_pub r else if k = ''SUB'' then parse_sub r
    else if k = ''UNSUB'' then parse_unsub r else Inl (UnknownOp k))"
  by (simp add: parse_client_def split_token_rest)

lemma parse_sub_text:
  assumes "is_identifier sid" "token n" "is_identifier t" "pred_option is_identifier g"
  shows "parse_sub (sid @ SPACE # n @ SPACE # t @ (case g of None \<Rightarrow> [] | Some x \<Rightarrow> SPACE # x)) = Inr (Sub sid n t g)"
proof -
  have tok: "token sid" "token n" "token t" using assms identifier_token by auto
  have fields: "sub_fields sid n t g = Inr (Sub sid n t g)"
    using assms by (cases g) (auto simp: sub_fields_def token_def)
  show ?thesis
  proof (cases g)
    case None
    have "tokenize (sid @ SPACE # n @ SPACE # t) 5 = [sid, n, t]"
      unfolding numeral_tokens using tok token_line by (simp add: tokenize_Cons tokenize_last del: tokenize.simps)
    then show ?thesis using None fields by (simp add: parse_sub_def)
  next
    case (Some x)
    then have "token x" using assms(4) identifier_token by simp
    then have "tokenize (sid @ SPACE # n @ SPACE # t @ SPACE # x) 5 = [sid, n, t, x]"
      unfolding numeral_tokens using tok token_line by (simp add: tokenize_Cons tokenize_last del: tokenize.simps)
    then show ?thesis using Some fields by (simp add: parse_sub_def)
  qed
qed

lemma parse_client_text:
  assumes "client_op_ok x" and "client_text x = Some t"
  shows "parse_client sd t = Inr x"
proof (cases x)
  case (Pub tp p)
  then have ok: "is_identifier tp" "line p" using assms(1) by (simp_all add: client_op_ok_def)
  have "parse_pub (tp @ SPACE # p) = Inr (Pub tp p)"
    using ok split_token_rest [OF identifier_token [OF ok(1)] ok(2)] by (auto simp: parse_pub_def line_def)
  then show ?thesis
    using assms(2) Pub parse_client_frame [OF keyword_tokens(5) token_line(2) [OF identifier_token [OF ok(1)]], of sd "SPACE # p"]
    by (simp add: client_text_def)
next
  case (Sub sid n tp g)
  then have ok: "is_identifier sid" "token n" "is_identifier tp" "pred_option is_identifier g"
    using assms(1) by (simp_all add: client_op_ok_def)
  show ?thesis
    using assms(2) Sub parse_sub_text [OF ok]
      parse_client_frame [OF keyword_tokens(6) token_line(2) [OF identifier_token [OF ok(1)]], of sd "SPACE # n @ SPACE # tp @ (case g of None \<Rightarrow> [] | Some x \<Rightarrow> SPACE # x)"]
    by (cases g) (simp_all add: client_text_def)
next
  case (Unsub sid)
  then have ok: "is_identifier sid" using assms(1) by (simp add: client_op_ok_def)
  have "parse_unsub sid = Inr (Unsub sid)"
    using ok identifier_token [OF ok] unfolding parse_unsub_def numeral_tokens by (simp add: tokenize_last del: tokenize.simps)
  then show ?thesis
    using assms(2) Unsub parse_client_frame [OF keyword_tokens(7) token_line(1) [OF identifier_token [OF ok]], of sd]
    by (simp add: client_text_def)
qed (use assms(2) in \<open>simp add: client_text_def\<close>)

lemma sub_fields_ok: "token n \<Longrightarrow> sub_fields sid n t g = Inr x \<Longrightarrow> client_op_ok x"
  by (auto simp: sub_fields_def client_op_ok_def split: if_splits option.splits)

lemma parse_client_ok: "parse_client sd frame = Inr x \<Longrightarrow> client_op_ok x"
proof -
  assume "parse_client sd frame = Inr x"
  then obtain k r where split: "split_first_token frame = Some (k, r)"
    and x: "parse_init sd r = Inr x \<or> parse_pub r = Inr x \<or> parse_sub r = Inr x \<or> parse_unsub r = Inr x"
    by (auto simp: parse_client_def res_elims split: if_splits)
  from x show ?thesis
  proof (elim disjE)
    assume "parse_init sd r = Inr x"
    then show ?thesis by (auto simp: parse_init_def client_op_ok_def res_elims split: if_splits)
  next
    assume "parse_pub r = Inr x"
    then show ?thesis by (auto simp: parse_pub_def client_op_ok_def res_elims split: if_splits dest!: split_result)
  next
    assume sub: "parse_sub r = Inr x"
    have "list_all token (tokenize r 5)" using tokenize_result by blast
    then show ?thesis using sub
      by (auto simp: parse_sub_def split: list.splits intro: sub_fields_ok)
  next
    assume "parse_unsub r = Inr x"
    then show ?thesis by (auto simp: parse_unsub_def client_op_ok_def split: list.splits if_splits)
  qed
qed

text \<open>C23: The client parser accepts exactly the grammar. Whatever frame it accepts as \<open>PUB\<close>, \<open>SUB\<close>
  or \<open>UNSUB\<close>, its fields are legal identifiers, non-empty names and payloads without leading
  delimiters, and the frame that writes the same operation with single spaces is read as the same
  operation; conversely every operation with legal fields is read from its frame.\<close>

theorem parse_client_grammar:
  "(parse_client sd frame = Inr x \<longrightarrow> client_op_ok x \<and> (\<forall>t. client_text x = Some t \<longrightarrow> parse_client sd t = Inr x)) \<and>
   (client_op_ok y \<and> client_text y = Some u \<longrightarrow> parse_client sd u = Inr y)"
  using parse_client_ok parse_client_text by blast

theorem parse_client_grammar_witness:
  "parse_client demo_serde ''  SUB  s1  Ping demo.topic '' = Inr (Sub ''s1'' ''Ping'' ''demo.topic'' None) \<and>
   parse_client demo_serde ''SUB s1 Ping demo.topic'' = Inr (Sub ''s1'' ''Ping'' ''demo.topic'' None)"
proof -
  have p: "parse_client demo_serde ''  SUB  s1  Ping demo.topic '' = Inr (Sub ''s1'' ''Ping'' ''demo.topic'' None)"
    by code_simp
  have "client_text (Sub ''s1'' ''Ping'' ''demo.topic'' None) = Some ''SUB s1 Ping demo.topic''"
    by (simp add: client_text_def)
  then show ?thesis
    using parse_client_grammar [THEN conjunct1, rule_format, OF p] p by blast
qed

end
