(* ===== verification/Uci_Primitive.thy ===== *)
theory Uci_Primitive
  imports Json_Value
begin

text \<open>
  What each \<open>xs:\<close> primitive accepts: \<open>oa-gateway-uci/src/primitive.rs\<close>. The \<open>regex\<close> crate is
  the argument \<open>rx\<close>: for a pattern that compiles, the function from a text to its named captures,
  if the text matches. The shapes of this file are literals, compiled with \<open>expect\<close>; the model
  takes \<open>the\<close> of what \<open>rx\<close> returns there, so nothing is known of a shape that does not compile.
\<close>

section \<open>Kinds\<close>

type_synonym captures = "string \<Rightarrow> string"
type_synonym regex = "string \<Rightarrow> captures option"
type_synonym regex_new = "string \<Rightarrow> regex option"

datatype Kind =
    Boolean
  | Integer int int
  | Numeric bool bool
  | DateTime | Date | Time | Duration | HexBinary | Text

definition i64_MIN :: int where "i64_MIN = - (2 ^ 63)"
definition i64_MAX :: int where "i64_MAX = 2 ^ 63 - 1"
definition u64_MAX :: int where "u64_MAX = 2 ^ 64 - 1"
definition i128_MIN :: int where "i128_MIN = - (2 ^ 127)"
definition i128_MAX :: int where "i128_MAX = 2 ^ 127 - 1"

definition kind_of_primitive :: "string \<Rightarrow> Kind" where
  "kind_of_primitive p =
     (if p = ''xs:boolean'' then Boolean
      else if p = ''xs:byte'' then Integer (- 128) 127
      else if p = ''xs:short'' then Integer (- 32768) 32767
      else if p = ''xs:int'' then Integer (- 2147483648) 2147483647
      else if p = ''xs:long'' then Integer i64_MIN i64_MAX
      else if p = ''xs:unsignedByte'' then Integer 0 255
      else if p = ''xs:unsignedShort'' then Integer 0 65535
      else if p = ''xs:unsignedInt'' then Integer 0 4294967295
      else if p = ''xs:unsignedLong'' then Integer 0 u64_MAX
      else if p = ''xs:nonNegativeInteger'' then Integer 0 i128_MAX
      else if p = ''xs:positiveInteger'' then Integer 1 i128_MAX
      else if p = ''xs:nonPositiveInteger'' then Integer i128_MIN 0
      else if p = ''xs:negativeInteger'' then Integer i128_MIN (- 1)
      else if p = ''xs:integer'' then Integer i128_MIN i128_MAX
      else if p = ''xs:decimal'' then Numeric False False
      else if p = ''xs:double'' \<or> p = ''xs:float'' then Numeric True True
      else if p = ''xs:dateTime'' then DateTime
      else if p = ''xs:date'' then Date
      else if p = ''xs:time'' then Time
      else if p = ''xs:duration'' then Duration
      else if p = ''xs:hexBinary'' then HexBinary
      else Text)"

definition primitive_is_checked :: "string \<Rightarrow> bool" where
  "primitive_is_checked p \<longleftrightarrow> kind_of_primitive p \<noteq> Text"

section \<open>The parts of a value\<close>

text \<open>Digits with an optional sign.\<close>

definition unsigned_part :: "string \<Rightarrow> string" where
  "unsigned_part t = (case t of [] \<Rightarrow> [] | c # cs \<Rightarrow> if c = CHR ''+'' \<or> c = CHR ''-'' then cs else t)"

definition integral :: "string \<Rightarrow> bool" where
  "integral t \<longleftrightarrow> unsigned_part t \<noteq> [] \<and> list_all is_ascii_digit (unsigned_part t)"

text \<open>\<open>str::rsplitn\<close> and \<open>splitn\<close> are one split from the right, or from the left, per part.\<close>

definition rsplit_once :: "char \<Rightarrow> string \<Rightarrow> (string \<times> string) option" where
  "rsplit_once c s = map_option (\<lambda>(a, b). (rev b, rev a)) (split_once c (rev s))"

definition last_day :: "int \<Rightarrow> nat \<Rightarrow> nat" where
  "last_day year month =
     (let leap = (year mod 4 = 0 \<and> (year mod 100 \<noteq> 0 \<or> year mod 400 = 0)) in
      if month \<in> {1, 3, 5, 7, 8, 10, 12} then 31
      else if month \<in> {4, 6, 9, 11} then 30
      else if leap then 29 else 28)"

definition calendar :: "string \<Rightarrow> bool" where
  "calendar date =
     (case rsplit_once (CHR ''-'') date of
        None \<Rightarrow> False
      | Some (front, day) \<Rightarrow>
          (case rsplit_once (CHR ''-'') front of
             None \<Rightarrow> False
           | Some (year, month) \<Rightarrow>
               (case (parse_unsigned 32 day, parse_unsigned 32 month) of
                  (Some d, Some m) \<Rightarrow>
                    (case parse_signed 64 (dropWhile (\<lambda>c. c = CHR ''-'') year) of
                       None \<Rightarrow> False
                     | Some y \<Rightarrow>
                         if y = 0 \<or> \<not> (1 \<le> m \<and> m \<le> 12) \<or> d = 0 then False
                         else d \<le> last_day y m)
                | _ \<Rightarrow> False)))"

definition clock :: "string \<Rightarrow> bool" where
  "clock time =
     (case split_once (CHR '':'') time of
        None \<Rightarrow> False
      | Some (hour, r) \<Rightarrow>
          (case split_once (CHR '':'') r of
             None \<Rightarrow> False
           | Some (minute, second) \<Rightarrow>
               (case (parse_unsigned 32 hour, parse_unsigned 32 minute) of
                  (Some h, Some m) \<Rightarrow>
                    (case parse_f64 second of
                       None \<Rightarrow> False
                     | Some s \<Rightarrow>
                         if m > 59 \<or> f64_le (Fin False 60) s then False
                         else if h \<le> 23 then True
                         else if h = 24 then m = 0 \<and> f64_eq s (Fin False 0)
                         else False)
                | _ \<Rightarrow> False)))"

section \<open>Shapes\<close>

abbreviation (input) DIGIT :: string where "DIGIT \<equiv> [BSLASH, CHR ''d'']"
abbreviation (input) POINT :: string where "POINT \<equiv> [BSLASH, CHR ''.'']"

definition DATE :: string where
  "DATE = ''-?'' @ DIGIT @ ''{4,}-'' @ DIGIT @ ''{2}-'' @ DIGIT @ ''{2}''"

definition TIME :: string where
  "TIME = DIGIT @ ''{2}:'' @ DIGIT @ ''{2}:'' @ DIGIT @ ''{2}('' @ POINT @ DIGIT @ ''+)?''"

definition ZONE :: string where
  "ZONE = ''(Z|[+-]((0'' @ DIGIT @ ''|1[0-3]):[0-5]'' @ DIGIT @ ''|14:00))''"

definition DECIMAL :: string where
  "DECIMAL = ''[+-]?([0-9]+('' @ POINT @ ''[0-9]*)?|'' @ POINT @ ''[0-9]+)''"

definition EXPONENTIAL :: string where
  "EXPONENTIAL = DECIMAL @ ''([Ee][+-]?[0-9]+)?''"

definition DATE_TIME :: string where
  "DATE_TIME = ''(?<date>'' @ DATE @ '')T(?<time>'' @ TIME @ '')'' @ ZONE @ ''?''"

definition DATE_ONLY :: string where
  "DATE_ONLY = ''(?<date>'' @ DATE @ '')'' @ ZONE @ ''?''"

definition TIME_ONLY :: string where
  "TIME_ONLY = ''(?<time>'' @ TIME @ '')'' @ ZONE @ ''?''"

definition DURATION :: string where
  "DURATION = ''-?P(('' @ DIGIT @ ''+Y)?('' @ DIGIT @ ''+M)?('' @ DIGIT @ ''+D)?(T('' @ DIGIT @ ''+H)?('' @
     DIGIT @ ''+M)?('' @ DIGIT @ ''+('' @ POINT @ DIGIT @ ''+)?S)?)?)''"

definition anchored :: "string \<Rightarrow> string" where
  "anchored shape = [BSLASH] @ ''A(?:'' @ shape @ '')'' @ [BSLASH] @ ''z''"

definition shape_pattern :: "regex_new \<Rightarrow> string \<Rightarrow> regex" where
  "shape_pattern rx shape = the (rx (anchored shape))"

section \<open>Refusals\<close>

definition refuses_integer :: "int \<Rightarrow> int \<Rightarrow> string \<Rightarrow> string option" where
  "refuses_integer lo hi t =
     (if \<not> integral t then Some ''a whole number, optionally signed''
      else if (case parse_signed 128 t of Some v \<Rightarrow> lo \<le> v \<and> v \<le> hi | None \<Rightarrow> False) then None
      else if lo = i128_MIN \<and> hi = i128_MAX then None
      else Some (''between '' @ show_int lo @ '' and '' @ show_int hi))"

definition refuses_numeric :: "regex_new \<Rightarrow> bool \<Rightarrow> bool \<Rightarrow> string \<Rightarrow> string option" where
  "refuses_numeric rx exponent special t =
     (if special \<and> t \<in> {''INF'', ''-INF'', ''NaN''} then None
      else if shape_pattern rx (if exponent then EXPONENTIAL else DECIMAL) t \<noteq> None then None
      else if exponent then Some ''a number, with an optional exponent''
      else Some ''a number, without an exponent'')"

fun refuses :: "regex_new \<Rightarrow> Kind \<Rightarrow> string \<Rightarrow> string option" where
  "refuses rx Boolean t =
     (if t \<in> {''true'', ''false'', ''1'', ''0''} then None
      else Some (''one of '' @ [CHR 0x27] @ ''true'' @ [CHR 0x27] @ '', '' @ [CHR 0x27] @ ''false'' @ [CHR 0x27] @ '', '' @
                 [CHR 0x27] @ ''1'' @ [CHR 0x27] @ '' or '' @ [CHR 0x27] @ ''0'' @ [CHR 0x27]))"
| "refuses rx (Integer lo hi) t = refuses_integer lo hi t"
| "refuses rx (Numeric exponent special) t = refuses_numeric rx exponent special t"
| "refuses rx DateTime t =
     (if (case shape_pattern rx DATE_TIME t of
            Some caps \<Rightarrow> calendar (caps ''date'') \<and> clock (caps ''time'') | None \<Rightarrow> False) then None
      else Some ''a date and time, as CCYY-MM-DDThh:mm:ss with an optional fraction and time zone'')"
| "refuses rx Date t =
     (if (case shape_pattern rx DATE_ONLY t of Some caps \<Rightarrow> calendar (caps ''date'') | None \<Rightarrow> False) then None
      else Some ''a date, as CCYY-MM-DD'')"
| "refuses rx Time t =
     (if (case shape_pattern rx TIME_ONLY t of Some caps \<Rightarrow> clock (caps ''time'') | None \<Rightarrow> False) then None
      else Some ''a time of day, as hh:mm:ss with an optional fraction and time zone'')"
| "refuses rx Duration t =
     (if shape_pattern rx DURATION t \<noteq> None \<and> \<not> (suffix ''P'' t \<or> suffix ''T'' t) then None
      else Some ''a duration, as PnYnMnDTnHnMnS with at least one part'')"
| "refuses rx HexBinary t =
     (if length t mod 2 = 0 \<and> list_all is_ascii_hexdigit t then None
      else Some ''an even number of hex digits'')"
| "refuses rx Text t = None"

section \<open>The integer types\<close>

text \<open>The value a text of the lexical space of \<open>xs:integer\<close> denotes, of any size.\<close>

definition integer_value :: "string \<Rightarrow> int" where
  "integer_value t =
     (if t \<noteq> [] \<and> hd t = CHR ''-'' then - int (digits_val (unsigned_part t))
      else int (digits_val (unsigned_part t)))"

lemma parse_signed_integral:
  assumes "integral t"
  shows "parse_signed w t =
    (if - (2 ^ (w - 1)) \<le> integer_value t \<and> integer_value t < 2 ^ (w - 1) then Some (integer_value t) else None)"
  using assms by (cases t) (auto simp: integral_def unsigned_part_def parse_signed_def integer_value_def Let_def)

lemma refuses_integer_exact:
  assumes "i128_MIN \<le> lo" and "hi \<le> i128_MAX" and "(lo, hi) \<noteq> (i128_MIN, i128_MAX)"
  shows "refuses_integer lo hi t = None \<longleftrightarrow> integral t \<and> lo \<le> integer_value t \<and> integer_value t \<le> hi"
  using assms by (auto simp: refuses_integer_def parse_signed_integral i128_MIN_def i128_MAX_def)

lemma refuses_integer_unbounded: "refuses_integer i128_MIN i128_MAX t = None \<longleftrightarrow> integral t"
  by (simp add: refuses_integer_def split: option.splits)

text \<open>The value spaces that XSD 1.0 gives the integer types: a lower and an upper bound, where there
  is one.\<close>

definition value_space :: "string \<Rightarrow> (int option \<times> int option) option" where
  "value_space p = map_of
     [(''xs:byte'', (Some (- (2 ^ 7)), Some (2 ^ 7 - 1))), (''xs:short'', (Some (- (2 ^ 15)), Some (2 ^ 15 - 1))),
      (''xs:int'', (Some (- (2 ^ 31)), Some (2 ^ 31 - 1))), (''xs:long'', (Some (- (2 ^ 63)), Some (2 ^ 63 - 1))),
      (''xs:unsignedByte'', (Some 0, Some (2 ^ 8 - 1))), (''xs:unsignedShort'', (Some 0, Some (2 ^ 16 - 1))),
      (''xs:unsignedInt'', (Some 0, Some (2 ^ 32 - 1))), (''xs:unsignedLong'', (Some 0, Some (2 ^ 64 - 1))),
      (''xs:nonNegativeInteger'', (Some 0, None)), (''xs:positiveInteger'', (Some 1, None)),
      (''xs:nonPositiveInteger'', (None, Some 0)), (''xs:negativeInteger'', (None, Some (- 1))),
      (''xs:integer'', (None, None))] p"

lemma kind_simps:
  "kind_of_primitive ''xs:byte'' = Integer (- 128) 127"
  "kind_of_primitive ''xs:short'' = Integer (- 32768) 32767"
  "kind_of_primitive ''xs:int'' = Integer (- 2147483648) 2147483647"
  "kind_of_primitive ''xs:long'' = Integer i64_MIN i64_MAX"
  "kind_of_primitive ''xs:unsignedByte'' = Integer 0 255"
  "kind_of_primitive ''xs:unsignedShort'' = Integer 0 65535"
  "kind_of_primitive ''xs:unsignedInt'' = Integer 0 4294967295"
  "kind_of_primitive ''xs:unsignedLong'' = Integer 0 u64_MAX"
  "kind_of_primitive ''xs:nonNegativeInteger'' = Integer 0 i128_MAX"
  "kind_of_primitive ''xs:positiveInteger'' = Integer 1 i128_MAX"
  "kind_of_primitive ''xs:nonPositiveInteger'' = Integer i128_MIN 0"
  "kind_of_primitive ''xs:negativeInteger'' = Integer i128_MIN (- 1)"
  "kind_of_primitive ''xs:integer'' = Integer i128_MIN i128_MAX"
  "kind_of_primitive ''xs:boolean'' = Boolean"
  "kind_of_primitive ''xs:string'' = Text"
  "kind_of_primitive ''xs:double'' = Numeric True True"
  "kind_of_primitive ''xs:hexBinary'' = HexBinary"
  by (simp_all add: kind_of_primitive_def)

definition in_space :: "int option \<times> int option \<Rightarrow> int \<Rightarrow> bool" where
  "in_space sp v \<longleftrightarrow>
     (case fst sp of None \<Rightarrow> True | Some lo \<Rightarrow> lo \<le> v) \<and> (case snd sp of None \<Rightarrow> True | Some hi \<Rightarrow> v \<le> hi)"

definition half_bounded :: "int option \<times> int option \<Rightarrow> bool" where
  "half_bounded sp \<longleftrightarrow> (fst sp = None) \<noteq> (snd sp = None)"

text \<open>C16: For each of the thirteen integer types of XSD, a text is accepted exactly when it is an
  optional sign followed by digits and its value, of whatever size, is in the type's value space. The
  four types with a single bound (\<open>xs:nonNegativeInteger\<close> and its relatives) also refuse a value that
  does not fit 128 bits; \<open>xs:integer\<close> does not.\<close>

theorem integer_types_exact:
  assumes "value_space p = Some sp"
  shows "refuses rx (kind_of_primitive p) t = None \<longleftrightarrow>
    integral t \<and> in_space sp (integer_value t) \<and>
    (if half_bounded sp then - (2 ^ 127) \<le> integer_value t \<and> integer_value t < 2 ^ 127 else True)"
proof -
  have bounded: "refuses_integer lo hi t = None \<longleftrightarrow> integral t \<and> lo \<le> integer_value t \<and> integer_value t \<le> hi"
    if "i128_MIN \<le> lo" "hi \<le> i128_MAX" "(lo, hi) \<noteq> (i128_MIN, i128_MAX)" for lo hi
    using that by (rule refuses_integer_exact)
  note limits = i64_MIN_def i64_MAX_def u64_MAX_def i128_MIN_def i128_MAX_def
  from map_of_SomeD [OF assms [unfolded value_space_def]] show ?thesis
    apply (simp only: list.set insert_iff prod.inject empty_iff)
    apply (elim disjE conjE FalseE; simp only: kind_simps refuses.simps in_space_def half_bounded_def fst_conv snd_conv option.simps)
                apply (simp_all only: refuses_integer_unbounded)
            apply (subst bounded; simp add: limits; fail)+
        apply (subst bounded; auto simp: limits; fail)+
    apply simp
    done
qed

theorem integer_types_exact_witness:
  "refuses (\<lambda>_. None) (kind_of_primitive ''xs:unsignedLong'') ''+18446744073709551615'' = None \<and>
   refuses (\<lambda>_. None) (kind_of_primitive ''xs:unsignedLong'') ''18446744073709551616'' \<noteq> None"
proof -
  have sp: "value_space ''xs:unsignedLong'' = Some (Some 0, Some (2 ^ 64 - 1))"
    by (simp add: value_space_def)
  have v: "integral ''+18446744073709551615''" "integral ''18446744073709551616''"
    "integer_value ''+18446744073709551615'' = 18446744073709551615" "integer_value ''18446744073709551616'' = 18446744073709551616"
    by (simp_all add: integral_def unsigned_part_def is_ascii_digit_def byte_def integer_value_def digits_val_def digit_val_def)
  show ?thesis
    using integer_types_exact [OF sp, of "\<lambda>_. None" "''+18446744073709551615''"]
      integer_types_exact [OF sp, of "\<lambda>_. None" "''18446744073709551616''"]
    by (simp add: v in_space_def half_bounded_def)
qed

end
