(* ===== verification/Uci_Schema.thy ===== *)
theory Uci_Schema
  imports Uci_Primitive "HOL-Library.Finite_Map" "HOL-Library.Product_Lexorder"
begin

text \<open>
  The in-memory UCI schema, \<open>oa-gateway-uci/src/schema.rs\<close>, with the errors of \<open>error.rs\<close>: named
  types, the builder methods, extension chains, restriction chains with their facets, and the
  translation of XSD patterns. A \<open>HashMap\<close> is a finite map. The \<open>regex\<close> crate is the argument
  \<open>rx\<close> of \<open>new_pattern\<close>: what compiling a pattern gives, if it compiles.
\<close>

section \<open>Errors\<close>

definition MAX_DEPTH :: nat where "MAX_DEPTH = 96"

datatype UciError =
    UciNotUtf8 | UciJson string | UciXml string | UnknownElement string | UnknownType string | Xsd string
  | At string string | TooDeep string

definition show_uci_error :: "UciError \<Rightarrow> string" where
  "show_uci_error e = (case e of
     UciNotUtf8 \<Rightarrow> ''not valid UTF-8''
   | UciJson m \<Rightarrow> ''invalid OMS JSON: '' @ m
   | UciXml m \<Rightarrow> ''invalid UCI XML: '' @ m
   | UnknownElement n \<Rightarrow> ''unknown global element '' @ [CHR 0x27] @ n @ [CHR 0x27]
   | UnknownType n \<Rightarrow> ''unknown type '' @ [CHR 0x27] @ n @ [CHR 0x27]
   | Xsd m \<Rightarrow> ''unsupported or malformed XSD: '' @ m
   | At p m \<Rightarrow> ''at '' @ p @ '': '' @ m
   | TooDeep p \<Rightarrow> ''at '' @ p @ '': nesting is deeper than '' @ show_nat MAX_DEPTH @ '' elements'')"

section \<open>Types\<close>

record Pattern =
  source :: string
  matcher :: "regex option"

record Facets =
  enumeration :: "string list"
  patterns :: "Pattern list"
  flength :: "nat option"
  min_length :: "nat option"
  max_length :: "nat option"
  min_inclusive :: "f64 option"
  max_inclusive :: "f64 option"
  min_exclusive :: "f64 option"
  max_exclusive :: "f64 option"

definition default_facets :: Facets where
  "default_facets = \<lparr>enumeration = [], patterns = [], flength = None, min_length = None, max_length = None,
     min_inclusive = None, max_inclusive = None, min_exclusive = None, max_exclusive = None\<rparr>"

record SimpleType =
  base :: string
  facets :: Facets

record Effective =
  eff_enumeration :: "string list option"
  eff_patterns :: "Pattern list list"
  eff_length :: "nat option"
  eff_min_length :: "nat option"
  eff_max_length :: "nat option"
  eff_min_inclusive :: "f64 option"
  eff_max_inclusive :: "f64 option"
  eff_min_exclusive :: "f64 option"
  eff_max_exclusive :: "f64 option"

definition default_effective :: Effective where
  "default_effective = \<lparr>eff_enumeration = None, eff_patterns = [], eff_length = None, eff_min_length = None,
     eff_max_length = None, eff_min_inclusive = None, eff_max_inclusive = None, eff_min_exclusive = None,
     eff_max_exclusive = None\<rparr>"

definition effective_is_empty :: "Effective \<Rightarrow> bool" where
  "effective_is_empty e \<longleftrightarrow>
     eff_enumeration e = None \<and> eff_patterns e = [] \<and> eff_length e = None \<and> eff_min_length e = None \<and>
     eff_max_length e = None \<and> eff_min_inclusive e = None \<and> eff_max_inclusive e = None \<and>
     eff_min_exclusive e = None \<and> eff_max_exclusive e = None"

datatype MaxOccurs = Bounded nat | Unbounded

definition is_array :: "MaxOccurs \<Rightarrow> bool" where
  "is_array m = (case m of Unbounded \<Rightarrow> True | Bounded n \<Rightarrow> n > 1)"

record Element =
  ename :: string
  etype :: string
  min_occurs :: nat
  max_occurs :: MaxOccurs

datatype GroupKind = Sequence | Choice

record Group =
  gkind :: GroupKind
  elements :: "Element list"

datatype ComplexContent = Groups "Group list" | Extension string "Group list"

record ComplexType =
  cname :: string
  abstract :: bool
  content :: ComplexContent

record Schema =
  global_elements :: "(string, string) fmap"
  complex_types :: "(string, ComplexType) fmap"
  simple_types :: "(string, SimpleType) fmap"

section \<open>Building a schema\<close>

definition sequence :: "Element list \<Rightarrow> Group" where
  "sequence es = \<lparr>gkind = Sequence, elements = es\<rparr>"

definition choice :: "Element list \<Rightarrow> Group" where
  "choice es = \<lparr>gkind = Choice, elements = es\<rparr>"

definition el :: "string \<Rightarrow> string \<Rightarrow> Element" where
  "el n t = \<lparr>ename = n, etype = t, min_occurs = 1, max_occurs = Bounded 1\<rparr>"

definition el_opt :: "string \<Rightarrow> string \<Rightarrow> Element" where
  "el_opt n t = \<lparr>ename = n, etype = t, min_occurs = 0, max_occurs = Bounded 1\<rparr>"

definition el_many :: "string \<Rightarrow> string \<Rightarrow> Element" where
  "el_many n t = \<lparr>ename = n, etype = t, min_occurs = 0, max_occurs = Unbounded\<rparr>"

definition new_schema :: Schema where
  "new_schema = \<lparr>global_elements = fmempty, complex_types = fmempty, simple_types = fmempty\<rparr>"

definition schema_element :: "string \<Rightarrow> string \<Rightarrow> Schema \<Rightarrow> Schema" where
  "schema_element n t s = s\<lparr>global_elements := fmupd n t (global_elements s)\<rparr>"

definition schema_simple_with :: "string \<Rightarrow> string \<Rightarrow> Facets \<Rightarrow> Schema \<Rightarrow> Schema" where
  "schema_simple_with n b f s = s\<lparr>simple_types := fmupd n \<lparr>base = b, facets = f\<rparr> (simple_types s)\<rparr>"

definition schema_simple :: "string \<Rightarrow> string \<Rightarrow> Schema \<Rightarrow> Schema" where
  "schema_simple n b s = schema_simple_with n b default_facets s"

definition complex_groups :: "string \<Rightarrow> Group list \<Rightarrow> Schema \<Rightarrow> Schema" where
  "complex_groups n gs s =
     s\<lparr>complex_types := fmupd n \<lparr>cname = n, abstract = False, content = Groups gs\<rparr> (complex_types s)\<rparr>"

definition complex :: "string \<Rightarrow> Element list \<Rightarrow> Schema \<Rightarrow> Schema" where
  "complex n es s = complex_groups n [sequence es] s"

definition complex_abstract :: "string \<Rightarrow> Element list \<Rightarrow> Schema \<Rightarrow> Schema" where
  "complex_abstract n es s =
     s\<lparr>complex_types := fmupd n \<lparr>cname = n, abstract = True, content = Groups [sequence es]\<rparr> (complex_types s)\<rparr>"

definition schema_extend :: "string \<Rightarrow> string \<Rightarrow> Element list \<Rightarrow> Schema \<Rightarrow> Schema" where
  "schema_extend n b extra s =
     s\<lparr>complex_types := fmupd n \<lparr>cname = n, abstract = False, content = Extension b [sequence extra]\<rparr> (complex_types s)\<rparr>"

definition global_type :: "Schema \<Rightarrow> string \<Rightarrow> string option" where
  "global_type s n = fmlookup (global_elements s) n"

definition is_complex :: "Schema \<Rightarrow> string \<Rightarrow> bool" where
  "is_complex s t \<longleftrightarrow> fmlookup (complex_types s) t \<noteq> None"

definition is_simple :: "Schema \<Rightarrow> string \<Rightarrow> bool" where
  "is_simple s t \<longleftrightarrow> prefix ''xs:'' t \<or> fmlookup (simple_types s) t \<noteq> None"

section \<open>Patterns\<close>

text \<open>One character outside an escape: whether a class is open after it, and the output.\<close>

definition translate_char :: "char \<Rightarrow> bool \<Rightarrow> string \<Rightarrow> bool \<times> string" where
  "translate_char c in_class out =
     (if c = CHR ''['' \<and> \<not> in_class then (True, out @ [c])
      else if c = CHR '']'' \<and> in_class then (False, out @ [c])
      else if c = CHR ''^'' \<or> c = CHR ''$'' then
        (if c = CHR ''^'' \<and> in_class \<and> suffix ''['' out then (in_class, out @ [c])
         else (in_class, out @ [BSLASH, c]))
      else (in_class, out @ [c]))"

fun translate_loop :: "string \<Rightarrow> bool \<Rightarrow> string \<Rightarrow> string" where
  "translate_loop [] in_class out = out"
| "translate_loop [c] in_class out =
     (if c = BSLASH then out @ [c] else snd (translate_char c in_class out))"
| "translate_loop (c # d # cs) in_class out =
     (if c = BSLASH then translate_loop cs in_class (out @ [c, d])
      else translate_loop (d # cs) (fst (translate_char c in_class out)) (snd (translate_char c in_class out)))"

definition translate :: "string \<Rightarrow> string" where
  "translate xsd = translate_loop xsd False ([BSLASH] @ ''A(?:'') @ '')'' @ [BSLASH] @ ''z''"

definition new_pattern :: "regex_new \<Rightarrow> string \<Rightarrow> Pattern" where
  "new_pattern rx src = \<lparr>source = src, matcher = rx (translate src)\<rparr>"

definition pattern_is_checked :: "Pattern \<Rightarrow> bool" where
  "pattern_is_checked p \<longleftrightarrow> matcher p \<noteq> None"

definition accepts :: "Pattern \<Rightarrow> string \<Rightarrow> bool" where
  "accepts p v = (case matcher p of None \<Rightarrow> True | Some r \<Rightarrow> r v \<noteq> None)"

section \<open>Extension chains\<close>

function groups_chain :: "Schema \<Rightarrow> string \<Rightarrow> string list \<Rightarrow> UciError + Group list" where
  "groups_chain s t chain =
     (if t \<in> set chain then
        Inl (Xsd (''cyclic extension chain: '' @ join '' -> '' (chain @ [t])))
      else case fmlookup (complex_types s) t of
        None \<Rightarrow> Inl (UnknownType t)
      | Some ct \<Rightarrow>
          (case content ct of
             Groups gs \<Rightarrow> Inr gs
           | Extension b extra \<Rightarrow>
               res_bind (groups_chain s b (chain @ [t])) (\<lambda>out. Inr (out @ extra))))"
  by pat_completeness auto

text \<open>Each step adds a new type of the schema to the chain.\<close>

termination
proof (relation "measure (\<lambda>(s, t, chain). card (fset (fmdom (complex_types s)) - set chain))", goal_cases)
  case 1
  then show ?case by simp
next
  case (2 s t chain ct b extra)
  have "t \<in> fset (fmdom (complex_types s)) - set chain"
    using 2 by (simp add: fmdomI)
  then have "fset (fmdom (complex_types s)) - set (chain @ [t]) \<subset> fset (fmdom (complex_types s)) - set chain"
    by auto
  then have "card (fset (fmdom (complex_types s)) - set (chain @ [t])) < card (fset (fmdom (complex_types s)) - set chain)"
    by (rule psubset_card_mono [rotated]) (rule finite_Diff, rule finite_fset)
  then show ?case by (simp only: in_measure split_conv)
qed

declare groups_chain.simps [simp del]

definition groups :: "Schema \<Rightarrow> string \<Rightarrow> UciError + Group list" where
  "groups s t = groups_chain s t []"

definition flatten :: "Schema \<Rightarrow> string \<Rightarrow> UciError + Element list" where
  "flatten s t = res_bind (groups s t) (\<lambda>gs. Inr (concat (map elements gs)))"

section \<open>Restriction chains\<close>

definition MAX_SIMPLE_DEPTH :: nat where "MAX_SIMPLE_DEPTH = 16"

fun primitive_loop :: "Schema \<Rightarrow> nat \<Rightarrow> string \<Rightarrow> string" where
  "primitive_loop s 0 cur = cur"
| "primitive_loop s (Suc n) cur =
     (if prefix ''xs:'' cur then cur
      else case fmlookup (simple_types s) cur of
        None \<Rightarrow> cur
      | Some st \<Rightarrow> primitive_loop s n (base st))"

definition primitive :: "Schema \<Rightarrow> string \<Rightarrow> string" where
  "primitive s t = primitive_loop s MAX_SIMPLE_DEPTH t"

text \<open>\<open>Ord::cmp\<close>, for the bound that \<open>stricter\<close> is told to keep.\<close>

datatype Ordering = Less | Equal | Greater

definition cmp :: "'a::linorder \<Rightarrow> 'a \<Rightarrow> Ordering" where
  "cmp a b = (if a < b then Less else if a = b then Equal else Greater)"

definition stricter :: "'a::linorder option \<Rightarrow> 'a option \<Rightarrow> Ordering \<Rightarrow> 'a option" where
  "stricter a b keep =
     (case (a, b) of
        (Some x, Some y) \<Rightarrow> Some (if cmp x y = keep then x else y)
      | (Some x, None) \<Rightarrow> Some x
      | (None, r) \<Rightarrow> r)"

definition stricter_f64 :: "f64 option \<Rightarrow> f64 option \<Rightarrow> (f64 \<Rightarrow> f64 \<Rightarrow> f64) \<Rightarrow> f64 option" where
  "stricter_f64 a b keep =
     (case (a, b) of
        (Some x, Some y) \<Rightarrow> Some (keep x y)
      | (Some x, None) \<Rightarrow> Some x
      | (None, r) \<Rightarrow> r)"

definition option_or :: "'a option \<Rightarrow> 'a option \<Rightarrow> 'a option" where
  "option_or a b = (case a of None \<Rightarrow> b | Some x \<Rightarrow> Some x)"

definition merge_facets :: "Effective \<Rightarrow> Facets \<Rightarrow> Effective" where
  "merge_facets out f =
     \<lparr>eff_enumeration = (if eff_enumeration out = None \<and> enumeration f \<noteq> [] then Some (enumeration f) else eff_enumeration out),
      eff_patterns = (if patterns f \<noteq> [] then eff_patterns out @ [patterns f] else eff_patterns out),
      eff_length = option_or (eff_length out) (flength f),
      eff_min_length = stricter (eff_min_length out) (min_length f) Greater,
      eff_max_length = stricter (eff_max_length out) (max_length f) Less,
      eff_min_inclusive = stricter_f64 (eff_min_inclusive out) (min_inclusive f) f64_max,
      eff_max_inclusive = stricter_f64 (eff_max_inclusive out) (max_inclusive f) f64_min,
      eff_min_exclusive = stricter_f64 (eff_min_exclusive out) (min_exclusive f) f64_max,
      eff_max_exclusive = stricter_f64 (eff_max_exclusive out) (max_exclusive f) f64_min\<rparr>"

fun facets_loop :: "Schema \<Rightarrow> nat \<Rightarrow> string \<Rightarrow> Effective \<Rightarrow> Effective" where
  "facets_loop s 0 cur out = out"
| "facets_loop s (Suc n) cur out =
     (case fmlookup (simple_types s) cur of
        None \<Rightarrow> out
      | Some st \<Rightarrow> facets_loop s n (base st) (merge_facets out (facets st)))"

definition effective_facets :: "Schema \<Rightarrow> string \<Rightarrow> Effective" where
  "effective_facets s t = facets_loop s MAX_SIMPLE_DEPTH t default_effective"

section \<open>What goes unchecked\<close>

definition used_primitives :: "Schema \<Rightarrow> string set" where
  "used_primitives s =
     primitive s ` fset (fmdom (simple_types s)) \<union>
     (\<Union>t \<in> fset (fmdom (complex_types s)).
        case groups s t of Inl _ \<Rightarrow> {} | Inr gs \<Rightarrow> (\<lambda>e. primitive s (etype e)) ` set (concat (map elements gs)))"

definition unchecked_primitives :: "Schema \<Rightarrow> string list" where
  "unchecked_primitives s =
     filter (\<lambda>n. prefix ''xs:'' n \<and> n \<noteq> ''xs:string'' \<and> \<not> primitive_is_checked n)
       (sorted_list_of_set (used_primitives s))"

definition unchecked_patterns :: "Schema \<Rightarrow> (string \<times> string) list" where
  "unchecked_patterns s =
     sort (concat (map (\<lambda>n. case fmlookup (simple_types s) n of
         None \<Rightarrow> []
       | Some st \<Rightarrow> map (\<lambda>p. (n, source p)) (filter (\<lambda>p. \<not> pattern_is_checked p) (patterns (facets st))))
       (sorted_list_of_set (fset (fmdom (simple_types s))))))"

section \<open>What an extension chain means\<close>

text \<open>The type that \<open>t\<close> extends, the relation it spans, and the compositors a type has: those of its
  base, then its own.\<close>

definition extends :: "Schema \<Rightarrow> string \<Rightarrow> string \<Rightarrow> bool" where
  "extends s t b \<longleftrightarrow> (\<exists>ct extra. fmlookup (complex_types s) t = Some ct \<and> content ct = Extension b extra)"

inductive derives :: "Schema \<Rightarrow> string \<Rightarrow> Group list \<Rightarrow> bool" for s where
  derives_groups: "fmlookup (complex_types s) t = Some ct \<Longrightarrow> content ct = Groups gs \<Longrightarrow> derives s t gs"
| derives_extension: "fmlookup (complex_types s) t = Some ct \<Longrightarrow> content ct = Extension b extra \<Longrightarrow>
    derives s b out \<Longrightarrow> derives s t (out @ extra)"

inductive_cases derivesE: "derives s t gs"

definition reaches_undefined :: "Schema \<Rightarrow> string \<Rightarrow> string \<Rightarrow> bool" where
  "reaches_undefined s t u \<longleftrightarrow> (extends s)\<^sup>*\<^sup>* t u \<and> fmlookup (complex_types s) u = None"

definition reaches_cycle :: "Schema \<Rightarrow> string \<Rightarrow> bool" where
  "reaches_cycle s t \<longleftrightarrow> (\<exists>u. (extends s)\<^sup>*\<^sup>* t u \<and> (extends s)\<^sup>+\<^sup>+ u u)"

lemma extends_det: "extends s t b \<Longrightarrow> extends s t c \<Longrightarrow> b = c"
  by (auto simp: extends_def)

lemma extends_rtrancl_det: "extends s t b \<Longrightarrow> (extends s)\<^sup>*\<^sup>* t u \<longleftrightarrow> u = t \<or> (extends s)\<^sup>*\<^sup>* b u"
  by (metis converse_rtranclpE converse_rtranclp_into_rtranclp extends_det rtranclp.rtrancl_refl)

lemma reaches_undefined_step: "extends s t b \<Longrightarrow> reaches_undefined s t u \<longleftrightarrow> reaches_undefined s b u"
  by (auto simp: reaches_undefined_def extends_rtrancl_det) (auto simp: extends_def)

lemma reaches_cycle_step: "extends s t b \<Longrightarrow> reaches_cycle s t \<longleftrightarrow> reaches_cycle s b"
  unfolding reaches_cycle_def
  by (metis extends_det extends_rtrancl_det tranclpD rtranclp.rtrancl_refl)

lemma reaches_end:
  assumes "\<And>b. \<not> extends s t b"
  shows "reaches_undefined s t u \<longleftrightarrow> u = t \<and> fmlookup (complex_types s) t = None" and "\<not> reaches_cycle s t"
  using assms unfolding reaches_undefined_def reaches_cycle_def
  by (metis converse_rtranclpE rtranclp.rtrancl_refl, metis converse_rtranclpE tranclpD)

lemma derives_total_chain: "derives s t gs \<Longrightarrow> \<not> reaches_cycle s t \<and> \<not> reaches_undefined s t u"
proof (induction rule: derives.induct)
  case (derives_groups t ct gs)
  then have "\<And>b. \<not> extends s t b" by (auto simp: extends_def)
  then show ?case using derives_groups by (simp add: reaches_end)
next
  case (derives_extension t ct b extra out)
  then have "extends s t b" by (auto simp: extends_def)
  then show ?case using derives_extension by (simp add: reaches_undefined_step reaches_cycle_step)
qed

lemma derives_unique: "derives s t gs \<Longrightarrow> derives s t gs' \<Longrightarrow> gs = gs'"
proof (induction arbitrary: gs' rule: derives.induct)
  case (derives_groups t ct gs)
  from derives_groups.prems show ?case
    by (rule derivesE) (use derives_groups.hyps in simp_all)
next
  case (derives_extension t ct b extra out)
  from derives_extension.prems show ?case
  proof (rule derivesE)
    fix ct' b' extra' out'
    assume "gs' = out' @ extra'" "fmlookup (complex_types s) t = Some ct'" "content ct' = Extension b' extra'" "derives s b' out'"
    then show "out @ extra = gs'" using derives_extension.hyps derives_extension.IH [of out'] by simp
  qed (use derives_extension.hyps in simp)
qed

lemma reaches_undefined_acyclic: "reaches_undefined s t u \<Longrightarrow> \<not> reaches_cycle s t"
  unfolding reaches_undefined_def
proof (elim conjE, induction rule: converse_rtranclp_induct)
  case base
  then show ?case by (intro reaches_end) (auto simp: extends_def)
next
  case (step t b)
  then show ?case by (simp add: reaches_cycle_step)
qed

lemma reaches_undefined_unique: "reaches_undefined s t u \<Longrightarrow> reaches_undefined s t v \<Longrightarrow> u = v"
proof -
  assume "reaches_undefined s t u" and v: "reaches_undefined s t v"
  then have "(extends s)\<^sup>*\<^sup>* t u" "fmlookup (complex_types s) u = None" by (auto simp: reaches_undefined_def)
  then show ?thesis using v
  proof (induction rule: converse_rtranclp_induct)
    case base
    then show ?case using reaches_end(1) [of s u v] by (auto simp: extends_def)
  next
    case (step t b)
    then show ?case by (simp add: reaches_undefined_step)
  qed
qed

text \<open>The walk ends in one of the three ways, whatever the chain already seen.\<close>

lemma groups_chain_outcome:
  assumes "\<forall>c \<in> set chain. (extends s)\<^sup>+\<^sup>+ c t"
  shows "(case groups_chain s t chain of
            Inr gs \<Rightarrow> derives s t gs
          | Inl (UnknownType u) \<Rightarrow> reaches_undefined s t u
          | Inl (Xsd m) \<Rightarrow> reaches_cycle s t
          | Inl _ \<Rightarrow> False)"
  using assms
proof (induction s t chain rule: groups_chain.induct)
  case (1 s t chain)
  show ?case
  proof (cases "t \<in> set chain")
    case True
    then have "reaches_cycle s t" using 1(2) by (auto simp: reaches_cycle_def)
    then show ?thesis using True by (simp add: groups_chain.simps)
  next
    case fresh: False
    show ?thesis
    proof (cases "fmlookup (complex_types s) t")
      case None
      then show ?thesis using fresh by (simp add: groups_chain.simps reaches_undefined_def)
    next
      case (Some ct)
      show ?thesis
      proof (cases "content ct")
        case (Groups gs)
        then show ?thesis using fresh Some by (simp add: groups_chain.simps [of s t chain] derives_groups)
      next
        case (Extension b extra)
        have e: "extends s t b" using Some Extension by (auto simp: extends_def)
        have "\<forall>c \<in> set (chain @ [t]). (extends s)\<^sup>+\<^sup>+ c b" using 1(2) e by auto
        note IH = "1.IH" [OF fresh Some Extension this]
        show ?thesis
        proof (cases "groups_chain s b (chain @ [t])")
          case (Inl err)
          then show ?thesis using IH fresh Some Extension e
            by (cases err) (simp_all add: groups_chain.simps [of s t chain] reaches_undefined_step reaches_cycle_step)
        next
          case (Inr out)
          then show ?thesis using IH fresh Some Extension
            by (auto simp: groups_chain.simps [of s t chain] intro: derives_extension)
        qed
      qed
    qed
  qed
qed

lemma groups_outcome:
  "(case groups s t of
      Inr gs \<Rightarrow> derives s t gs
    | Inl (UnknownType u) \<Rightarrow> reaches_undefined s t u
    | Inl (Xsd m) \<Rightarrow> reaches_cycle s t
    | Inl _ \<Rightarrow> False)"
  unfolding groups_def by (rule groups_chain_outcome) simp

text \<open>C17: Collecting the compositors of a type always ends, and in exactly one of three ways: with the
  compositors of its whole extension chain, base types first; with the error that names the undefined
  type its chain leads to; or with the cyclic-chain error, which is reported exactly when the chain
  runs into a cycle.\<close>

theorem groups_exact:
  "(groups s t = Inr gs \<longleftrightarrow> derives s t gs) \<and>
   (groups s t = Inl (UnknownType u) \<longleftrightarrow> reaches_undefined s t u) \<and>
   ((\<exists>m. groups s t = Inl (Xsd m)) \<longleftrightarrow> reaches_cycle s t)"
proof (cases "groups s t")
  case (Inr out)
  then have d: "derives s t out" using groups_outcome [of s t] by simp
  then show ?thesis
    using Inr derives_total_chain [OF d] derives_unique [OF d, of gs] by (metis sum.inject(2) sum.distinct(1))
next
  case (Inl err)
  have out: "case err of UnknownType u \<Rightarrow> reaches_undefined s t u | Xsd m \<Rightarrow> reaches_cycle s t | _ \<Rightarrow> False"
    using groups_outcome [of s t] Inl by simp
  then have nd: "\<not> derives s t gs" for gs
    using derives_total_chain [of s t gs] by (auto split: UciError.splits)
  show ?thesis
  proof (cases err)
    case (UnknownType v)
    then have r: "reaches_undefined s t v" using out by simp
    then show ?thesis
      using Inl UnknownType nd reaches_undefined_acyclic [OF r] reaches_undefined_unique [OF r, of u] by auto
  next
    case (Xsd m)
    then have "reaches_cycle s t" using out by simp
    then show ?thesis using Inl Xsd nd reaches_undefined_acyclic [of s t u] by auto
  qed (use out in simp_all)
qed

section \<open>What a restriction chain means\<close>

text \<open>The facets of the links of a restriction chain, the derived type first.\<close>

fun chain_facets :: "Schema \<Rightarrow> nat \<Rightarrow> string \<Rightarrow> Facets list" where
  "chain_facets s 0 cur = []"
| "chain_facets s (Suc n) cur =
     (case fmlookup (simple_types s) cur of
        None \<Rightarrow> []
      | Some st \<Rightarrow> facets st # chain_facets s n (base st))"

definition restrictions :: "Schema \<Rightarrow> string \<Rightarrow> Facets list" where
  "restrictions s t = chain_facets s MAX_SIMPLE_DEPTH t"

text \<open>A bound rules a value out.\<close>

definition rules_out :: "('a \<Rightarrow> bool) \<Rightarrow> 'a option \<Rightarrow> bool" where
  "rules_out bad b = (case b of None \<Rightarrow> False | Some m \<Rightarrow> bad m)"

lemma rules_out_simps [simp]: "\<not> rules_out bad None" "rules_out bad (Some m) = bad m"
  by (simp_all add: rules_out_def)

lemma f64_key_None: "f64_key a = None \<longleftrightarrow> a = NaN"
  by (cases a) auto

lemma f64_lt_max: "f64_lt x (f64_max a b) \<longleftrightarrow> f64_lt x a \<or> f64_lt x b"
  by (cases "f64_key x"; cases "f64_key a"; cases "f64_key b")
    (auto simp: f64_lt_def f64_max_def f64_key_None split: prod.splits)

lemma f64_lt_min: "f64_lt (f64_min a b) x \<longleftrightarrow> f64_lt a x \<or> f64_lt b x"
  by (cases "f64_key x"; cases "f64_key a"; cases "f64_key b")
    (auto simp: f64_lt_def f64_min_def f64_key_None split: prod.splits)

lemma f64_le_max: "f64_le x (f64_max a b) \<longleftrightarrow> f64_le x a \<or> f64_le x b"
  by (cases "f64_key x"; cases "f64_key a"; cases "f64_key b")
    (auto simp: f64_le_def f64_eq_def f64_lt_def f64_max_def f64_key_None split: prod.splits)

lemma f64_le_min: "f64_le (f64_min a b) x \<longleftrightarrow> f64_le a x \<or> f64_le b x"
  by (cases "f64_key x"; cases "f64_key a"; cases "f64_key b")
    (auto simp: f64_le_def f64_eq_def f64_lt_def f64_min_def f64_key_None split: prod.splits)

lemma stricter_rules_out:
  "rules_out (\<lambda>m. n < m) (stricter a b Greater) \<longleftrightarrow> rules_out (\<lambda>m. n < m) a \<or> rules_out (\<lambda>m. n < m) b"
  "rules_out (\<lambda>m. m < n) (stricter a b Less) \<longleftrightarrow> rules_out (\<lambda>m. m < n) a \<or> rules_out (\<lambda>m. m < n) b"
  by (cases a; cases b; auto simp: stricter_def cmp_def)+

lemma stricter_f64_rules_out:
  assumes "\<And>x y. bad (keep x y) \<longleftrightarrow> bad x \<or> bad y"
  shows "rules_out bad (stricter_f64 a b keep) \<longleftrightarrow> rules_out bad a \<or> rules_out bad b"
  by (cases a; cases b) (simp_all add: stricter_f64_def assms)

text \<open>A facet that each merge accumulates is, at the end, violated by the value exactly when a link of
  the chain is.\<close>

lemma facets_loop_accumulates:
  assumes "\<And>e f. bad (merge_facets e f) \<longleftrightarrow> bad e \<or> worse f"
  shows "bad (facets_loop s n t out) \<longleftrightarrow> bad out \<or> (\<exists>f \<in> set (chain_facets s n t). worse f)"
  by (induction s n t out rule: facets_loop.induct) (auto simp: assms split: option.splits)

lemma facets_loop_first:
  assumes "\<And>e f. get (merge_facets e f) = option_or (get e) (own f)"
  shows "get (facets_loop s n t out) = option_or (get out) (Option.bind (find (\<lambda>f. own f \<noteq> None) (chain_facets s n t)) own)"
  by (induction s n t out rule: facets_loop.induct) (auto simp: assms option_or_def split: option.splits)

definition own_enumeration :: "Facets \<Rightarrow> string list option" where
  "own_enumeration f = (if enumeration f = [] then None else Some (enumeration f))"

definition refused_by :: "string \<Rightarrow> Pattern list \<Rightarrow> bool" where
  "refused_by v alternatives \<longleftrightarrow> alternatives \<noteq> [] \<and> (\<forall>p \<in> set alternatives. \<not> accepts p v)"

text \<open>The facets gathered for a type say exactly what the links of its restriction chain say
  together. A length below the minimum or above the maximum, or a number outside a bound, is refused
  by the gathered facet if and only if some link refuses it (a bound that is not a number refuses
  nothing); a value is refused by a gathered set of patterns if and only if some link declares
  patterns and the value matches none of them; and the enumeration and the exact length are those of
  the first link that has one.\<close>

lemma effective_facets_exact:
  "(rules_out (\<lambda>m. len < m) (eff_min_length (effective_facets s t)) \<longleftrightarrow> (\<exists>f \<in> set (restrictions s t). rules_out (\<lambda>m. len < m) (min_length f))) \<and>
    (rules_out (\<lambda>m. m < len) (eff_max_length (effective_facets s t)) \<longleftrightarrow> (\<exists>f \<in> set (restrictions s t). rules_out (\<lambda>m. m < len) (max_length f))) \<and>
    (rules_out (f64_lt x) (eff_min_inclusive (effective_facets s t)) \<longleftrightarrow> (\<exists>f \<in> set (restrictions s t). rules_out (f64_lt x) (min_inclusive f))) \<and>
    (rules_out (\<lambda>m. f64_lt m x) (eff_max_inclusive (effective_facets s t)) \<longleftrightarrow> (\<exists>f \<in> set (restrictions s t). rules_out (\<lambda>m. f64_lt m x) (max_inclusive f))) \<and>
    (rules_out (f64_le x) (eff_min_exclusive (effective_facets s t)) \<longleftrightarrow> (\<exists>f \<in> set (restrictions s t). rules_out (f64_le x) (min_exclusive f))) \<and>
    (rules_out (\<lambda>m. f64_le m x) (eff_max_exclusive (effective_facets s t)) \<longleftrightarrow> (\<exists>f \<in> set (restrictions s t). rules_out (\<lambda>m. f64_le m x) (max_exclusive f))) \<and>
    ((\<exists>ps \<in> set (eff_patterns (effective_facets s t)). refused_by v ps) \<longleftrightarrow> (\<exists>f \<in> set (restrictions s t). refused_by v (patterns f))) \<and>
    eff_enumeration (effective_facets s t) = Option.bind (find (\<lambda>f. own_enumeration f \<noteq> None) (restrictions s t)) own_enumeration \<and>
    eff_length (effective_facets s t) = Option.bind (find (\<lambda>f. flength f \<noteq> None) (restrictions s t)) flength"
proof (intro conjI)
  note defs = effective_facets_def restrictions_def
  note lt = facets_loop_accumulates [where out = default_effective]
  show "rules_out (\<lambda>m. len < m) (eff_min_length (effective_facets s t)) \<longleftrightarrow> (\<exists>f \<in> set (restrictions s t). rules_out (\<lambda>m. len < m) (min_length f))"
    unfolding defs by (subst lt) (auto simp: merge_facets_def stricter_rules_out default_effective_def)
  show "rules_out (\<lambda>m. m < len) (eff_max_length (effective_facets s t)) \<longleftrightarrow> (\<exists>f \<in> set (restrictions s t). rules_out (\<lambda>m. m < len) (max_length f))"
    unfolding defs by (subst lt) (auto simp: merge_facets_def stricter_rules_out default_effective_def)
  show "rules_out (f64_lt x) (eff_min_inclusive (effective_facets s t)) \<longleftrightarrow> (\<exists>f \<in> set (restrictions s t). rules_out (f64_lt x) (min_inclusive f))"
    unfolding defs by (subst lt) (auto simp: merge_facets_def stricter_f64_rules_out f64_lt_max default_effective_def)
  show "rules_out (\<lambda>m. f64_lt m x) (eff_max_inclusive (effective_facets s t)) \<longleftrightarrow> (\<exists>f \<in> set (restrictions s t). rules_out (\<lambda>m. f64_lt m x) (max_inclusive f))"
    unfolding defs by (subst lt) (auto simp: merge_facets_def stricter_f64_rules_out f64_lt_min default_effective_def)
  show "rules_out (f64_le x) (eff_min_exclusive (effective_facets s t)) \<longleftrightarrow> (\<exists>f \<in> set (restrictions s t). rules_out (f64_le x) (min_exclusive f))"
    unfolding defs by (subst lt) (auto simp: merge_facets_def stricter_f64_rules_out f64_le_max default_effective_def)
  show "rules_out (\<lambda>m. f64_le m x) (eff_max_exclusive (effective_facets s t)) \<longleftrightarrow> (\<exists>f \<in> set (restrictions s t). rules_out (\<lambda>m. f64_le m x) (max_exclusive f))"
    unfolding defs by (subst lt) (auto simp: merge_facets_def stricter_f64_rules_out f64_le_min default_effective_def)
  show "(\<exists>ps \<in> set (eff_patterns (effective_facets s t)). refused_by v ps) \<longleftrightarrow> (\<exists>f \<in> set (restrictions s t). refused_by v (patterns f))"
    unfolding defs by (subst lt) (auto simp: merge_facets_def refused_by_def default_effective_def)
  show "eff_enumeration (effective_facets s t) = Option.bind (find (\<lambda>f. own_enumeration f \<noteq> None) (restrictions s t)) own_enumeration"
    unfolding defs
    by (subst facets_loop_first [where own = own_enumeration])
      (auto simp: merge_facets_def own_enumeration_def option_or_def default_effective_def split: option.splits)
  show "eff_length (effective_facets s t) = Option.bind (find (\<lambda>f. flength f \<noteq> None) (restrictions s t)) flength"
    unfolding defs
    by (subst facets_loop_first [where own = flength]) (simp_all add: merge_facets_def option_or_def default_effective_def)
qed

end
