(* ===== verification/Uci_Json.thy ===== *)
theory Uci_Json
  imports Uci_Schema
begin

text \<open>
  The schema-annotated instance tree, \<open>oa-gateway-uci/src/instance.rs\<close>, and its OMS JSON form,
  \<open>json.rs\<close>. What the code takes from \<open>serde_json\<close>, \<open>roxmltree\<close> and \<open>regex\<close> is the record \<open>Codecs\<close>; the
  texts that the standard library gives a floating-point number and a UTF-8 error,
  which only appear in messages to an operator or a peer, are fields too.
\<close>

section \<open>The libraries\<close>

record Codecs =
  serde_from_str :: "string \<Rightarrow> string + Value"
  serde_to_string :: "Value \<Rightarrow> string + string"
  value_to_string :: "Value \<Rightarrow> string"
  float_to_string :: "f64 \<Rightarrow> string"
  display_f64 :: "f64 \<Rightarrow> string"
  utf8_error :: "string \<Rightarrow> string"
  xml_document :: "string \<Rightarrow> string + xelem"
  regex_of :: regex_new

section \<open>The instance tree\<close>

datatype Simple = SString string | SBool bool | SNumber Number

datatype Node = Simple Simple | Complex "string option" "(string \<times> Field) list"
and Field = One Node | Many "Node list"

record Message =
  mname :: string
  mbody :: Node

definition complex_get :: "(string \<times> Field) list \<Rightarrow> string \<Rightarrow> Field option" where
  "complex_get fs n = map_option snd (find (\<lambda>p. fst p = n) fs)"

definition show_number :: "Codecs \<Rightarrow> Number \<Rightarrow> string" where
  "show_number c n = (case n of PosInt k \<Rightarrow> show_nat k | NegInt i \<Rightarrow> show_int i | Float x \<Rightarrow> float_to_string c x)"

definition as_text :: "Codecs \<Rightarrow> Simple \<Rightarrow> string" where
  "as_text c x = (case x of
     SString s \<Rightarrow> s
   | SBool b \<Rightarrow> (if b then ''true'' else ''false'')
   | SNumber n \<Rightarrow> show_number c n)"

section \<open>Reading\<close>

definition numeric_primitives :: "string list" where
  "numeric_primitives =
     [''xs:int'', ''xs:integer'', ''xs:long'', ''xs:short'', ''xs:byte'', ''xs:decimal'', ''xs:double'', ''xs:float'']"

definition parse_numeric_string :: "string \<Rightarrow> string \<Rightarrow> UciError + Simple" where
  "parse_numeric_string t s =
     (if t \<in> set numeric_primitives then
        (case parse_signed 64 s of
           Some i \<Rightarrow> Inr (SNumber (number_of_int i))
         | None \<Rightarrow>
             (case Option.bind (parse_f64 s) number_of_f64 of
                Some n \<Rightarrow> Inr (SNumber n)
              | None \<Rightarrow> Inl (UciJson ''not numeric'')))
      else Inl (UciJson ''not numeric''))"

definition read_simple :: "Codecs \<Rightarrow> Value \<Rightarrow> string \<Rightarrow> string \<Rightarrow> UciError + Simple" where
  "read_simple c v t path =
     (case v of
        JBool b \<Rightarrow> Inr (SBool b)
      | JNumber n \<Rightarrow> Inr (SNumber n)
      | JString s \<Rightarrow>
          (if t = ''xs:boolean'' \<and> (s = ''true'' \<or> s = ''1'') then Inr (SBool True)
           else if t = ''xs:boolean'' \<and> (s = ''false'' \<or> s = ''0'') then Inr (SBool False)
           else (case parse_numeric_string t s of Inr x \<Rightarrow> Inr x | Inl _ \<Rightarrow> Inr (SString s)))
      | JNull \<Rightarrow> Inl (At path ''null is not allowed'')
      | _ \<Rightarrow> Inl (At path (''cannot map JSON '' @ value_to_string c v @ '' to '' @ t)))"

definition child_decl :: "Element list \<Rightarrow> string \<Rightarrow> Element option" where
  "child_decl decls n = find (\<lambda>e. ename e = n) decls"

definition child_type :: "Element list \<Rightarrow> string \<Rightarrow> string" where
  "child_type decls n = (case child_decl decls n of None \<Rightarrow> ''xs:string'' | Some e \<Rightarrow> etype e)"

definition child_array :: "Element list \<Rightarrow> string \<Rightarrow> bool" where
  "child_array decls n = (case child_decl decls n of None \<Rightarrow> False | Some e \<Rightarrow> is_array (max_occurs e))"

definition item_path :: "string \<Rightarrow> nat \<Rightarrow> string" where
  "item_path p i = p @ ''['' @ show_nat i @ '']''"

definition is_leaf_type :: "Schema \<Rightarrow> string \<Rightarrow> bool" where
  "is_leaf_type s t \<longleftrightarrow> is_simple s t \<or> \<not> is_complex s t"

definition json_actual :: "(string \<times> Value) list \<Rightarrow> string \<Rightarrow> string" where
  "json_actual m t = (case Option.bind (bt_get m ''$type'') as_str of Some a \<Rightarrow> a | None \<Rightarrow> t)"

definition override :: "string \<Rightarrow> string \<Rightarrow> string option" where
  "override actual t = (if actual = t then None else Some actual)"

function (sequential) read_node :: "Codecs \<Rightarrow> Schema \<Rightarrow> Value \<Rightarrow> string \<Rightarrow> string \<Rightarrow> nat \<Rightarrow> UciError + Node"
  and read_items :: "Codecs \<Rightarrow> Schema \<Rightarrow> Value list \<Rightarrow> string \<Rightarrow> string \<Rightarrow> nat \<Rightarrow> nat \<Rightarrow> UciError + Node list"
  and read_members :: "Codecs \<Rightarrow> Schema \<Rightarrow> Element list \<Rightarrow> (string \<times> Value) list \<Rightarrow> string \<Rightarrow> nat \<Rightarrow> UciError + (string \<times> Field) list"
where
  "read_node c s v t path depth =
     (if depth > MAX_DEPTH then Inl (TooDeep path)
      else if is_leaf_type s t then res_bind (read_simple c v (primitive s t) path) (\<lambda>x. Inr (Simple x))
      else (case v of
          JObject m \<Rightarrow>
            (let actual = json_actual m t in
             if \<not> is_complex s actual then Inl (UnknownType actual)
             else res_bind (flatten s actual) (\<lambda>decls.
               res_bind (read_members c s decls m path depth) (\<lambda>fs. Inr (Complex (override actual t) fs))))
        | _ \<Rightarrow> Inl (At path (''expected object for complex type '' @ t))))"
| "read_items c s [] t path i depth = Inr []"
| "read_items c s (v # vs) t path i depth =
     res_bind (read_node c s v t (item_path path i) depth) (\<lambda>n.
       res_bind (read_items c s vs t path (Suc i) depth) (\<lambda>ns. Inr (n # ns)))"
| "read_members c s decls [] path depth = Inr []"
| "read_members c s decls ((key, val) # m) path depth =
     (if key = ''$type'' then read_members c s decls m path depth
      else
        (let t = child_type decls key; child_path = path @ ''.'' @ key in
         res_bind
           (if child_array decls key then
              (case val of
                 JArray arr \<Rightarrow> res_bind (read_items c s arr t child_path 0 (depth + 1)) (\<lambda>ns. Inr (Many ns))
               | _ \<Rightarrow> res_bind (read_node c s val t child_path (depth + 1)) (\<lambda>n. Inr (Many [n])))
            else res_bind (read_node c s val t child_path (depth + 1)) (\<lambda>n. Inr (One n)))
           (\<lambda>f. res_bind (read_members c s decls m path depth) (\<lambda>fs. Inr ((key, f) # fs)))))"

  by pat_completeness auto

termination
  by (relation "measure (\<lambda>x. case x of
        Inl (c, s, v, t, path, depth) \<Rightarrow> size v
      | Inr (Inl (c, s, vs, t, path, i, depth)) \<Rightarrow> size_list size vs
      | Inr (Inr (c, s, decls, m, path, depth)) \<Rightarrow> size_list (size_prod (\<lambda>_. 0) size) m)")
    auto

declare read_node.simps [simp del]

definition from_json :: "Codecs \<Rightarrow> Schema \<Rightarrow> string \<Rightarrow> UciError + Message" where
  "from_json c s t =
     res_bind (map_err UciJson (serde_from_str c t)) (\<lambda>v.
     res_bind (ok_or (as_object v) (UciJson ''root must be an object'')) (\<lambda>m.
       (case m of
          [(n, b)] \<Rightarrow>
            res_bind (ok_or (global_type s n) (UnknownElement n)) (\<lambda>declared.
            res_bind (read_node c s b declared n 0) (\<lambda>node. Inr \<lparr>mname = n, mbody = node\<rparr>))
        | _ \<Rightarrow> Inl (UciJson ''root object must have exactly one member''))))"

section \<open>Writing\<close>

definition write_simple :: "Simple \<Rightarrow> Value" where
  "write_simple x = (case x of SString v \<Rightarrow> JString v | SBool b \<Rightarrow> JBool b | SNumber n \<Rightarrow> JNumber n)"

definition actual_type :: "string option \<Rightarrow> string \<Rightarrow> string" where
  "actual_type tn t = (case tn of None \<Rightarrow> t | Some a \<Rightarrow> a)"

definition written_decls :: "Schema \<Rightarrow> string \<Rightarrow> UciError + Element list" where
  "written_decls s t = (if is_complex s t then flatten s t else Inr [])"

definition type_member :: "string option \<Rightarrow> (string \<times> Value) list" where
  "type_member tn = (case tn of None \<Rightarrow> [] | Some a \<Rightarrow> [(''$type'', JString a)])"

function (sequential) write_node :: "Schema \<Rightarrow> Node \<Rightarrow> string \<Rightarrow> string \<Rightarrow> nat \<Rightarrow> UciError + Value"
  and write_field :: "Schema \<Rightarrow> Field \<Rightarrow> string \<Rightarrow> string \<Rightarrow> nat \<Rightarrow> UciError + Value"
  and write_items :: "Schema \<Rightarrow> Node list \<Rightarrow> string \<Rightarrow> string \<Rightarrow> nat \<Rightarrow> nat \<Rightarrow> UciError + Value list"
  and write_fields :: "Schema \<Rightarrow> Element list \<Rightarrow> (string \<times> Field) list \<Rightarrow> string \<Rightarrow> nat \<Rightarrow> UciError + (string \<times> Value) list"
where
  "write_node s (Simple x) t path depth =
     (if depth > MAX_DEPTH then Inl (TooDeep path) else Inr (write_simple x))"
| "write_node s (Complex tn fs) t path depth =
     (if depth > MAX_DEPTH then Inl (TooDeep path)
      else res_bind (written_decls s (actual_type tn t)) (\<lambda>decls.
        res_bind (write_fields s decls fs path depth) (\<lambda>kvs.
          Inr (JObject (fold (\<lambda>(k, v). bt_insert k v) kvs (type_member tn))))))"
| "write_field s (One n) t path depth = write_node s n t path depth"
| "write_field s (Many ns) t path depth = res_bind (write_items s ns t path 0 depth) (\<lambda>vs. Inr (JArray vs))"
| "write_items s [] t path i depth = Inr []"
| "write_items s (n # ns) t path i depth =
     res_bind (write_node s n t (item_path path i) depth) (\<lambda>v.
       res_bind (write_items s ns t path (Suc i) depth) (\<lambda>vs. Inr (v # vs)))"
| "write_fields s decls [] path depth = Inr []"
| "write_fields s decls ((k, f) # fs) path depth =
     res_bind (write_field s f (child_type decls k) (path @ ''.'' @ k) (depth + 1)) (\<lambda>v.
       res_bind (write_fields s decls fs path depth) (\<lambda>kvs. Inr ((k, v) # kvs)))"

  by pat_completeness auto

termination
  by (relation "measure (\<lambda>x. case x of
        Inl (Inl (s, n, t, path, depth)) \<Rightarrow> size n
      | Inl (Inr (s, f, t, path, depth)) \<Rightarrow> size f
      | Inr (Inl (s, ns, t, path, i, depth)) \<Rightarrow> size_list size ns
      | Inr (Inr (s, decls, fs, path, depth)) \<Rightarrow> size_list (size_prod (\<lambda>_. 0) size) fs)")
    auto

definition declared_type :: "Schema \<Rightarrow> string \<Rightarrow> string" where
  "declared_type s n = (case global_type s n of None \<Rightarrow> n | Some t \<Rightarrow> t)"

definition to_json :: "Codecs \<Rightarrow> Schema \<Rightarrow> Message \<Rightarrow> UciError + string" where
  "to_json c s m =
     res_bind (write_node s (mbody m) (declared_type s (mname m)) (mname m) 0) (\<lambda>v.
       map_err UciJson (serde_to_string c (json_object [(mname m, v)])))"

section \<open>Reading what was written\<close>

text \<open>A \<open>serde_json::Map\<close> is a \<open>BTreeMap\<close>, so every object of a parsed value is sorted by key.\<close>

fun json_sorted :: "Value \<Rightarrow> bool" where
  "json_sorted (JArray vs) = list_all json_sorted vs"
| "json_sorted (JObject m) = (bt_inv m \<and> list_all (\<lambda>p. json_sorted (snd p)) m)"
| "json_sorted _ = True"

lemma override_actual [simp]: "actual_type (override a t) t = a"
  by (simp add: override_def actual_type_def)

lemma bt_inv_filter: "bt_inv m \<Longrightarrow> bt_inv (filter P m)"
  by (induction m) (auto simp: bt_inv_def)

lemma bt_get_filter: "bt_get (filter (\<lambda>x. fst x \<noteq> k) m) j = (if j = k then None else bt_get m j)"
  by (induction m) auto

lemma bt_inv_fold: "bt_inv m \<Longrightarrow> bt_inv (fold (\<lambda>(k, v). bt_insert k v) kvs m)"
  by (induction kvs arbitrary: m) (auto simp: bt_inv_insert)

lemma bt_inv_keys: "bt_inv m \<longleftrightarrow> sorted_wrt (<) (map fst m)"
  by (simp add: bt_inv_def)

lemma map_of_rev_sorted: "bt_inv m \<Longrightarrow> map_of (rev m) = map_of m"
  by (metis bt_inv_distinct distinct_map distinct_rev map_of_inject_set rev_map set_rev)

lemma type_member_inv: "bt_inv (type_member tn)"
  by (cases tn) (simp_all add: type_member_def bt_inv_def)

lemma fold_members:
  assumes "bt_inv kvs" and "''$type'' \<notin> fst ` set kvs"
  shows "filter (\<lambda>x. fst x \<noteq> ''$type'') (fold (\<lambda>(k, v). bt_insert k v) kvs (type_member tn)) = kvs" (is "?L = kvs")
    and "bt_get (fold (\<lambda>(k, v). bt_insert k v) kvs (type_member tn)) ''$type'' = map_option JString tn"
proof -
  have none: "bt_get kvs ''$type'' = None"
    using assms(2) by (auto simp: bt_get_def map_of_eq_None_iff)
  have get: "bt_get (fold (\<lambda>(k, v). bt_insert k v) kvs (type_member tn)) j =
      (if j = ''$type'' then map_option JString tn else bt_get kvs j)" for j
    unfolding bt_get_fold map_of_rev_sorted [OF assms(1)] bt_get_def [of kvs, symmetric]
    using none by (auto simp: type_member_def split: option.splits)
  have "bt_inv ?L" by (intro bt_inv_filter bt_inv_fold type_member_inv)
  then show "?L = kvs"
    using assms(1) by (rule bt_ext) (simp add: bt_get_filter get none)
  show "bt_get (fold (\<lambda>(k, v). bt_insert k v) kvs (type_member tn)) ''$type'' = map_option JString tn"
    by (simp add: get)
qed

lemma read_members_filter:
  "read_members c s decls (filter (\<lambda>x. fst x \<noteq> ''$type'') m) p d = read_members c s decls m p d"
  by (induction m) (auto simp: Let_def)

lemma read_members_keys:
  "read_members c s decls m p d = Inr fs \<Longrightarrow> map fst fs = filter (\<lambda>k. k \<noteq> ''$type'') (map fst m)"
  by (induction m arbitrary: fs) (auto simp: Let_def res_elims split: if_splits)

lemma sorted_wrt_filter: "sorted_wrt R xs \<Longrightarrow> sorted_wrt R (filter P xs)"
  by (induction xs) auto

lemma read_simple_write_simple:
  assumes "read_simple c v t p = Inr x"
  shows "read_simple c (write_simple x) t q = Inr x"
proof -
  have num: "\<exists>n. x = SNumber n" if "parse_numeric_string t u = Inr x" for u
    using that by (auto simp: parse_numeric_string_def split: if_splits option.splits)
  show ?thesis
    using assms by (cases v) (auto simp: read_simple_def write_simple_def split: if_splits sum.splits dest!: num)
qed

definition node_returns :: "Codecs \<Rightarrow> Schema \<Rightarrow> string \<Rightarrow> nat \<Rightarrow> Node \<Rightarrow> bool" where
  "node_returns c s t d n \<longleftrightarrow>
     (\<exists>v. (\<forall>p. write_node s n t p d = Inr v) \<and> (\<forall>q. read_node c s v t q d = Inr n))"

definition read_field :: "Codecs \<Rightarrow> Schema \<Rightarrow> Element list \<Rightarrow> string \<Rightarrow> Value \<Rightarrow> string \<Rightarrow> nat \<Rightarrow> UciError + Field" where
  "read_field c s decls k v p d =
     (let t = child_type decls k in
      if child_array decls k then
        (case v of
           JArray arr \<Rightarrow> res_bind (read_items c s arr t (p @ ''.'' @ k) 0 (d + 1)) (\<lambda>ns. Inr (Many ns))
         | _ \<Rightarrow> res_bind (read_node c s v t (p @ ''.'' @ k) (d + 1)) (\<lambda>n. Inr (Many [n])))
      else res_bind (read_node c s v t (p @ ''.'' @ k) (d + 1)) (\<lambda>n. Inr (One n)))"

lemma read_members_Cons: "k \<noteq> ''$type'' \<Longrightarrow> read_members c s decls ((k, v) # m) p d =
    res_bind (read_field c s decls k v p d) (\<lambda>f. res_bind (read_members c s decls m p d) (\<lambda>fs. Inr ((k, f) # fs)))"
  by (simp only: read_members.simps read_field_def Let_def if_False)

lemma field_returns:
  assumes "read_field c s decls k v p d = Inr f"
    and node: "\<And>n q. read_node c s v (child_type decls k) q (d + 1) = Inr n \<Longrightarrow> node_returns c s (child_type decls k) (d + 1) n"
    and items: "\<And>vs ns q i. v = JArray vs \<Longrightarrow> read_items c s vs (child_type decls k) q i (d + 1) = Inr ns \<Longrightarrow>
      (\<exists>vs'. (\<forall>p j. write_items s ns (child_type decls k) p j (d + 1) = Inr vs') \<and> (\<forall>q j. read_items c s vs' (child_type decls k) q j (d + 1) = Inr ns))"
  shows "\<exists>w. (\<forall>p. write_field s f (child_type decls k) p (d + 1) = Inr w) \<and> (\<forall>q. read_field c s decls k w q d = Inr f)"
proof (cases "child_array decls k \<and> (\<exists>vs. v = JArray vs)")
  case True
  let ?t = "child_type decls k"
  obtain vs ns where vs: "v = JArray vs" and "read_items c s vs ?t (p @ ''.'' @ k) 0 (d + 1) = Inr ns" and f: "f = Many ns"
    using True assms(1) by (auto simp: read_field_def Let_def res_bind_Inr)
  then obtain vs' where "\<forall>p j. write_items s ns ?t p j (d + 1) = Inr vs'" "\<forall>q j. read_items c s vs' ?t q j (d + 1) = Inr ns"
    using items by blast
  then show ?thesis using f True by (intro exI [of _ "JArray vs'"]) (simp add: read_field_def Let_def)
next
  case False
  let ?t = "child_type decls k"
  obtain n where n: "read_node c s v ?t (p @ ''.'' @ k) (d + 1) = Inr n" and f: "f = (if child_array decls k then Many [n] else One n)"
    using False assms(1) by (cases v) (auto simp: read_field_def Let_def res_bind_Inr split: if_splits)
  obtain w where "\<forall>p. write_node s n ?t p (d + 1) = Inr w" "\<forall>q. read_node c s w ?t q (d + 1) = Inr n"
    using node [OF n] by (auto simp: node_returns_def)
  then show ?thesis
    using f by (intro exI [of _ "if child_array decls k then JArray [w] else w"]) (simp add: read_field_def Let_def)
qed

definition items_return :: "Codecs \<Rightarrow> Schema \<Rightarrow> string \<Rightarrow> nat \<Rightarrow> Node list \<Rightarrow> bool" where
  "items_return c s t d ns \<longleftrightarrow>
     (\<exists>vs. (\<forall>p j. write_items s ns t p j d = Inr vs) \<and> (\<forall>q j. read_items c s vs t q j d = Inr ns))"

text \<open>What the induction on a value carries: its node comes back, and, for an array, its items do.\<close>

definition returns :: "Codecs \<Rightarrow> Schema \<Rightarrow> Value \<Rightarrow> bool" where
  "returns c s v \<longleftrightarrow>
     (\<forall>t p d n. read_node c s v t p d = Inr n \<longrightarrow> node_returns c s t d n) \<and>
     (\<forall>vs t p i d ns. v = JArray vs \<longrightarrow> read_items c s vs t p i d = Inr ns \<longrightarrow> items_return c s t d ns)"

lemma read_items_return:
  assumes "\<forall>v \<in> set vs. \<forall>t p d n. read_node c s v t p d = Inr n \<longrightarrow> node_returns c s t d n"
    and "read_items c s vs t p i d = Inr ns"
  shows "items_return c s t d ns"
  using assms
proof (induction vs arbitrary: i ns)
  case Nil
  then show ?case by (auto simp: items_return_def)
next
  case (Cons v vs)
  obtain n ns' where n: "read_node c s v t (item_path p i) d = Inr n" and ns': "read_items c s vs t p (Suc i) d = Inr ns'"
    and ns: "ns = n # ns'"
    using Cons.prems(2) by (auto simp: res_bind_Inr)
  obtain w where "\<forall>p. write_node s n t p d = Inr w" "\<forall>q. read_node c s w t q d = Inr n"
    using Cons.prems(1) n unfolding node_returns_def by (meson list.set_intros(1))
  moreover obtain vs' where "\<forall>p j. write_items s ns' t p j d = Inr vs'" "\<forall>q j. read_items c s vs' t q j d = Inr ns'"
    using Cons.IH [OF _ ns'] Cons.prems(1) unfolding items_return_def by (meson list.set_intros(2))
  ultimately show ?case using ns unfolding items_return_def by (intro exI [of _ "w # vs'"]) simp
qed

lemma members_return:
  assumes "read_members c s decls m p d = Inr fs" and "\<forall>x \<in> set m. returns c s (snd x)"
  shows "\<exists>kvs. (\<forall>p. write_fields s decls fs p d = Inr kvs) \<and> map fst kvs = map fst fs \<and> (\<forall>q. read_members c s decls kvs q d = Inr fs)"
  using assms
proof (induction m arbitrary: fs)
  case Nil
  then show ?case by simp
next
  case (Cons kv m)
  obtain k v where kv: "kv = (k, v)" by (cases kv)
  show ?case
  proof (cases "k = ''$type''")
    case True
    then show ?thesis using Cons.prems kv by (intro Cons.IH) auto
  next
    case False
    obtain f fs' where fs: "fs = (k, f) # fs'" and rest: "read_members c s decls m p d = Inr fs'"
      and f: "read_field c s decls k v p d = Inr f"
      using Cons.prems(1) kv False by (auto simp: read_members_Cons res_bind_Inr simp del: read_members.simps)
    have "returns c s v" using Cons.prems(2) kv by simp
    then obtain w where w: "\<forall>p. write_field s f (child_type decls k) p (d + 1) = Inr w" "\<forall>q. read_field c s decls k w q d = Inr f"
      using field_returns [OF f] unfolding returns_def items_return_def by blast
    obtain kvs where "\<forall>p. write_fields s decls fs' p d = Inr kvs" "map fst kvs = map fst fs'" "\<forall>q. read_members c s decls kvs q d = Inr fs'"
      using Cons.IH [OF rest] Cons.prems(2) by auto
    then show ?thesis using w fs
      by (intro exI [of _ "(k, w) # kvs"]) (simp add: read_members_Cons [OF False] del: read_members.simps)
  qed
qed

lemma object_returns:
  assumes "bt_inv m" and "\<forall>x \<in> set m. returns c s (snd x)"
    and "read_node c s (JObject m) t p d = Inr n" and "\<not> is_leaf_type s t"
  shows "node_returns c s t d n"
proof -
  have shallow: "\<not> d > MAX_DEPTH" using assms(3) by (auto simp: read_node.simps split: if_splits)
  define a where "a = json_actual m t"
  obtain decls fs where a: "is_complex s a" "flatten s a = Inr decls"
    and fs: "read_members c s decls m p d = Inr fs" and n: "n = Complex (override a t) fs"
    using assms(3,4) shallow by (auto simp: read_node.simps Let_def a_def res_bind_Inr split: if_splits)
  obtain kvs where kvs: "\<forall>p. write_fields s decls fs p d = Inr kvs" "map fst kvs = map fst fs"
      "\<forall>q. read_members c s decls kvs q d = Inr fs"
    using members_return [OF fs assms(2)] by blast
  let ?M = "fold (\<lambda>(k, v). bt_insert k v) kvs (type_member (override a t))"
  have keys: "map fst kvs = filter (\<lambda>k. k \<noteq> ''$type'') (map fst m)"
    using kvs(2) read_members_keys [OF fs] by simp
  have "bt_inv kvs" unfolding bt_inv_def keys using assms(1) by (intro sorted_wrt_filter) (simp add: bt_inv_def)
  moreover have "''$type'' \<notin> fst ` set kvs"
    unfolding set_map [symmetric] keys by simp
  ultimately have inv: "bt_inv kvs" "''$type'' \<notin> fst ` set kvs" by simp_all
  have "\<forall>q. read_members c s decls ?M q d = Inr fs"
    using fold_members(1) [OF inv, of "override a t"] kvs(3) by (metis read_members_filter)
  moreover have "json_actual ?M t = a"
    by (simp add: json_actual_def fold_members(2) [OF inv]) (simp add: override_def as_str_def)
  ultimately have "\<forall>q. read_node c s (JObject ?M) t q d = Inr n"
    using a n shallow assms(4) by (simp add: read_node.simps Let_def)
  moreover have "\<forall>p. write_node s n t p d = Inr (JObject ?M)"
    using a n kvs(1) shallow by (simp add: written_decls_def)
  ultimately show ?thesis by (auto simp: node_returns_def)
qed

lemma leaf_returns:
  assumes "read_node c s v t p d = Inr n" and "is_leaf_type s t"
  shows "node_returns c s t d n"
proof -
  have shallow: "\<not> d > MAX_DEPTH" using assms(1) by (auto simp: read_node.simps split: if_splits)
  obtain x where x: "n = Simple x" "read_simple c v (primitive s t) p = Inr x"
    using assms shallow by (auto simp: read_node.simps res_bind_Inr)
  then show ?thesis using assms(2) shallow read_simple_write_simple [OF x(2)]
    unfolding node_returns_def by (intro exI [of _ "write_simple x"]) (simp add: read_node.simps)
qed

lemma read_node_object: "read_node c s v t p d = Inr n \<Longrightarrow> \<not> is_leaf_type s t \<Longrightarrow> \<exists>m. v = JObject m"
  by (cases v) (auto simp: read_node.simps split: if_splits)

lemma returnsI:
  assumes "\<And>t p d n. read_node c s v t p d = Inr n \<Longrightarrow> \<not> is_leaf_type s t \<Longrightarrow> node_returns c s t d n"
    and "\<And>vs t p i d ns. v = JArray vs \<Longrightarrow> read_items c s vs t p i d = Inr ns \<Longrightarrow> items_return c s t d ns"
  shows "returns c s v"
  using assms leaf_returns unfolding returns_def by blast

lemma all_returns: "json_sorted v \<Longrightarrow> returns c s v"
proof (induction v)
  case (JArray vs)
  then have "\<forall>v \<in> set vs. returns c s v" by (auto simp: list_all_iff)
  then have "\<forall>v \<in> set vs. \<forall>t p d n. read_node c s v t p d = Inr n \<longrightarrow> node_returns c s t d n"
    unfolding returns_def by blast
  from read_items_return [OF this] show ?case
    by (intro returnsI) (auto dest: read_node_object)
next
  case (JObject m)
  have "\<forall>x \<in> set m. returns c s (snd x)"
  proof
    fix x assume x: "x \<in> set m"
    then have "json_sorted (snd x)" using JObject.prems by (simp add: list_all_iff)
    then show "returns c s (snd x)" using JObject.IH [OF x, of "snd x"] by (cases x) simp
  qed
  moreover have "bt_inv m" using JObject.prems by simp
  ultimately show ?case by (intro returnsI) (auto intro: object_returns)
qed (intro returnsI; auto dest: read_node_object)+

lemma from_json_Inr:
  assumes "from_json c s text = Inr m"
  obtains n b t node where "serde_from_str c text = Inr (JObject [(n, b)])" "global_type s n = Some t"
    "read_node c s b t n 0 = Inr node" "m = \<lparr>mname = n, mbody = node\<rparr>"
proof -
  obtain v kvs where v: "serde_from_str c text = Inr v" and kvs: "as_object v = Some kvs"
    using assms by (auto simp: from_json_def res_elims)
  have obj: "v = JObject kvs" using kvs by (cases v) (simp_all add: as_object_def)
  show thesis
  proof (cases "\<exists>n b. kvs = [(n, b)]")
    case True
    then obtain n b where "kvs = [(n, b)]" by blast
    then show ?thesis using assms v kvs obj that by (auto simp: from_json_def res_elims)
  next
    case False
    then show ?thesis using assms v kvs
      by (cases kvs; cases "tl kvs") (auto simp: from_json_def)
  qed
qed

lemma to_json_read:
  assumes "from_json c s text = Inr m"
    and "\<And>v. serde_from_str c text = Inr v \<Longrightarrow> json_sorted v"
  obtains w where "\<forall>p. write_node s (mbody m) (declared_type s (mname m)) p 0 = Inr w"
    and "\<And>u. serde_from_str c u = Inr (JObject [(mname m, w)]) \<Longrightarrow> from_json c s u = Inr m"
proof -
  obtain n b t node where parse: "serde_from_str c text = Inr (JObject [(n, b)])" and t: "global_type s n = Some t"
    and node: "read_node c s b t n 0 = Inr node" and m: "m = \<lparr>mname = n, mbody = node\<rparr>"
    using assms(1) by (rule from_json_Inr)
  have "json_sorted b" using assms(2) [OF parse] by simp
  then have "returns c s b" by (rule all_returns)
  then obtain w where "\<forall>p. write_node s node t p 0 = Inr w" "\<forall>q. read_node c s w t q 0 = Inr node"
    using node unfolding returns_def node_returns_def by blast
  then show thesis using that [of w] t m by (simp add: declared_type_def from_json_def as_object_def)
qed

section \<open>How deep the written text nests\<close>

text \<open>A node whose JSON has no floats and nests at most \<open>k\<close> levels: a complex node is an object, and the
  occurrences of a repeatable field are an array, also when there is one.\<close>

fun simple_exact :: "Simple \<Rightarrow> bool" where
  "simple_exact (SNumber n) = number_exact n"
| "simple_exact _ = True"

fun node_exact :: "nat \<Rightarrow> Node \<Rightarrow> bool" and field_exact :: "nat \<Rightarrow> Field \<Rightarrow> bool" where
  "node_exact k (Simple x) = simple_exact x"
| "node_exact k (Complex tn fs) = (0 < k \<and> (\<forall>p \<in> set fs. field_exact (k - 1) (snd p)))"
| "field_exact k (One n) = node_exact k n"
| "field_exact k (Many ns) = (0 < k \<and> (\<forall>n \<in> set ns. node_exact (k - 1) n))"

lemma write_simple_exact: "json_exact k (write_simple x) = simple_exact x"
  by (cases x) (simp_all add: write_simple_def)

lemma fold_insert_exact:
  "list_all (\<lambda>p. json_exact k (snd p)) kvs \<Longrightarrow> list_all (\<lambda>p. json_exact k (snd p)) m \<Longrightarrow>
   list_all (\<lambda>p. json_exact k (snd p)) (fold (\<lambda>(k, v). bt_insert k v) kvs m)"
  by (induction kvs arbitrary: m) (auto simp: list_all_iff dest!: set_bt_insert)

lemma written_exact:
  "write_node s n t p d = Inr v \<Longrightarrow> node_exact k n \<Longrightarrow> json_exact k v"
  "write_field s f t p d = Inr v \<Longrightarrow> field_exact k f \<Longrightarrow> json_exact k v"
  "write_items s ns t p i d = Inr vs \<Longrightarrow> \<forall>n \<in> set ns. node_exact k n \<Longrightarrow> list_all (json_exact k) vs"
  "write_fields s decls fs p d = Inr kvs \<Longrightarrow> \<forall>x \<in> set fs. field_exact k (snd x) \<Longrightarrow> list_all (\<lambda>x. json_exact k (snd x)) kvs"
proof (induction s n t p d and s f t p d and s ns t p i d and s decls fs p d arbitrary: v k and v k and vs k and kvs k
    rule: write_node_write_field_write_items_write_fields.induct)
  case (2 s tn fs t path depth)
  have "list_all (\<lambda>p. json_exact (k - 1) (snd p)) (type_member tn)"
    by (cases tn) (simp_all add: type_member_def)
  then show ?case using 2 by (auto simp: res_elims fold_insert_exact split: if_splits)
qed (auto simp: res_elims write_simple_exact split: if_splits)

lemma reproduced_message:
  assumes "\<forall>p. write_node s n t p 0 = Inr w" "node_exact (SERDE_DEPTH - 1) n"
    and "serde_reproduces ps pr (JObject [(k, w)])"
  shows "json_faithful ps pr (JObject [(k, w)])"
  using assms(3) written_exact(1) [OF spec [OF assms(1)] assms(2)]
  by (simp add: serde_reproduces_def SERDE_DEPTH_def)

text \<open>C18: OMS JSON round trip. A message read from OMS JSON can always be turned into a JSON value again. When
  the message holds no floats and its JSON nests at most 127 levels (which \<open>serde_json\<close> asks of what it reads
  and reproduces), it is written as OMS JSON, and reading that text gives the same message: the same
  element, the same types named by \<open>$type\<close>, the same fields in the same order, and the same integers,
  booleans and strings.\<close>

theorem json_roundtrip:
  assumes "from_json c s text = Inr m"
    and "\<And>v. serde_from_str c text = Inr v \<Longrightarrow> json_sorted v"
    and "\<And>v. write_node s (mbody m) (declared_type s (mname m)) (mname m) 0 = Inr v \<Longrightarrow>
      serde_reproduces (serde_from_str c) (serde_to_string c) (json_object [(mname m, v)])"
  shows "\<exists>v. write_node s (mbody m) (declared_type s (mname m)) (mname m) 0 = Inr v \<and>
    (node_exact (SERDE_DEPTH - 1) (mbody m) \<longrightarrow> (\<exists>text'. to_json c s m = Inr text' \<and> from_json c s text' = Inr m))"
proof -
  obtain w where w: "\<forall>p. write_node s (mbody m) (declared_type s (mname m)) p 0 = Inr w"
    and again: "\<And>u. serde_from_str c u = Inr (JObject [(mname m, w)]) \<Longrightarrow> from_json c s u = Inr m"
    using to_json_read [OF assms(1,2)] by blast
  have "\<exists>u. to_json c s m = Inr u \<and> from_json c s u = Inr m" if "node_exact (SERDE_DEPTH - 1) (mbody m)"
  proof (rule json_faithfulE)
    show "json_faithful (serde_from_str c) (serde_to_string c) (JObject [(mname m, w)])"
      using assms(3) [of w] w that by (intro reproduced_message) (simp_all add: json_object_single)
    fix u assume "serde_to_string c (JObject [(mname m, w)]) = Inr u" "serde_from_str c u = Inr (JObject [(mname m, w)])"
    then show ?thesis using w again by (intro exI [of _ u]) (simp add: to_json_def json_object_single)
  qed
  then show ?thesis using w by blast
qed

text \<open>The bound on messages does not keep their JSON within that of \<open>serde_json\<close>: a repeatable field given as
  a bare object is read as one occurrence and written as an array of one, so a value that nests 66
  levels is read and is written as one of 130.\<close>

definition chain_schema :: Schema where
  "chain_schema = schema_element ''Nest'' ''NestType'' (complex ''NestType'' [el_many ''Nest'' ''NestType''] new_schema)"

fun bare :: "nat \<Rightarrow> Value" where
  "bare 0 = JObject []"
| "bare (Suc k) = JObject [(''Nest'', bare k)]"

fun arrayed :: "nat \<Rightarrow> Value" where
  "arrayed 0 = JObject []"
| "arrayed (Suc k) = JObject [(''Nest'', JArray [arrayed k])]"

fun chain :: "nat \<Rightarrow> Node" where
  "chain 0 = Complex None []"
| "chain (Suc k) = Complex None [(''Nest'', Many [chain k])]"

lemma chain_schema_facts:
  "\<not> is_leaf_type chain_schema ''NestType''" "is_complex chain_schema ''NestType''"
  "flatten chain_schema ''NestType'' = Inr [el_many ''Nest'' ''NestType'']"
  "child_type [el_many ''Nest'' ''NestType''] ''Nest'' = ''NestType''" "child_array [el_many ''Nest'' ''NestType''] ''Nest''"
  "global_type chain_schema ''Nest'' = Some ''NestType''"
  by code_simp+

lemma bare_object: "\<exists>m. bare k = JObject m"
  by (cases k) simp_all

lemma chain_read: "d + k \<le> MAX_DEPTH \<Longrightarrow> read_node c chain_schema (bare k) ''NestType'' p d = Inr (chain k)"
proof (induction k arbitrary: p d)
  case (Suc k)
  obtain m where "bare k = JObject m" using bare_object by blast
  then show ?case
    using Suc.IH [of "d + 1"] Suc.prems by (simp add: read_node.simps [of c _ "JObject [(''Nest'', _)]"] chain_schema_facts json_actual_def override_def)
qed (simp add: read_node.simps chain_schema_facts json_actual_def override_def)

lemma chain_written: "d + k \<le> MAX_DEPTH \<Longrightarrow> write_node chain_schema (chain k) ''NestType'' p d = Inr (arrayed k)"
  by (induction k arbitrary: p d) (simp_all add: written_decls_def chain_schema_facts actual_type_def type_member_def)

lemma chain_levels: "json_exact j (bare k) \<longleftrightarrow> k < j" "json_exact j (arrayed k) \<longleftrightarrow> 2 * k < j"
  by (induction k arbitrary: j) auto

lemma json_outgrows_reader:
  assumes "serde_from_str c t = Inr (JObject [(''Nest'', bare 64)])"
  shows "json_exact 66 (JObject [(''Nest'', bare 64)])"
    and "from_json c chain_schema t = Inr \<lparr>mname = ''Nest'', mbody = chain 64\<rparr>"
    and "write_node chain_schema (chain 64) ''NestType'' ''Nest'' 0 = Inr (arrayed 64)"
    and "\<not> json_exact SERDE_DEPTH (json_object [(''Nest'', arrayed 64)])"
  using assms chain_read [of 0 64] chain_written [of 0 64]
  by (simp_all add: chain_levels json_object_single SERDE_DEPTH_def from_json_def as_object_def chain_schema_facts MAX_DEPTH_def
      del: bare.simps arrayed.simps chain.simps)

definition nest_schema :: Schema where
  "nest_schema =
     schema_element ''Nest'' ''NestType''
       (complex ''NestType'' [el_opt ''Nest'' ''NestType'', el_many ''leaf'' ''xs:int''] new_schema)"

definition nest_value :: Value where
  "nest_value = JObject [(''Nest'', JObject [(''Nest'', JObject [(''note'', JString ''x'')]), (''leaf'', JString ''7'')])]"

definition nest_message :: Message where
  "nest_message = \<lparr>mname = ''Nest'', mbody = Complex None
     [(''Nest'', One (Complex None [(''note'', One (Simple (SString ''x'')))])), (''leaf'', Many [Simple (SNumber (PosInt 7))])]\<rparr>"

definition nest_written :: Value where
  "nest_written = JObject [(''Nest'', JObject [(''Nest'', JObject [(''note'', JString ''x'')]), (''leaf'', JArray [JNumber (PosInt 7)])])]"

definition nest_codecs :: Codecs where
  "nest_codecs =
     \<lparr>serde_from_str = (\<lambda>t. if t = ''in'' then Inr nest_value else if t = ''{out}'' then Inr nest_written else Inl ''bad''),
      serde_to_string = (\<lambda>v. if v = nest_written then Inr ''{out}'' else Inl ''bad''),
      value_to_string = (\<lambda>_. []), float_to_string = (\<lambda>_. []), display_f64 = (\<lambda>_. []), utf8_error = (\<lambda>_. []), xml_document = (\<lambda>_. Inl ''bad''), regex_of = (\<lambda>_. None)\<rparr>"

lemma nest_reads: "from_json nest_codecs nest_schema ''in'' = Inr nest_message"
  by code_simp

lemma nest_writes:
  "write_node nest_schema (mbody nest_message) ''NestType'' ''Nest'' 0 = Inr (JObject [(''Nest'', JObject [(''note'', JString ''x'')]), (''leaf'', JArray [JNumber (PosInt 7)])])"
  by code_simp

lemma nest_exact: "node_exact (SERDE_DEPTH - 1) (mbody nest_message)"
  by (simp add: nest_message_def SERDE_DEPTH_def number_exact_def)

theorem json_roundtrip_witness:
  "\<exists>text'. to_json nest_codecs nest_schema nest_message = Inr text' \<and> from_json nest_codecs nest_schema text' = Inr nest_message"
proof -
  have sorted: "json_sorted v" if "serde_from_str nest_codecs ''in'' = Inr v" for v
    using that by (auto simp: nest_codecs_def nest_value_def bt_inv_def)
  have decl: "declared_type nest_schema (mname nest_message) = ''NestType''" by code_simp
  have nm: "mname nest_message = ''Nest''" by (simp add: nest_message_def)
  have faithful: "json_faithful (serde_from_str nest_codecs) (serde_to_string nest_codecs) nest_written"
    by (simp add: json_faithful_def nest_codecs_def byte_def)
  have "serde_reproduces (serde_from_str nest_codecs) (serde_to_string nest_codecs) (json_object [(mname nest_message, v)])"
    if "write_node nest_schema (mbody nest_message) (declared_type nest_schema (mname nest_message)) (mname nest_message) 0 = Inr v" for v
    using that [unfolded decl] faithful nest_writes unfolding nm nest_written_def by (simp add: json_object_single serde_reproduces_def)
  then show ?thesis using json_roundtrip [OF nest_reads sorted] nest_exact by blast
qed

end
