(* ===== verification/Uci_Xml.thy ===== *)
theory Uci_Xml
  imports Uci_Json Xml_Text
begin

text \<open>
  The instance tree and UCI XML: \<open>oa-gateway-uci/src/xml.rs\<close>. The nesting scan works on the text;
  \<open>roxmltree\<close> is \<open>xml_document\<close> of the record \<open>Codecs\<close>. The writer returns what the code appends to
  its output string.
\<close>

definition NS :: string where "NS = ''https://www.vdl.afrl.af.mil/programs/oam''"
definition XSI :: string where "XSI = ''http://www.w3.org/2001/XMLSchema-instance''"

section \<open>The nesting scan\<close>

function uci_nesting_scan :: "nat \<Rightarrow> nat \<Rightarrow> bytes \<Rightarrow> bool" where
  "uci_nesting_scan limit depth [] = False"
| "uci_nesting_scan limit depth (c # rest) =
     (if c \<noteq> CHR ''<'' then uci_nesting_scan limit depth rest
      else case skip_past rest ''!--'' ''-->'' of
        Some e \<Rightarrow> uci_nesting_scan limit depth (drop e rest)
      | None \<Rightarrow>
     (case skip_past rest ''![CDATA['' '']]>'' of
        Some e \<Rightarrow> uci_nesting_scan limit depth (drop e rest)
      | None \<Rightarrow>
     (case skip_past rest ''?'' ''?>'' of
        Some e \<Rightarrow> uci_nesting_scan limit depth (drop e rest)
      | None \<Rightarrow>
     (if prefix ''!'' rest then uci_nesting_scan limit depth (drop (through_gt rest) rest)
      else if prefix ''/'' rest then uci_nesting_scan limit (depth - 1) (drop (through_gt rest) rest)
      else if depth + 1 > limit then True
      else
        (case scan_start_tag rest of (consumed, self_closing) \<Rightarrow>
          uci_nesting_scan limit (if self_closing then depth else depth + 1) (drop consumed rest))))))"
  by pat_completeness auto
termination
  by (relation "measure (\<lambda>(limit, depth, s). length s)") auto

definition uci_nesting_exceeds :: "string \<Rightarrow> nat \<Rightarrow> bool" where
  "uci_nesting_exceeds t limit = uci_nesting_scan limit 0 t"

section \<open>Reading\<close>

definition local_name :: "string \<Rightarrow> string" where
  "local_name q = last (split_on (CHR '':'') q)"

definition parse_text :: "string \<Rightarrow> string \<Rightarrow> Simple" where
  "parse_text t s =
     (case kind_of_primitive t of
        Boolean \<Rightarrow>
          (if s = ''true'' \<or> s = ''1'' then SBool True
           else if s = ''false'' \<or> s = ''0'' then SBool False
           else SString s)
      | Integer _ _ \<Rightarrow>
          (case parse_signed 64 s of
             Some i \<Rightarrow> SNumber (number_of_int i)
           | None \<Rightarrow> (case parse_unsigned 64 s of Some n \<Rightarrow> SNumber (PosInt n) | None \<Rightarrow> SString s))
      | Numeric _ _ \<Rightarrow>
          (case Option.bind (parse_f64 s) number_of_f64 of Some n \<Rightarrow> SNumber n | None \<Rightarrow> SString s)
      | _ \<Rightarrow> SString s)"

text \<open>\<open>collect::<Result<Vec<_>, _>>()\<close> over an iterator, and over an enumerated one: the first error
  wins.\<close>

fun map_res :: "('a \<Rightarrow> 'e + 'b) \<Rightarrow> 'a list \<Rightarrow> 'e + 'b list" where
  "map_res f [] = Inr []"
| "map_res f (x # xs) = res_bind (f x) (\<lambda>y. res_bind (map_res f xs) (\<lambda>ys. Inr (y # ys)))"

definition map_res_i :: "(nat \<Rightarrow> 'a \<Rightarrow> 'e + 'b) \<Rightarrow> 'a list \<Rightarrow> 'e + 'b list" where
  "map_res_i f xs = map_res (\<lambda>(i, x). f i x) (enumerate 0 xs)"

lemma map_res_cong [fundef_cong]:
  "xs = ys \<Longrightarrow> (\<And>x. x \<in> set ys \<Longrightarrow> f x = g x) \<Longrightarrow> map_res f xs = map_res g ys"
  by (induction ys arbitrary: xs) auto

lemma map_res_i_cong [fundef_cong]:
  "xs = ys \<Longrightarrow> (\<And>i x. x \<in> set ys \<Longrightarrow> f i x = g i x) \<Longrightarrow> map_res_i f xs = map_res_i g ys"
  unfolding map_res_i_def by (rule map_res_cong) (auto simp: enumerate_eq_zip dest: set_zip_rightD)

definition first_seen :: "'a list \<Rightarrow> 'a list" where
  "first_seen xs = rev (remdups (rev xs))"

definition xml_actual :: "Schema \<Rightarrow> xelem \<Rightarrow> string \<Rightarrow> string" where
  "xml_actual s x t =
     (let a = (case xattr x XSI ''type'' of None \<Rightarrow> t | Some q \<Rightarrow> local_name q)
      in if is_complex s a then a else t)"

lemma xkids_smaller: "k \<in> set (xkids x) \<Longrightarrow> size k < size x"
  by (cases x) (auto dest: size_list_estimation' [where f = size, OF _ order.refl])

function read_element :: "Schema \<Rightarrow> xelem \<Rightarrow> string \<Rightarrow> string \<Rightarrow> nat \<Rightarrow> UciError + Node" where
  "read_element s x t path depth =
     (if depth > MAX_DEPTH then Inl (TooDeep path)
      else if is_leaf_type s t then
        Inr (Simple (parse_text (primitive s t) (trim (case xtext x of None \<Rightarrow> [] | Some u \<Rightarrow> u))))
      else
        (let actual = xml_actual s x t in
         res_bind (flatten s actual) (\<lambda>decls.
         res_bind
           (map_res (\<lambda>n.
              (let kids = filter (\<lambda>k. xname k = n) (xkids x) in
               res_bind
                 (map_res_i (\<lambda>i k. read_element s k (child_type decls n) (item_path (path @ ''.'' @ n) i) (depth + 1)) kids)
                 (\<lambda>nodes. Inr (n, if child_array decls n \<or> length kids > 1 then Many nodes else One (hd nodes)))))
              (first_seen (map xname (xkids x))))
           (\<lambda>fs. Inr (Complex (override actual t) fs)))))"
  by pat_completeness auto

termination
  by (relation "measure (\<lambda>(s, x, t, path, depth). size x)") (auto simp: xkids_smaller)

declare read_element.simps [simp del]

definition from_xml :: "Codecs \<Rightarrow> Schema \<Rightarrow> string \<Rightarrow> UciError + Message" where
  "from_xml c s t =
     (if uci_nesting_exceeds t MAX_DEPTH then Inl (TooDeep ''document'')
      else
        res_bind (map_err UciXml (xml_document c t)) (\<lambda>r.
        res_bind (ok_or (global_type s (xname r)) (UnknownElement (xname r))) (\<lambda>declared.
          let actual = (case xattr r XSI ''type'' of None \<Rightarrow> declared | Some q \<Rightarrow> local_name q) in
          res_bind (read_element s r actual (xname r) 0) (\<lambda>b. Inr \<lparr>mname = xname r, mbody = b\<rparr>))))"

section \<open>Writing\<close>

definition replace_char :: "char \<Rightarrow> string \<Rightarrow> string \<Rightarrow> string" where
  "replace_char ch r s = concat (map (\<lambda>x. if x = ch then r else [x]) s)"

definition escape :: "string \<Rightarrow> string" where
  "escape s = replace_char (CHR ''>'') ''&gt;'' (replace_char (CHR ''<'') ''&lt;'' (replace_char (CHR ''&'') ''&amp;'' s))"

definition write_root_ns :: "bool \<Rightarrow> string" where
  "write_root_ns need_xsi =
     '' xmlns='' @ [QUOTE] @ NS @ [QUOTE] @ (if need_xsi then '' xmlns:xsi='' @ [QUOTE] @ XSI @ [QUOTE] else [])"

definition write_type :: "bool \<Rightarrow> string option \<Rightarrow> string" where
  "write_type is_root tn =
     (if is_root then write_root_ns (tn \<noteq> None)
      else if tn \<noteq> None then '' xmlns:xsi='' @ [QUOTE] @ XSI @ [QUOTE] else []) @
     (case tn of None \<Rightarrow> [] | Some a \<Rightarrow> '' xsi:type='' @ [QUOTE] @ a @ [QUOTE])"

definition pad :: "nat \<Rightarrow> string" where
  "pad depth = concat (replicate depth ''  '')"

function (sequential) write_element :: "Codecs \<Rightarrow> string \<Rightarrow> Node \<Rightarrow> Schema \<Rightarrow> string \<Rightarrow> bool \<Rightarrow> nat \<Rightarrow> UciError + string"
  and write_element_fields :: "Codecs \<Rightarrow> Element list \<Rightarrow> (string \<times> Field) list \<Rightarrow> Schema \<Rightarrow> nat \<Rightarrow> UciError + string"
  and write_occurrences :: "Codecs \<Rightarrow> string \<Rightarrow> Node list \<Rightarrow> Schema \<Rightarrow> string \<Rightarrow> nat \<Rightarrow> UciError + string"
where
  "write_element c n (Simple x) s t is_root depth =
     (if depth > MAX_DEPTH then Inl (TooDeep n)
      else Inr (pad depth @ ''<'' @ n @ (if is_root then write_root_ns False else []) @ ''>'' @
                escape (as_text c x) @ ''</'' @ n @ ''>''))"
| "write_element c n (Complex tn fs) s t is_root depth =
     (if depth > MAX_DEPTH then Inl (TooDeep n)
      else if fs = [] then Inr (pad depth @ ''<'' @ n @ write_type is_root tn @ ''/>'')
      else
        res_bind (written_decls s (actual_type tn t)) (\<lambda>decls.
        res_bind (write_element_fields c decls fs s depth) (\<lambda>inside.
          Inr (pad depth @ ''<'' @ n @ write_type is_root tn @ ''>'' @ [LF] @ inside @ pad depth @ ''</'' @ n @ ''>''))))"
| "write_element_fields c decls [] s depth = Inr []"
| "write_element_fields c decls ((n, One k) # fs) s depth =
     res_bind (write_element c n k s (child_type decls n) False (depth + 1)) (\<lambda>a.
     res_bind (write_element_fields c decls fs s depth) (\<lambda>b. Inr (a @ [LF] @ b)))"
| "write_element_fields c decls ((n, Many ks) # fs) s depth =
     res_bind (write_occurrences c n ks s (child_type decls n) depth) (\<lambda>a.
     res_bind (write_element_fields c decls fs s depth) (\<lambda>b. Inr (a @ b)))"
| "write_occurrences c n [] s t depth = Inr []"
| "write_occurrences c n (k # ks) s t depth =
     res_bind (write_element c n k s t False (depth + 1)) (\<lambda>a.
     res_bind (write_occurrences c n ks s t depth) (\<lambda>b. Inr (a @ [LF] @ b)))"
  by pat_completeness auto

termination
  by (relation "measure (\<lambda>x. case x of
        Inl (c, n, k, s, t, r, d) \<Rightarrow> size k
      | Inr (Inl (c, decls, fs, s, d)) \<Rightarrow> size_list (size_prod (\<lambda>_. 0) size) fs
      | Inr (Inr (c, n, ks, s, t, d)) \<Rightarrow> size_list size ks)")
    auto

definition PROLOG :: string where
  "PROLOG = ''<?xml version='' @ [QUOTE] @ ''1.0'' @ [QUOTE] @ '' encoding='' @ [QUOTE] @ ''UTF-8'' @ [QUOTE] @ ''?>'' @ [LF]"

definition to_xml :: "Codecs \<Rightarrow> Schema \<Rightarrow> Message \<Rightarrow> UciError + string" where
  "to_xml c s m =
     res_bind (write_element c (mname m) (mbody m) s (declared_type s (mname m)) True 0) (\<lambda>t.
       Inr (PROLOG @ t @ [LF]))"

section \<open>The nesting bound\<close>

lemma uci_scan_tag_step:
  assumes "tag_ok t"
  shows "uci_nesting_scan l d (''<'' @ t @ s) =
    (l < d + 1 \<or> (case scan_start_tag (t @ s) of (n, b) \<Rightarrow> uci_nesting_scan l (if b then d else d + 1) (drop n (t @ s))))"
  using assms by (cases t) (auto simp: tag_ok_def skip_past_other)

interpretation uci_scan: nesting_scanner uci_nesting_scan True
proof unfold_locales
  show "uci_nesting_scan l d (''<!--'' @ b @ ''-->'' @ s) = uci_nesting_scan l d s" if "closed_by ''-->'' b" for l d b s
    using skip_past_closed [OF that, of "''!--''" s] by simp
  show "uci_nesting_scan l d (''<?'' @ b @ ''?>'' @ s) = uci_nesting_scan l d s" if "closed_by ''?>'' b" for l d b s
    using skip_past_closed [OF that, of "''?''" s] by (simp add: skip_past_other)
  show "uci_nesting_scan l d (''<![CDATA['' @ b @ '']]>'' @ s) = uci_nesting_scan l d s" if "closed_by '']]>'' b" for l d b s
    using skip_past_closed [OF that, of "''![CDATA[''" s] by (simp add: skip_past_other)
  show "uci_nesting_scan l d (''<'' @ t @ ''>'' @ s) = (l < d + 1 \<or> uci_nesting_scan l (d + 1) s)" if "tag_ok t" for l d t s
    using uci_scan_tag_step [OF that, of l d "''>'' @ s"] scan_open [OF that, of s] by simp
  show "uci_nesting_scan l d (''<'' @ t @ ''/>'' @ s) = (l < d + 1 \<or> uci_nesting_scan l d s)" if "tag_ok t" for l d t s
    using uci_scan_tag_step [OF that, of l d "''/>'' @ s"] scan_empty [OF that, of s] by simp
  show "uci_nesting_scan l d (''</'' @ n @ ''>'' @ s) = uci_nesting_scan l (d - 1) s" if "CHR ''>'' \<notin> set n" for l d n s
    using through_gt_name [of "CHR ''/'' # n" s] that by (simp add: skip_past_other)
  show "uci_nesting_scan l d (''<!'' @ b @ ''>'' @ s) = uci_nesting_scan l d s"
    if "CHR ''>'' \<notin> set b" "\<not> prefix ''--'' b" "\<not> prefix ''[CDATA['' b" for l d b s
    using through_gt_name [of "CHR ''!'' # b" s] decl_not_open [OF that(1,2)] decl_not_open [OF that(1,3)] that(1)
    by (simp add: skip_past_other)
qed simp_all

text \<open>On every well-formed document with no \<open>>\<close> inside a markup declaration, whatever its comments, CDATA
  sections, processing instructions and quoted attribute values hold, the text scan in front of the XML parser refuses it exactly when
  its elements nest deeper than the limit.\<close>

theorem uci_nesting_exact:
  assumes "list_all (item_wf True) doc"
  shows "uci_nesting_exceeds (doc_text doc) limit \<longleftrightarrow> limit < doc_depth doc"
  unfolding uci_nesting_exceeds_def by (rule uci_scan.scan_items [OF assms])

definition cdata_doc :: "xitem list" where
  "cdata_doc = [Elem ''a x=\">\"'' [CData ''></a><b><c>'', Elem ''b'' [Empty ''c''] ''b''] ''a'']"

theorem uci_nesting_exact_witness:
  "doc_text cdata_doc = ''<a x=\">\"><![CDATA[></a><b><c>]]><b><c/></b></a>'' \<and>
   uci_nesting_exceeds (doc_text cdata_doc) 2 \<and> \<not> uci_nesting_exceeds (doc_text cdata_doc) 3"
proof -
  have wf: "list_all (item_wf True) cdata_doc"
    by (simp add: cdata_doc_def closed_by_def tag_ok_def)
  have depth: "doc_depth cdata_doc = 3" by (simp add: cdata_doc_def doc_depth_def)
  have "doc_text cdata_doc = ''<a x=\">\"><![CDATA[></a><b><c>]]><b><c/></b></a>''"
    by (simp add: cdata_doc_def doc_text_def)
  then show ?thesis
    using uci_nesting_exact [OF wf, of 2] uci_nesting_exact [OF wf, of 3] depth by simp
qed

section \<open>Documents and their trees\<close>

text \<open>A document as its author means it: qualified names, attribute values, and content made of text
  and child elements. \<open>markup\<close> is its serialization and \<open>doc_tree\<close> the element tree that the XML
  and namespace recommendations give it, with the prefixes in scope as an argument.\<close>

datatype xdoc = XDoc string "(string \<times> string) list" "chunk list"
and chunk = Chunk string | Child xdoc

fun markup :: "xdoc \<Rightarrow> string" and chunk_markup :: "chunk \<Rightarrow> string" where
  "markup (XDoc n as cs) =
     ''<'' @ n @ concat (map (\<lambda>(q, v). '' '' @ q @ ''='' @ [QUOTE] @ v @ [QUOTE]) as) @
     (if cs = [] then ''/>'' else ''>'' @ concat (map chunk_markup cs) @ ''</'' @ n @ ''>'')"
| "chunk_markup (Chunk t) = escape t"
| "chunk_markup (Child d) = markup d"

definition prefixes :: "(string \<times> string) list \<Rightarrow> (string \<times> string) list" where
  "prefixes as = map (\<lambda>(q, v). (drop 6 q, v)) (filter (\<lambda>(q, v). prefix ''xmlns:'' q) as)"

definition resolved :: "(string \<times> string) list \<Rightarrow> (string \<times> string) list \<Rightarrow> ((string \<times> string) \<times> string) list" where
  "resolved env as =
     map (\<lambda>(q, v). case split_once (CHR '':'') q of
            None \<Rightarrow> (([], q), v)
          | Some (p, l) \<Rightarrow> ((case map_of env p of None \<Rightarrow> [] | Some ns \<Rightarrow> ns, l), v))
       (filter (\<lambda>(q, v). q \<noteq> ''xmlns'' \<and> \<not> prefix ''xmlns:'' q) as)"

fun leading_text :: "chunk list \<Rightarrow> string" where
  "leading_text (Chunk t # cs) = t @ leading_text cs"
| "leading_text _ = []"

definition child_docs :: "chunk list \<Rightarrow> xdoc list" where
  "child_docs cs = concat (map (\<lambda>c. case c of Child d \<Rightarrow> [d] | Chunk _ \<Rightarrow> []) cs)"

lemma child_docs_simps [simp]:
  "child_docs [] = []" "child_docs (Chunk t # cs) = child_docs cs" "child_docs (Child d # cs) = d # child_docs cs"
  "child_docs (cs @ ds) = child_docs cs @ child_docs ds"
  by (simp_all add: child_docs_def)

lemma child_docs_smaller: "d \<in> set (child_docs cs) \<Longrightarrow> size d < size (XDoc n as cs)"
proof -
  assume "d \<in> set (child_docs cs)"
  then have "Child d \<in> set cs" by (auto simp: child_docs_def split: chunk.splits)
  then have "size (Child d) \<le> size_list size cs" by (simp add: size_list_estimation')
  then show ?thesis by simp
qed

function doc_tree :: "(string \<times> string) list \<Rightarrow> xdoc \<Rightarrow> xelem" where
  "doc_tree env (XDoc n as cs) =
     (let env' = prefixes as @ env; t = leading_text cs in
      XElem (local_name n) (if t = [] then None else Some t) (resolved env' as) (map (doc_tree env') (child_docs cs)))"
  by pat_completeness auto
termination
  by (relation "measure (\<lambda>(env, d). size d)") (auto simp del: xdoc.size dest: child_docs_smaller)

section \<open>The document of a message\<close>

definition root_attrs :: "bool \<Rightarrow> string option \<Rightarrow> (string \<times> string) list" where
  "root_attrs is_root tn =
     (if is_root then [(''xmlns'', NS)] else []) @
     (case tn of None \<Rightarrow> [] | Some a \<Rightarrow> [(''xmlns:xsi'', XSI), (''xsi:type'', a)])"

definition spaced :: "nat \<Rightarrow> xdoc list \<Rightarrow> chunk list" where
  "spaced d ds = Chunk [LF] # concat (map (\<lambda>k. [Chunk (pad (d + 1)), Child k, Chunk [LF]]) ds) @ [Chunk (pad d)]"

function (sequential) doc_of :: "Codecs \<Rightarrow> string \<Rightarrow> Node \<Rightarrow> bool \<Rightarrow> nat \<Rightarrow> xdoc"
  and docs_of_fields :: "Codecs \<Rightarrow> (string \<times> Field) list \<Rightarrow> nat \<Rightarrow> xdoc list"
  and docs_of_nodes :: "Codecs \<Rightarrow> string \<Rightarrow> Node list \<Rightarrow> nat \<Rightarrow> xdoc list"
where
  "doc_of c n (Simple x) r d = XDoc n (root_attrs r None) [Chunk (as_text c x)]"
| "doc_of c n (Complex tn fs) r d =
     XDoc n (root_attrs r tn) (if fs = [] then [] else spaced d (docs_of_fields c fs (d + 1)))"
| "docs_of_fields c [] d = []"
| "docs_of_fields c ((n, One k) # fs) d = doc_of c n k False d # docs_of_fields c fs d"
| "docs_of_fields c ((n, Many ks) # fs) d = docs_of_nodes c n ks d @ docs_of_fields c fs d"
| "docs_of_nodes c n [] d = []"
| "docs_of_nodes c n (k # ks) d = doc_of c n k False d # docs_of_nodes c n ks d"
  by pat_completeness auto

termination
  by (relation "measure (\<lambda>x. case x of
        Inl (c, n, k, r, d) \<Rightarrow> size k
      | Inr (Inl (c, fs, d)) \<Rightarrow> size_list (size_prod (\<lambda>_. 0) size) fs
      | Inr (Inr (c, n, ks, d)) \<Rightarrow> size_list size ks)")
    auto

lemma escape_blank: "list_all (\<lambda>c. c \<in> {LF, SPACE}) t \<Longrightarrow> escape t = t"
  by (induction t) (auto simp: escape_def replace_char_def)

lemma escape_pad [simp]: "escape (pad d) = pad d" "escape [LF] = [LF]"
  by (rule escape_blank; simp add: pad_def list_all_iff)+

lemma markup_attrs:
  "concat (map (\<lambda>(q, v). '' '' @ q @ ''='' @ [QUOTE] @ v @ [QUOTE]) (root_attrs r tn)) = write_type r tn"
  by (cases tn) (simp_all add: root_attrs_def write_type_def write_root_ns_def)

lemma markup_root:
  "markup (XDoc n (root_attrs r tn) cs) =
     ''<'' @ n @ write_type r tn @ (if cs = [] then ''/>'' else ''>'' @ concat (map chunk_markup cs) @ ''</'' @ n @ ''>'')"
  unfolding markup.simps markup_attrs ..

declare markup.simps [simp del]

lemma markup_spaced:
  "concat (map chunk_markup (spaced d ds)) = [LF] @ concat (map (\<lambda>k. pad (d + 1) @ markup k @ [LF]) ds) @ pad d"
proof -
  have "concat (map chunk_markup (concat (map (\<lambda>k. [Chunk (pad (d + 1)), Child k, Chunk [LF]]) ds))) =
      concat (map (\<lambda>k. pad (d + 1) @ markup k @ [LF]) ds)"
    by (induction ds) simp_all
  then show ?thesis by (simp add: spaced_def)
qed

text \<open>Whatever the writer writes is the document of the message.\<close>

lemma write_element_doc:
  "write_element c n k s t r d = Inr out \<Longrightarrow> out = pad d @ markup (doc_of c n k r d)"
  "write_element_fields c decls fs s d = Inr out \<Longrightarrow>
     out = concat (map (\<lambda>k. pad (d + 1) @ markup k @ [LF]) (docs_of_fields c fs (d + 1)))"
  "write_occurrences c n ks s t d = Inr out \<Longrightarrow>
     out = concat (map (\<lambda>k. pad (d + 1) @ markup k @ [LF]) (docs_of_nodes c n ks (d + 1)))"
proof (induction c n k s t r d and c decls fs s d and c n ks s t d arbitrary: out and out and out
    rule: write_element_write_element_fields_write_occurrences.induct)
  case (1 c n x s t r d)
  then show ?case by (auto simp: markup_root write_type_def split: if_splits)
next
  case (2 c n tn fs s t r d)
  show ?case
  proof (cases "fs = []")
    case True
    then show ?thesis using 2(2) by (auto simp: markup_root split: if_splits)
  next
    case False
    then obtain decls inside where "write_element_fields c decls fs s d = Inr inside"
      and out: "out = pad d @ ''<'' @ n @ write_type r tn @ ''>'' @ [LF] @ inside @ pad d @ ''</'' @ n @ ''>''"
      and "written_decls s (actual_type tn t) = Inr decls" "\<not> d > MAX_DEPTH"
      using 2(2) by (auto simp: res_bind_Inr split: if_splits)
    then have "inside = concat (map (\<lambda>k. pad (d + 1) @ markup k @ [LF]) (docs_of_fields c fs (d + 1)))"
      using 2(1) False by blast
    moreover have "spaced d ds \<noteq> []" for ds by (simp add: spaced_def)
    ultimately show ?thesis
      using out False by (simp add: markup_root markup_spaced)
  qed
qed (auto simp: res_bind_Inr)

section \<open>Nesting of a written message\<close>

fun item_of :: "xdoc \<Rightarrow> xitem" and chunk_item :: "chunk \<Rightarrow> xitem" where
  "item_of (XDoc n as cs) =
     (let t = n @ concat (map (\<lambda>(q, v). '' '' @ q @ ''='' @ [QUOTE] @ v @ [QUOTE]) as)
      in if cs = [] then Empty t else Elem t (map chunk_item cs) n)"
| "chunk_item (Chunk t) = Chars (escape t)"
| "chunk_item (Child d) = item_of d"

lemma item_text_of: "item_text (item_of d) = markup d" "item_text (chunk_item k) = chunk_markup k"
proof (induction d and k)
  case (XDoc n as cs)
  then have "map item_text (map chunk_item cs) = map chunk_markup cs" by simp
  then show ?case by (simp add: Let_def markup.simps del: map_map)
qed simp_all

definition plain_char :: "char \<Rightarrow> bool" where
  "plain_char c \<longleftrightarrow> is_ascii_alphanumeric c \<or> c \<in> {CHR ''_'', CHR ''-'', CHR ''.''}"

definition plain_name :: "string \<Rightarrow> bool" where
  "plain_name n \<longleftrightarrow> n \<noteq> [] \<and> list_all plain_char n"

fun doc_ok :: "xdoc \<Rightarrow> bool" and chunk_ok :: "chunk \<Rightarrow> bool" where
  "doc_ok (XDoc n as cs) =
     (plain_name n \<and> list_all (\<lambda>(q, v). list_all (\<lambda>c. plain_char c \<or> c = CHR '':'') q \<and> QUOTE \<notin> set v) as \<and> list_all chunk_ok cs)"
| "chunk_ok (Chunk t) = True"
| "chunk_ok (Child d) = doc_ok d"

lemma plain_char_tag: "plain_char c \<Longrightarrow> c \<notin> {CHR ''<'', CHR ''>'', CHR ''/'', CHR ''!'', CHR ''?'', QUOTE, CHR 0x27, CHR '':''}"
  by (auto simp: plain_char_def is_ascii_alphanumeric_def is_ascii_digit_def is_ascii_lowercase_def is_ascii_uppercase_def byte_def)

lemma tag_run_plain: "list_all (\<lambda>c. c \<notin> {QUOTE, CHR 0x27, CHR ''>''}) s \<Longrightarrow> tag_run None s = Some None"
  by (induction s) auto

lemma plain_chars:
  assumes "list_all (\<lambda>c. plain_char c \<or> c = CHR '':'') s"
  shows "list_all (\<lambda>c. c \<notin> {QUOTE, CHR 0x27, CHR ''>''}) s"
proof (rule list.pred_mono_strong [OF assms])
  fix c assume "plain_char c \<or> c = CHR '':''"
  then show "c \<notin> {QUOTE, CHR 0x27, CHR ''>''}" using plain_char_tag [of c] by auto
qed

lemma plain_name_chars: "plain_name n \<Longrightarrow> list_all (\<lambda>c. plain_char c \<or> c = CHR '':'') n"
  by (auto simp: plain_name_def list_all_iff)

lemma tag_run_quoted: "QUOTE \<notin> set v \<Longrightarrow> tag_run (Some QUOTE) (v @ [QUOTE]) = Some None"
  by (induction v) auto

lemma tag_run_attrs:
  assumes "list_all (\<lambda>(q, v). list_all (\<lambda>c. plain_char c \<or> c = CHR '':'') q \<and> QUOTE \<notin> set v) as"
  shows "tag_run None (concat (map (\<lambda>(q, v). '' '' @ q @ ''='' @ [QUOTE] @ v @ [QUOTE]) as)) = Some None"
  using assms
proof (induction as)
  case (Cons a as)
  obtain q v where a: "a = (q, v)" by (cases a)
  have "list_all (\<lambda>c. c \<notin> {QUOTE, CHR 0x27, CHR ''>''}) ('' '' @ q @ ''='')"
    using plain_chars [of q] Cons.prems a by simp
  then have "tag_run None (('' '' @ q @ ''='') @ [QUOTE]) = Some (Some QUOTE)"
    by (subst tag_run_append [OF tag_run_plain]) simp_all
  from tag_run_append [OF this] have "tag_run None ('' '' @ q @ ''='' @ [QUOTE] @ v @ [QUOTE]) = Some None"
    using tag_run_quoted [of v] Cons.prems a by simp
  from tag_run_append [OF this] show ?case using Cons a by simp
qed simp

lemma tag_ok_name:
  assumes "plain_name n" and "list_all (\<lambda>(q, v). list_all (\<lambda>c. plain_char c \<or> c = CHR '':'') q \<and> QUOTE \<notin> set v) as"
  shows "tag_ok (n @ concat (map (\<lambda>(q, v). '' '' @ q @ ''='' @ [QUOTE] @ v @ [QUOTE]) as))" (is "tag_ok (n @ ?A)")
proof -
  have n: "n \<noteq> []" "\<forall>c \<in> set n. plain_char c" using assms(1) by (auto simp: plain_name_def list_all_iff)
  have "tag_run None n = Some None"
    by (intro tag_run_plain plain_chars plain_name_chars assms(1))
  from tag_run_append [OF this, of ?A] have run: "tag_run None (n @ ?A) = Some None"
    unfolding tag_run_attrs [OF assms(2)] .
  have "hd n \<notin> {CHR ''!'', CHR ''?'', CHR ''/''}" "last n \<noteq> CHR ''/''"
    using plain_char_tag [of "hd n"] plain_char_tag [of "last n"] n by simp_all
  moreover have "?A = [] \<or> last ?A = QUOTE"
    by (cases as rule: rev_cases) (auto split: prod.splits)
  ultimately show ?thesis using run n(1) by (auto simp: tag_ok_def last_append)
qed

lemma escape_no_lt: "CHR ''<'' \<notin> set (escape t)"
  by (auto simp: escape_def replace_char_def split: if_splits)

lemma item_wf_of: "doc_ok d \<Longrightarrow> item_wf True (item_of d)" "chunk_ok k \<Longrightarrow> item_wf True (chunk_item k)"
proof (induction d and k)
  case (XDoc n as cs)
  have "plain_name n" using XDoc.prems by simp
  from plain_chars [OF plain_name_chars [OF this]] have "CHR ''>'' \<notin> set n" by (auto simp: list_all_iff)
  moreover have "list_all (item_wf True) (map chunk_item cs)" using XDoc by (auto simp: list_all_iff)
  ultimately show ?case using XDoc.prems tag_ok_name [of n as] by (simp add: Let_def)
qed (simp_all add: escape_no_lt)

text \<open>What the model asks of the XML parser. Element and type names are XML names; the attributes are those
  the writer gives; and the text holds only characters that XML allows, without carriage returns, which
  a parser normalizes to line feeds. A document like that is read as the recommendations say.\<close>

definition xml_name :: "string \<Rightarrow> bool" where
  "xml_name n \<longleftrightarrow> plain_name n \<and> (is_ascii_lowercase (hd n) \<or> is_ascii_uppercase (hd n) \<or> hd n = CHR ''_'')"

definition xml_text :: "string \<Rightarrow> bool" where
  "xml_text t \<longleftrightarrow> list_all (\<lambda>c. 32 \<le> byte c \<or> c = TAB \<or> c = LF) t \<and>
     find_sub [CHR 0xEF, CHR 0xBF, CHR 0xBE] t = None \<and> find_sub [CHR 0xEF, CHR 0xBF, CHR 0xBF] t = None"

fun doc_plain :: "xdoc \<Rightarrow> bool" and chunk_plain :: "chunk \<Rightarrow> bool" where
  "doc_plain (XDoc n as cs) =
     (xml_name n \<and> (\<exists>r tn. as = root_attrs r tn \<and> pred_option xml_name tn) \<and> (\<forall>k \<in> set cs. chunk_plain k))"
| "chunk_plain (Chunk t) = xml_text t"
| "chunk_plain (Child d) = doc_plain d"

definition xml_reads :: "Codecs \<Rightarrow> xdoc \<Rightarrow> bool" where
  "xml_reads c d \<longleftrightarrow> (doc_plain d \<longrightarrow> xml_document c (PROLOG @ markup d @ [LF]) = Inr (doc_tree [] d))"

text \<open>A message that XML can spell: its names are XML names and its values texts that XML allows.\<close>

fun xml_plain :: "Codecs \<Rightarrow> Node \<Rightarrow> bool" and field_plain :: "Codecs \<Rightarrow> Field \<Rightarrow> bool" where
  "xml_plain c (Simple x) = xml_text (as_text c x)"
| "xml_plain c (Complex tn fs) = (pred_option xml_name tn \<and> (\<forall>p \<in> set fs. xml_name (fst p) \<and> field_plain c (snd p)))"
| "field_plain c (One k) = xml_plain c k"
| "field_plain c (Many ks) = (\<forall>k \<in> set ks. xml_plain c k)"

lemma find_sub_absent: "x \<notin> set t \<Longrightarrow> find_sub (x # p) t = None"
  by (induction t) auto

lemma xml_text_blank: "xml_text [LF]" "xml_text (pad d)"
  by (simp_all add: xml_text_def pad_def find_sub_absent list_all_iff byte_def)

lemma spaced_plain: "\<forall>d \<in> set ds. doc_plain d \<Longrightarrow> \<forall>k \<in> set (spaced d ds). chunk_plain k"
  by (auto simp: spaced_def xml_text_blank)

lemma doc_of_plain:
  "xml_name n \<Longrightarrow> xml_plain c k \<Longrightarrow> doc_plain (doc_of c n k r d)"
  "\<forall>p \<in> set fs. xml_name (fst p) \<and> field_plain c (snd p) \<Longrightarrow> \<forall>x \<in> set (docs_of_fields c fs d). doc_plain x"
  "xml_name n \<Longrightarrow> \<forall>k \<in> set ks. xml_plain c k \<Longrightarrow> \<forall>x \<in> set (docs_of_nodes c n ks d). doc_plain x"
proof (induction c n k r d and c fs d and c n ks d rule: doc_of_docs_of_fields_docs_of_nodes.induct)
  case (1 c n x r d)
  have "\<exists>r' tn. root_attrs r None = root_attrs r' tn \<and> pred_option xml_name tn" by (rule exI [of _ r], rule exI [of _ None]) simp
  then show ?case using 1 by simp
next
  case (2 c n tn fs r d)
  have "\<exists>r' tn'. root_attrs r tn = root_attrs r' tn' \<and> pred_option xml_name tn'"
    using 2 by (intro exI [of _ r] exI [of _ tn]) simp
  then show ?case using 2 spaced_plain [of "docs_of_fields c fs (d + 1)" d] by (cases "fs = []") simp_all
qed auto

text \<open>How many elements deep a node is, itself included.\<close>

function (sequential) node_depth :: "Node \<Rightarrow> nat" and fields_depth :: "(string \<times> Field) list \<Rightarrow> nat"
  and nodes_depth :: "Node list \<Rightarrow> nat" where
  "node_depth (Simple x) = 1"
| "node_depth (Complex tn fs) = Suc (fields_depth fs)"
| "fields_depth [] = 0"
| "fields_depth ((n, One k) # fs) = max (node_depth k) (fields_depth fs)"
| "fields_depth ((n, Many ks) # fs) = max (nodes_depth ks) (fields_depth fs)"
| "nodes_depth [] = 0"
| "nodes_depth (k # ks) = max (node_depth k) (nodes_depth ks)"
  by pat_completeness auto
termination
  by (relation "measure (\<lambda>x. case x of
        Inl k \<Rightarrow> size k
      | Inr (Inl fs) \<Rightarrow> size_list (size_prod (\<lambda>_. 0) size) fs
      | Inr (Inr ks) \<Rightarrow> size_list size ks)")
    auto

text \<open>Every name of a message is a plain one.\<close>

function (sequential) names_ok :: "Node \<Rightarrow> bool" and field_names_ok :: "(string \<times> Field) list \<Rightarrow> bool"
  and node_names_ok :: "Node list \<Rightarrow> bool" where
  "names_ok (Simple x) = True"
| "names_ok (Complex tn fs) = (pred_option plain_name tn \<and> field_names_ok fs)"
| "field_names_ok [] = True"
| "field_names_ok ((n, One k) # fs) = (plain_name n \<and> names_ok k \<and> field_names_ok fs)"
| "field_names_ok ((n, Many ks) # fs) = (plain_name n \<and> node_names_ok ks \<and> field_names_ok fs)"
| "node_names_ok [] = True"
| "node_names_ok (k # ks) = (names_ok k \<and> node_names_ok ks)"
  by pat_completeness auto
termination
  by (relation "measure (\<lambda>x. case x of
        Inl k \<Rightarrow> size k
      | Inr (Inl fs) \<Rightarrow> size_list (size_prod (\<lambda>_. 0) size) fs
      | Inr (Inr ks) \<Rightarrow> size_list size ks)")
    auto

lemma xml_plain_names:
  "xml_plain c k \<Longrightarrow> names_ok k"
  "\<forall>p \<in> set fs. xml_name (fst p) \<and> field_plain c (snd p) \<Longrightarrow> field_names_ok fs"
  "\<forall>k \<in> set ks. xml_plain c k \<Longrightarrow> node_names_ok ks"
  by (induction k and fs and ks rule: names_ok_field_names_ok_node_names_ok.induct)
    (auto simp: xml_name_def intro: option.pred_mono_strong)

lemma root_attrs_ok:
  assumes "pred_option plain_name tn"
  shows "list_all (\<lambda>(q, v). list_all (\<lambda>c. plain_char c \<or> c = CHR '':'') q \<and> QUOTE \<notin> set v) (root_attrs r tn)"
proof -
  have "QUOTE \<notin> set a" if "tn = Some a" for a
    using assms that plain_chars [OF plain_name_chars, of a] by (auto simp: list_all_iff)
  then show ?thesis
    by (auto simp: root_attrs_def NS_def XSI_def plain_char_def is_ascii_alphanumeric_def is_ascii_lowercase_def byte_def
        split: option.splits)
qed

lemma spaced_ok: "list_all doc_ok ds \<Longrightarrow> list_all chunk_ok (spaced d ds)"
  by (auto simp: spaced_def list_all_iff)

lemma doc_of_ok:
  "plain_name n \<Longrightarrow> names_ok k \<Longrightarrow> doc_ok (doc_of c n k r d)"
  "field_names_ok fs \<Longrightarrow> list_all doc_ok (docs_of_fields c fs d)"
  "plain_name n \<Longrightarrow> node_names_ok ks \<Longrightarrow> list_all doc_ok (docs_of_nodes c n ks d)"
  by (induction c n k r d and c fs d and c n ks d rule: doc_of_docs_of_fields_docs_of_nodes.induct)
    (simp_all add: root_attrs_ok spaced_ok)

definition deepest :: "nat list \<Rightarrow> nat" where
  "deepest ns = Max (insert 0 (set ns))"

lemma deepest_simps [simp]:
  "deepest [] = 0" "deepest (x # xs) = max x (deepest xs)" "deepest (xs @ ys) = max (deepest xs) (deepest ys)"
proof -
  have Un: "Max (insert 0 (A \<union> B)) = max (Max (insert 0 A)) (Max (insert 0 B))" if "finite A" "finite B" for A B :: "nat set"
    using that Max_Un [of "insert 0 A" "insert 0 B"] by simp
  show "deepest [] = 0" by (simp add: deepest_def)
  show "deepest (x # xs) = max x (deepest xs)" using Un [of "{x}" "set xs"] by (simp add: deepest_def)
  show "deepest (xs @ ys) = max (deepest xs) (deepest ys)" using Un [of "set xs" "set ys"] by (simp add: deepest_def)
qed

lemma item_depth_deepest: "item_depth (Elem t ks n) = Suc (deepest (map item_depth ks))"
  by (simp add: deepest_def)

lemma deepest_spaced: "deepest (map item_depth (map chunk_item (spaced d ds))) = deepest (map (\<lambda>k. item_depth (item_of k)) ds)"
proof -
  have "deepest (map item_depth (map chunk_item (concat (map (\<lambda>k. [Chunk (pad (d + 1)), Child k, Chunk [LF]]) ds)))) =
      deepest (map (\<lambda>k. item_depth (item_of k)) ds)"
    by (induction ds) simp_all
  then show ?thesis by (simp add: spaced_def)
qed

lemma doc_of_depth:
  "item_depth (item_of (doc_of c n k r d)) = node_depth k"
  "deepest (map (\<lambda>k. item_depth (item_of k)) (docs_of_fields c fs d)) = fields_depth fs"
  "deepest (map (\<lambda>k. item_depth (item_of k)) (docs_of_nodes c n ks d)) = nodes_depth ks"
proof (induction c n k r d and c fs d and c n ks d rule: doc_of_docs_of_fields_docs_of_nodes.induct)
  case (2 c n tn fs r d)
  have "spaced d ds \<noteq> []" for ds by (simp add: spaced_def)
  then show ?case using 2 deepest_spaced [of d "docs_of_fields c fs (d + 1)"]
    by (cases "fs = []") (simp_all add: Let_def item_depth_deepest del: map_map item_depth.simps(2))
qed (simp_all add: Let_def)

text \<open>The scan measures a written message exactly.\<close>

lemma written_nesting:
  assumes "to_xml c s m = Inr t" and "plain_name (mname m)" and "names_ok (mbody m)"
  shows "t = PROLOG @ markup (doc_of c (mname m) (mbody m) True 0) @ [LF]"
    and "uci_nesting_exceeds t limit \<longleftrightarrow> limit < node_depth (mbody m)"
proof -
  let ?d = "doc_of c (mname m) (mbody m) True 0"
  show t: "t = PROLOG @ markup ?d @ [LF]"
    using assms(1) write_element_doc(1) by (fastforce simp: to_xml_def res_bind_Inr pad_def)
  let ?items = "[PI (''xml version='' @ [QUOTE] @ ''1.0'' @ [QUOTE] @ '' encoding='' @ [QUOTE] @ ''UTF-8'' @ [QUOTE]), Chars [LF], item_of ?d, Chars [LF]]"
  have "t = doc_text ?items" by (simp add: t doc_text_def PROLOG_def item_text_of)
  moreover have "list_all (item_wf True) ?items"
    using item_wf_of(1) [OF doc_of_ok(1) [OF assms(2,3)]] by (simp add: closed_by_def)
  moreover have "doc_depth ?items = node_depth (mbody m)"
    by (simp add: doc_depth_def doc_of_depth)
  ultimately show "uci_nesting_exceeds t limit \<longleftrightarrow> limit < node_depth (mbody m)"
    using uci_scan.scan_items unfolding uci_nesting_exceeds_def by metis
qed

section \<open>Reading what was written\<close>

text \<open>A node that is exactly what its declared type calls for: a leaf holds the value its text reads as,
  a field is a list where the schema or its occurrences say so, and a named type is a complex one.\<close>

function (sequential) node_typed :: "Codecs \<Rightarrow> Schema \<Rightarrow> Node \<Rightarrow> string \<Rightarrow> bool"
  and fields_typed :: "Codecs \<Rightarrow> Schema \<Rightarrow> Element list \<Rightarrow> (string \<times> Field) list \<Rightarrow> bool"
  and nodes_typed :: "Codecs \<Rightarrow> Schema \<Rightarrow> Node list \<Rightarrow> string \<Rightarrow> bool" where
  "node_typed c s (Simple x) t = (is_leaf_type s t \<and> parse_text (primitive s t) (trim (as_text c x)) = x)"
| "node_typed c s (Complex tn fs) t =
     (\<not> is_leaf_type s t \<and> (case tn of None \<Rightarrow> True | Some a \<Rightarrow> a \<noteq> t \<and> is_complex s a) \<and> distinct (map fst fs) \<and>
      (case flatten s (actual_type tn t) of Inl _ \<Rightarrow> False | Inr decls \<Rightarrow> fields_typed c s decls fs))"
| "fields_typed c s decls [] = True"
| "fields_typed c s decls ((n, One k) # fs) =
     (\<not> child_array decls n \<and> node_typed c s k (child_type decls n) \<and> fields_typed c s decls fs)"
| "fields_typed c s decls ((n, Many ks) # fs) =
     (ks \<noteq> [] \<and> (child_array decls n \<or> length ks > 1) \<and> nodes_typed c s ks (child_type decls n) \<and> fields_typed c s decls fs)"
| "nodes_typed c s [] t = True"
| "nodes_typed c s (k # ks) t = (node_typed c s k t \<and> nodes_typed c s ks t)"
  by pat_completeness auto
termination
  by (relation "measure (\<lambda>x. case x of
        Inl (c, s, k, t) \<Rightarrow> size k
      | Inr (Inl (c, s, decls, fs)) \<Rightarrow> size_list (size_prod (\<lambda>_. 0) size) fs
      | Inr (Inr (c, s, ks, t)) \<Rightarrow> size_list size ks)")
    auto

definition occurrences :: "Field \<Rightarrow> Node list" where
  "occurrences f = (case f of One k \<Rightarrow> [k] | Many ks \<Rightarrow> ks)"

lemma docs_of_fields_concat: "docs_of_fields c fs d = concat (map (\<lambda>(n, f). docs_of_nodes c n (occurrences f) d) fs)"
proof (induction fs)
  case (Cons x fs)
  then show ?case by (cases x; cases "snd x") (auto simp: occurrences_def)
qed simp

lemma local_name_plain: "plain_name n \<Longrightarrow> local_name n = n"
proof -
  assume "plain_name n"
  then have "list_all plain_char n" by (simp add: plain_name_def)
  then have "CHR '':'' \<notin> set n" using plain_char_tag by (fastforce simp: list_all_iff)
  then show ?thesis by (simp add: local_name_def split_on_absent)
qed

lemma child_docs_spaced: "child_docs (spaced d ds) = ds"
proof -
  have "child_docs (concat (map (\<lambda>k. [Chunk (pad (d + 1)), Child k, Chunk [LF]]) ds)) = ds"
    by (induction ds) simp_all
  then show ?thesis by (simp add: spaced_def)
qed

lemma tree_name: "plain_name n \<Longrightarrow> xname (doc_tree env (doc_of c n k r d)) = n"
  by (cases k) (simp_all add: Let_def local_name_plain)

lemma tree_text: "(case xtext (doc_tree env (doc_of c n (Simple x) r d)) of None \<Rightarrow> [] | Some u \<Rightarrow> u) = as_text c x"
  by (simp add: Let_def)

lemma tree_kids:
  "\<exists>env'. xkids (doc_tree env (doc_of c n (Complex tn fs) r d)) = map (doc_tree env') (docs_of_fields c fs (d + 1))"
  by (auto simp: Let_def child_docs_spaced)

lemma resolved_attrs:
  "resolved (prefixes (root_attrs r tn) @ env) (root_attrs r tn) = (case tn of None \<Rightarrow> [] | Some a \<Rightarrow> [((XSI, ''type''), a)])"
  by (cases tn) (simp_all add: resolved_def prefixes_def root_attrs_def)

lemma tree_type: "xattr (doc_tree env (doc_of c n k r d)) XSI ''type'' = (case k of Simple x \<Rightarrow> None | Complex tn fs \<Rightarrow> tn)"
  by (cases k) (auto simp: Let_def resolved_attrs xattr_def split: option.splits)

lemma remdups_runs:
  assumes "distinct (map fst xs)" and "\<forall>x \<in> set xs. snd x > 0"
  shows "remdups (concat (map (\<lambda>(n, m). replicate m n) xs)) = map fst xs"
  using assms
proof (induction xs)
  case (Cons x xs)
  obtain n m where x: "x = (n, Suc m)" using Cons.prems(2) by (cases x; cases "snd x") auto
  have "remdups (replicate (Suc m) n @ r) = n # remdups r" if "n \<notin> set r" for r
    using that by (induction m) auto
  moreover have "n \<notin> set (concat (map (\<lambda>(n, m). replicate m n) xs))" using Cons.prems(1) x by force
  ultimately show ?case using Cons x by (simp del: replicate.simps)
qed simp

lemma first_seen_runs:
  assumes "distinct (map fst xs)" and "\<forall>x \<in> set xs. snd x > 0"
  shows "first_seen (concat (map (\<lambda>(n, m). replicate m n) xs)) = map fst xs"
proof -
  have "rev (concat (map (\<lambda>(n, m). replicate m n) xs)) = concat (map (\<lambda>(n, m). replicate m n) (rev xs))"
    by (induction xs) auto
  then show ?thesis
    using remdups_runs [of "rev xs"] assms by (simp add: first_seen_def rev_map [symmetric])
qed

lemma docs_of_nodes_names: "plain_name n \<Longrightarrow> map (\<lambda>d. xname (doc_tree env d)) (docs_of_nodes c n ks d) = replicate (length ks) n"
  by (induction ks) (simp_all add: tree_name)

text \<open>The recursions over fields, in terms of a field's occurrences.\<close>

definition field_shape :: "Element list \<Rightarrow> string \<Rightarrow> Field \<Rightarrow> bool" where
  "field_shape decls n f \<longleftrightarrow>
     occurrences f \<noteq> [] \<and>
     f = (if child_array decls n \<or> length (occurrences f) > 1 then Many (occurrences f) else One (hd (occurrences f)))"

lemma fields_Cons:
  "field_names_ok ((n, f) # fs) \<longleftrightarrow> plain_name n \<and> node_names_ok (occurrences f) \<and> field_names_ok fs"
  "fields_typed c s decls ((n, f) # fs) \<longleftrightarrow>
     field_shape decls n f \<and> nodes_typed c s (occurrences f) (child_type decls n) \<and> fields_typed c s decls fs"
  "fields_depth ((n, f) # fs) = max (nodes_depth (occurrences f)) (fields_depth fs)"
  by (cases f; auto simp: occurrences_def field_shape_def)+

lemma fields_mem:
  assumes "(n, f) \<in> set fs"
  shows "field_names_ok fs \<Longrightarrow> plain_name n \<and> node_names_ok (occurrences f)"
    and "fields_typed c s decls fs \<Longrightarrow> field_shape decls n f \<and> nodes_typed c s (occurrences f) (child_type decls n)"
    and "nodes_depth (occurrences f) \<le> fields_depth fs"
  using assms by (induction fs) (auto simp: fields_Cons)

lemma kids_of_fields:
  fixes fs env c d
  assumes "field_names_ok fs" and "distinct (map fst fs)" and "\<forall>x \<in> set fs. occurrences (snd x) \<noteq> []"
  defines "kids \<equiv> map (doc_tree env) (docs_of_fields c fs d)"
  shows "first_seen (map xname kids) = map fst fs"
    and "(n, f) \<in> set fs \<Longrightarrow> filter (\<lambda>k. xname k = n) kids = map (doc_tree env) (docs_of_nodes c n (occurrences f) d)"
proof -
  have names: "map xname kids = concat (map (\<lambda>(n, m). replicate m n) (map (\<lambda>(n, f). (n, length (occurrences f))) fs))"
    using assms(1) unfolding kids_def docs_of_fields_concat
    by (induction fs) (auto simp: fields_Cons docs_of_nodes_names comp_def)
  show "first_seen (map xname kids) = map fst fs"
    unfolding names by (subst first_seen_runs) (use assms(2,3) in \<open>auto simp: comp_def case_prod_unfold\<close>)
  have other: "filter (\<lambda>k. xname k = n) (map (doc_tree env) (docs_of_nodes c m ks d)) =
      (if m = n then map (doc_tree env) (docs_of_nodes c m ks d) else [])" if "plain_name m" for m ks
    using that by (induction ks) (auto simp: tree_name)
  show "(n, f) \<in> set fs \<Longrightarrow> filter (\<lambda>k. xname k = n) kids = map (doc_tree env) (docs_of_nodes c n (occurrences f) d)"
    using assms(1,2) unfolding kids_def docs_of_fields_concat
  proof (induction fs)
    case (Cons x fs)
    have absent: "filter (\<lambda>k. xname k = n) (map (doc_tree env) (concat (map (\<lambda>(n, f). docs_of_nodes c n (occurrences f) d) gs))) = []"
      if "n \<notin> fst ` set gs" "field_names_ok gs" for gs
      using that by (induction gs) (auto simp: fields_Cons other simp del: filter_map)
    obtain m g where x: "x = (m, g)" by (cases x)
    show ?case
    proof (cases "m = n")
      case True
      then have "f = g" "n \<notin> fst ` set fs" using Cons.prems x by (auto simp: rev_image_eqI)
      then show ?thesis using Cons.prems x True absent [of fs] by (simp add: fields_Cons other del: filter_map)
    next
      case False
      then show ?thesis using Cons x by (simp add: fields_Cons other del: filter_map)
    qed
  qed simp
qed

lemma map_res_all: "(\<And>x. x \<in> set xs \<Longrightarrow> f (h x) = Inr (g x)) \<Longrightarrow> map_res f (map h xs) = Inr (map g xs)"
  by (induction xs) auto

lemma read_nodes_written:
  assumes "\<And>k p. k \<in> set ks \<Longrightarrow> read_element s (doc_tree env (doc_of c n k False d)) t p dd = Inr k"
  shows "map_res_i (\<lambda>i k. read_element s k t (q i) dd) (map (doc_tree env) (docs_of_nodes c n ks d)) = Inr ks"
proof -
  have "map_res (\<lambda>(i, k). read_element s k t (q i) dd) (enumerate j (map (doc_tree env) (docs_of_nodes c n ks d))) = Inr ks" for j
    using assms by (induction ks arbitrary: j) auto
  then show ?thesis by (simp add: map_res_i_def)
qed

lemma nodes_mem:
  assumes "k \<in> set ks"
  shows "node_names_ok ks \<Longrightarrow> names_ok k" and "nodes_typed c s ks t \<Longrightarrow> node_typed c s k t" and "node_depth k \<le> nodes_depth ks"
    and "size k \<le> size_list size ks"
  using assms by (induction ks) auto

lemma occurrences_smaller: "(n, f) \<in> set fs \<Longrightarrow> k \<in> set (occurrences f) \<Longrightarrow> size k < size (Complex tn fs)"
proof -
  assume "(n, f) \<in> set fs" "k \<in> set (occurrences f)"
  then have "size_prod (\<lambda>_. 0) size (n, f) \<le> size_list (size_prod (\<lambda>_. 0) size) fs" "size k < size f + 1"
    by (auto simp: size_list_estimation' occurrences_def split: Field.splits dest!: nodes_mem(4))
  then show ?thesis by simp
qed

lemma docs_of_nodes_length [simp]: "length (docs_of_nodes c n ks d) = length ks"
  by (induction ks) simp_all

lemma read_element_written:
  assumes "node_typed c s k t" and "names_ok k" and "plain_name n" and "dd + node_depth k \<le> Suc MAX_DEPTH"
  shows "read_element s (doc_tree env (doc_of c n k r d)) t p dd = Inr k"
  using assms
proof (induction k arbitrary: t n dd env r d p rule: measure_induct_rule [where f = size])
  case (less k)
  show ?case
  proof (cases k)
    case (Simple x)
    then show ?thesis using less.prems tree_text [of env c n x r d] by (simp add: read_element.simps)
  next
    case (Complex tn fs)
    let ?x = "doc_tree env (doc_of c n k r d)" and ?a = "actual_type tn t"
    obtain decls where decls: "flatten s ?a = Inr decls" and typed: "fields_typed c s decls fs"
      and leaf: "\<not> is_leaf_type s t" and tn: "case tn of None \<Rightarrow> True | Some a \<Rightarrow> a \<noteq> t \<and> is_complex s a"
      and dist: "distinct (map fst fs)"
      using less.prems(1) Complex by (auto split: sum.splits)
    have ok: "field_names_ok fs" "pred_option plain_name tn" using less.prems(2) Complex by auto
    have deep: "Suc dd + fields_depth fs \<le> Suc MAX_DEPTH" using less.prems(4) Complex by simp
    have "xattr ?x XSI ''type'' = tn" unfolding tree_type using Complex by simp
    then have actual: "xml_actual s ?x t = ?a"
      unfolding xml_actual_def using tn ok(2) leaf
      by (cases tn) (simp_all add: actual_type_def local_name_plain is_leaf_type_def del: doc_tree.simps)
    have over: "override ?a t = tn" using tn by (cases tn) (simp_all add: override_def actual_type_def)
    obtain env' where kids: "xkids ?x = map (doc_tree env') (docs_of_fields c fs (d + 1))"
      using tree_kids [of env c n tn fs r d] Complex by auto
    have shape: "field_shape decls m f" if "(m, f) \<in> set fs" for m f using fields_mem(2) [OF that typed] by simp
    then have full: "\<forall>x \<in> set fs. occurrences (snd x) \<noteq> []" by (force simp: field_shape_def)
    let ?read = "\<lambda>m. let kids = filter (\<lambda>k. xname k = m) (xkids ?x) in
        res_bind (map_res_i (\<lambda>i k. read_element s k (child_type decls m) (item_path (p @ ''.'' @ m) i) (dd + 1)) kids)
          (\<lambda>nodes. Inr (m, if child_array decls m \<or> length kids > 1 then Many nodes else One (hd nodes)))"
    have "?read m = Inr (m, f)" if mem: "(m, f) \<in> set fs" for m f
    proof -
      let ?kids = "map (doc_tree env') (docs_of_nodes c m (occurrences f) (d + 1))"
      have "read_element s (doc_tree env' (doc_of c m k' False (d + 1))) (child_type decls m) q (dd + 1) = Inr k'"
        if "k' \<in> set (occurrences f)" for k' q
        using less.IH [of k' "child_type decls m" m "dd + 1"] occurrences_smaller [OF mem that, of tn] Complex
          fields_mem [OF mem] ok(1) typed nodes_mem [OF that] deep by fastforce
      then have "map_res_i (\<lambda>i k. read_element s k (child_type decls m) (item_path (p @ ''.'' @ m) i) (dd + 1)) ?kids = Inr (occurrences f)"
        by (rule read_nodes_written)
      moreover have "length ?kids = length (occurrences f)" by simp
      moreover have "filter (\<lambda>k. xname k = m) (xkids ?x) = ?kids"
        unfolding kids using ok(1) dist full mem by (rule kids_of_fields(2))
      ultimately show ?thesis using shape [OF mem] by (auto simp: Let_def field_shape_def)
    qed
    then have "map_res ?read (map fst fs) = Inr (map id fs)"
      by (intro map_res_all) auto
    moreover have "first_seen (map xname (xkids ?x)) = map fst fs"
      unfolding kids using ok(1) dist full by (rule kids_of_fields(1))
    ultimately show ?thesis
      using less.prems(4) Complex leaf decls
      by (subst read_element.simps) (simp add: actual [unfolded Complex] over Let_def del: doc_tree.simps doc_of.simps)
  qed
qed

lemma write_element_ok:
  "node_typed c s k t \<Longrightarrow> d + node_depth k \<le> Suc MAX_DEPTH \<Longrightarrow> \<exists>out. write_element c n k s t r d = Inr out"
  "fields_typed c s decls fs \<Longrightarrow> Suc d + fields_depth fs \<le> Suc MAX_DEPTH \<Longrightarrow> \<exists>out. write_element_fields c decls fs s d = Inr out"
  "nodes_typed c s ks t \<Longrightarrow> Suc d + nodes_depth ks \<le> Suc MAX_DEPTH \<Longrightarrow> \<exists>out. write_occurrences c n ks s t d = Inr out"
proof (induction c n k s t r d and c decls fs s d and c n ks s t d
    rule: write_element_write_element_fields_write_occurrences.induct)
  case (2 c n tn fs s t r d)
  obtain decls where decls: "flatten s (actual_type tn t) = Inr decls" and typed: "fields_typed c s decls fs"
    using 2(2) by (auto split: sum.splits)
  have "is_complex s (actual_type tn t)"
    using 2(2) by (auto simp: is_leaf_type_def actual_type_def split: option.splits)
  then have w: "written_decls s (actual_type tn t) = Inr decls" using decls by (simp add: written_decls_def)
  show ?case
  proof (cases "fs = []")
    case False
    then obtain out where "write_element_fields c decls fs s d = Inr out"
      using 2(1) [OF _ False w] typed 2(3) by fastforce
    then show ?thesis using 2(3) w False by simp
  qed (use 2(3) in simp)
qed (fastforce simp: res_bind_Inr)+

lemma to_xml_ok:
  assumes "node_typed c s (mbody m) (declared_type s (mname m))" and "node_depth (mbody m) \<le> Suc MAX_DEPTH"
  shows "\<exists>u. to_xml c s m = Inr u"
  using write_element_ok(1) [OF assms(1), of 0 "mname m" True] assms(2) by (auto simp: to_xml_def)

lemma from_xml_written:
  assumes "to_xml c s m = Inr u"
    and "global_type s (mname m) = Some t" and "node_typed c s (mbody m) t"
    and "xml_name (mname m)" and "xml_plain c (mbody m)" and "node_depth (mbody m) \<le> MAX_DEPTH"
    and "case mbody m of Complex (Some a) fs \<Rightarrow> False | _ \<Rightarrow> True"
    and "xml_reads c (doc_of c (mname m) (mbody m) True 0)"
  shows "from_xml c s u = Inr m"
proof -
  let ?d = "doc_of c (mname m) (mbody m) True 0"
  have plain: "plain_name (mname m)" "names_ok (mbody m)"
    using assms(4) xml_plain_names(1) [OF assms(5)] by (simp_all add: xml_name_def)
  have shallow: "\<not> uci_nesting_exceeds u MAX_DEPTH"
    using written_nesting(2) [OF assms(1) plain] assms(6) by simp
  have parse: "xml_document c u = Inr (doc_tree [] ?d)"
    using written_nesting(1) [OF assms(1) plain] assms(8) doc_of_plain(1) [OF assms(4,5)] by (simp add: xml_reads_def)
  have name: "xname (doc_tree [] ?d) = mname m" using plain(1) by (rule tree_name)
  have attr: "xattr (doc_tree [] ?d) XSI ''type'' = None"
    unfolding tree_type using assms(7) by (auto split: Node.splits option.splits)
  have read: "read_element s (doc_tree [] ?d) t (mname m) 0 = Inr (mbody m)"
    using assms(3) plain(2,1) by (rule read_element_written) (use assms(6) in simp)
  show ?thesis
    unfolding from_xml_def using shallow by (simp add: parse name attr read assms(2) Let_def)
qed


text \<open>C20: The writer and the reader disagree on the depth they accept. A message that nests 97 elements
  deep, one more than \<open>MAX_DEPTH\<close>, is still written as UCI XML, and the reader then refuses the text
  as too deep, whatever the XML parser would make of it.\<close>

theorem written_but_refused:
  assumes "node_typed c s (mbody m) (declared_type s (mname m))" and "plain_name (mname m)" and "names_ok (mbody m)"
    and "node_depth (mbody m) = MAX_DEPTH + 1"
  shows "\<exists>text. to_xml c s m = Inr text \<and> from_xml c s text = Inl (TooDeep ''document'')"
proof -
  obtain u where u: "to_xml c s m = Inr u" using to_xml_ok [OF assms(1)] assms(4) by auto
  have "uci_nesting_exceeds u MAX_DEPTH"
    using written_nesting(2) [OF u assms(2,3)] assms(4) by simp
  then show ?thesis using u by (simp add: from_xml_def)
qed

section \<open>Concrete messages\<close>

definition xml_codecs :: Codecs where
  "xml_codecs = nest_codecs\<lparr>xml_document := \<lambda>_. Inr (doc_tree [] (doc_of nest_codecs ''Nest'' (mbody nest_message) True 0))\<rparr>"

lemma nest_flatten: "flatten nest_schema ''NestType'' = Inr [el_opt ''Nest'' ''NestType'', el_many ''leaf'' ''xs:int'']"
  by code_simp

lemma nest_types:
  "\<not> is_leaf_type nest_schema ''NestType''" "is_complex nest_schema ''NestType''" "is_leaf_type nest_schema ''xs:int''"
  "is_leaf_type nest_schema ''xs:string''" "primitive nest_schema ''xs:int'' = ''xs:int''" "primitive nest_schema ''xs:string'' = ''xs:string''"
  "global_type nest_schema ''Nest'' = Some ''NestType''" "declared_type nest_schema ''Nest'' = ''NestType''"
  by code_simp+

lemma nest_children:
  "child_type [el_opt ''Nest'' ''NestType'', el_many ''leaf'' ''xs:int''] ''Nest'' = ''NestType''"
  "child_type [el_opt ''Nest'' ''NestType'', el_many ''leaf'' ''xs:int''] ''leaf'' = ''xs:int''"
  "child_type [el_opt ''Nest'' ''NestType'', el_many ''leaf'' ''xs:int''] ''note'' = ''xs:string''"
  "\<not> child_array [el_opt ''Nest'' ''NestType'', el_many ''leaf'' ''xs:int''] ''Nest''"
  "child_array [el_opt ''Nest'' ''NestType'', el_many ''leaf'' ''xs:int''] ''leaf''"
  "\<not> child_array [el_opt ''Nest'' ''NestType'', el_many ''leaf'' ''xs:int''] ''note''"
  by code_simp+

lemma nest_leaves:
  "parse_text ''xs:int'' (trim (as_text xml_codecs (SNumber (PosInt 7)))) = SNumber (PosInt 7)"
  "parse_text ''xs:string'' (trim (as_text xml_codecs (SString ''x''))) = SString ''x''"
  by code_simp+

lemma nest_typed: "node_typed xml_codecs nest_schema (mbody nest_message) ''NestType''"
  by (simp add: nest_message_def nest_types nest_flatten nest_children nest_leaves actual_type_def)

lemma plain_names: "plain_name ''Nest''" "plain_name ''leaf''" "plain_name ''note''"
  by code_simp+

lemma xml_names: "xml_name ''Nest''" "xml_name ''leaf''" "xml_name ''note''"
  by code_simp+

lemma xml_texts: "xml_text ''x''" "xml_text (show_nat 7)"
  by code_simp+


fun nested :: "nat \<Rightarrow> Node" where
  "nested 0 = Complex None []"
| "nested (Suc k) = Complex None [(''Nest'', One (nested k))]"

lemma nested_facts: "node_typed c nest_schema (nested k) ''NestType''" "names_ok (nested k)" "node_depth (nested k) = Suc k"
  by (induction k) (simp_all add: nest_types nest_flatten nest_children actual_type_def plain_names)

theorem written_but_refused_witness:
  "\<exists>text. to_xml xml_codecs nest_schema \<lparr>mname = ''Nest'', mbody = nested 96\<rparr> = Inr text \<and>
     from_xml xml_codecs nest_schema text = Inl (TooDeep ''document'')"
  by (rule written_but_refused) (simp_all add: nested_facts nest_types plain_names MAX_DEPTH_def del: nested.simps)

text \<open>A root that names a concrete type loses it on the way: \<open>from_xml\<close> passes the type named by the
  root's \<open>xsi:type\<close> as the declared one, so the tree does not record the override, and a type the
  schema does not know makes the root a leaf.\<close>

definition derived_schema :: Schema where
  "derived_schema = schema_extend ''DerivedType'' ''NestType'' [el_opt ''extra'' ''xs:string''] nest_schema"

definition typed_root :: "string \<Rightarrow> xelem" where
  "typed_root t = XElem ''Nest'' (Some [LF]) [((XSI, ''type''), t)] [XElem ''extra'' (Some ''x'') [] []]"

definition root_codecs :: "string \<Rightarrow> Codecs" where
  "root_codecs t = nest_codecs\<lparr>xml_document := \<lambda>_. Inr (typed_root t)\<rparr>"

lemma root_override_lost:
  "from_xml (root_codecs ''DerivedType'') derived_schema [] =
     Inr \<lparr>mname = ''Nest'', mbody = Complex None [(''extra'', One (Simple (SString ''x'')))]\<rparr>"
  "from_xml (root_codecs ''Unknown'') derived_schema [] = Inr \<lparr>mname = ''Nest'', mbody = Simple (SString [])\<rparr>"
  by code_simp+

end
