(* ===== verification/Uci_Validate.thy ===== *)
theory Uci_Validate
  imports Uci_Xml
begin

text \<open>
  Checking a converted message against the schema: \<open>oa-gateway-uci/src/validate\<close>. The walk keeps the
  code's shape: every step takes the report so far and returns it, and stops adding at
  \<open>MAX_VIOLATIONS\<close>. The reference is \<open>node_viols\<close>, which lists every violation, and \<open>conforms\<close>,
  which says when there is none.
\<close>

section \<open>Modes\<close>

datatype Mode = Off | Warn | Reject

definition mode_is_on :: "Mode \<Rightarrow> bool" where
  "mode_is_on m \<longleftrightarrow> m \<noteq> Off"

definition show_mode :: "Mode \<Rightarrow> string" where
  "show_mode m = (case m of Off \<Rightarrow> ''off'' | Warn \<Rightarrow> ''warn'' | Reject \<Rightarrow> ''reject'')"

definition parse_mode :: "string \<Rightarrow> string + Mode" where
  "parse_mode s =
     (if s = ''off'' then Inr Off
      else if s = ''warn'' then Inr Warn
      else if s = ''reject'' then Inr Reject
      else Inl (''unknown validation mode '' @ [CHR 0x27] @ s @ [CHR 0x27] @ ''; expected off, warn, or reject''))"

section \<open>Violations\<close>

definition MAX_VIOLATIONS :: nat where "MAX_VIOLATIONS = 32"

datatype ViolationKind =
    Undeclared string
  | Missing string
  | TooFew string nat nat
  | TooMany string nat nat
  | NoAlternative "string list"
  | ManyAlternatives "string list"
  | AbstractType string
  | UnusableType string string
  | NestsTooDeep
  | NotEnumerated string "string list" nat
  | Length string nat string string
  | Range string string
  | PatternMismatch string "string list"
  | NotLexical string string string

record Violation =
  vpath :: string
  vkind :: ViolationKind

function chars :: "string \<Rightarrow> string list" where
  "chars [] = []"
| "chars (c # cs) = (c # takeWhile utf8_cont cs) # chars (dropWhile utf8_cont cs)"
  by pat_completeness auto
termination
  by (relation "measure length") (auto simp: le_imp_less_Suc length_dropWhile_le)

definition abbreviated :: "string \<Rightarrow> string" where
  "abbreviated t =
     (if length (chars t) \<le> 60 then t else concat (take 60 (chars t)) @ [CHR 0xE2, CHR 0x80, CHR 0xA6])"

definition in_quotes :: "string \<Rightarrow> string" where
  "in_quotes n = [CHR 0x27] @ n @ [CHR 0x27]"

definition quoted :: "string list \<Rightarrow> string" where
  "quoted names = join '', '' (map in_quotes names)"

fun show_kind :: "ViolationKind \<Rightarrow> string" where
  "show_kind (Undeclared e) = in_quotes e @ '' is not declared by this type''"
| "show_kind (Missing e) = in_quotes e @ '' is required and absent''"
| "show_kind (TooFew e n found) =
     in_quotes e @ '' appears '' @ show_nat found @ '' times, minOccurs is '' @ show_nat n"
| "show_kind (TooMany e n found) =
     in_quotes e @ '' appears '' @ show_nat found @ '' times, maxOccurs is '' @ show_nat n"
| "show_kind (NoAlternative ns) = ''none of '' @ quoted ns @ '' is present, and one of them must be''"
| "show_kind (ManyAlternatives ns) = quoted ns @ '' are all present, and they are alternatives''"
| "show_kind (AbstractType t) = in_quotes t @ '' is abstract, so a concrete type has to be named''"
| "show_kind (UnusableType t r) = ''declared type '' @ in_quotes t @ '' cannot be used: '' @ r"
| "show_kind NestsTooDeep = ''nests deeper than '' @ show_nat MAX_DEPTH @ '' elements''"
| "show_kind (NotEnumerated v allowed n) =
     in_quotes (abbreviated v) @ '' is not one of the '' @ show_nat n @ '' values this type allows: '' @ quoted allowed @
     (if n > length allowed then '', '' @ [CHR 0xE2, CHR 0x80, CHR 0xA6] else [])"
| "show_kind (Length v len u req) =
     in_quotes (abbreviated v) @ '' is '' @ show_nat len @ '' '' @ u @ '', and has to be '' @ req"
| "show_kind (Range v req) = abbreviated v @ '' is out of range: it has to be '' @ req"
| "show_kind (PatternMismatch v ps) =
     (case ps of
        [only] \<Rightarrow> in_quotes (abbreviated v) @ '' does not match the pattern '' @ in_quotes (abbreviated only)
      | _ \<Rightarrow> in_quotes (abbreviated v) @ '' does not match any of the '' @ show_nat (length ps) @ '' patterns this type allows'')"
| "show_kind (NotLexical v p expected) =
     in_quotes (abbreviated v) @ '' is not a valid '' @ p @ '': expected '' @ expected"

definition show_violation :: "Violation \<Rightarrow> string" where
  "show_violation v = vpath v @ '': '' @ show_kind (vkind v)"

definition summarize :: "Violation list \<Rightarrow> string" where
  "summarize vs =
     join ''; '' (map show_violation (take 3 vs)) @
     (if length vs > 3 then '' (and '' @ show_nat (length vs - 3) @ '' more)'' else [])"

section \<open>The walk\<close>

definition note_violation :: "Violation list \<Rightarrow> string \<Rightarrow> ViolationKind \<Rightarrow> Violation list" where
  "note_violation out path k = (if length out < MAX_VIOLATIONS then out @ [\<lparr>vpath = path, vkind = k\<rparr>] else out)"

definition full :: "Violation list \<Rightarrow> bool" where
  "full out \<longleftrightarrow> length out \<ge> MAX_VIOLATIONS"

definition note_if :: "bool \<Rightarrow> string \<Rightarrow> ViolationKind \<Rightarrow> Violation list \<Rightarrow> Violation list" where
  "note_if b path k out = (if b then note_violation out path k else out)"

definition value_length :: "string \<Rightarrow> string \<Rightarrow> nat \<times> string" where
  "value_length t p =
     (if kind_of_primitive p = HexBinary then (length (filter is_ascii_hexdigit t) div 2, ''octets'')
      else (char_count t, ''characters''))"

definition check_max :: "MaxOccurs \<Rightarrow> string \<Rightarrow> nat \<Rightarrow> string \<Rightarrow> Violation list \<Rightarrow> Violation list" where
  "check_max m e found path out =
     (case m of Bounded n \<Rightarrow> note_if (found > n) path (TooMany e n found) out | Unbounded \<Rightarrow> out)"

definition check_length :: "string \<Rightarrow> string \<Rightarrow> Effective \<Rightarrow> string \<Rightarrow> Violation list \<Rightarrow> Violation list" where
  "check_length t p e path out =
     (let len = fst (value_length t p); u = snd (value_length t p);
          out1 = (case eff_length e of None \<Rightarrow> out | Some n \<Rightarrow> note_if (len \<noteq> n) path (Length t len u (''exactly '' @ show_nat n)) out);
          out2 = (case eff_min_length e of None \<Rightarrow> out1 | Some n \<Rightarrow> note_if (len < n) path (Length t len u (''at least '' @ show_nat n)) out1)
      in (case eff_max_length e of None \<Rightarrow> out2 | Some n \<Rightarrow> note_if (len > n) path (Length t len u (''at most '' @ show_nat n)) out2))"

definition check_range :: "Codecs \<Rightarrow> string \<Rightarrow> Effective \<Rightarrow> string \<Rightarrow> Violation list \<Rightarrow> Violation list" where
  "check_range c t e path out =
     (if eff_min_inclusive e = None \<and> eff_max_inclusive e = None \<and> eff_min_exclusive e = None \<and> eff_max_exclusive e = None then out
      else (case parse_f64 t of
          None \<Rightarrow> out
        | Some x \<Rightarrow>
            (let out1 = (case eff_min_inclusive e of None \<Rightarrow> out
                         | Some m \<Rightarrow> note_if (f64_lt x m) path (Range t (''at least '' @ display_f64 c m)) out);
                 out2 = (case eff_max_inclusive e of None \<Rightarrow> out1
                         | Some m \<Rightarrow> note_if (f64_lt m x) path (Range t (''at most '' @ display_f64 c m)) out1);
                 out3 = (case eff_min_exclusive e of None \<Rightarrow> out2
                         | Some m \<Rightarrow> note_if (f64_le x m) path (Range t (''greater than '' @ display_f64 c m)) out2)
             in (case eff_max_exclusive e of None \<Rightarrow> out3
                 | Some m \<Rightarrow> note_if (f64_le m x) path (Range t (''less than '' @ display_f64 c m)) out3))))"

definition check_patterns :: "string \<Rightarrow> Effective \<Rightarrow> string \<Rightarrow> Violation list \<Rightarrow> Violation list" where
  "check_patterns t e path out =
     fold (\<lambda>alts. note_if (\<not> list_ex (\<lambda>p. accepts p t) alts) path (PatternMismatch t (map source alts))) (eff_patterns e) out"

definition check_value :: "Codecs \<Rightarrow> string \<Rightarrow> Schema \<Rightarrow> string \<Rightarrow> string \<Rightarrow> Violation list \<Rightarrow> Violation list" where
  "check_value c t s ty path out =
     (let p = primitive s ty in
      case refuses (regex_of c) (kind_of_primitive p) t of
        Some expected \<Rightarrow> note_violation out path (NotLexical t p expected)
      | None \<Rightarrow>
          (let e = effective_facets s ty in
           if effective_is_empty e then out
           else
             (let out1 = (case eff_enumeration e of None \<Rightarrow> out
                          | Some allowed \<Rightarrow> note_if (t \<notin> set allowed) path (NotEnumerated t (take 4 allowed) (length allowed)) out)
              in check_range c t e path (check_patterns t e path (check_length t p e path out1)))))"

definition field_count :: "(string \<times> Field) list \<Rightarrow> string \<Rightarrow> nat" where
  "field_count fs n = (case complex_get fs n of None \<Rightarrow> 0 | Some (One _) \<Rightarrow> 1 | Some (Many ks) \<Rightarrow> length ks)"

definition check_member :: "(string \<times> Field) list \<Rightarrow> string \<Rightarrow> Element \<Rightarrow> Violation list \<Rightarrow> Violation list" where
  "check_member fs path e out =
     (let found = field_count fs (ename e) in
      if found = 0 then note_if (min_occurs e \<ge> 1) path (Missing (ename e)) out
      else check_max (max_occurs e) (ename e) found path
             (note_if (found < min_occurs e) path (TooFew (ename e) (min_occurs e) found) out))"

definition check_choice :: "(string \<times> Field) list \<Rightarrow> string \<Rightarrow> Element list \<Rightarrow> Violation list \<Rightarrow> Violation list" where
  "check_choice fs path es out =
     (let taken = map ename (filter (\<lambda>e. field_count fs (ename e) > 0) es) in
      case taken of
        [] \<Rightarrow> note_violation out path (NoAlternative (map ename es))
      | [n] \<Rightarrow>
          (let chosen = (case find (\<lambda>e. ename e = n) es of Some e \<Rightarrow> e | None \<Rightarrow> es ! 0)
           in check_max (max_occurs chosen) n (field_count fs n) path out)
      | _ \<Rightarrow> note_violation out path (ManyAlternatives taken))"

definition check_group :: "(string \<times> Field) list \<Rightarrow> string \<Rightarrow> Group \<Rightarrow> Violation list \<Rightarrow> Violation list" where
  "check_group fs path g out =
     (case gkind g of
        Sequence \<Rightarrow> fold (check_member fs path) (elements g) out
      | Choice \<Rightarrow> check_choice fs path (elements g) out)"

definition check_declared :: "(string \<times> Field) list \<Rightarrow> string \<Rightarrow> Group list \<Rightarrow> Violation list \<Rightarrow> Violation list" where
  "check_declared fs path gs out =
     fold (\<lambda>f. note_if (\<not> list_ex (\<lambda>e. ename e = fst f) (concat (map elements gs))) path (Undeclared (fst f))) fs out"

definition check_abstract :: "Schema \<Rightarrow> string option \<Rightarrow> string \<Rightarrow> string \<Rightarrow> Violation list \<Rightarrow> Violation list" where
  "check_abstract s tn t path out =
     (if tn = None then
        (case fmlookup (complex_types s) t of
           Some ct \<Rightarrow> note_if (abstract ct) path (AbstractType t) out
         | None \<Rightarrow> out)
      else out)"

function (sequential) check :: "Codecs \<Rightarrow> Node \<Rightarrow> Schema \<Rightarrow> string \<Rightarrow> string \<Rightarrow> nat \<Rightarrow> Violation list \<Rightarrow> Violation list"
  and check_fields :: "Codecs \<Rightarrow> (string \<times> Field) list \<Rightarrow> Schema \<Rightarrow> Group list \<Rightarrow> string \<Rightarrow> nat \<Rightarrow> Violation list \<Rightarrow> Violation list"
  and check_items :: "Codecs \<Rightarrow> Node list \<Rightarrow> Schema \<Rightarrow> string \<Rightarrow> string \<Rightarrow> nat \<Rightarrow> nat \<Rightarrow> Violation list \<Rightarrow> Violation list"
where
  "check c (Simple x) s t path depth out =
     (if full out then out
      else if depth > MAX_DEPTH then note_violation out path NestsTooDeep
      else check_value c (as_text c x) s t path out)"
| "check c (Complex tn fs) s t path depth out =
     (if full out then out
      else if depth > MAX_DEPTH then note_violation out path NestsTooDeep
      else
        (let actual = actual_type tn t; out1 = check_abstract s tn actual path out in
         case groups s actual of
           Inl err \<Rightarrow> note_violation out1 path (UnusableType actual (show_uci_error err))
         | Inr gs \<Rightarrow> check_fields c fs s gs path depth (fold (check_group fs path) gs (check_declared fs path gs out1))))"
| "check_fields c [] s gs path depth out = out"
| "check_fields c ((n, f) # fs) s gs path depth out =
     check_fields c fs s gs path depth
       (case child_decl (concat (map elements gs)) n of
          None \<Rightarrow> out
        | Some e \<Rightarrow>
            (case f of
               One k \<Rightarrow> check c k s (etype e) (path @ ''.'' @ n) (depth + 1) out
             | Many ks \<Rightarrow> check_items c ks s (etype e) (path @ ''.'' @ n) 0 (depth + 1) out))"
| "check_items c [] s t path i depth out = out"
| "check_items c (k # ks) s t path i depth out =
     check_items c ks s t path (Suc i) depth (check c k s t (item_path path i) depth out)"
  by pat_completeness auto
termination
  by (relation "measure (\<lambda>x. case x of
        Inl (c, k, s, t, p, d, out) \<Rightarrow> size k
      | Inr (Inl (c, fs, s, gs, p, d, out)) \<Rightarrow> size_list (size_prod (\<lambda>_. 0) size) fs
      | Inr (Inr (c, ks, s, t, p, i, d, out)) \<Rightarrow> size_list size ks)")
    auto

definition validate :: "Codecs \<Rightarrow> Message \<Rightarrow> Schema \<Rightarrow> Violation list" where
  "validate c m s = check c (mbody m) s (declared_type s (mname m)) (mname m) 0 []"

section \<open>Steps that add to a report\<close>

text \<open>The contract of every step of the walk: it keeps what was reported, and keeps the report within
  the limit. A sequence of steps is then quiet exactly when each of them is.\<close>

definition reports :: "Violation list \<Rightarrow> Violation list \<Rightarrow> bool" where
  "reports out out' \<longleftrightarrow> prefix out out' \<and> (length out \<le> MAX_VIOLATIONS \<longrightarrow> length out' \<le> MAX_VIOLATIONS)"

lemma reports_refl [simp, intro]: "reports out out"
  by (simp add: reports_def)

lemma reports_trans: "reports a b \<Longrightarrow> reports b c \<Longrightarrow> reports a c"
  unfolding reports_def by (meson prefix_order.trans)

locale report_step =
  fixes step :: "Violation list \<Rightarrow> Violation list"
  assumes adds: "reports out (step out)"
begin

lemma after: "reports a b \<Longrightarrow> reports a (step b)"
  using adds reports_trans by blast

lemma quiet_after: "step out = [] \<longleftrightarrow> step [] = [] \<and> out = []"
  using adds [of out] by (cases "out = []") (auto simp: reports_def)

end

interpretation note_step: report_step "\<lambda>out. note_violation out path k" for path k
  by unfold_locales (auto simp: note_violation_def reports_def)

interpretation note_if_step: report_step "note_if b path k" for b path k
  by unfold_locales (auto simp: note_if_def note_step.adds)

lemma note_quiet [simp]: "note_violation [] path k \<noteq> []" "note_if b path k [] = [] \<longleftrightarrow> \<not> b"
  by (simp_all add: note_if_def note_violation_def MAX_VIOLATIONS_def)

lemma note_quiet_after: "note_violation out path k \<noteq> []" "note_if b path k out = [] \<longleftrightarrow> \<not> b \<and> out = []"
  using note_step.quiet_after [of out path k] note_if_step.quiet_after [of b path k out] by auto

interpretation max_step: report_step "check_max m e found path" for m e found path
  by unfold_locales (auto simp: check_max_def note_if_step.adds split: MaxOccurs.split)

lemma fold_reports: "(\<And>x out. reports out (f x out)) \<Longrightarrow> reports out (fold f xs out)"
  by (induction xs arbitrary: out) (auto intro: reports_trans)

lemma fold_quiet:
  assumes "\<And>x. report_step (f x)"
  shows "fold f xs out = [] \<longleftrightarrow> (\<forall>x \<in> set xs. f x [] = []) \<and> out = []"
proof (induction xs arbitrary: out)
  case (Cons x xs)
  then show ?case using report_step.quiet_after [OF assms, of x out] by auto
qed simp

interpretation patterns_step: report_step "check_patterns t e path" for t e path
  by unfold_locales (simp add: check_patterns_def fold_reports note_if_step.adds)

lemmas adds_intros = note_step.after note_if_step.after max_step.after patterns_step.after

interpretation length_step: report_step "check_length t p e path" for t p e path
  by unfold_locales (auto simp: check_length_def Let_def intro!: adds_intros split: option.split)

interpretation range_step: report_step "check_range c t e path" for c t e path
  by unfold_locales (auto simp: check_range_def Let_def intro!: adds_intros split: option.split)

interpretation value_step: report_step "check_value c t s ty path" for c t s ty path
  by unfold_locales
    (auto simp: check_value_def Let_def intro!: range_step.after patterns_step.after length_step.after adds_intros split: option.split)

interpretation member_step: report_step "check_member fs path e" for fs path e
  by unfold_locales (auto simp: check_member_def Let_def intro!: adds_intros)

interpretation choice_step: report_step "check_choice fs path es" for fs path es
  by unfold_locales (auto simp: check_choice_def Let_def intro!: adds_intros split: list.split)

interpretation group_step: report_step "check_group fs path g" for fs path g
  by unfold_locales (auto simp: check_group_def fold_reports member_step.adds choice_step.adds split: GroupKind.split)

interpretation declared_step: report_step "check_declared fs path gs" for fs path gs
  by unfold_locales (simp add: check_declared_def fold_reports note_if_step.adds)

interpretation abstract_step: report_step "check_abstract s tn t path" for s tn t path
  by unfold_locales (auto simp: check_abstract_def intro!: adds_intros split: option.split)

interpretation groups_step: report_step "fold (check_group fs path) gs" for fs path gs
  by unfold_locales (simp add: fold_reports group_step.adds)

lemma check_adds:
  "reports out (check c k s t path d out)"
  "reports out (check_fields c fs s gs path d out)"
  "reports out (check_items c ks s t path i d out)"
proof (induction c k s t path d out and c fs s gs path d out and c ks s t path i d out
    rule: check_check_fields_check_items.induct)
  case (1 c x s t path depth out)
  then show ?case by (simp add: note_step.adds value_step.adds)
next
  case (2 c tn fs s t path depth out)
  let ?out = "check_abstract s tn (actual_type tn t) path out"
  show ?case
  proof (cases "groups s (actual_type tn t)")
    case (Inl err)
    then show ?thesis by (auto simp: Let_def intro!: adds_intros abstract_step.after)
  next
    case (Inr gs)
    have "reports out (fold (check_group fs path) gs (check_declared fs path gs ?out))"
      by (intro groups_step.after declared_step.after abstract_step.adds)
    then show ?thesis
      using 2 [OF _ _ refl refl Inr] Inr by (auto simp: Let_def note_step.adds intro: reports_trans)
  qed
next
  case (4 c n f fs s gs path depth out)
  show ?case
    using 4 by (cases "child_decl (concat (map elements gs)) n"; cases f) (auto intro: reports_trans)
qed (auto intro: reports_trans)

interpretation check_step: report_step "check c k s t path d" for c k s t path d
  by unfold_locales (rule check_adds)

interpretation check_fields_step: report_step "check_fields c fs s gs path d" for c fs s gs path d
  by unfold_locales (rule check_adds)

interpretation check_items_step: report_step "check_items c ks s t path i d" for c ks s t path i d
  by unfold_locales (rule check_adds)

section \<open>When nothing is reported\<close>

text \<open>A value of a simple type: it is in the lexical space of the primitive, is one of the values
  enumerated and has the exact length of the first links that say so, and no link of the restriction
  chain refuses it.\<close>

definition link_accepts :: "string \<Rightarrow> nat \<Rightarrow> Facets \<Rightarrow> bool" where
  "link_accepts v len f \<longleftrightarrow>
     \<not> rules_out (\<lambda>m. len < m) (min_length f) \<and> \<not> rules_out (\<lambda>m. m < len) (max_length f) \<and>
     \<not> refused_by v (patterns f) \<and>
     (case parse_f64 v of
        None \<Rightarrow> True
      | Some x \<Rightarrow>
          \<not> rules_out (f64_lt x) (min_inclusive f) \<and> \<not> rules_out (\<lambda>m. f64_lt m x) (max_inclusive f) \<and>
          \<not> rules_out (f64_le x) (min_exclusive f) \<and> \<not> rules_out (\<lambda>m. f64_le m x) (max_exclusive f))"

definition value_ok :: "Codecs \<Rightarrow> string \<Rightarrow> Schema \<Rightarrow> string \<Rightarrow> bool" where
  "value_ok c v s t \<longleftrightarrow>
     (let len = fst (value_length v (primitive s t)) in
      refuses (regex_of c) (kind_of_primitive (primitive s t)) v = None \<and>
      \<not> rules_out (\<lambda>allowed. v \<notin> set allowed)
          (Option.bind (find (\<lambda>f. own_enumeration f \<noteq> None) (restrictions s t)) own_enumeration) \<and>
      \<not> rules_out (\<lambda>n. len \<noteq> n) (Option.bind (find (\<lambda>f. flength f \<noteq> None) (restrictions s t)) flength) \<and>
      list_all (link_accepts v len) (restrictions s t))"

lemma check_length_quiet:
  "check_length t p e path out = [] \<longleftrightarrow> out = [] \<and>
     \<not> rules_out (\<lambda>n. fst (value_length t p) \<noteq> n) (eff_length e) \<and>
     \<not> rules_out (\<lambda>n. fst (value_length t p) < n) (eff_min_length e) \<and>
     \<not> rules_out (\<lambda>n. n < fst (value_length t p)) (eff_max_length e)"
  by (auto simp: check_length_def Let_def note_quiet_after split: option.split)

lemma check_range_quiet:
  "check_range c t e path out = [] \<longleftrightarrow> out = [] \<and>
     (case parse_f64 t of None \<Rightarrow> True | Some x \<Rightarrow>
        \<not> rules_out (f64_lt x) (eff_min_inclusive e) \<and> \<not> rules_out (\<lambda>m. f64_lt m x) (eff_max_inclusive e) \<and>
        \<not> rules_out (f64_le x) (eff_min_exclusive e) \<and> \<not> rules_out (\<lambda>m. f64_le m x) (eff_max_exclusive e))"
  by (auto simp: check_range_def Let_def note_quiet_after split: option.split)

lemma check_patterns_quiet:
  "check_patterns t e path out = [] \<longleftrightarrow> out = [] \<and> \<not> (\<exists>ps \<in> set (eff_patterns e). \<not> list_ex (\<lambda>p. accepts p t) ps)"
  unfolding check_patterns_def by (subst fold_quiet) (auto simp: note_if_step.report_step_axioms)

lemma effective_patterns_nonempty: "ps \<in> set (eff_patterns (effective_facets s t)) \<Longrightarrow> ps \<noteq> []"
proof -
  have "[] \<in> set (eff_patterns (facets_loop s n t out)) \<longleftrightarrow> [] \<in> set (eff_patterns out)" for n t out
    by (subst facets_loop_accumulates [where worse = "\<lambda>_. False"]) (auto simp: merge_facets_def)
  then show "ps \<in> set (eff_patterns (effective_facets s t)) \<Longrightarrow> ps \<noteq> []"
    by (auto simp: effective_facets_def default_effective_def)
qed

lemma check_value_quiet: "check_value c v s t path [] = [] \<longleftrightarrow> value_ok c v s t"
proof (cases "refuses (regex_of c) (kind_of_primitive (primitive s t)) v")
  case None
  let ?e = "effective_facets s t" and ?len = "fst (value_length v (primitive s t))"
  note exact = effective_facets_exact [of _ s t]
  have patterns: "(\<exists>ps \<in> set (eff_patterns ?e). \<not> list_ex (\<lambda>p. accepts p v) ps) \<longleftrightarrow> (\<exists>ps \<in> set (eff_patterns ?e). refused_by v ps)"
    using effective_patterns_nonempty [of _ s t] by (auto simp: refused_by_def list_ex_iff)
  have "check_value c v s t path [] = [] \<longleftrightarrow>
     \<not> rules_out (\<lambda>allowed. v \<notin> set allowed) (eff_enumeration ?e) \<and>
     \<not> rules_out (\<lambda>n. ?len \<noteq> n) (eff_length ?e) \<and> \<not> rules_out (\<lambda>n. ?len < n) (eff_min_length ?e) \<and>
     \<not> rules_out (\<lambda>n. n < ?len) (eff_max_length ?e) \<and> \<not> (\<exists>ps \<in> set (eff_patterns ?e). refused_by v ps) \<and>
     (case parse_f64 v of None \<Rightarrow> True | Some x \<Rightarrow>
        \<not> rules_out (f64_lt x) (eff_min_inclusive ?e) \<and> \<not> rules_out (\<lambda>m. f64_lt m x) (eff_max_inclusive ?e) \<and>
        \<not> rules_out (f64_le x) (eff_min_exclusive ?e) \<and> \<not> rules_out (\<lambda>m. f64_le m x) (eff_max_exclusive ?e))"
    unfolding patterns [symmetric]
    by (auto simp: check_value_def None Let_def check_range_quiet check_patterns_quiet check_length_quiet note_quiet_after
        effective_is_empty_def split: option.split)
  also have "\<dots> \<longleftrightarrow> value_ok c v s t"
    unfolding value_ok_def Let_def None link_accepts_def list_all_iff
    using effective_facets_exact [of ?len s t _ v]
    by (cases "parse_f64 v") auto
  finally show ?thesis .
qed (simp add: check_value_def value_ok_def Let_def)

text \<open>The occurrences of the members of a compositor, and the whole tree.\<close>

definition within_max :: "MaxOccurs \<Rightarrow> nat \<Rightarrow> bool" where
  "within_max m n = (case m of Bounded k \<Rightarrow> n \<le> k | Unbounded \<Rightarrow> True)"

definition group_ok :: "(string \<times> Field) list \<Rightarrow> Group \<Rightarrow> bool" where
  "group_ok fs g =
     (case gkind g of
        Sequence \<Rightarrow> \<forall>e \<in> set (elements g). min_occurs e \<le> field_count fs (ename e) \<and> within_max (max_occurs e) (field_count fs (ename e))
      | Choice \<Rightarrow> \<exists>e. filter (\<lambda>e. field_count fs (ename e) > 0) (elements g) = [e] \<and> within_max (max_occurs e) (field_count fs (ename e)))"

definition concrete :: "Schema \<Rightarrow> string option \<Rightarrow> string \<Rightarrow> bool" where
  "concrete s tn t \<longleftrightarrow> tn \<noteq> None \<or> (case fmlookup (complex_types s) t of None \<Rightarrow> True | Some ct \<Rightarrow> \<not> abstract ct)"

function (sequential) conforms :: "Codecs \<Rightarrow> Node \<Rightarrow> Schema \<Rightarrow> string \<Rightarrow> nat \<Rightarrow> bool"
  and fields_conform :: "Codecs \<Rightarrow> (string \<times> Field) list \<Rightarrow> Schema \<Rightarrow> Group list \<Rightarrow> nat \<Rightarrow> bool"
  and nodes_conform :: "Codecs \<Rightarrow> Node list \<Rightarrow> Schema \<Rightarrow> string \<Rightarrow> nat \<Rightarrow> bool" where
  "conforms c (Simple x) s t d = (d \<le> MAX_DEPTH \<and> value_ok c (as_text c x) s t)"
| "conforms c (Complex tn fs) s t d =
     (d \<le> MAX_DEPTH \<and> concrete s tn (actual_type tn t) \<and>
      (case groups s (actual_type tn t) of
         Inl _ \<Rightarrow> False
       | Inr gs \<Rightarrow> (\<forall>f \<in> set fs. list_ex (\<lambda>e. ename e = fst f) (concat (map elements gs))) \<and> (\<forall>g \<in> set gs. group_ok fs g) \<and>
           fields_conform c fs s gs (d + 1)))"
| "fields_conform c [] s gs d = True"
| "fields_conform c ((n, f) # fs) s gs d =
     ((case child_decl (concat (map elements gs)) n of
         None \<Rightarrow> True
       | Some e \<Rightarrow> (case f of One k \<Rightarrow> conforms c k s (etype e) d | Many ks \<Rightarrow> nodes_conform c ks s (etype e) d)) \<and>
      fields_conform c fs s gs d)"
| "nodes_conform c [] s t d = True"
| "nodes_conform c (k # ks) s t d = (conforms c k s t d \<and> nodes_conform c ks s t d)"
  by pat_completeness auto
termination
  by (relation "measure (\<lambda>x. case x of
        Inl (c, k, s, t, d) \<Rightarrow> size k
      | Inr (Inl (c, fs, s, gs, d)) \<Rightarrow> size_list (size_prod (\<lambda>_. 0) size) fs
      | Inr (Inr (c, ks, s, t, d)) \<Rightarrow> size_list size ks)")
    auto

lemma check_max_quiet: "check_max m e found path out = [] \<longleftrightarrow> within_max m found \<and> out = []"
  by (auto simp: check_max_def within_max_def note_quiet_after split: MaxOccurs.split)

lemma check_member_quiet:
  "check_member fs path e [] = [] \<longleftrightarrow> min_occurs e \<le> field_count fs (ename e) \<and> within_max (max_occurs e) (field_count fs (ename e))"
  by (auto simp: check_member_def Let_def check_max_quiet within_max_def note_quiet_after split: MaxOccurs.split)

lemma check_choice_quiet:
  "check_choice fs path es [] = [] \<longleftrightarrow>
     (\<exists>e. filter (\<lambda>e. field_count fs (ename e) > 0) es = [e] \<and> within_max (max_occurs e) (field_count fs (ename e)))"
proof (cases "\<exists>e. filter (\<lambda>e. field_count fs (ename e) > 0) es = [e]")
  case True
  then obtain e where e: "filter (\<lambda>e. field_count fs (ename e) > 0) es = [e]" by blast
  have "find (\<lambda>x. ename x = ename e) es = Some e" using e
  proof (induction es)
    case (Cons x es)
    then show ?case by (cases "ename x = ename e") (auto split: if_splits simp: filter_eq_Cons_iff)
  qed simp
  then show ?thesis using e by (simp add: check_choice_def check_max_quiet)
next
  case False
  then show ?thesis by (auto simp: check_choice_def Let_def note_quiet_after split: list.splits)
qed

lemma check_group_quiet: "check_group fs path g [] = [] \<longleftrightarrow> group_ok fs g"
  by (auto simp: check_group_def group_ok_def fold_quiet member_step.report_step_axioms check_member_quiet check_choice_quiet split: GroupKind.split)

lemma check_declared_quiet:
  "check_declared fs path gs out = [] \<longleftrightarrow> (\<forall>f \<in> set fs. list_ex (\<lambda>e. ename e = fst f) (concat (map elements gs))) \<and> out = []"
  unfolding check_declared_def by (subst fold_quiet) (auto simp: note_if_step.report_step_axioms)

lemma check_abstract_quiet: "check_abstract s tn t path [] = [] \<longleftrightarrow> concrete s tn t"
  by (auto simp: check_abstract_def concrete_def split: option.split)

lemma not_full_Nil [simp]: "\<not> full []"
  by (simp add: full_def MAX_VIOLATIONS_def)

lemma check_quiet:
  "check c k s t path d [] = [] \<longleftrightarrow> conforms c k s t d"
  "check_fields c fs s gs path d [] = [] \<longleftrightarrow> fields_conform c fs s gs (d + 1)"
  "check_items c ks s t path i d [] = [] \<longleftrightarrow> nodes_conform c ks s t d"
proof (induction c k s t d and c fs s gs "d + 1" and c ks s t d arbitrary: path and d path and path i
    rule: conforms_fields_conform_nodes_conform.induct)
  case (1 c x s t d)
  then show ?case by (auto simp: check_value_quiet)
next
  case (2 c tn fs s t d)
  let ?a = "actual_type tn t"
  show ?case
  proof (cases "groups s ?a")
    case (Inl err)
    then show ?thesis by (simp add: Let_def note_quiet_after)
  next
    case (Inr gs)
    have quiet: "check_fields c fs s gs path d out = [] \<longleftrightarrow> fields_conform c fs s gs (d + 1) \<and> out = []" for out
      using check_fields_step.quiet_after [of c fs s gs path d out] 2 [OF Inr] by auto
    show ?thesis
      by (auto simp: Let_def Inr quiet fold_quiet group_step.report_step_axioms check_group_quiet check_declared_quiet
          check_abstract_quiet)
  qed
next
  case (4 c n f fs s gs d)
  show ?case
  proof (cases "child_decl (concat (map elements gs)) n")
    case (Some e)
    then show ?thesis
      using 4 check_fields_step.quiet_after [of c fs s gs path d] by (cases f) auto
  qed (use 4 in simp)
next
  case (6 c k ks s t d)
  then show ?case using check_items_step.quiet_after [of c ks s t path "Suc i" d] by auto
qed simp_all

text \<open>C21: Validation reports nothing exactly when the message conforms to the schema: it nests at most
  \<open>MAX_DEPTH\<close> levels below the root, no abstract type stands without a concrete one, every type's
  extension chain resolves, every field is declared, every element of a sequence occurs as often as it
  may, exactly one branch of each alternative is taken, and every leaf is a value of its primitive
  that no link of its type's restriction chain refuses.\<close>

theorem validate_exact: "validate c m s = [] \<longleftrightarrow> conforms c (mbody m) s (declared_type s (mname m)) 0"
  by (simp add: validate_def check_quiet)

text \<open>However many ways a message departs from the schema, the report holds at most
  \<open>MAX_VIOLATIONS\<close> of them.\<close>

theorem validate_bounded: "length (validate c m s) \<le> MAX_VIOLATIONS"
  using check_adds(1) [of "[]"] by (simp add: validate_def reports_def)

section \<open>A root type the schema does not know\<close>

lemma not_xs_text:
  assumes "\<not> prefix ''xs:'' t"
  shows "kind_of_primitive t = Text"
proof -
  have "t \<noteq> p" if "prefix ''xs:'' p" for p using assms that by auto
  then show ?thesis by (simp add: kind_of_primitive_def)
qed

lemma complex_value_ok:
  assumes "\<not> is_simple s t"
  shows "value_ok c v s t"
proof -
  have t: "\<not> prefix ''xs:'' t" "fmlookup (simple_types s) t = None" using assms by (auto simp: is_simple_def)
  then have "primitive s t = t" by (simp add: primitive_def MAX_SIMPLE_DEPTH_def numeral_eq_Suc)
  moreover have "restrictions s t = []" using t by (simp add: restrictions_def MAX_SIMPLE_DEPTH_def numeral_eq_Suc)
  ultimately show ?thesis using not_xs_text [OF t(1)] by (simp add: value_ok_def)
qed

text \<open>C22: A document whose root names, by \<open>xsi:type\<close>, a type the schema does not define is not refused:
  it is read as a single text value, its children are dropped, and validation reports nothing, so
  that the emptied message passes in every validation mode.\<close>

theorem unknown_root_type_passes:
  assumes "xml_document c u = Inr r" and "\<not> uci_nesting_exceeds u MAX_DEPTH"
    and "global_type s (xname r) = Some t" and "is_complex s t" and "\<not> is_simple s t"
    and "xattr r XSI ''type'' = Some q" and "\<not> is_complex s (local_name q)" and "\<not> is_simple s (local_name q)"
  shows "\<exists>v. from_xml c s u = Inr \<lparr>mname = xname r, mbody = Simple (SString v)\<rparr> \<and>
    validate c \<lparr>mname = xname r, mbody = Simple (SString v)\<rparr> s = []"
proof -
  let ?a = "local_name q" and ?v = "trim (case xtext r of None \<Rightarrow> [] | Some u \<Rightarrow> u)"
  have a: "\<not> prefix ''xs:'' ?a" "fmlookup (simple_types s) ?a = None" using assms(8) by (auto simp: is_simple_def)
  then have "primitive s ?a = ?a" by (simp add: primitive_def MAX_SIMPLE_DEPTH_def numeral_eq_Suc)
  then have "parse_text (primitive s ?a) ?v = SString ?v" using not_xs_text [OF a(1)] by (simp add: parse_text_def)
  then have "read_element s r ?a (xname r) 0 = Inr (Simple (SString ?v))"
    using assms(7) by (simp add: read_element.simps is_leaf_type_def)
  then have "from_xml c s u = Inr \<lparr>mname = xname r, mbody = Simple (SString ?v)\<rparr>"
    using assms by (simp add: from_xml_def Let_def)
  moreover have "conforms c (Simple (SString ?v)) s t 0"
    using complex_value_ok [OF assms(5)] by simp
  then have "validate c \<lparr>mname = xname r, mbody = Simple (SString ?v)\<rparr> s = []"
    using assms(3) by (simp add: validate_def declared_type_def check_quiet del: check.simps)
  ultimately show ?thesis by blast
qed

theorem unknown_root_type_passes_witness:
  "\<exists>v. from_xml (root_codecs ''Unknown'') derived_schema ''x'' = Inr \<lparr>mname = ''Nest'', mbody = Simple (SString v)\<rparr> \<and>
    validate (root_codecs ''Unknown'') \<lparr>mname = ''Nest'', mbody = Simple (SString v)\<rparr> derived_schema = []"
proof -
  have n: "xname (typed_root ''Unknown'') = ''Nest''" by (simp add: typed_root_def)
  have l: "local_name ''Unknown'' = ''Unknown''" by code_simp
  have facts: "is_complex derived_schema ''NestType''" "\<not> is_simple derived_schema ''NestType''"
    "\<not> is_complex derived_schema ''Unknown''" "\<not> is_simple derived_schema ''Unknown''"
    "global_type derived_schema ''Nest'' = Some ''NestType''"
    by code_simp+
  show ?thesis
    using unknown_root_type_passes [of "root_codecs ''Unknown''" "''x''" "typed_root ''Unknown''" derived_schema "''NestType''" "''Unknown''"]
      facts by (simp add: n l root_codecs_def typed_root_def xattr_def uci_nesting_exceeds_def)
qed

section \<open>Mode names\<close>

lemma parse_show_mode: "parse_mode (show_mode m) = Inr m"
  by (cases m) (simp_all add: parse_mode_def show_mode_def)

end
