(* ===== verification/Owp_Convert.thy ===== *)
theory Owp_Convert
  imports Agra Uci_Validate
begin

text \<open>
  Conversion at the OWP socket, \<open>oa-gateway-owp/src/convert.rs\<close>: OMS JSON to UCI XML on the way to the
  engine, back on the way out, and the same for the document an A-GRA wrapper carries in hex. With it
  the two sniffing functions of \<open>oa-gateway-uci/src/lib.rs\<close>. Errors are the texts the code returns.
\<close>

section \<open>Sniffing and checking\<close>

definition looks_like_xml :: "bytes \<Rightarrow> bool" where
  "looks_like_xml bs \<longleftrightarrow> utf8_valid bs \<and> prefix ''<'' (trim_start bs)"

definition looks_like_json :: "bytes \<Rightarrow> bool" where
  "looks_like_json bs \<longleftrightarrow> utf8_valid bs \<and> prefix ''{'' (trim_start bs)"

definition violations_of :: "Codecs \<Rightarrow> bytes \<Rightarrow> Schema option \<Rightarrow> Mode \<Rightarrow> Violation list" where
  "violations_of c p schema mode =
     (if \<not> mode_is_on mode then []
      else case schema of
        None \<Rightarrow> []
      | Some s \<Rightarrow>
          if \<not> utf8_valid p then []
          else case (if looks_like_xml p then from_xml c s p else from_json c s p) of
            Inr m \<Rightarrow> validate c m s
          | Inl _ \<Rightarrow> [])"

section \<open>Hex\<close>

definition owp_hex_nibble :: "char \<Rightarrow> string + nat" where
  "owp_hex_nibble b =
     (if 48 \<le> byte b \<and> byte b \<le> 57 then Inr (byte b - 48)
      else if 97 \<le> byte b \<and> byte b \<le> 102 then Inr (byte b - 97 + 10)
      else if 65 \<le> byte b \<and> byte b \<le> 70 then Inr (byte b - 65 + 10)
      else Inl (''EncodedPayload is not hexBinary: invalid character '' @ debug_char b))"

fun hex_pairs :: "bytes \<Rightarrow> string + bytes" where
  "hex_pairs (a # b # s) =
     res_bind (owp_hex_nibble a) (\<lambda>hi.
     res_bind (owp_hex_nibble b) (\<lambda>lo.
     res_bind (hex_pairs s) (\<lambda>out. Inr (char_of (16 * hi + lo) # out))))"
| "hex_pairs _ = Inr []"

definition owp_decode_hex :: "string \<Rightarrow> string + bytes" where
  "owp_decode_hex s =
     (let digits = filter (\<lambda>b. \<not> is_ascii_whitespace b) s in
      if length digits mod 2 \<noteq> 0 then Inl ''EncodedPayload is not hexBinary: odd number of digits''
      else hex_pairs digits)"

definition HEX :: string where "HEX = ''0123456789ABCDEF''"

definition encode_hex_upper :: "bytes \<Rightarrow> string" where
  "encode_hex_upper bs = concat (map (\<lambda>b. [HEX ! (byte b div 16), HEX ! (byte b mod 16)]) bs)"

section \<open>Converting\<close>

definition uci_text :: "UciError + 'a \<Rightarrow> string + 'a" where
  "uci_text r = map_err show_uci_error r"

text \<open>The hex of a wrapper, when \<open>v\<close> is the root of one: the element name, the hex, and the root
  with other hex in its place.\<close>

definition encoded_payload :: "Value \<Rightarrow> (string \<times> (string \<Rightarrow> Value)) option" where
  "encoded_payload v =
     (case as_object v of
        Some [(name, body)] \<Rightarrow>
          if name \<noteq> RX_ELEMENT \<and> name \<noteq> TX_ELEMENT then None
          else Option.bind (json_get body ''MessageData'') (\<lambda>dat.
               Option.bind (json_get dat ''EncodedPayload'') (\<lambda>encoded.
               Option.bind (as_str encoded) (\<lambda>hex.
                 Some (hex, \<lambda>h. JObject [(name, json_set ''MessageData'' (json_set ''EncodedPayload'' (JString h) dat) body)]))))
      | _ \<Rightarrow> None)"

definition transcode_wrapper_inner :: "Codecs \<Rightarrow> string \<Rightarrow> Schema \<Rightarrow> bool \<Rightarrow> string + string" where
  "transcode_wrapper_inner c t s want_xml =
     res_bind (serde_from_str c t) (\<lambda>v.
       case encoded_payload v of
         None \<Rightarrow> Inr t
       | Some (hex, with_hex) \<Rightarrow>
           res_bind (owp_decode_hex hex) (\<lambda>inner_text.
             if \<not> utf8_valid inner_text then Inl (utf8_error c inner_text)
             else if want_xml = prefix ''<'' (trim_start inner_text) then Inr t
             else
               res_bind
                 (if want_xml then
                    res_bind (uci_text (from_json c s inner_text)) (\<lambda>m. uci_text (to_xml c s m))
                  else
                    res_bind (uci_text (from_xml c s inner_text)) (\<lambda>m. uci_text (to_json c s m)))
                 (\<lambda>converted. serde_to_string c (with_hex (encode_hex_upper converted)))))"

definition toward_xml :: "Codecs \<Rightarrow> Envelope \<Rightarrow> Schema \<Rightarrow> string + Envelope" where
  "toward_xml c e s =
     (if looks_like_xml (payload e) then Inr (e\<lparr>content_type := ct_xml\<rparr>)
      else if \<not> utf8_valid (payload e) then Inl (utf8_error c (payload e))
      else
        res_bind (transcode_wrapper_inner c (payload e) s True) (\<lambda>t.
        res_bind (uci_text (from_json c s t)) (\<lambda>m.
        res_bind (uci_text (to_xml c s m)) (\<lambda>x.
          Inr (e\<lparr>route := (route e)\<lparr>type_hint := Some (mname m)\<rparr>, payload := x, content_type := ct_xml\<rparr>)))))"

definition xml_to_oms_json :: "Codecs \<Rightarrow> string \<Rightarrow> Schema option \<Rightarrow> string + string" where
  "xml_to_oms_json c raw schema =
     (if \<not> looks_like_xml raw then Inr raw
      else
        res_bind (ok_or schema ''no UCI schema is loaded'') (\<lambda>s.
        res_bind (uci_text (res_bind (from_xml c s raw) (\<lambda>m. to_json c s m))) (\<lambda>json.
          transcode_wrapper_inner c json s False)))"

section \<open>The two hex decoders\<close>

lemma owp_hex_nibble_eq:
  "owp_hex_nibble b = (case hex_nibble b of
     Some n \<Rightarrow> Inr n | None \<Rightarrow> Inl (''EncodedPayload is not hexBinary: invalid character '' @ debug_char b))"
  by (simp add: owp_hex_nibble_def hex_nibble_def is_ascii_digit_def)

lemma show_bad_hex [simp]:
  "show_agra_error (BadHex (InvalidCharacter b)) = ''EncodedPayload is not hexBinary: invalid character '' @ debug_char b"
  by (simp add: show_agra_error_def)

lemma hex_pairs_loop:
  "even (length s) \<Longrightarrow> list_all (\<lambda>b. \<not> is_ascii_whitespace b) s \<Longrightarrow>
     hex_pairs s = map_err show_agra_error (hex_loop s None)"
proof (induction s rule: hex_pairs.induct)
  case (1 a b s)
  show ?case
  proof (cases "hex_nibble a = None \<or> hex_nibble b = None")
    case True
    then show ?thesis using "1.prems" by (auto simp: owp_hex_nibble_eq split: option.splits)
  next
    case False
    then obtain i j where n: "hex_nibble a = Some i" "hex_nibble b = Some j" by auto
    then have "hex_pairs s = map_err show_agra_error (hex_loop s None)"
      using "1.IH" [of i j] "1.prems" by (simp add: owp_hex_nibble_eq)
    then show ?thesis using n "1.prems" by (cases "hex_loop s None") (simp_all add: owp_hex_nibble_eq)
  qed
qed auto

lemma hex_loop_filter: "hex_loop (filter (\<lambda>b. \<not> is_ascii_whitespace b) s) high = hex_loop s high"
  by (induction s high rule: hex_loop.induct) (auto split: option.splits)

lemma hex_loop_even:
  "hex_loop s high = Inr out \<Longrightarrow> list_all (\<lambda>b. \<not> is_ascii_whitespace b) s \<Longrightarrow>
     even (length s + (if high = None then 0 else 1))"
  by (induction s high arbitrary: out rule: hex_loop.induct) (auto simp: res_bind_Inr split: option.splits if_splits)

lemma hex_loop_length: "hex_loop s None = Inr out \<Longrightarrow> length (filter (\<lambda>b. \<not> is_ascii_whitespace b) s) = 2 * length out"
  using hex_loop_iff [of None s out] by (auto simp: pending_def dest!: arg_cong [where f = length])

lemma owp_decode_hex_loop: "owp_decode_hex s = Inr out \<longleftrightarrow> hex_loop s None = Inr out"
proof -
  let ?d = "filter (\<lambda>b. \<not> is_ascii_whitespace b) s"
  have plain: "list_all (\<lambda>b. \<not> is_ascii_whitespace b) ?d" by (simp add: list_all_iff)
  show ?thesis
  proof (cases "even (length ?d)")
    case True
    then show ?thesis using hex_pairs_loop [OF True plain]
      by (simp add: owp_decode_hex_def Let_def hex_loop_filter map_err_Inr even_iff_mod_2_eq_zero)
  next
    case False
    then show ?thesis using hex_loop_even [of ?d None out] plain
      by (auto simp: owp_decode_hex_def Let_def hex_loop_filter even_iff_mod_2_eq_zero)
  qed
qed

lemma HEX_nth: "n < 16 \<Longrightarrow> HEX ! n = hex_digit n"
proof -
  have "list_all (\<lambda>n. HEX ! n = hex_digit n) [0..<16]" by code_simp
  then show "n < 16 \<Longrightarrow> ?thesis" by (simp add: list_all_iff)
qed

lemma encode_hex_upper_eq: "encode_hex_upper bs = encode_upper bs"
  by (simp add: encode_hex_upper_def encode_upper_def HEX_nth div16)

lemma owp_decode_encode: "owp_decode_hex (encode_hex_upper bs) = Inr bs"
  using hex_loop_iff [of None "encode_upper bs" bs] encode_upper_plain [of bs]
  by (simp add: owp_decode_hex_loop encode_hex_upper_eq pending_def)

text \<open>The gateway's two \<open>hexBinary\<close> decoders agree. The one of \<open>oa-gateway-agra\<close> accepts a text,
  as bytes within its payload limit, exactly when the one of \<open>oa-gateway-owp\<close> accepts it as the same
  bytes; on an even number of digits the OWP decoder answers what the loop of the other one answers,
  message included, and on an odd number it says so before it looks at the digits; and it takes back
  what the OWP encoder wrote, whatever its length.\<close>

theorem hex_decoders_agree:
  "(Agra.decode_hex s = Inr out \<longleftrightarrow> owp_decode_hex s = Inr out \<and> length out \<le> MAX_DECODED_PAYLOAD) \<and>
   owp_decode_hex s =
     (if even (length (filter (\<lambda>b. \<not> is_ascii_whitespace b) s)) then map_err show_agra_error (hex_loop s None)
      else Inl ''EncodedPayload is not hexBinary: odd number of digits'') \<and>
   owp_decode_hex (encode_hex_upper out) = Inr out"
proof (intro conjI)
  let ?d = "filter (\<lambda>b. \<not> is_ascii_whitespace b) s"
  have "length ?d div 2 \<le> length s div 2" by (intro div_le_mono length_filter_le)
  then show "Agra.decode_hex s = Inr out \<longleftrightarrow> owp_decode_hex s = Inr out \<and> length out \<le> MAX_DECODED_PAYLOAD"
    unfolding decode_hex_def owp_decode_hex_loop using hex_loop_length [of s out] by (cases "hex_loop s None = Inr out") auto
  show "owp_decode_hex s =
     (if even (length ?d) then map_err show_agra_error (hex_loop s None)
      else Inl ''EncodedPayload is not hexBinary: odd number of digits'')"
    using hex_pairs_loop [of ?d]
    by (simp add: owp_decode_hex_def Let_def hex_loop_filter list_all_iff even_iff_mod_2_eq_zero)
  show "owp_decode_hex (encode_hex_upper out) = Inr out" by (rule owp_decode_encode)
qed


section \<open>Crossing the gateway\<close>

text \<open>A message that XML can carry: what \<open>from_xml_written\<close> asks, and that the text is UTF-8, as every
  Rust string is.\<close>

definition xml_safe :: "Codecs \<Rightarrow> Schema \<Rightarrow> Message \<Rightarrow> bool" where
  "xml_safe c s m \<longleftrightarrow>
     (\<exists>t. global_type s (mname m) = Some t \<and> node_typed c s (mbody m) t) \<and>
     xml_name (mname m) \<and> xml_plain c (mbody m) \<and> node_depth (mbody m) \<le> MAX_DEPTH \<and>
     (case mbody m of Complex (Some a) fs \<Rightarrow> False | _ \<Rightarrow> True) \<and>
     xml_reads c (doc_of c (mname m) (mbody m) True 0) \<and>
     (case to_xml c s m of Inr u \<Rightarrow> utf8_valid u | Inl _ \<Rightarrow> True)"

text \<open>A message that JSON can carry: it has no floats, its JSON is within the nesting that \<open>serde_json\<close> reads,
  and there \<open>serde_json\<close> does what it documents of the value that \<open>to_json\<close> prints.\<close>

definition json_safe :: "Codecs \<Rightarrow> Schema \<Rightarrow> Message \<Rightarrow> bool" where
  "json_safe c s m \<longleftrightarrow> node_exact (SERDE_DEPTH - 1) (mbody m) \<and>
     (case write_node s (mbody m) (declared_type s (mname m)) (mname m) 0 of
        Inr v \<Rightarrow> serde_reproduces (serde_from_str c) (serde_to_string c) (JObject [(mname m, v)])
      | Inl _ \<Rightarrow> True)"

lemma trim_start_stop: "s \<noteq> [] \<Longrightarrow> hd s = CHR ''<'' \<Longrightarrow> trim_start s = s"
  unfolding trim_start_def by (intro strip_any_stop) (cases s, auto simp: unicode_ws_def)

lemma to_xml_head: "to_xml c s m = Inr u \<Longrightarrow> prefix ''<'' (trim_start u)"
proof -
  assume "to_xml c s m = Inr u"
  then obtain r where u: "u = CHR ''<'' # r" by (auto simp: to_xml_def res_bind_Inr PROLOG_def)
  then show ?thesis by (simp add: trim_start_stop)
qed

lemma xml_safe_crosses:
  assumes "xml_safe c s m"
  obtains u where "to_xml c s m = Inr u" "from_xml c s u = Inr m" "utf8_valid u" "prefix ''<'' (trim_start u)"
proof -
  obtain t where t: "global_type s (mname m) = Some t" "node_typed c s (mbody m) t"
    using assms by (auto simp: xml_safe_def)
  then obtain u where u: "to_xml c s m = Inr u"
    using to_xml_ok [of c s m] assms by (auto simp: xml_safe_def declared_type_def)
  then have "from_xml c s u = Inr m"
    using from_xml_written [OF u t] assms by (auto simp: xml_safe_def)
  then show thesis using that u assms to_xml_head [OF u] by (auto simp: xml_safe_def)
qed

lemma json_safe_crosses:
  assumes "from_json c s t = Inr m" "\<And>v. serde_from_str c t = Inr v \<Longrightarrow> json_sorted v" "json_safe c s m"
  obtains u v where "to_json c s m = Inr u" "from_json c s u = Inr m" "serde_from_str c u = Inr (JObject [(mname m, v)])"
proof -
  obtain w where w: "\<forall>p. write_node s (mbody m) (declared_type s (mname m)) p 0 = Inr w"
    and again: "\<And>u. serde_from_str c u = Inr (JObject [(mname m, w)]) \<Longrightarrow> from_json c s u = Inr m"
    using to_json_read [OF assms(1,2)] by blast
  have "json_faithful (serde_from_str c) (serde_to_string c) (JObject [(mname m, w)])"
    using w by (rule reproduced_message) (use assms(3) w in \<open>auto simp: json_safe_def\<close>)
  then obtain u where "serde_to_string c (JObject [(mname m, w)]) = Inr u" "serde_from_str c u = Inr (JObject [(mname m, w)])"
    by (rule json_faithfulE)
  then show thesis using that w again by (simp add: to_json_def json_object_single)
qed

lemma not_a_wrapper: "n \<notin> {RX_ELEMENT, TX_ELEMENT} \<Longrightarrow> encoded_payload (JObject [(n, b)]) = None"
  by (simp add: encoded_payload_def as_object_def)

text \<open>C24: The XML baseline preserves messages that are not A-GRA wrappers. A client's OMS JSON, when XML and
  JSON can carry the message it says (see \<open>xml_safe\<close> and \<open>json_safe\<close>), is turned into an XML envelope routed under the message's own name; and
  the OMS JSON a subscriber is given for that envelope is read as the same message.\<close>

theorem baseline_roundtrip:
  assumes "from_json c s (payload e) = Inr m" and "\<And>v. serde_from_str c (payload e) = Inr v \<Longrightarrow> json_sorted v"
    and "utf8_valid (payload e)" and "\<not> looks_like_xml (payload e)"
    and "mname m \<notin> {RX_ELEMENT, TX_ELEMENT}" and "xml_safe c s m" and "json_safe c s m"
  shows "\<exists>e' t. toward_xml c e s = Inr e' \<and> content_type e' = ct_xml \<and>
    route e' = route_typed (topic (route e)) (mname m) \<and> headers e' = headers e \<and>
    xml_to_oms_json c (payload e') (Some s) = Inr t \<and> from_json c s t = Inr m"
proof -
  obtain b where parse: "serde_from_str c (payload e) = Inr (JObject [(mname m, b)])"
    using assms(1) by (rule from_json_Inr) auto
  have plain: "encoded_payload (JObject [(mname m, b)]) = None" for b using assms(5) by (rule not_a_wrapper)
  obtain x where x: "to_xml c s m = Inr x" "from_xml c s x = Inr m" "utf8_valid x" "prefix ''<'' (trim_start x)"
    using assms(6) by (rule xml_safe_crosses)
  obtain u v where u: "to_json c s m = Inr u" "from_json c s u = Inr m" "serde_from_str c u = Inr (JObject [(mname m, v)])"
    using assms(1,2,7) by (rule json_safe_crosses)
  have "transcode_wrapper_inner c (payload e) s True = Inr (payload e)" "transcode_wrapper_inner c u s False = Inr u"
    using plain parse u(3) by (simp_all add: transcode_wrapper_inner_def)
  then show ?thesis using assms(1,3,4) x u
    by (intro exI [of _ "e\<lparr>route := (route e)\<lparr>type_hint := Some (mname m)\<rparr>, payload := x, content_type := ct_xml\<rparr>"] exI [of _ u])
       (auto simp: toward_xml_def xml_to_oms_json_def looks_like_xml_def uci_text_def route_eq_iff)
qed

text \<open>The library for the witnesses, with a wrapper around \<open>nest_message\<close>: \<open>wrap\<close> is its text, and a wrapper whose hex is \<open>h\<close> is printed
  as \<open>h\<close> in braces.\<close>

definition nest_wrapper :: "string \<Rightarrow> Value" where
  "nest_wrapper h = JObject [(RX_ELEMENT, JObject [(''MessageData'', JObject [(''EncodedPayload'', JString h), (''MessageType'', JString ''NEST'')])])]"

definition wrapper_codecs :: Codecs where
  "wrapper_codecs = xml_codecs\<lparr>
     serde_from_str := (\<lambda>t.
       if t = ''in'' \<or> t = ''{out}'' then serde_from_str xml_codecs t
       else if t = ''wrap'' then Inr (nest_wrapper ''696E'')
       else Inr (nest_wrapper (butlast (tl t)))),
     serde_to_string := (\<lambda>v.
       case encoded_payload v of
         Some (h, _) \<Rightarrow> Inr (''{'' @ h @ ''}'')
       | None \<Rightarrow> serde_to_string xml_codecs v)\<rparr>"

lemma nest_xml_text: "to_xml wrapper_codecs nest_schema nest_message = Inr u \<Longrightarrow> utf8_valid u"
proof -
  have "(case to_xml wrapper_codecs nest_schema nest_message of Inr u \<Rightarrow> utf8_valid u | Inl _ \<Rightarrow> True)" by code_simp
  then show "to_xml wrapper_codecs nest_schema nest_message = Inr u \<Longrightarrow> ?thesis" by simp
qed

lemma nest_leaf_texts:
  "parse_text ''xs:int'' (trim (as_text wrapper_codecs (SNumber (PosInt 7)))) = SNumber (PosInt 7)"
  "parse_text ''xs:string'' (trim (as_text wrapper_codecs (SString ''x''))) = SString ''x''"
  by code_simp+

lemma nest_xml_safe: "xml_safe wrapper_codecs nest_schema nest_message"
proof -
  have n: "mname nest_message = ''Nest''" by (simp add: nest_message_def)
  have "xml_reads wrapper_codecs (doc_of wrapper_codecs (mname nest_message) (mbody nest_message) True 0)"
    by (simp add: xml_reads_def wrapper_codecs_def xml_codecs_def n nest_message_def as_text_def show_number_def del: doc_tree.simps)
  moreover have "xml_plain wrapper_codecs (mbody nest_message)" "node_depth (mbody nest_message) \<le> MAX_DEPTH"
    "case mbody nest_message of Complex (Some a) fs \<Rightarrow> False | _ \<Rightarrow> True"
    by (simp_all add: nest_message_def xml_names as_text_def show_number_def xml_texts MAX_DEPTH_def)
  moreover have "node_typed wrapper_codecs nest_schema (mbody nest_message) ''NestType''"
    by (simp add: nest_message_def nest_types nest_flatten nest_children nest_leaf_texts actual_type_def)
  ultimately show ?thesis
    using nest_xml_text by (auto simp: xml_safe_def n nest_types xml_names split: sum.splits)
qed

lemma nest_json_safe: "json_safe wrapper_codecs nest_schema nest_message"
proof -
  have n: "mname nest_message = ''Nest''" by (simp add: nest_message_def)
  have "encoded_payload nest_written = None" by code_simp
  then have "json_faithful (serde_from_str wrapper_codecs) (serde_to_string wrapper_codecs) nest_written"
    by (simp add: json_faithful_def wrapper_codecs_def xml_codecs_def nest_codecs_def byte_def)
  then show ?thesis using nest_writes nest_exact by (simp add: json_safe_def n nest_types nest_written_def serde_reproduces_def)
qed

definition nest_envelope :: Envelope where
  "nest_envelope = new_envelope (MessageId 1) (route_topic ''T'') ''in''"

theorem baseline_roundtrip_witness:
  "\<exists>e' t. toward_xml wrapper_codecs nest_envelope nest_schema = Inr e' \<and> content_type e' = ct_xml \<and>
    route e' = route_typed (topic (route nest_envelope)) (mname nest_message) \<and> headers e' = headers nest_envelope \<and>
    xml_to_oms_json wrapper_codecs (payload e') (Some nest_schema) = Inr t \<and> from_json wrapper_codecs nest_schema t = Inr nest_message"
proof (rule baseline_roundtrip)
  have t: "payload nest_envelope = ''in''" by (simp add: nest_envelope_def)
  show "from_json wrapper_codecs nest_schema (payload nest_envelope) = Inr nest_message" unfolding t by code_simp
  show "json_sorted v" if "serde_from_str wrapper_codecs (payload nest_envelope) = Inr v" for v
    using that by (auto simp: t wrapper_codecs_def xml_codecs_def nest_codecs_def nest_value_def bt_inv_def)
  show "utf8_valid (payload nest_envelope)" "\<not> looks_like_xml (payload nest_envelope)" unfolding t by code_simp+
  show "mname nest_message \<notin> {RX_ELEMENT, TX_ELEMENT}" by (simp add: nest_message_def RX_ELEMENT_def TX_ELEMENT_def)
qed (rule nest_xml_safe nest_json_safe)+

section \<open>The document inside a wrapper\<close>

lemma bt_insert_again: "bt_insert k v (bt_insert k w m) = bt_insert k v m"
  by (induction k w m rule: bt_insert.induct) auto

lemma json_set_again: "json_set k x (json_set k y v) = json_set k x v"
  by (cases v) (simp_all add: json_set_def bt_insert_again)

lemma json_get_objectD: "json_get v k = Some x \<Longrightarrow> is_object v"
  by (cases v) (simp_all add: json_get_def as_object_def is_object_def)

text \<open>Replacing the hex of a wrapper gives a wrapper with that hex, replaceable in the same way.\<close>

lemma encoded_payload_replaced:
  assumes "encoded_payload v = Some (hex, with_hex)"
  shows "encoded_payload (with_hex h) = Some (h, with_hex)"
proof -
  obtain kvs where obj: "as_object v = Some kvs" using assms by (auto simp: encoded_payload_def split: option.splits)
  obtain n b where kvs: "kvs = [(n, b)]"
    using assms obj by (auto simp: encoded_payload_def split: list.splits)
  obtain dat encoded where name: "n = RX_ELEMENT \<or> n = TX_ELEMENT"
    and dat: "json_get b ''MessageData'' = Some dat" and enc: "json_get dat ''EncodedPayload'' = Some encoded"
    and wh: "with_hex = (\<lambda>h. JObject [(n, json_set ''MessageData'' (json_set ''EncodedPayload'' (JString h) dat) b)])"
    using assms obj kvs by (auto simp: encoded_payload_def bind_eq_Some_conv split: if_splits)
  have "is_object b" "is_object dat" using dat enc by (auto dest: json_get_objectD)
  then show ?thesis
    using name by (simp add: wh encoded_payload_def as_object_def json_get_set as_str_def json_set_again)
qed

text \<open>The document inside an A-GRA wrapper crosses with it. Where the hex of a wrapper decodes to the
  OMS JSON of a message that XML and JSON can carry, conversion towards the engine replaces that hex
  by the hex of an XML document for the same message and nothing else of the wrapper; and conversion
  towards a client replaces it by the hex of OMS JSON for the same message.\<close>

theorem wrapper_inner_roundtrip:
  assumes "serde_from_str c t = Inr v" and "encoded_payload v = Some (hex, with_hex)"
    and "owp_decode_hex hex = Inr inner_text" and "utf8_valid inner_text" and "\<not> looks_like_xml inner_text"
    and "from_json c s inner_text = Inr m" and "\<And>w. serde_from_str c inner_text = Inr w \<Longrightarrow> json_sorted w"
    and "xml_safe c s m" and "json_safe c s m"
    and "\<And>bs. json_faithful (serde_from_str c) (serde_to_string c) (with_hex (encode_hex_upper bs))"
  shows "\<exists>t1 x t2 j. transcode_wrapper_inner c t s True = Inr t1 \<and>
    serde_from_str c t1 = Inr (with_hex (encode_hex_upper x)) \<and> from_xml c s x = Inr m \<and>
    transcode_wrapper_inner c t1 s False = Inr t2 \<and>
    serde_from_str c t2 = Inr (with_hex (encode_hex_upper j)) \<and> from_json c s j = Inr m"
proof -
  obtain x where x: "to_xml c s m = Inr x" "from_xml c s x = Inr m" "utf8_valid x" "prefix ''<'' (trim_start x)"
    using assms(8) by (rule xml_safe_crosses)
  obtain j where j: "to_json c s m = Inr j" "from_json c s j = Inr m"
    using assms(6,7,9) by (rule json_safe_crosses)
  obtain t1 where t1: "serde_to_string c (with_hex (encode_hex_upper x)) = Inr t1" "serde_from_str c t1 = Inr (with_hex (encode_hex_upper x))"
    using assms(10) by (rule json_faithfulE)
  obtain t2 where t2: "serde_to_string c (with_hex (encode_hex_upper j)) = Inr t2" "serde_from_str c t2 = Inr (with_hex (encode_hex_upper j))"
    using assms(10) by (rule json_faithfulE)
  have "transcode_wrapper_inner c t s True = Inr t1"
    using assms(1-6) x(1) t1(1) by (simp add: transcode_wrapper_inner_def looks_like_xml_def uci_text_def)
  moreover have "transcode_wrapper_inner c t1 s False = Inr t2"
    using t1(2) encoded_payload_replaced [OF assms(2), of "encode_hex_upper x"] x j(1) t2(1)
    by (simp add: transcode_wrapper_inner_def owp_decode_encode uci_text_def)
  ultimately show ?thesis using x(2) j(2) t1(2) t2(2) by blast
qed

lemma nest_wrapper_payload: "encoded_payload (nest_wrapper h) = Some (h, nest_wrapper)"
  by (simp add: encoded_payload_def nest_wrapper_def as_object_def json_get_def as_str_def json_set_def fun_eq_iff)

lemma hex_ascii: "c \<in> set (encode_upper bs) \<Longrightarrow> byte c < 128 \<and> c \<noteq> CHR ''o''"
proof -
  assume "c \<in> set (encode_upper bs)"
  then obtain n where "n < 16" "c = hex_digit n" using encode_upper_digit by blast
  then have "byte c < 71" using byte_hex_digit [of n] by simp
  then show ?thesis by (auto simp: byte_def)
qed

lemma wrapper_faithful:
  "json_faithful (serde_from_str wrapper_codecs) (serde_to_string wrapper_codecs) (nest_wrapper (encode_hex_upper bs))"
proof -
  let ?h = "encode_upper bs"
  have "''{'' @ ?h @ ''}'' \<noteq> ''{out}''"
  proof
    assume "''{'' @ ?h @ ''}'' = ''{out}''"
    then have "?h @ ''}'' = ''out'' @ ''}''" by simp
    then have "?h = ''out''" by (simp only: append_same_eq)
    then show False using hex_ascii [of "CHR ''o''" bs] by simp
  qed
  moreover have "utf8_valid ?h" using hex_ascii by (intro utf8_valid_ascii) (auto simp: list_all_iff)
  ultimately show ?thesis
    by (simp add: json_faithful_def wrapper_codecs_def nest_wrapper_payload encode_hex_upper_eq butlast_append byte_def)
qed

theorem wrapper_inner_roundtrip_witness:
  "\<exists>t1 x t2 j. transcode_wrapper_inner wrapper_codecs ''wrap'' nest_schema True = Inr t1 \<and>
    serde_from_str wrapper_codecs t1 = Inr (nest_wrapper (encode_hex_upper x)) \<and> from_xml wrapper_codecs nest_schema x = Inr nest_message \<and>
    transcode_wrapper_inner wrapper_codecs t1 nest_schema False = Inr t2 \<and>
    serde_from_str wrapper_codecs t2 = Inr (nest_wrapper (encode_hex_upper j)) \<and> from_json wrapper_codecs nest_schema j = Inr nest_message"
proof (rule wrapper_inner_roundtrip)
  show "serde_from_str wrapper_codecs ''wrap'' = Inr (nest_wrapper ''696E'')" by (simp add: wrapper_codecs_def)
  show "encoded_payload (nest_wrapper ''696E'') = Some (''696E'', nest_wrapper)" by (rule nest_wrapper_payload)
  show "owp_decode_hex ''696E'' = Inr ''in''" "utf8_valid ''in''" "\<not> looks_like_xml ''in''" by code_simp+
  show "from_json wrapper_codecs nest_schema ''in'' = Inr nest_message" by code_simp
  show "json_sorted w" if "serde_from_str wrapper_codecs ''in'' = Inr w" for w
    using that by (auto simp: wrapper_codecs_def xml_codecs_def nest_codecs_def nest_value_def bt_inv_def)
qed (rule nest_xml_safe nest_json_safe wrapper_faithful)+

end
