(* ===== verification/Owp_Session.thy ===== *)
theory Owp_Session
  imports Adapter_Host Owp_Codec Owp_Convert
begin

text \<open>
  One OWP session, \<open>oa-gateway-owp/src/session.rs\<close>, with the settings of \<open>config.rs\<close>. A connection is
  the record \<open>Conn\<close>: the handshake state, the live subscriptions with their forwarders, the route
  warnings, the bounded channel of server frames that the forwarders and the handlers write and the
  session's own loop drains, and what was written to the socket and to the log. A handler that waits
  for room in that channel is \<open>Blocked\<close>: the only task that could make room is the one that waits.
  Each arm of the loop's \<open>select!\<close> is an event; \<open>sess_step\<close> answers \<open>None\<close> where it is not ready.
  A frame is handled in one step, from the engine call to the reply in the channel; in the code a
  forwarder may send in between, so a \<open>MSG\<close> may come before the \<open>+OK\<close> of the \<open>PUB\<close> that caused it.
\<close>

section \<open>Settings\<close>

definition OWP_DEFAULT_MAX_FRAME_SIZE :: nat where "OWP_DEFAULT_MAX_FRAME_SIZE = 16 * 1024 * 1024"
definition DEFAULT_MAX_CONNECTIONS :: nat where "DEFAULT_MAX_CONNECTIONS = 256"
definition DEFAULT_MAX_SUBSCRIPTIONS :: nat where "DEFAULT_MAX_SUBSCRIPTIONS = 1024"
definition DEFAULT_INIT_TIMEOUT_SECS :: nat where "DEFAULT_INIT_TIMEOUT_SECS = 30"
definition DEFAULT_IDLE_TIMEOUT_SECS :: nat where "DEFAULT_IDLE_TIMEOUT_SECS = 600"

record OwpConfig =
  owp_bind :: string
  server_id :: string
  system_label :: string
  init_schema_required :: "string option"
  system_uuid :: string
  owp_unwrap_ma_payloads :: bool
  xml_baseline :: bool
  owp_max_frame_size :: nat
  max_connections :: nat
  max_subscriptions :: nat
  init_timeout :: "nat option"
  idle_timeout :: "nat option"
  allowed_origins :: "string list"
  validate_mode :: Mode
  owp_on_panic :: OnPanic
  owp_reconnect :: bool
  owp_reconnect_delay :: nat

text \<open>\<open>uuid\<close> is the fresh UUID that \<open>Default\<close> draws, printed.\<close>

definition default_owp_config :: "string \<Rightarrow> OwpConfig" where
  "default_owp_config uuid =
     \<lparr>owp_bind = ''127.0.0.1:9000'', server_id = ''oa-gateway-0'', system_label = ''OA-Gateway Prototype'',
      init_schema_required = Some ''002.5.0'', system_uuid = uuid, owp_unwrap_ma_payloads = True, xml_baseline = False,
      owp_max_frame_size = OWP_DEFAULT_MAX_FRAME_SIZE, max_connections = DEFAULT_MAX_CONNECTIONS,
      max_subscriptions = DEFAULT_MAX_SUBSCRIPTIONS, init_timeout = Some (from_secs DEFAULT_INIT_TIMEOUT_SECS),
      idle_timeout = Some (from_secs DEFAULT_IDLE_TIMEOUT_SECS), allowed_origins = [], validate_mode = Warn,
      owp_on_panic = Abort, owp_reconnect = False, owp_reconnect_delay = from_secs 1\<rparr>"

section \<open>State\<close>

text \<open>The code the session calls and that is not the gateway's: besides what every adapter uses, the
  UUID of a name, opening and reading a channel, and the order in which a \<open>HashMap\<close> is drained.\<close>

record 'w OwpLib =
  host :: "'w Host"
  codecs :: Codecs
  serde :: OwpSerde
  new_v5 :: "string \<Rightarrow> string"
  open_chan :: "'w \<Rightarrow> chan \<times> 'w"
  recv_chan :: "'w \<Rightarrow> chan \<Rightarrow> (Delivery \<times> 'w) option"
  sid_order :: "string fset \<Rightarrow> string list"

record Session =
  session_adapter :: AdapterId
  session_config :: OwpConfig
  session_schema :: "Schema option"
  conn_id :: nat

datatype SessionState = AwaitingInit | Active bool string

record Forwarder =
  local_sid :: string
  rx :: chan
  logged :: bool
  logged_invalid :: bool
  logged_conversion_invalid :: bool
  held :: "ServerOp list"

record LiveSub =
  engine_sub :: SubId
  forwarder :: Forwarder

datatype Report = New | Final | Skip

record SeenRoutes =
  seen :: "RouteKey fset"

record RouteWarnings =
  unroutable :: SeenRoutes
  invalid :: SeenRoutes

definition SEEN_CAP :: nat where "SEEN_CAP = 64"

definition report :: "SeenRoutes \<Rightarrow> RouteKey \<Rightarrow> Report \<times> SeenRoutes" where
  "report S r =
     (if fcard (seen S) \<ge> SEEN_CAP \<or> r |\<in>| seen S then (Skip, S)
      else let S' = S\<lparr>seen := finsert r (seen S)\<rparr>
           in (if fcard (seen S') = SEEN_CAP then Final else New, S'))"

text \<open>What the session writes to its log, without the fields that only identify the connection.\<close>

datatype OwpLog =
    InvalidPublish RouteKey string
  | Unroutable RouteKey
  | DroppedDeliveries RouteKey PublishOutcome
  | ReportingLimit
  | SubscriptionLimit nat
  | NonUtf8Delivery
  | InvalidDelivery string string string
  | UnconvertibleDelivery string string
  | TimedOut string

datatype WsMessage = WsText string | WsPong bytes | WsClosing string

datatype Phase = Running | Hung | Finished | Crashed

record Conn =
  sess_state :: SessionState
  subs :: "(string, LiveSub) fmap"
  route_warnings :: RouteWarnings
  outq :: "ServerOp list"
  wire :: "WsMessage list"
  olog :: "OwpLog list"
  started :: nat
  last_frame :: nat
  phase :: Phase

definition new_conn :: "nat \<Rightarrow> Conn" where
  "new_conn now =
     \<lparr>sess_state = AwaitingInit, subs = fmempty,
      route_warnings = \<lparr>unroutable = \<lparr>seen = {||}\<rparr>, invalid = \<lparr>seen = {||}\<rparr>\<rparr>,
      outq = [], wire = [], olog = [], started = now, last_frame = now, phase = Running\<rparr>"

text \<open>How a handler ends, with the connection and the world it leaves: \<open>Ok\<close>, \<open>Err(Fatal::Close)\<close>, or
  never, waiting in \<open>send\<close>.\<close>

datatype 'w handled =
    Proceed "Conn \<times> 'w World"
  | FatalClose "Conn \<times> 'w World"
  | Blocked "Conn \<times> 'w World"

definition err_op :: "OwpError \<Rightarrow> string option \<Rightarrow> ServerOp" where
  "err_op e details = ErrOp e details"

definition send :: "ServerOp \<Rightarrow> Conn \<times> 'w World \<Rightarrow> (Conn \<times> 'w World \<Rightarrow> 'w handled) \<Rightarrow> 'w handled" where
  "send x CW k =
     (case CW of (C, W) \<Rightarrow>
        if length (outq C) < DEFAULT_CHANNEL_CAPACITY then k (C\<lparr>outq := outq C @ [x]\<rparr>, W)
        else Blocked (C, W))"

definition send_ok :: "bool \<Rightarrow> Conn \<times> 'w World \<Rightarrow> (Conn \<times> 'w World \<Rightarrow> 'w handled) \<Rightarrow> 'w handled" where
  "send_ok verbose CW k = (if verbose then send OkOp CW k else k CW)"

section \<open>INIT\<close>

definition OWP_VERSION :: string where "OWP_VERSION = ''1.0''"

definition negotiate :: "OwpConfig \<Rightarrow> InitPayload \<Rightarrow> OwpError + unit" where
  "negotiate cfg init =
     (if OWP_VERSION \<notin> set (versions init) then Inl UnsupportedVersion
      else case init_schema_required cfg of
        None \<Rightarrow> Inr ()
      | Some expected \<Rightarrow> if init_schema init \<noteq> expected then Inl UnsupportedSchema else Inr ())"

definition info_payload :: "'w OwpLib \<Rightarrow> OwpConfig \<Rightarrow> InitPayload \<Rightarrow> InfoPayload" where
  "info_payload L cfg init =
     \<lparr>info_version = OWP_VERSION, info_server_id = server_id cfg,
      uuids = \<lparr>system = system_uuid cfg, service = new_v5 L (init_service_id init), subsystem = None\<rparr>,
      info_system_label = system_label cfg\<rparr>"

definition handle_init :: "'w OwpLib \<Rightarrow> Session \<Rightarrow> InitPayload \<Rightarrow> Conn \<times> 'w World \<Rightarrow> 'w handled" where
  "handle_init L S init CW =
     (case negotiate (session_config S) init of
        Inr _ \<Rightarrow>
          (let verbose = (case init_verbose init of None \<Rightarrow> True | Some b \<Rightarrow> b) in
           send_ok verbose CW (\<lambda>CW.
           send (InfoOp (info_payload L (session_config S) init)) CW (\<lambda>(C, W).
             Proceed (C\<lparr>sess_state := Active verbose (init_service_id init)\<rparr>, W))))
      | Inl e \<Rightarrow> send (err_op e None) CW FatalClose)"

section \<open>PUB\<close>

definition owp_stamp :: "Session \<Rightarrow> string \<Rightarrow> Envelope \<Rightarrow> Envelope" where
  "owp_stamp S service_id e =
     with_header ''owp.conn_id'' (show_nat (conn_id S)) (with_header ''owp.service_id'' service_id e)"

text \<open>The envelopes of one PUB, and the number of message ids drawn for them.\<close>

definition outgoing_envelopes ::
  "'w OwpLib \<Rightarrow> Session \<Rightarrow> 'w World \<Rightarrow> string \<Rightarrow> string \<Rightarrow> string + Envelope list \<times> nat" where
  "outgoing_envelopes L S W tp p =
     (let h = host L in
      if owp_unwrap_ma_payloads (session_config S) \<and> wrapper_kind (json_parse h) (xml_parse h) p \<noteq> None then
        res_bind (map_err show_agra_error
            (unwrap (json_parse h) (xml_parse h) (fresh_id h W 0, fresh_id h W 1) tp p)) (\<lambda>peeled.
          Inr ([wrapper peeled, inner peeled], 2))
      else
        res_bind
          (if looks_like_xml p then
             ok_or (xml_root_local_name (xml_parse h) p) ''XML payload has no element to take a type from''
           else map_err show_parse_error (type_hint_from_json (json_parse h) p)) (\<lambda>hint.
          Inr ([with_content_type (if looks_like_xml p then ct_xml else ct_json)
                  (new_envelope (fresh_id h W 0) (route_typed tp hint) p)], 1)))"

definition to_baseline :: "'w OwpLib \<Rightarrow> Session \<Rightarrow> Envelope \<Rightarrow> string + Envelope" where
  "to_baseline L S e =
     (if xml_baseline (session_config S) then
        res_bind (ok_or (session_schema S) ''owp.xml_baseline is enabled but no UCI schema is loaded'') (\<lambda>s.
          toward_xml (codecs L) e s)
      else Inr e)"

text \<open>A route is named in the log once, and the limit on naming is said when it is reached.\<close>

definition report_log :: "Report \<Rightarrow> OwpLog \<Rightarrow> OwpLog list" where
  "report_log r l = (case r of Skip \<Rightarrow> [] | New \<Rightarrow> [l] | Final \<Rightarrow> [l, ReportingLimit])"

fun prepare ::
  "'w OwpLib \<Rightarrow> Session \<Rightarrow> string \<Rightarrow> Envelope list \<Rightarrow> RouteWarnings \<times> OwpLog list \<Rightarrow>
     (string + Envelope list) \<times> RouteWarnings \<times> OwpLog list" where
  "prepare L S service_id [] wl = (Inr [], wl)"
| "prepare L S service_id (e0 # es) (wn, lg) =
     (case to_baseline L S e0 of
        Inl err \<Rightarrow> (Inl err, wn, lg)
      | Inr e \<Rightarrow>
          (let vs = violations_of (codecs L) (payload e) (session_schema S) (validate_mode (session_config S)) in
           if vs \<noteq> [] \<and> validate_mode (session_config S) = Reject then
             (Inl (''payload does not follow the UCI schema: '' @ summarize vs), wn, lg)
           else
             (let wl' = (if vs = [] then (wn, lg)
                else case report (invalid wn) (route e) of
                  (r, sn) \<Rightarrow> (wn\<lparr>invalid := sn\<rparr>, lg @ report_log r (InvalidPublish (route e) (summarize vs))))
              in case prepare L S service_id es wl' of
                (r, wl'') \<Rightarrow> (res_bind r (\<lambda>ready. Inr (owp_stamp S service_id e # ready)), wl''))))"

fun publish_ready ::
  "'w OwpLib \<Rightarrow> Envelope list \<Rightarrow> RouteWarnings \<times> OwpLog list \<Rightarrow> 'w World \<Rightarrow>
     (RouteWarnings \<times> OwpLog list) \<times> 'w World" where
  "publish_ready L [] wl W = (wl, W)"
| "publish_ready L (e # es) (wn, lg) W =
     (case publish (try_send (host L)) (key_order (host L)) (engine W) (chans W) e of
        (eng, w, out) \<Rightarrow>
          (let lg1 = (if dropped out > 0 then lg @ [DroppedDeliveries (route e) out] else lg);
               wl = (if matched out = 0 then
                       case report (unroutable wn) (route e) of
                         (r, sn) \<Rightarrow> (wn\<lparr>unroutable := sn\<rparr>, lg1 @ report_log r (Unroutable (route e)))
                     else (wn, lg1))
           in publish_ready L es wl (W\<lparr>engine := eng, chans := w\<rparr>)))"

definition publish_owp ::
  "'w OwpLib \<Rightarrow> Session \<Rightarrow> string \<Rightarrow> string \<Rightarrow> string \<Rightarrow> Conn \<times> 'w World \<Rightarrow> (string + unit) \<times> Conn \<times> 'w World" where
  "publish_owp L S service_id tp p CW =
     (case CW of (C, W) \<Rightarrow>
        (case outgoing_envelopes L S W tp p of
           Inl err \<Rightarrow> (Inl err, C, W)
         | Inr (es, n) \<Rightarrow>
             (case prepare L S service_id es (route_warnings C, olog C) of
                (Inl err, wn, lg) \<Rightarrow> (Inl err, C\<lparr>route_warnings := wn, olog := lg\<rparr>, W\<lparr>drawn := drawn W + n\<rparr>)
              | (Inr ready, wn, lg) \<Rightarrow>
                  (case publish_ready L ready (wn, lg) (W\<lparr>drawn := drawn W + n\<rparr>) of
                     ((wn', lg'), W') \<Rightarrow> (Inr (), C\<lparr>route_warnings := wn', olog := lg'\<rparr>, W')))))"

definition handle_pub ::
  "'w OwpLib \<Rightarrow> Session \<Rightarrow> bool \<Rightarrow> string \<Rightarrow> string \<Rightarrow> string \<Rightarrow> Conn \<times> 'w World \<Rightarrow> 'w handled" where
  "handle_pub L S verbose service_id tp p CW =
     (case publish_owp L S service_id tp p CW of
        (Inr _, CW') \<Rightarrow> send_ok verbose CW' Proceed
      | (Inl err, CW') \<Rightarrow> send (err_op InvalidMessage (Some err)) CW' Proceed)"


section \<open>SUB, UNSUB and the forwarders\<close>

definition engine_sub_id :: "Session \<Rightarrow> string \<Rightarrow> SubId" where
  "engine_sub_id S sid = SubId (show_nat (conn_id S) @ '':'' @ sid)"

definition handle_sub ::
  "'w OwpLib \<Rightarrow> Session \<Rightarrow> bool \<Rightarrow> string \<Rightarrow> string \<Rightarrow> string \<Rightarrow> Conn \<times> 'w World \<Rightarrow> 'w handled" where
  "handle_sub L S verbose sid message_name tp CW =
     (case CW of (C, W) \<Rightarrow>
        if sid |\<in>| fmdom (subs C) then send (err_op IllegalArgument (Some ''duplicate sid'')) (C, W) Proceed
        else if fcard (fmdom (subs C)) \<ge> max_subscriptions (session_config S) then
          send (err_op IllegalState (Some ''subscription limit reached''))
            (C\<lparr>olog := olog C @ [SubscriptionLimit (max_subscriptions (session_config S))]\<rparr>, W) Proceed
        else
          (case open_chan L (chans W) of (c, w) \<Rightarrow>
             (case subscribe (engine W) (session_adapter S) (engine_sub_id S sid) (route_typed tp message_name) c of
                Inl _ \<Rightarrow> send (err_op InternalError (Some ''subscribe failed'')) (C, W\<lparr>chans := w\<rparr>) Proceed
              | Inr (eng, _) \<Rightarrow>
                  send_ok verbose
                    (C\<lparr>subs := fmupd sid
                        \<lparr>engine_sub = engine_sub_id S sid,
                         forwarder = \<lparr>local_sid = sid, rx = c, logged = False, logged_invalid = False, logged_conversion_invalid = False, held = []\<rparr>\<rparr>
                        (subs C)\<rparr>,
                     W\<lparr>engine := eng, chans := w\<rparr>) Proceed)))"

text \<open>\<open>let _ = engine.unsubscribe(..)\<close>: an error is ignored.\<close>

definition unsubscribe_live :: "Session \<Rightarrow> LiveSub \<Rightarrow> 'w World \<Rightarrow> 'w World" where
  "unsubscribe_live S l W =
     (case unsubscribe (engine W) (session_adapter S) (engine_sub l) of
        Inl _ \<Rightarrow> W
      | Inr eng \<Rightarrow> W\<lparr>engine := eng\<rparr>)"

definition handle_unsub :: "Session \<Rightarrow> bool \<Rightarrow> string \<Rightarrow> Conn \<times> 'w World \<Rightarrow> 'w handled" where
  "handle_unsub S verbose sid CW =
     (case CW of (C, W) \<Rightarrow>
        (case fmlookup (subs C) sid of
           Some l \<Rightarrow> send_ok verbose (C\<lparr>subs := fmdrop sid (subs C)\<rparr>, unsubscribe_live S l W) Proceed
         | None \<Rightarrow> send (err_op IllegalArgument (Some ''unknown sid'')) (C, W) Proceed))"

datatype Verdict = Forward | Drop | ClosedOut

record ViolationWording =
  detail :: string
  reject_log :: string
  warn_log :: string

definition PRODUCER :: ViolationWording where
  "PRODUCER =
     \<lparr>detail = ''does not follow the UCI schema'',
      reject_log = ''dropping a delivery that does not follow the UCI schema; later ones on this subscription are not logged'',
      warn_log = ''delivered payload does not follow the UCI schema; forwarding it anyway, and later ones on this subscription are not logged''\<rparr>"

definition CONVERSION :: ViolationWording where
  "CONVERSION =
     \<lparr>detail = ''converted to a payload that does not follow the UCI schema'',
      reject_log = ''dropping a delivery that converted to a payload not following the UCI schema; later ones on this subscription are not logged'',
      warn_log = ''converted payload does not follow the UCI schema; forwarding it anyway, and later ones on this subscription are not logged''\<rparr>"

text \<open>\<open>alive\<close> says that the session's end of the frame channel still exists, so that a send succeeds
  (once there is room). The result is the verdict, the flag, the frames sent and the log.\<close>

definition handle_violations ::
  "Violation list \<Rightarrow> Mode \<Rightarrow> string \<Rightarrow> bool \<Rightarrow> bool \<Rightarrow> ViolationWording \<Rightarrow>
     Verdict \<times> bool \<times> ServerOp list \<times> OwpLog list" where
  "handle_violations vs mode sid alive flag wording =
     (if vs = [] then (Forward, flag, [], [])
      else if mode = Reject then
        (let lg = (if flag then [] else [InvalidDelivery sid (summarize vs) (reject_log wording)]) in
         if alive then
           (Drop, True, [err_op InvalidMessage (Some (''delivery on '' @ sid @ '' '' @ detail wording @ '': '' @ summarize vs))], lg)
         else (ClosedOut, True, [], lg))
      else (Forward, True, [], if flag then [] else [InvalidDelivery sid (summarize vs) (warn_log wording)]))"

text \<open>One turn of a forwarder: its flags afterwards, the frames sent, the log, and whether it goes on.\<close>

type_synonym forwarded = "Forwarder \<times> ServerOp list \<times> OwpLog list \<times> bool"

definition forward_msg :: "bool \<Rightarrow> string \<Rightarrow> Forwarder \<Rightarrow> OwpLog list \<Rightarrow> forwarded" where
  "forward_msg alive p F lg = (F, if alive then [MsgOp (local_sid F) p] else [], lg, alive)"

definition forward_converted ::
  "Codecs \<Rightarrow> Session \<Rightarrow> bool \<Rightarrow> string \<Rightarrow> Forwarder \<Rightarrow> OwpLog list \<Rightarrow> forwarded" where
  "forward_converted c S alive raw F lg =
     (let mode = validate_mode (session_config S) in
      case xml_to_oms_json c raw (session_schema S) of
        Inr json \<Rightarrow>
          (if looks_like_xml raw then
             (case handle_violations (violations_of c json (session_schema S) mode) mode (local_sid F) alive
                     (logged_conversion_invalid F) CONVERSION of
                (verdict, flag, ops, lg') \<Rightarrow>
                  (let F' = F\<lparr>logged_conversion_invalid := flag\<rparr> in
                   case verdict of
                     Drop \<Rightarrow> (F', ops, lg @ lg', True)
                   | ClosedOut \<Rightarrow> (F', ops, lg @ lg', False)
                   | Forward \<Rightarrow> forward_msg alive json F' (lg @ lg')))
           else forward_msg alive json F lg)
      | Inl err \<Rightarrow>
          (F\<lparr>logged := True\<rparr>,
           if alive then [err_op InvalidMessage (Some (''delivery on '' @ local_sid F @ '' could not be converted: '' @ err))] else [],
           lg @ (if logged F then [] else [UnconvertibleDelivery (local_sid F) err]),
           alive))"

definition forward_one :: "Codecs \<Rightarrow> Session \<Rightarrow> bool \<Rightarrow> Delivery \<Rightarrow> Forwarder \<Rightarrow> forwarded" where
  "forward_one c S alive d F =
     (let raw = payload (del_envelope d); mode = validate_mode (session_config S) in
      if \<not> utf8_valid raw then (F, [], [NonUtf8Delivery], True)
      else
        (case handle_violations (violations_of c raw (session_schema S) mode) mode (local_sid F) alive
                (logged_invalid F) PRODUCER of
           (verdict, flag, ops, lg) \<Rightarrow>
             (let F' = F\<lparr>logged_invalid := flag\<rparr> in
              case verdict of
                Drop \<Rightarrow> (F', ops, lg, True)
              | ClosedOut \<Rightarrow> (F', ops, lg, False)
              | Forward \<Rightarrow>
                  (if xml_baseline (session_config S) then forward_converted c S alive raw F' lg
                   else forward_msg alive raw F' lg))))"

section \<open>Dispatch and the loop\<close>

definition handle_text :: "'w OwpLib \<Rightarrow> Session \<Rightarrow> string \<Rightarrow> Conn \<times> 'w World \<Rightarrow> 'w handled" where
  "handle_text L S t CW =
     (case parse_client (serde L) t of
        Inl err \<Rightarrow> send (err_op IllegalArgument (Some (show_parse_error err))) CW Proceed
      | Inr x \<Rightarrow>
          (case sess_state (fst CW) of
             AwaitingInit \<Rightarrow>
               (case x of
                  Init init \<Rightarrow> handle_init L S init CW
                | _ \<Rightarrow> send (err_op IllegalState (Some ''INIT must be the first operation'')) CW FatalClose)
           | Active verbose service_id \<Rightarrow>
               (case x of
                  Init _ \<Rightarrow> send (err_op IllegalState (Some ''duplicate INIT'')) CW FatalClose
                | Pub tp p \<Rightarrow> handle_pub L S verbose service_id tp p CW
                | Sub sid message_name tp _ \<Rightarrow> handle_sub L S verbose sid message_name tp CW
                | Unsub sid \<Rightarrow> handle_unsub S verbose sid CW)))"

text \<open>\<open>started + d\<close> until INIT, \<open>last_frame + d\<close> after it.\<close>

definition deadline :: "Session \<Rightarrow> Conn \<Rightarrow> nat option" where
  "deadline S C = (case sess_state C of
     AwaitingInit \<Rightarrow> map_option (\<lambda>d. started C + d) (init_timeout (session_config S))
   | Active _ _ \<Rightarrow> map_option (\<lambda>d. last_frame C + d) (idle_timeout (session_config S)))"

definition timeout_reason :: "Conn \<Rightarrow> string" where
  "timeout_reason C = (case sess_state C of
     AwaitingInit \<Rightarrow> ''no INIT before the init timeout''
   | Active _ _ \<Rightarrow> ''no frames before the idle timeout'')"

text \<open>What follows the loop: every live subscription is aborted and unsubscribed. The receiving end
  of the frame channel goes with the function's other locals, and with it what was still queued.\<close>

definition drain_subs :: "'w OwpLib \<Rightarrow> Session \<Rightarrow> Conn \<Rightarrow> 'w World \<Rightarrow> 'w World" where
  "drain_subs L S C W =
     fold (\<lambda>sid. unsubscribe_live S (the (fmlookup (subs C) sid))) (sid_order L (fmdom (subs C))) W"

definition finish :: "'w OwpLib \<Rightarrow> Session \<Rightarrow> Conn \<times> 'w World \<Rightarrow> Conn \<times> 'w World" where
  "finish L S CW =
     (case CW of (C, W) \<Rightarrow> (C\<lparr>subs := fmempty, outq := [], phase := Finished\<rparr>, drain_subs L S C W))"

definition settle :: "'w OwpLib \<Rightarrow> Session \<Rightarrow> 'w handled \<Rightarrow> Conn \<times> 'w World" where
  "settle L S r = (case r of
     Proceed CW \<Rightarrow> CW
   | FatalClose CW \<Rightarrow> finish L S CW
   | Blocked (C, W) \<Rightarrow> (C\<lparr>phase := Hung\<rparr>, W))"

datatype WsFrame = TextFrame string | PingFrame bytes | PongFrame bytes | RawFrame bytes | BinaryFrame bytes | CloseFrame

definition handle_frame_ws :: "'w OwpLib \<Rightarrow> Session \<Rightarrow> WsFrame \<Rightarrow> Conn \<times> 'w World \<Rightarrow> Conn \<times> 'w World" where
  "handle_frame_ws L S f CW = (case f of
     TextFrame t \<Rightarrow> settle L S (handle_text L S t CW)
   | PingFrame dat \<Rightarrow> ((fst CW)\<lparr>wire := wire (fst CW) @ [WsPong dat]\<rparr>, snd CW)
   | PongFrame _ \<Rightarrow> CW
   | RawFrame _ \<Rightarrow> CW
   | BinaryFrame _ \<Rightarrow>
       settle L S (send (err_op IllegalOperation (Some ''binary frames are not allowed'')) CW FatalClose)
   | CloseFrame \<Rightarrow> finish L S CW)"

text \<open>The arms of the \<open>select!\<close>, and a turn of the forwarder of a subscription. \<open>Outgoing\<close> says
  whether the socket took the frame; \<open>Incoming None\<close> is the end of the stream or an error on it.\<close>

datatype SessEvent = Shutdown | DeadlineElapsed | Outgoing bool | Incoming "WsFrame option" | Deliver string

definition write_outgoing :: "'w OwpLib \<Rightarrow> Session \<Rightarrow> nat \<Rightarrow> bool \<Rightarrow> Conn \<times> 'w World \<Rightarrow> (Conn \<times> 'w World) option" where
  "write_outgoing L S now ok CW =
     (case CW of (C, W) \<Rightarrow>
        (case outq C of
           [] \<Rightarrow> None
         | x # rest \<Rightarrow>
             (let C1 = C\<lparr>outq := rest, last_frame := now\<rparr> in
              case show_server_op (serde L) x of
                None \<Rightarrow> Some (C1\<lparr>phase := Crashed\<rparr>, W)
              | Some t \<Rightarrow> Some (if ok then (C1\<lparr>wire := wire C1 @ [WsText t]\<rparr>, W) else finish L S (C1, W)))))"

text \<open>A forwarder's task has two places where it waits: for a delivery, and, with the frame it made of one in
  hand, for room in the channel of server frames. \<open>held\<close> is the frame in hand.\<close>

definition forward_turn :: "'w OwpLib \<Rightarrow> Session \<Rightarrow> string \<Rightarrow> Conn \<times> 'w World \<Rightarrow> (Conn \<times> 'w World) option" where
  "forward_turn L S sid CW =
     (case CW of (C, W) \<Rightarrow>
        (case fmlookup (subs C) sid of
           None \<Rightarrow> None
         | Some l \<Rightarrow>
             (case held (forwarder l) of
                x # rest \<Rightarrow>
                  (if length (outq C) \<ge> DEFAULT_CHANNEL_CAPACITY then None
                   else Some (C\<lparr>subs := fmupd sid (l\<lparr>forwarder := (forwarder l)\<lparr>held := rest\<rparr>\<rparr>) (subs C), outq := outq C @ [x]\<rparr>, W))
              | [] \<Rightarrow>
                  (case recv_chan L (chans W) (rx (forwarder l)) of
                     None \<Rightarrow> None
                   | Some (d, w) \<Rightarrow>
                       (case forward_one (codecs L) S True d (forwarder l) of
                          (F, ops, lg, _) \<Rightarrow>
                            Some (C\<lparr>subs := fmupd sid (l\<lparr>forwarder := F\<lparr>held := ops\<rparr>\<rparr>) (subs C), olog := olog C @ lg\<rparr>,
                              W\<lparr>chans := w\<rparr>))))))"

definition sess_step :: "'w OwpLib \<Rightarrow> Session \<Rightarrow> nat \<Rightarrow> SessEvent \<Rightarrow> Conn \<times> 'w World \<Rightarrow> (Conn \<times> 'w World) option" where
  "sess_step L S now ev CW =
     (case CW of (C, W) \<Rightarrow>
        if phase C \<noteq> Running then None
        else case ev of
          Shutdown \<Rightarrow> Some (finish L S (C, W))
        | DeadlineElapsed \<Rightarrow>
            (case deadline S C of
               None \<Rightarrow> None
             | Some due \<Rightarrow>
                 if now < due then None
                 else Some (finish L S
                   (C\<lparr>olog := olog C @ [TimedOut (timeout_reason C)], wire := wire C @ [WsClosing (timeout_reason C)]\<rparr>, W)))
        | Outgoing ok \<Rightarrow> write_outgoing L S now ok (C, W)
        | Incoming None \<Rightarrow> Some (finish L S (C, W))
        | Incoming (Some f) \<Rightarrow> Some (handle_frame_ws L S f (C\<lparr>last_frame := now\<rparr>, W))
        | Deliver sid \<Rightarrow> forward_turn L S sid (C, W))"

end
