(* ===== verification/Owp_Session_Laws.thy ===== *)
theory Owp_Session_Laws
  imports Owp_Session
begin

text \<open>
  What holds of an OWP session: its invariant and the keys it owns in the engine, the publishing of a
  PUB as a whole, the silence before INIT, what a forwarder sends, and the two ways in which a reply
  is lost: a fatal error whose \<open>-ERR\<close> stays in the queue, and a handler that waits for room that only
  its own task can make.
\<close>

section \<open>The keys of a session\<close>

definition world_keys :: "'w World \<Rightarrow> SubscriberKey set" where
  "world_keys W = fset (fmdom (by_key (engine_state (engine W))))"

definition sub_key :: "Session \<Rightarrow> string \<Rightarrow> SubscriberKey" where
  "sub_key S sid = SubscriberKey (session_adapter S) (engine_sub_id S sid)"

definition conn_keys :: "Session \<Rightarrow> Conn \<Rightarrow> SubscriberKey set" where
  "conn_keys S C = sub_key S ` fset (fmdom (subs C))"

lemma sub_key_inj: "sub_key S sid = sub_key S sid' \<longleftrightarrow> sid = sid'"
  by (simp add: sub_key_def engine_sub_id_def)

lemma world_keys_simps [simp]:
  "world_keys (W\<lparr>chans := w\<rparr>) = world_keys W" "world_keys (W\<lparr>drawn := n\<rparr>) = world_keys W"
  "world_ok (W\<lparr>chans := w\<rparr>) = world_ok W" "world_ok (W\<lparr>drawn := n\<rparr>) = world_ok W"
  by (simp_all add: world_keys_def world_ok_def)

lemma conn_keys_simps [simp]:
  "conn_keys S (C\<lparr>outq := q\<rparr>) = conn_keys S C" "conn_keys S (C\<lparr>olog := l\<rparr>) = conn_keys S C"
  "conn_keys S (C\<lparr>wire := u\<rparr>) = conn_keys S C" "conn_keys S (C\<lparr>last_frame := n\<rparr>) = conn_keys S C"
  "conn_keys S (C\<lparr>phase := p\<rparr>) = conn_keys S C" "conn_keys S (C\<lparr>sess_state := t\<rparr>) = conn_keys S C"
  "conn_keys S (C\<lparr>route_warnings := r\<rparr>) = conn_keys S C"
  by (simp_all add: conn_keys_def)

lemma subscribed_keys:
  assumes "subscribe (engine W) (session_adapter S) (engine_sub_id S sid) r c = Inr (eng, k)"
  shows "world_keys (W\<lparr>engine := eng, chans := w\<rparr>) = insert (sub_key S sid) (world_keys W)"
    and "world_ok W \<Longrightarrow> world_ok (W\<lparr>engine := eng, chans := w\<rparr>)"
  using eng.sub_Inr [OF assms] eng.sub_inv [OF _ assms] by (auto simp: world_keys_def world_ok_def sub_key_def)

lemma unsubscribed_keys:
  assumes "engine_sub l = engine_sub_id S sid"
  shows "world_keys (unsubscribe_live S l W) = world_keys W - {sub_key S sid}"
    and "world_ok W \<Longrightarrow> world_ok (unsubscribe_live S l W)"
proof -
  have "world_keys (unsubscribe_live S l W) = world_keys W - {sub_key S sid} \<and> (world_ok W \<longrightarrow> world_ok (unsubscribe_live S l W))"
  proof (cases "unsubscribe (engine W) (session_adapter S) (engine_sub l)")
    case (Inl e)
    then have "SubscriberKey (session_adapter S) (engine_sub l) |\<notin>| fmdom (by_key (engine_state (engine W)))"
      using eng.unsub_succeeds by (metis Inl_Inr_False)
    then show ?thesis using Inl by (auto simp: unsubscribe_live_def world_keys_def sub_key_def assms)
  next
    case (Inr e)
    then show ?thesis using eng.unsub_Inr [OF Inr] eng.unsub_inv [OF _ Inr]
      by (auto simp: unsubscribe_live_def world_keys_def sub_key_def assms world_ok_def)
  qed
  then show "world_keys (unsubscribe_live S l W) = world_keys W - {sub_key S sid}"
    "world_ok W \<Longrightarrow> world_ok (unsubscribe_live S l W)" by simp_all
qed

section \<open>The invariant\<close>

definition seen_ok :: "RouteWarnings \<Rightarrow> bool" where
  "seen_ok wn \<longleftrightarrow> fcard (seen (unroutable wn)) \<le> SEEN_CAP \<and> fcard (seen (invalid wn)) \<le> SEEN_CAP"

definition sess_ok :: "Session \<Rightarrow> Conn \<Rightarrow> bool" where
  "sess_ok S C \<longleftrightarrow>
     (\<forall>sid l. fmlookup (subs C) sid = Some l \<longrightarrow> engine_sub l = engine_sub_id S sid \<and> local_sid (forwarder l) = sid) \<and>
     fcard (fmdom (subs C)) \<le> max_subscriptions (session_config S) \<and>
     length (outq C) \<le> DEFAULT_CHANNEL_CAPACITY \<and> seen_ok (route_warnings C) \<and>
     (sess_state C = AwaitingInit \<or> phase C = Finished \<longrightarrow> subs C = fmempty)"

text \<open>From \<open>(C, W)\<close> to \<open>(C', W')\<close>: the invariants hold again, and of all the keys in the engine only the
  session's own changed, from those of its old subscriptions to those of its new ones.\<close>

definition effect :: "Session \<Rightarrow> Conn \<times> 'w World \<Rightarrow> Conn \<times> 'w World \<Rightarrow> bool" where
  "effect S CW CW' \<longleftrightarrow>
     world_ok (snd CW') \<and> sess_ok S (fst CW') \<and> started (fst CW') = started (fst CW) \<and>
     world_keys (snd CW') = (world_keys (snd CW) - conn_keys S (fst CW)) \<union> conn_keys S (fst CW')"

text \<open>The invariant between the steps: the session's part of the engine is what its table says.\<close>

definition sess_inv :: "Session \<Rightarrow> Conn \<times> 'w World \<Rightarrow> bool" where
  "sess_inv S CW \<longleftrightarrow> world_ok (snd CW) \<and> sess_ok S (fst CW) \<and> world_keys (snd CW) \<inter> range (sub_key S) = conn_keys S (fst CW)"

lemma effect_refl: "sess_inv S CW \<Longrightarrow> effect S CW CW"
  by (auto simp: effect_def sess_inv_def)

lemma effect_inv: "sess_inv S CW \<Longrightarrow> effect S CW CW' \<Longrightarrow> sess_inv S CW'"
  by (auto simp: effect_def sess_inv_def conn_keys_def)

lemma effect_send:
  assumes "effect S CW (C, W)" and "length (outq C) < DEFAULT_CHANNEL_CAPACITY"
  shows "effect S CW (C\<lparr>outq := outq C @ [x]\<rparr>, W)"
  using assms by (auto simp: effect_def sess_ok_def)

definition handled_ok :: "Session \<Rightarrow> Conn \<times> 'w World \<Rightarrow> 'w handled \<Rightarrow> bool" where
  "handled_ok S CW r = (case r of Proceed CW' \<Rightarrow> effect S CW CW' | FatalClose CW' \<Rightarrow> effect S CW CW' | Blocked CW' \<Rightarrow> effect S CW CW')"

lemma handled_simps [simp]:
  "handled_ok S CW (Proceed CW') = effect S CW CW'" "handled_ok S CW (FatalClose CW') = effect S CW CW'"
  "handled_ok S CW (Blocked CW') = effect S CW CW'"
  by (simp_all add: handled_ok_def)

lemma handled_send:
  assumes "effect S CW CW'" and "\<And>CW''. effect S CW CW'' \<Longrightarrow> handled_ok S CW (k CW'')"
  shows "handled_ok S CW (send x CW' k)"
proof -
  obtain C W where CW': "CW' = (C, W)" by fastforce
  show ?thesis
    using assms(1) assms(2) [OF effect_send [OF assms(1) [unfolded CW']]] by (simp add: send_def CW')
qed

lemma handled_send_ok:
  assumes "effect S CW CW'" and "\<And>CW''. effect S CW CW'' \<Longrightarrow> handled_ok S CW (k CW'')"
  shows "handled_ok S CW (send_ok b CW' k)"
  using handled_send [OF assms] assms(2) [OF assms(1)] by (simp add: send_ok_def)

text \<open>Changes that keep everything the invariant speaks of.\<close>

lemma effect_frame:
  assumes "effect S CW (C, W)" and "subs C' = subs C" "outq C' = outq C" "started C' = started C" "seen_ok (route_warnings C')"
    and "sess_state C' = AwaitingInit \<longrightarrow> sess_state C = AwaitingInit" "phase C' = Finished \<longrightarrow> phase C = Finished"
    and "world_keys W' = world_keys W" "world_ok W'"
  shows "effect S CW (C', W')"
  using assms by (auto simp: effect_def sess_ok_def conn_keys_def)

lemma effect_seen: "effect S CW (C, W) \<Longrightarrow> seen_ok (route_warnings C)"
  by (simp add: effect_def sess_ok_def)

lemma effect_world: "effect S CW (C, W) \<Longrightarrow> world_ok W"
  by (simp add: effect_def)

section \<open>The handlers keep it\<close>

lemma handle_init_ok:
  assumes "sess_inv S CW"
  shows "handled_ok S CW (handle_init L S init CW)"
proof -
  have "handled_ok S CW (case CW' of (C, W) \<Rightarrow> Proceed (C\<lparr>sess_state := Active v i\<rparr>, W))" if "effect S CW CW'" for CW' v i
  proof -
    obtain C W where CW': "CW' = (C, W)" by fastforce
    show ?thesis
      using effect_frame [OF that [unfolded CW']] effect_seen [OF that [unfolded CW']] effect_world [OF that [unfolded CW']]
      by (simp add: CW')
  qed
  then show ?thesis unfolding handle_init_def Let_def
    by (auto split: sum.split intro!: handled_send handled_send_ok effect_refl [OF assms])
qed

lemma fcard_finsert_le: "fcard (finsert x A) \<le> Suc (fcard A)"
  by (simp add: fcard_finsert_if)

lemma report_ok:
  assumes "report T r = (k, T')" "fcard (seen T) \<le> SEEN_CAP"
  shows "fcard (seen T') \<le> SEEN_CAP"
  using assms by (auto simp: report_def Let_def fcard_finsert_if split: if_splits)

lemma prepare_seen: "prepare L S i es (wn, lg) = (r, wn', lg') \<Longrightarrow> seen_ok wn \<Longrightarrow> seen_ok wn'"
proof (induction es arbitrary: wn lg r wn' lg')
  case (Cons e es)
  show ?case
  proof (cases "to_baseline L S e")
    case (Inr e1)
    let ?vs = "violations_of (codecs L) (payload e1) (session_schema S) (validate_mode (session_config S))"
    show ?thesis
    proof (cases "?vs \<noteq> [] \<and> validate_mode (session_config S) = Reject")
      case False
      obtain k T where k: "report (invalid wn) (route e1) = (k, T)" by fastforce
      have "seen_ok (wn\<lparr>invalid := T\<rparr>)" using k Cons.prems(2) report_ok by (auto simp: seen_ok_def)
      then show ?thesis
        using Cons.prems Inr False k Cons.IH by (auto simp: Let_def split: prod.splits if_splits)
    qed (use Cons.prems Inr in \<open>auto simp: Let_def\<close>)
  qed (use Cons.prems in auto)
qed auto

lemma publish_ready_seen: "publish_ready L es (wn, lg) W = ((wn', lg'), W') \<Longrightarrow> seen_ok wn \<Longrightarrow> seen_ok wn'"
proof (induction es arbitrary: wn lg W)
  case (Cons e es)
  obtain eng w out where p: "publish (try_send (host L)) (key_order (host L)) (engine W) (chans W) e = (eng, w, out)"
    by (metis prod_cases3)
  obtain k T where k: "report (unroutable wn) (route e) = (k, T)" by fastforce
  have "seen_ok (wn\<lparr>unroutable := T\<rparr>)" using k Cons.prems(2) report_ok by (auto simp: seen_ok_def)
  then show ?case using Cons p k by (auto simp: Let_def split: if_splits)
qed auto

lemma publish_ready_world:
  "publish_ready L es wl W = (wl', W') \<Longrightarrow> engine_state (engine W') = engine_state (engine W) \<and>
     W' = publish_all (host L) es W"
proof (induction es arbitrary: wl W)
  case (Cons e es)
  obtain wn lg where wl: "wl = (wn, lg)" by fastforce
  obtain eng w out where p: "publish (try_send (host L)) (key_order (host L)) (engine W) (chans W) e = (eng, w, out)"
    by (metis prod_cases3)
  have one: "publish_one (host L) e W = W\<lparr>engine := eng, chans := w\<rparr>" by (simp add: publish_one_def p)
  have "engine_state eng = engine_state (engine W)" using publish_one_state(1) [of "host L" e W] by (simp add: one)
  then show ?case using Cons p wl by (fastforce simp: Let_def publish_all_def one)
qed (simp add: publish_all_def)

lemma publish_owp_ok:
  assumes "sess_inv S CW" "publish_owp L S i t p CW = (r, CW')"
  shows "effect S CW CW'"
proof -
  obtain C W where CW: "CW = (C, W)" by fastforce
  have seen: "seen_ok (route_warnings C)" using assms(1) CW by (simp add: sess_inv_def sess_ok_def)
  have eff: "effect S CW (C, W)" using effect_refl [OF assms(1)] CW by simp
  have wok: "world_ok W" using assms(1) CW by (simp add: sess_inv_def)
  have upd: "effect S CW (C\<lparr>route_warnings := wn, olog := lg\<rparr>, W')"
    if "seen_ok wn" "world_keys W' = world_keys W" "world_ok W'" for wn lg W'
    using effect_frame [OF eff] that by simp
  show ?thesis
  proof (cases "outgoing_envelopes L S W t p")
    case (Inr x)
    then obtain es n where es: "outgoing_envelopes L S W t p = Inr (es, n)" by (cases x) auto
    obtain q wn lg where q: "prepare L S i es (route_warnings C, olog C) = (q, wn, lg)" by (metis prod_cases3)
    have wn: "seen_ok wn" using prepare_seen [OF q seen] .
    show ?thesis
    proof (cases q)
      case (Inr ready)
      obtain wn' lg' W' where pr: "publish_ready L ready (wn, lg) (W\<lparr>drawn := drawn W + n\<rparr>) = ((wn', lg'), W')"
        by (metis prod.collapse)
      have "world_keys W' = world_keys W" "world_ok W'"
        using publish_ready_world [OF pr] wok by (simp_all add: world_keys_def world_ok_def)
      then show ?thesis using upd publish_ready_seen [OF pr wn] assms(2) CW es q Inr pr
        by (auto simp: publish_owp_def)
    qed (use upd wn wok assms(2) CW es q in \<open>auto simp: publish_owp_def\<close>)
  qed (use eff assms(2) CW in \<open>auto simp: publish_owp_def\<close>)
qed

lemma handle_pub_ok: "sess_inv S CW \<Longrightarrow> handled_ok S CW (handle_pub L S v i t p CW)"
  unfolding handle_pub_def
  by (auto split: prod.split sum.split intro!: handled_send handled_send_ok intro: publish_owp_ok)

lemma handle_sub_ok:
  assumes "sess_inv S CW" and "sess_state (fst CW) \<noteq> AwaitingInit" and "phase (fst CW) = Running"
  shows "handled_ok S CW (handle_sub L S v sid n t CW)"
proof -
  obtain C W where CW: "CW = (C, W)" by fastforce
  have eff: "effect S CW (C, W)" using effect_refl [OF assms(1)] CW by simp
  have ok: "sess_ok S C" "world_ok W" using assms(1) CW by (auto simp: sess_inv_def)
  obtain c w where c: "open_chan L (chans W) = (c, w)" by fastforce
  have logged: "effect S CW (C\<lparr>olog := lg\<rparr>, W)" for lg
    using effect_frame [OF eff] ok by (simp add: sess_ok_def)
  have chan: "effect S CW (C, W\<lparr>chans := w\<rparr>)" using effect_frame [OF eff] ok by (simp add: sess_ok_def)
  have new: "effect S CW (C\<lparr>subs := fmupd sid l (subs C)\<rparr>, W\<lparr>engine := eng, chans := w\<rparr>)"
    if "subscribe (engine W) (session_adapter S) (engine_sub_id S sid) r c = Inr (eng, k)"
      "engine_sub l = engine_sub_id S sid" "local_sid (forwarder l) = sid"
      "sid |\<notin>| fmdom (subs C)" "\<not> max_subscriptions (session_config S) \<le> fcard (fmdom (subs C))" for l eng k r
    using subscribed_keys [OF that(1)] that(2-) ok assms(2,3) assms(1) CW
    by (auto simp: effect_def sess_ok_def conn_keys_def fcard_finsert_if sess_inv_def)
  show ?thesis unfolding handle_sub_def CW prod.case
    using eff logged chan new c CW
    by (auto split: sum.split intro!: handled_send handled_send_ok)
qed

lemma handle_unsub_ok:
  assumes "sess_inv S CW"
  shows "handled_ok S CW (handle_unsub S v sid CW)"
proof -
  obtain C W where CW: "CW = (C, W)" by fastforce
  have eff: "effect S CW (C, W)" using effect_refl [OF assms(1)] CW by simp
  have "effect S CW (C\<lparr>subs := fmdrop sid (subs C)\<rparr>, unsubscribe_live S l W)" if l: "fmlookup (subs C) sid = Some l" for l
  proof -
    have ok: "sess_ok S C" "world_ok W" "world_keys W \<inter> range (sub_key S) = conn_keys S C" using assms(1) CW by (auto simp: sess_inv_def)
    then have e: "engine_sub l = engine_sub_id S sid" using l by (auto simp: sess_ok_def)
    have "fcard (fmdom (subs C) |-| {|sid|}) \<le> fcard (fmdom (subs C))" by (intro fcard_mono) auto
    moreover have "world_keys W - {sub_key S sid} = (world_keys W - conn_keys S C) \<union> conn_keys S (C\<lparr>subs := fmdrop sid (subs C)\<rparr>)"
      using ok(3) l by (auto simp: conn_keys_def sub_key_inj)
    moreover have "fmdom (fmdrop sid (subs C)) = fmdom (subs C) |-| {|sid|}" by simp
    ultimately show ?thesis using ok unsubscribed_keys [OF e, of W] CW
      by (auto simp: effect_def sess_ok_def)
  qed
  then show ?thesis unfolding handle_unsub_def CW prod.case
    using eff CW by (auto split: option.split intro!: handled_send handled_send_ok)
qed

lemma handle_text_ok:
  assumes "sess_inv S CW" "phase (fst CW) = Running"
  shows "handled_ok S CW (handle_text L S t CW)"
proof -
  have send: "handled_ok S CW (send x CW k)" if "k = Proceed \<or> k = FatalClose" for x k
    using that by (auto intro!: handled_send effect_refl assms(1))
  show ?thesis unfolding handle_text_def
    using send handle_init_ok [OF assms(1)] handle_pub_ok [OF assms(1)] handle_sub_ok [OF assms(1) _ assms(2)]
      handle_unsub_ok [OF assms(1)]
    by (auto split: sum.split SessionState.split ClientOp.split)
qed


section \<open>So does every step\<close>

lemma drain_subs_effect:
  assumes "\<forall>sid \<in> set sids. engine_sub (the (fmlookup (subs C) sid)) = engine_sub_id S sid"
  shows "world_keys (fold (\<lambda>sid. unsubscribe_live S (the (fmlookup (subs C) sid))) sids W) = world_keys W - sub_key S ` set sids"
    and "world_ok W \<Longrightarrow> world_ok (fold (\<lambda>sid. unsubscribe_live S (the (fmlookup (subs C) sid))) sids W)"
  using assms by (induction sids arbitrary: W) (auto simp: unsubscribed_keys)

lemma finish_effect:
  assumes "hash_order (sid_order L)" "sess_ok S C" "world_ok W"
  shows "world_ok (drain_subs L S C W)" "world_keys (drain_subs L S C W) = world_keys W - conn_keys S C"
proof -
  have set: "set (sid_order L (fmdom (subs C))) = fset (fmdom (subs C))" using assms(1) by (rule hash_order_set)
  have "\<forall>sid \<in> set (sid_order L (fmdom (subs C))). engine_sub (the (fmlookup (subs C) sid)) = engine_sub_id S sid"
    unfolding set using assms(2) by (auto simp: sess_ok_def fmlookup_dom_iff)
  from drain_subs_effect [OF this, of W] assms(3)
  show "world_ok (drain_subs L S C W)" "world_keys (drain_subs L S C W) = world_keys W - conn_keys S C"
    by (simp_all add: drain_subs_def set conn_keys_def)
qed

lemma finish_ok:
  assumes "hash_order (sid_order L)" "effect S CW CW'" "conn_keys S (fst CW) \<subseteq> world_keys (snd CW)"
    and "world_keys (snd CW) \<inter> range (sub_key S) = conn_keys S (fst CW)"
  shows "effect S CW (finish L S CW')" "phase (fst (finish L S CW')) = Finished"
proof -
  obtain C W where CW': "CW' = (C, W)" by fastforce
  have ok: "sess_ok S C" "world_ok W" using assms(2) by (simp_all add: effect_def CW')
  have "world_keys W - conn_keys S C = world_keys (snd CW) - conn_keys S (fst CW)"
    using assms(2-) by (auto simp: effect_def CW' conn_keys_def)
  then show "effect S CW (finish L S CW')"
    using finish_effect [OF assms(1) ok] assms(2) ok
    by (auto simp: finish_def CW' effect_def sess_ok_def conn_keys_def fcard_fempty)
  show "phase (fst (finish L S CW')) = Finished" by (simp add: finish_def CW')
qed

lemma finish_inv:
  assumes "hash_order (sid_order L)" "sess_inv S CW" "effect S CW CW'"
  shows "effect S CW (finish L S CW')"
  using finish_ok(1) [OF assms(1,3)] assms(2) by (auto simp: sess_inv_def)

lemma settle_ok:
  assumes "hash_order (sid_order L)" "sess_inv S CW" "handled_ok S CW r"
  shows "effect S CW (settle L S r)"
proof (cases r)
  case (Blocked CW')
  obtain C W where CW': "CW' = (C, W)" by fastforce
  have e: "effect S CW (C, W)" using assms(3) Blocked CW' by simp
  then show ?thesis
    using Blocked CW' effect_frame [OF e, of "C\<lparr>phase := Hung\<rparr>" W] effect_seen [OF e] effect_world [OF e]
    by (simp add: settle_def)
qed (use assms finish_inv in \<open>simp_all add: settle_def\<close>)

text \<open>Writing a field that the invariant does not mention.\<close>

lemma effect_touch:
  assumes "sess_inv S CW"
  shows "effect S CW ((fst CW)\<lparr>last_frame := n\<rparr>, snd CW)" "effect S CW ((fst CW)\<lparr>wire := u\<rparr>, snd CW)"
    "effect S CW ((fst CW)\<lparr>olog := l, wire := u\<rparr>, snd CW)"
  using assms by (auto simp: effect_def sess_inv_def sess_ok_def conn_keys_def)

lemma effect_trans: "effect S A B \<Longrightarrow> effect S B D \<Longrightarrow> sess_inv S A \<Longrightarrow> effect S A D"
  by (auto simp: effect_def sess_inv_def conn_keys_def)

lemma handle_frame_ok:
  assumes "hash_order (sid_order L)" "sess_inv S CW" "phase (fst CW) = Running"
  shows "effect S CW (handle_frame_ws L S f CW)"
proof (cases f)
  case (TextFrame t)
  then show ?thesis
    using settle_ok [OF assms(1,2) handle_text_ok [OF assms(2,3)]] by (simp add: handle_frame_ws_def)
next
  case (BinaryFrame b)
  have "handled_ok S CW (send x CW FatalClose)" for x by (auto intro!: handled_send effect_refl assms(2))
  from settle_ok [OF assms(1,2) this] show ?thesis using BinaryFrame by (simp add: handle_frame_ws_def)
qed (use effect_touch [OF assms(2)] effect_refl [OF assms(2)] finish_inv [OF assms(1,2)] in \<open>simp_all add: handle_frame_ws_def\<close>)

lemma write_outgoing_ok:
  assumes "hash_order (sid_order L)" "sess_inv S CW" "write_outgoing L S now b CW = Some CW'"
  shows "effect S CW CW'"
proof -
  obtain C W where CW: "CW = (C, W)" by fastforce
  obtain x rest where q: "outq C = x # rest" using assms(3) by (auto simp: write_outgoing_def CW split: list.splits)
  have base: "effect S CW (C\<lparr>outq := rest, last_frame := now, wire := u\<rparr>, W)"
    "effect S CW (C\<lparr>outq := rest, last_frame := now, phase := Crashed\<rparr>, W)" "effect S CW (C\<lparr>outq := rest, last_frame := now\<rparr>, W)" for u
    using assms(2) q by (auto simp: CW effect_def sess_inv_def sess_ok_def conn_keys_def)
  show ?thesis
    using assms(3) base finish_inv [OF assms(1,2) base(3)]
    by (auto simp: write_outgoing_def CW q Let_def split: option.splits if_splits)
qed

lemma handle_violations_fields:
  "handle_violations vs m sid b flag w = (v, flag', ops, lg) \<Longrightarrow> length ops \<le> 1"
  by (auto simp: handle_violations_def Let_def split: if_splits)

lemma forward_one_sid:
  "forward_one c S b d F = (F', ops, lg, go) \<Longrightarrow> local_sid F' = local_sid F \<and> rx F' = rx F"
  by (auto simp: forward_one_def forward_converted_def forward_msg_def Let_def
      split: if_splits prod.splits Verdict.splits sum.splits)

lemma forward_turn_Some:
  assumes "forward_turn L S sid (C, W) = Some CW'"
  obtains (push) l x rest where "fmlookup (subs C) sid = Some l" "held (forwarder l) = x # rest" "length (outq C) < DEFAULT_CHANNEL_CAPACITY"
      "CW' = (C\<lparr>subs := fmupd sid (l\<lparr>forwarder := (forwarder l)\<lparr>held := rest\<rparr>\<rparr>) (subs C), outq := outq C @ [x]\<rparr>, W)"
    | (take) l d w F ops lg go where "fmlookup (subs C) sid = Some l" "recv_chan L (chans W) (rx (forwarder l)) = Some (d, w)"
      "forward_one (codecs L) S True d (forwarder l) = (F, ops, lg, go)"
      "CW' = (C\<lparr>subs := fmupd sid (l\<lparr>forwarder := F\<lparr>held := ops\<rparr>\<rparr>) (subs C), olog := olog C @ lg\<rparr>, W\<lparr>chans := w\<rparr>)"
  using assms by (auto simp: forward_turn_def split: option.splits prod.splits if_splits list.splits)

lemma forward_turn_ok:
  assumes "sess_inv S CW" "forward_turn L S sid CW = Some CW'"
  shows "effect S CW CW'"
proof -
  obtain C W where CW: "CW = (C, W)" by fastforce
  from assms(2) [unfolded CW] show ?thesis
  proof (cases rule: forward_turn_Some)
    case (push l x rest)
    have "finsert sid (fmdom (subs C)) = fmdom (subs C)" using push(1) by (auto intro: fmdomI)
    then show ?thesis
      using assms(1) push by (auto simp: CW effect_def sess_inv_def sess_ok_def conn_keys_def)
  next
    case (take l d w F ops lg go)
    have "finsert sid (fmdom (subs C)) = fmdom (subs C)" using take(1) by (auto intro: fmdomI)
    then show ?thesis
      using assms(1) take forward_one_sid [OF take(3)] by (auto simp: CW effect_def sess_inv_def sess_ok_def conn_keys_def)
  qed
qed

lemma sess_step_effect:
  assumes "hash_order (sid_order L)" "sess_inv S CW" "sess_step L S now ev CW = Some CW'"
  shows "effect S CW CW'"
proof -
  obtain C W where CW: "CW = (C, W)" by fastforce
  have running: "phase C = Running" using assms(3) by (auto simp: sess_step_def CW split: if_splits)
  note fin = finish_inv [OF assms(1,2)]
  show ?thesis
  proof (cases ev)
    case (Incoming x)
    show ?thesis
    proof (cases x)
      case (Some f)
      let ?T = "(C\<lparr>last_frame := now\<rparr>, W)"
      have t: "effect S CW ?T" using effect_touch(1) [OF assms(2), of now] CW by simp
      have "effect S ?T (handle_frame_ws L S f ?T)"
        using handle_frame_ok [OF assms(1) effect_inv [OF assms(2) t]] running by simp
      then show ?thesis using effect_trans [OF t _ assms(2)] assms(3) Incoming Some running by (simp add: sess_step_def CW)
    qed (use fin effect_refl [OF assms(2)] assms(3) Incoming running CW in \<open>auto simp: sess_step_def\<close>)
  next
    case DeadlineElapsed
    then show ?thesis
      using fin [OF effect_touch(3) [OF assms(2)]] assms(3) running
      by (auto simp: sess_step_def CW split: option.splits if_splits)
  qed (use fin effect_refl [OF assms(2)] write_outgoing_ok [OF assms(1,2)] forward_turn_ok [OF assms(2)] assms(3) running CW
      in \<open>auto simp: sess_step_def\<close>)
qed


section \<open>Publishing\<close>

text \<open>An envelope that may be published for \<open>e0\<close>: converted when the baseline asks for it, checked, and
  stamped with the client and the connection.\<close>

definition published_as :: "'w OwpLib \<Rightarrow> Session \<Rightarrow> string \<Rightarrow> Envelope \<Rightarrow> Envelope \<Rightarrow> bool" where
  "published_as L S i e0 e \<longleftrightarrow>
     (\<exists>e1. to_baseline L S e0 = Inr e1 \<and> e = owp_stamp S i e1 \<and>
        (validate_mode (session_config S) = Reject \<longrightarrow>
           violations_of (codecs L) (payload e) (session_schema S) Reject = []))"

lemma payload_owp_stamp [simp]: "payload (owp_stamp S i e) = payload e" "content_type (owp_stamp S i e) = content_type e"
  by (simp_all add: owp_stamp_def)

lemma prepare_result:
  "prepare L S i es wl = (Inr ready, wl') \<Longrightarrow> list_all2 (published_as L S i) es ready"
proof (induction es arbitrary: wl ready wl')
  case (Cons e0 es)
  obtain wn lg where wl: "wl = (wn, lg)" by fastforce
  obtain e where e: "to_baseline L S e0 = Inr e"
    using Cons.prems by (cases "to_baseline L S e0") (auto simp: wl)
  let ?vs = "violations_of (codecs L) (payload e) (session_schema S) (validate_mode (session_config S))"
  have ok: "\<not> (?vs \<noteq> [] \<and> validate_mode (session_config S) = Reject)"
    using Cons.prems by (auto simp: wl e Let_def)
  then obtain wm r wk where r: "prepare L S i es wm = (r, wk)" "res_bind r (\<lambda>ready. Inr (owp_stamp S i e # ready)) = Inr ready"
    using Cons.prems by (auto simp: wl e Let_def split: prod.splits if_splits)
  then obtain rest where rest: "r = Inr rest" "ready = owp_stamp S i e # rest" by (auto simp: res_bind_Inr)
  then have "list_all2 (published_as L S i) es rest" using Cons.IH r(1) by simp
  moreover have "published_as L S i e0 (owp_stamp S i e)" using e ok by (auto simp: published_as_def)
  ultimately show ?case by (simp add: rest(2))
qed auto

text \<open>C25: A PUB is all or nothing. If it is refused, for whatever reason and at whichever of its
  envelopes, nothing was published: engine and channels are as before. If it is accepted, what was
  published is, in order, one envelope for each the payload gave (the wrapper and the inner message
  of an A-GRA payload), converted, stamped with the client and the connection, and in reject mode
  free of violations. Either way no subscription and no queued frame changed.\<close>

theorem owp_publish_all_or_nothing:
  assumes "publish_owp L S i t p (C, W) = (r, C', W')"
  shows "subs C' = subs C \<and> outq C' = outq C \<and> wire C' = wire C \<and>
    (case r of
       Inl err \<Rightarrow> engine W' = engine W \<and> chans W' = chans W
     | Inr _ \<Rightarrow> \<exists>es n ready. outgoing_envelopes L S W t p = Inr (es, n) \<and>
         list_all2 (published_as L S i) es ready \<and>
         W' = publish_all (host L) ready (W\<lparr>drawn := drawn W + n\<rparr>))"
proof (cases "outgoing_envelopes L S W t p")
  case (Inr x)
  then obtain es n where es: "outgoing_envelopes L S W t p = Inr (es, n)" by (cases x) auto
  obtain q wn lg where q: "prepare L S i es (route_warnings C, olog C) = (q, wn, lg)" by (metis prod_cases3)
  show ?thesis
  proof (cases q)
    case (Inr ready)
    obtain wn' lg' W2 where pr: "publish_ready L ready (wn, lg) (W\<lparr>drawn := drawn W + n\<rparr>) = ((wn', lg'), W2)"
      by (metis prod.collapse)
    have "list_all2 (published_as L S i) es ready" using q Inr by (intro prepare_result) auto
    then show ?thesis using assms es q Inr pr publish_ready_world [OF pr] by (auto simp: publish_owp_def)
  qed (use assms es q in \<open>auto simp: publish_owp_def\<close>)
qed (use assms in \<open>auto simp: publish_owp_def\<close>)

section \<open>Before INIT\<close>

fun sess_run :: "'w OwpLib \<Rightarrow> Session \<Rightarrow> (nat \<times> SessEvent) list \<Rightarrow> Conn \<times> 'w World \<Rightarrow> (Conn \<times> 'w World) option" where
  "sess_run L S [] CW = Some CW"
| "sess_run L S ((now, ev) # evs) CW = Option.bind (sess_step L S now ev CW) (sess_run L S evs)"

text \<open>Once active, a session does not go back.\<close>

lemma send_state:
  assumes "\<And>CW'. sess_state (fst CW') = sess_state (fst CW) \<Longrightarrow> sess_state (fst (settle L S (k CW'))) \<noteq> AwaitingInit"
    and "sess_state (fst CW) \<noteq> AwaitingInit"
  shows "sess_state (fst (settle L S (send x CW k))) \<noteq> AwaitingInit"
  using assms by (cases CW) (auto simp: send_def settle_def)

lemma settle_simple:
  "sess_state (fst (settle L S (Proceed CW))) = sess_state (fst CW)"
  "sess_state (fst (settle L S (FatalClose CW))) = sess_state (fst CW)"
  "sess_state (fst (finish L S CW)) = sess_state (fst CW)"
  by (cases CW; simp add: settle_def finish_def)+

lemma send_ok_state:
  assumes "\<And>CW'. sess_state (fst CW') = sess_state (fst CW) \<Longrightarrow> sess_state (fst (settle L S (k CW'))) \<noteq> AwaitingInit"
    and "sess_state (fst CW) \<noteq> AwaitingInit"
  shows "sess_state (fst (settle L S (send_ok b CW k))) \<noteq> AwaitingInit"
  using send_state [OF assms] assms by (simp add: send_ok_def)

lemma publish_owp_state: "publish_owp L S i t p CW = (r, CW') \<Longrightarrow> sess_state (fst CW') = sess_state (fst CW)"
  by (cases CW) (auto simp: publish_owp_def split: sum.splits prod.splits)

lemma handle_text_stays_active:
  assumes "sess_state (fst CW) \<noteq> AwaitingInit"
  shows "sess_state (fst (settle L S (handle_text L S t CW))) \<noteq> AwaitingInit"
proof -
  obtain v i where act: "sess_state (fst CW) = Active v i" using assms by (cases "sess_state (fst CW)") auto
  have send: "sess_state (fst (settle L S (send x CW' k))) \<noteq> AwaitingInit" "sess_state (fst (settle L S (send_ok b CW' k))) \<noteq> AwaitingInit"
    if "k = Proceed \<or> k = FatalClose" "sess_state (fst CW') = sess_state (fst CW)" for x b k CW'
  proof -
    have k: "sess_state (fst (settle L S (k CW''))) \<noteq> AwaitingInit" if "sess_state (fst CW'') = sess_state (fst CW')" for CW''
      using that \<open>k = Proceed \<or> k = FatalClose\<close> \<open>sess_state (fst CW') = sess_state (fst CW)\<close> assms
      by (elim disjE) (simp_all add: settle_simple)
    have "sess_state (fst CW') \<noteq> AwaitingInit" using that assms by simp
    then show "sess_state (fst (settle L S (send x CW' k))) \<noteq> AwaitingInit" "sess_state (fst (settle L S (send_ok b CW' k))) \<noteq> AwaitingInit"
      using send_state [OF k] send_ok_state [OF k] by simp_all
  qed
  show ?thesis
  proof (cases "parse_client (serde L) t")
    case (Inr x)
    show ?thesis
    proof (cases x)
      case (Pub tp p)
      then show ?thesis using Inr act send publish_owp_state [of L S i tp p CW]
        by (auto simp: handle_text_def handle_pub_def split: prod.split sum.split)
    next
      case (Sub sid n tp g)
      then show ?thesis using Inr act send
        by (cases CW) (auto simp: handle_text_def handle_sub_def split: prod.split sum.split)
    next
      case (Unsub sid)
      then show ?thesis using Inr act send
        by (cases CW) (auto simp: handle_text_def handle_unsub_def split: option.split)
    qed (use Inr act send in \<open>auto simp: handle_text_def\<close>)
  qed (use send in \<open>auto simp: handle_text_def\<close>)
qed

lemma step_stays_active:
  assumes "sess_step L S now ev CW = Some CW'" "sess_state (fst CW) \<noteq> AwaitingInit"
  shows "sess_state (fst CW') \<noteq> AwaitingInit"
proof -
  obtain C W where CW: "CW = (C, W)" by fastforce
  have bin: "sess_state (fst (settle L S (send x (C\<lparr>last_frame := now\<rparr>, W) FatalClose))) \<noteq> AwaitingInit" for x
    using assms(2) CW by (intro send_state) (auto simp: settle_simple)
  show ?thesis
    using assms bin handle_text_stays_active [of "(C\<lparr>last_frame := now\<rparr>, W)" L S]
    by (cases ev) (auto simp: sess_step_def CW settle_simple handle_frame_ws_def write_outgoing_def forward_turn_def Let_def
        split: if_splits option.splits list.splits prod.splits WsFrame.splits)
qed

text \<open>And until then it leaves the world alone.\<close>

definition untouched :: "'w World \<Rightarrow> nat \<Rightarrow> Conn \<times> 'w World \<Rightarrow> bool" where
  "untouched W t0 CW \<longleftrightarrow> snd CW = W \<and> started (fst CW) = t0 \<and> subs (fst CW) = fmempty"

lemma finish_untouched:
  assumes "hash_order (sid_order L)" "untouched W t0 CW"
  shows "untouched W t0 (finish L S CW)"
proof -
  have "sid_order L {||} = []" using hash_order_set [OF assms(1), of "{||}"] by simp
  then show ?thesis using assms(2) by (cases CW) (simp add: untouched_def finish_def drain_subs_def)
qed

lemma send_untouched:
  assumes "\<And>CW'. untouched W t0 CW' \<Longrightarrow> untouched W t0 (settle L S (k CW'))" "untouched W t0 CW"
  shows "untouched W t0 (settle L S (send x CW k))"
  using assms by (cases CW) (auto simp: send_def settle_def untouched_def)

lemma handle_text_untouched:
  assumes "hash_order (sid_order L)" "untouched W t0 CW" "sess_state (fst CW) = AwaitingInit"
  shows "untouched W t0 (settle L S (handle_text L S t CW))"
proof -
  have end': "untouched W t0 (settle L S (Proceed CW'))" "untouched W t0 (settle L S (FatalClose CW'))" if "untouched W t0 CW'" for CW'
    using that finish_untouched [OF assms(1)] by (simp_all add: settle_def)
  have act: "untouched W t0 (C\<lparr>sess_state := s\<rparr>, W')" if "untouched W t0 (C, W')" for C W' s
    using that by (simp add: untouched_def)
  have init: "untouched W t0 (settle L S (handle_init L S i CW))" for i
    unfolding handle_init_def Let_def send_ok_def using assms(2)
    by (auto split: sum.split intro!: send_untouched end' act)
  show ?thesis
    unfolding handle_text_def using assms(2,3) init
    by (auto split: sum.split ClientOp.split intro!: send_untouched end')
qed

lemma step_untouched:
  assumes "hash_order (sid_order L)" "sess_step L S now ev CW = Some CW'" "untouched W t0 CW" "sess_state (fst CW) = AwaitingInit"
  shows "untouched W t0 CW'"
proof -
  obtain C where CW: "CW = (C, W)" "started C = t0" "subs C = fmempty" using assms(3) by (cases CW) (simp add: untouched_def)
  have un: "untouched W t0 (C', W)" if "started C' = t0" "subs C' = fmempty" for C' using that by (simp add: untouched_def)
  have bin: "untouched W t0 (settle L S (send x (C\<lparr>last_frame := now\<rparr>, W) FatalClose))" for x
    using un finish_untouched [OF assms(1)] CW(2,3) by (intro send_untouched) (simp_all add: settle_def)
  have txt': "untouched W t0 (settle L S (handle_text L S t (C\<lparr>last_frame := now\<rparr>, W)))" for t
    using handle_text_untouched [OF assms(1) un] assms(4) CW by simp
  show ?thesis
    using assms(2) bin txt' CW finish_untouched [OF assms(1)] un
    by (cases ev) (auto simp: sess_step_def handle_frame_ws_def write_outgoing_def forward_turn_def Let_def
        split: if_splits option.splits list.splits prod.splits WsFrame.splits)
qed

lemma run_untouched:
  assumes "hash_order (sid_order L)"
  shows "sess_run L S evs CW = Some CW' \<Longrightarrow> sess_state (fst CW') = AwaitingInit \<Longrightarrow> untouched W t0 CW \<Longrightarrow>
     untouched W t0 CW' \<and> sess_state (fst CW) = AwaitingInit"
proof (induction evs arbitrary: CW)
  case (Cons e evs)
  obtain now ev CW1 where e: "e = (now, ev)" and s: "sess_step L S now ev CW = Some CW1" and r: "sess_run L S evs CW1 = Some CW'"
    using Cons.prems(1) by (cases e) (auto simp: bind_eq_Some_conv)
  have act: "sess_state (fst CW) = AwaitingInit"
  proof (rule ccontr)
    assume "sess_state (fst CW) \<noteq> AwaitingInit"
    then have a: "sess_state (fst CW1) \<noteq> AwaitingInit" by (rule step_stays_active [OF s])
    have "sess_run L S evs X = Some Y \<Longrightarrow> sess_state (fst X) \<noteq> AwaitingInit \<Longrightarrow> sess_state (fst Y) \<noteq> AwaitingInit" for evs X Y
    proof (induction evs arbitrary: X)
      case (Cons x xs)
      then show ?case by (cases x) (auto simp: bind_eq_Some_conv dest: step_stays_active)
    qed simp
    from this [OF r a] show False using Cons.prems(2) by simp
  qed
  show ?case using Cons.IH [OF r Cons.prems(2) step_untouched [OF assms s Cons.prems(3) act]] act by simp
qed auto


text \<open>C26: Nothing before INIT. However the events of a session come, as long as no INIT has been accepted
  the engine, its subscriptions and every channel are exactly as when the socket was opened; the
  deadline has not moved, so frames do not buy a peer time; and a session still running when the
  deadline has passed can be closed by it, whatever else is ready.\<close>

theorem owp_silent_until_init:
  assumes "hash_order (sid_order L)" and "sess_run L S evs (new_conn t0, W) = Some (C, W')" and "sess_state C = AwaitingInit"
  shows "W' = W \<and> subs C = fmempty \<and> deadline S C = map_option (\<lambda>d. t0 + d) (init_timeout (session_config S)) \<and>
    (phase C = Running \<and> init_timeout (session_config S) = Some d \<and> t0 + d \<le> now \<longrightarrow>
       (\<exists>C'. sess_step L S now DeadlineElapsed (C, W') = Some (C', W) \<and> phase C' = Finished))"
proof -
  have "untouched W t0 (new_conn t0, W)" by (simp add: untouched_def new_conn_def)
  then have un: "untouched W t0 (C, W')" using run_untouched [OF assms(1,2)] assms(3) by auto
  then have eq: "W' = W" "started C = t0" "subs C = fmempty" by (simp_all add: untouched_def)
  have dl: "deadline S C = map_option (\<lambda>d. t0 + d) (init_timeout (session_config S))"
    using assms(3) eq by (simp add: deadline_def)
  have "\<exists>C'. sess_step L S now DeadlineElapsed (C, W') = Some (C', W) \<and> phase C' = Finished"
    if "phase C = Running" "init_timeout (session_config S) = Some d" "t0 + d \<le> now"
  proof -
    let ?CW = "(C\<lparr>olog := olog C @ [TimedOut (timeout_reason C)], wire := wire C @ [WsClosing (timeout_reason C)]\<rparr>, W)"
    have "untouched W t0 ?CW" using eq by (simp add: untouched_def)
    then have "untouched W t0 (finish L S ?CW)" by (rule finish_untouched [OF assms(1)])
    then show ?thesis using that dl eq
      by (intro exI [of _ "fst (finish L S ?CW)"]) (simp add: sess_step_def untouched_def finish_def)
  qed
  then show ?thesis using eq dl by blast
qed

section \<open>Replies that are lost\<close>

text \<open>The frames that the protocol answers with an error and the end of the session.\<close>

definition fatal_frame :: "'w OwpLib \<Rightarrow> Session \<Rightarrow> Conn \<Rightarrow> WsFrame \<Rightarrow> bool" where
  "fatal_frame L S C f = (case f of
     BinaryFrame _ \<Rightarrow> True
   | TextFrame t \<Rightarrow>
       (case parse_client (serde L) t of
          Inl _ \<Rightarrow> False
        | Inr x \<Rightarrow>
            (case (sess_state C, x) of
               (AwaitingInit, Init init) \<Rightarrow> negotiate (session_config S) init \<noteq> Inr ()
             | (AwaitingInit, _) \<Rightarrow> True
             | (Active _ _, Init _) \<Rightarrow> True
             | _ \<Rightarrow> False))
   | _ \<Rightarrow> False)"

lemma fatal_send:
  assumes "fatal_frame L S C f"
  obtains e d where "handle_frame_ws L S f (C\<lparr>last_frame := n\<rparr>, W) = settle L S (send (err_op e d) (C\<lparr>last_frame := n\<rparr>, W) FatalClose)"
proof (cases f)
  case (TextFrame t)
  then obtain x where x: "parse_client (serde L) t = Inr x" using assms by (auto simp: fatal_frame_def split: sum.splits)
  show thesis
  proof (cases "sess_state C")
    case AwaitingInit
    show ?thesis
    proof (cases x)
      case (Init i)
      then obtain e where "negotiate (session_config S) i = Inl e"
        using assms TextFrame x AwaitingInit by (cases "negotiate (session_config S) i") (auto simp: fatal_frame_def)
      then show ?thesis using that [of e None] TextFrame x AwaitingInit Init
        by (simp add: handle_frame_ws_def handle_text_def handle_init_def)
    qed (use that TextFrame x AwaitingInit in \<open>simp_all add: handle_frame_ws_def handle_text_def\<close>)
  next
    case (Active v i)
    then obtain p where "x = Init p" using assms TextFrame x by (cases x) (auto simp: fatal_frame_def)
    then show ?thesis using that TextFrame x Active by (simp add: handle_frame_ws_def handle_text_def)
  qed
qed (use assms that in \<open>simp_all add: fatal_frame_def handle_frame_ws_def\<close>)

text \<open>C28: A fatal error is never delivered. A frame that the protocol answers with \<open>-ERR\<close> and a close (an
  operation before INIT, a second INIT, a refused INIT, a binary frame) ends the session; the error
  it queued, and every frame still queued before it, is not written to the socket, neither then nor
  by any later step.\<close>

theorem owp_fatal_error_lost:
  assumes "phase C = Running" and "length (outq C) < DEFAULT_CHANNEL_CAPACITY" and "fatal_frame L S C f"
  shows "\<exists>C' W'. sess_step L S now (Incoming (Some f)) (C, W) = Some (C', W') \<and> phase C' = Finished \<and>
    outq C' = [] \<and> wire C' = wire C \<and> (\<forall>later ev. sess_step L S later ev (C', W') = None)"
proof -
  obtain e d where "handle_frame_ws L S f (C\<lparr>last_frame := now\<rparr>, W) = settle L S (send (err_op e d) (C\<lparr>last_frame := now\<rparr>, W) FatalClose)"
    using fatal_send [OF assms(3)] by blast
  then have "handle_frame_ws L S f (C\<lparr>last_frame := now\<rparr>, W) = finish L S (C\<lparr>last_frame := now, outq := outq C @ [err_op e d]\<rparr>, W)"
    using assms(2) by (simp add: send_def settle_def)
  then show ?thesis using assms(1) by (simp add: sess_step_def finish_def)
qed

text \<open>C29: A full queue and one more request hang a session for good. With the channel of server frames
  full (a client that reads slowly while deliveries come in) and an answer due to the frame that
  arrives (any text frame before INIT or from a verbose client, the default), the handler waits for
  room that only the loop it runs in could make: no event, not even shutdown, is taken again, nothing
  more is written, and the subscriptions the session has then stay in the engine.\<close>

theorem owp_full_queue_hangs:
  assumes "sess_inv S (C, W)" and "phase C = Running" and "length (outq C) = DEFAULT_CHANNEL_CAPACITY"
    and "sess_state C = AwaitingInit \<or> (\<exists>i. sess_state C = Active True i)"
  shows "\<exists>C' W'. sess_step L S now (Incoming (Some (TextFrame t))) (C, W) = Some (C', W') \<and> phase C' = Hung \<and>
    outq C' = outq C \<and> wire C' = wire C \<and> conn_keys S C' \<subseteq> world_keys W' \<and>
    (\<forall>later ev. sess_step L S later ev (C', W') = None)"
proof -
  let ?CW = "(C\<lparr>last_frame := now\<rparr>, W)"
  have inv: "sess_inv S ?CW" using effect_inv [OF assms(1) effect_touch(1) [OF assms(1), of now]] by simp
  have block: "send x CW k = Blocked CW" if "outq (fst CW) = outq C" for x CW k
    using that assms(3) by (cases CW) (simp add: send_def)
  have pub: "send x (a, b) Proceed = Blocked (a, b) \<and> outq a = outq C \<and> wire a = wire C"
    if "publish_owp L S i tp p ?CW = (r, a, b)" for x i tp p r a b
  proof -
    have "outq a = outq C \<and> wire a = wire C"
      using that by (auto simp: publish_owp_def split: sum.splits prod.splits)
    then show ?thesis using block [of "(a, b)"] by simp
  qed
  have "\<exists>CW'. handle_text L S t ?CW = Blocked CW' \<and> outq (fst CW') = outq C \<and> wire (fst CW') = wire C"
  proof (cases "\<exists>i tp p. sess_state C = Active True i \<and> parse_client (serde L) t = Inr (Pub tp p)")
    case True
    then obtain i tp p where pp: "sess_state C = Active True i" "parse_client (serde L) t = Inr (Pub tp p)" by blast
    obtain r a b where r: "publish_owp L S i tp p ?CW = (r, a, b)" by (metis prod_cases3)
    have "handle_text L S t ?CW = Blocked (a, b)"
      using r pub [OF r] pp by (cases r) (simp_all add: handle_text_def handle_pub_def send_ok_def)
    then show ?thesis using pub [OF r] by auto
  next
    case False
    then show ?thesis using assms(4)
      by (auto simp: handle_text_def handle_init_def handle_sub_def handle_unsub_def send_ok_def block Let_def
          split: sum.split ClientOp.split prod.split option.split)
  qed
  then obtain C' W' where b: "handle_text L S t ?CW = Blocked (C', W')" "outq C' = outq C" "wire C' = wire C" by auto
  have "effect S ?CW (C', W')" using handle_text_ok [OF inv, of L t] assms(2) b(1) by simp
  then have "conn_keys S C' \<subseteq> world_keys W'" by (auto simp: effect_def)
  then show ?thesis using assms(2) b by (simp add: sess_step_def handle_frame_ws_def settle_def)
qed

section \<open>What a forwarder sends\<close>

text \<open>C27: A delivery is forwarded or accounted for. For each delivery a forwarder sends exactly one frame,
  or none when the payload is not UTF-8: a MSG for its own sid whose payload is the delivery's, or
  its conversion under the XML baseline, or else an \<open>-ERR Invalid-Message\<close>. In reject mode what is
  forwarded has no violations, neither as it came off the bus nor as converted.\<close>

theorem owp_forward_exact:
  "case forward_one c S True d F of
     (F', ops, lg, go) \<Rightarrow>
       go \<and> (if utf8_valid (payload (del_envelope d)) then
          (\<exists>p. ops = [MsgOp (local_sid F) p] \<and>
             (if xml_baseline (session_config S) then xml_to_oms_json c (payload (del_envelope d)) (session_schema S) = Inr p
              else p = payload (del_envelope d)) \<and>
             (if validate_mode (session_config S) = Reject then
                violations_of c (payload (del_envelope d)) (session_schema S) Reject = [] \<and>
                violations_of c p (session_schema S) Reject = []
              else True)) \<or>
          (\<exists>details. ops = [ErrOp InvalidMessage (Some details)])
        else ops = [])"
proof -
  have same: "xml_to_oms_json c raw s = Inr raw" if "\<not> looks_like_xml raw" for raw s
    using that by (simp add: xml_to_oms_json_def)
  show ?thesis
    by (auto simp: forward_one_def forward_converted_def forward_msg_def handle_violations_def err_op_def same Let_def
        split: sum.splits if_splits)
qed


section \<open>A concrete session\<close>

definition owp_demo_init :: InitPayload where
  "owp_demo_init = \<lparr>versions = [''1.0''], init_schema = ''002.5.0'', init_verbose = None, init_service_id = ''svc''\<rparr>"

definition owp_demo_lib :: "Delivery bq OwpLib" where
  "owp_demo_lib =
     \<lparr>host = \<lparr>try_send = bq_send, key_order = sorted_list_of_fset, sub_order = sorted_list_of_fset,
        json_parse = (\<lambda>_. Inr (JObject [(''Ping'', JNull)])), json_print = (\<lambda>v. Inl ''no''), xml_parse = no_xml, new_v4 = id,
        uuid_string = show_nat\<rparr>,
      codecs = wrapper_codecs,
      serde = \<lparr>init_from_str = (\<lambda>_. Inr owp_demo_init), info_from_str = (\<lambda>_. Inl ''no''), info_to_string = (\<lambda>_. Inr ''{}'')\<rparr>,
      new_v5 = (\<lambda>s. s), open_chan = (\<lambda>w. (7, w)), recv_chan = (\<lambda>w c. None), sid_order = sorted_list_of_fset\<rparr>"

definition owp_demo_session :: Session where
  "owp_demo_session =
     \<lparr>session_adapter = AdapterId ''owp'', session_config = default_owp_config ''u'', session_schema = None, conn_id = 1\<rparr>"

definition owp_demo_world :: "Delivery bq World" where
  "owp_demo_world = \<lparr>engine = new_engine, chans = demo_world, drawn = 0\<rparr>"

lemma owp_demo_inv:
  assumes "subs C = fmempty" "length (outq C) \<le> DEFAULT_CHANNEL_CAPACITY" "route_warnings C = route_warnings (new_conn 0)"
  shows "sess_inv owp_demo_session (C, owp_demo_world)"
  using assms new_engine_inv
  by (auto simp: sess_inv_def sess_ok_def world_ok_def owp_demo_world_def world_keys_def conn_keys_def seen_ok_def new_conn_def
      fcard_fempty new_engine_def empty_state_def)

lemma owp_demo_order: "hash_order (sid_order owp_demo_lib)"
  by (simp add: owp_demo_lib_def hash_order_sorted)

theorem owp_publish_all_or_nothing_witness:
  "\<exists>C' W' es n ready. publish_owp owp_demo_lib owp_demo_session ''svc'' ''T'' ''{P}'' (new_conn 0, owp_demo_world) = (Inr (), C', W') \<and>
     subs C' = fmempty \<and> outgoing_envelopes owp_demo_lib owp_demo_session owp_demo_world ''T'' ''{P}'' = Inr (es, n) \<and>
     list_all2 (published_as owp_demo_lib owp_demo_session ''svc'') es ready \<and>
     W' = publish_all (host owp_demo_lib) ready (owp_demo_world\<lparr>drawn := drawn owp_demo_world + n\<rparr>)"
proof -
  obtain r C' W' where p: "publish_owp owp_demo_lib owp_demo_session ''svc'' ''T'' ''{P}'' (new_conn 0, owp_demo_world) = (r, C', W')"
    by (metis prod_cases3)
  have "\<not> looks_like_xml ''{P}''" "wrapper_kind (\<lambda>_. Inr (JObject [(''Ping'', JNull)])) no_xml ''{P}'' = None" by code_simp+
  then have ok: "r = Inr ()"
    using p by (auto simp: publish_owp_def outgoing_envelopes_def owp_demo_lib_def owp_demo_session_def default_owp_config_def
        as_object_def type_hint_from_json_def to_baseline_def violations_of_def Let_def split: prod.splits if_splits option.splits)
  show ?thesis using owp_publish_all_or_nothing [OF p] p unfolding ok by (auto simp: new_conn_def)
qed

theorem owp_silent_until_init_witness:
  "\<exists>C C'. sess_run owp_demo_lib owp_demo_session [(5, Incoming (Some (PingFrame ''x'')))] (new_conn 3, owp_demo_world) =
       Some (C, owp_demo_world) \<and>
     sess_step owp_demo_lib owp_demo_session (3 + from_secs 30) DeadlineElapsed (C, owp_demo_world) = Some (C', owp_demo_world) \<and>
     phase C' = Finished"
proof -
  obtain C W where r: "sess_run owp_demo_lib owp_demo_session [(5, Incoming (Some (PingFrame ''x'')))] (new_conn 3, owp_demo_world) = Some (C, W)"
    and C: "sess_state C = AwaitingInit" "phase C = Running"
    by (simp add: sess_step_def new_conn_def handle_frame_ws_def)
  have "init_timeout (session_config owp_demo_session) = Some (from_secs 30)"
    by (simp add: owp_demo_session_def default_owp_config_def DEFAULT_INIT_TIMEOUT_SECS_def)
  then show ?thesis
    using owp_silent_until_init [OF owp_demo_order r C(1), of "from_secs 30" "3 + from_secs 30"] r C(2) by auto
qed

theorem owp_fatal_error_lost_witness:
  "\<exists>C' W'. sess_step owp_demo_lib owp_demo_session 9 (Incoming (Some (BinaryFrame ''x''))) (new_conn 3, owp_demo_world) = Some (C', W') \<and>
     phase C' = Finished \<and> wire C' = []"
proof -
  have new: "phase (new_conn 3) = Running" "length (outq (new_conn 3)) < DEFAULT_CHANNEL_CAPACITY" "wire (new_conn 3) = []"
    by (simp_all add: new_conn_def DEFAULT_CHANNEL_CAPACITY_def)
  show ?thesis
    using owp_fatal_error_lost [OF new(1,2), of owp_demo_lib owp_demo_session "BinaryFrame ''x''" 9 owp_demo_world] new(3)
    by (auto simp: fatal_frame_def)
qed

definition owp_full_conn :: Conn where
  "owp_full_conn = (new_conn 0)\<lparr>sess_state := Active True ''svc'', outq := replicate DEFAULT_CHANNEL_CAPACITY OkOp\<rparr>"

theorem owp_full_queue_hangs_witness:
  "\<exists>C' W'. sess_step owp_demo_lib owp_demo_session 9 (Incoming (Some (TextFrame ''UNSUB 1''))) (owp_full_conn, owp_demo_world) = Some (C', W') \<and>
     phase C' = Hung \<and> (\<forall>later. sess_step owp_demo_lib owp_demo_session later Shutdown (C', W') = None)"
proof -
  have full: "phase owp_full_conn = Running" "length (outq owp_full_conn) = DEFAULT_CHANNEL_CAPACITY"
    "sess_state owp_full_conn = AwaitingInit \<or> (\<exists>i. sess_state owp_full_conn = Active True i)"
    by (simp_all add: owp_full_conn_def new_conn_def)
  have "sess_inv owp_demo_session (owp_full_conn, owp_demo_world)"
    by (rule owp_demo_inv) (simp_all add: owp_full_conn_def new_conn_def)
  from owp_full_queue_hangs [OF this full, of owp_demo_lib 9 "''UNSUB 1''"] show ?thesis by blast
qed

end
