(* ===== verification/Owp_Server.thy ===== *)
theory Owp_Server
  imports Owp_Session_Laws
begin

text \<open>
  The OWP listener, \<open>oa-gateway-owp/src/server.rs\<close>, and the adapter's entry point, \<open>lib.rs\<close>: the vetting
  of a WebSocket handshake, the accept loop with its connection permits, the connections it has
  spawned, and the engine they share. Each connection's task runs interleaved with the others and
  with the rest of the gateway: \<open>server_step\<close> takes one step of one of them.
\<close>

section \<open>The handshake\<close>

definition TLS_HANDSHAKE_TIMEOUT :: nat where "TLS_HANDSHAKE_TIMEOUT = from_secs 10"

text \<open>\<open>header n\<close> is the request's header \<open>n\<close> when it has one that is text; an error is a status and a
  reason, and the success is the subprotocol the response echoes.\<close>

definition error_response :: "nat \<Rightarrow> string \<Rightarrow> nat \<times> string" where
  "error_response status reason = (status, reason)"

definition handshake_check :: "string list \<Rightarrow> (string \<Rightarrow> string option) \<Rightarrow> nat \<times> string + string" where
  "handshake_check origins header =
     (let has_owp = (case header ''Sec-WebSocket-Protocol'' of
            None \<Rightarrow> False
          | Some v \<Rightarrow> list_ex (\<lambda>p. eq_ignore_ascii_case p ''owp'') (map trim (split_on (CHR '','') v)))
      in if \<not> has_owp then Inl (error_response 400 ''missing owp subprotocol'')
         else if origins \<noteq> [] \<and> (case header ''Origin'' of None \<Rightarrow> True | Some v \<Rightarrow> v \<notin> set origins) then
           Inl (error_response 403 ''origin not allowed'')
         else Inr ''owp'')"

section \<open>The adapter\<close>

record OwpAdapter =
  owp_id :: AdapterId
  owp_config :: OwpConfig
  conn_seq :: "64 word"
  owp_schema :: "Schema option"
  owp_tls :: bool
  permits :: nat
  at_capacity :: bool

definition new_owp_adapter :: "AdapterId \<Rightarrow> OwpConfig \<Rightarrow> OwpAdapter" where
  "new_owp_adapter a cfg =
     \<lparr>owp_id = a, owp_config = cfg, conn_seq = 1, owp_schema = None, owp_tls = False,
      permits = max_connections cfg, at_capacity = False\<rparr>"

definition with_schema :: "Schema \<Rightarrow> OwpAdapter \<Rightarrow> OwpAdapter" where
  "with_schema s A = A\<lparr>owp_schema := Some s\<rparr>"

definition with_tls :: "OwpAdapter \<Rightarrow> OwpAdapter" where
  "with_tls A = A\<lparr>owp_tls := True\<rparr>"

text \<open>An adapter as an embedding may build it: with a schema, with TLS, with both, or with neither.\<close>

inductive owp_built :: "AdapterId \<Rightarrow> OwpConfig \<Rightarrow> OwpAdapter \<Rightarrow> bool" for a cfg where
  built_new: "owp_built a cfg (new_owp_adapter a cfg)"
| built_schema: "owp_built a cfg A \<Longrightarrow> owp_built a cfg (with_schema s A)"
| built_tls: "owp_built a cfg A \<Longrightarrow> owp_built a cfg (with_tls A)"

lemma owp_built_fields:
  "owp_built a cfg A \<Longrightarrow> owp_id A = a \<and> owp_config A = cfg \<and> conn_seq A = 1 \<and> permits A = max_connections cfg \<and> \<not> at_capacity A"
  by (induction rule: owp_built.induct) (simp_all add: new_owp_adapter_def with_schema_def with_tls_def)

text \<open>How the TLS and WebSocket libraries end their part of an accepted connection.\<close>

datatype TlsOutcome = TlsAccepted | TlsFailed | TlsTimedOut

definition session_starts :: "OwpAdapter \<Rightarrow> TlsOutcome \<Rightarrow> (string \<Rightarrow> string option) \<Rightarrow> bool \<Rightarrow> bool" where
  "session_starts A outcome header ws_ok \<longleftrightarrow>
     (owp_tls A \<longrightarrow> outcome = TlsAccepted) \<and>
     (case handshake_check (allowed_origins (owp_config A)) header of Inl _ \<Rightarrow> False | Inr _ \<Rightarrow> ws_ok)"

definition session_of :: "OwpAdapter \<Rightarrow> nat \<Rightarrow> Session" where
  "session_of A c =
     \<lparr>session_adapter = owp_id A, session_config = owp_config A, session_schema = owp_schema A, conn_id = c\<rparr>"

text \<open>The connections an adapter has spawned: those still shaking hands and those in a session.\<close>

datatype CapacityLog = RefusingNew | AcceptingAgain

record 'w Server =
  adapter :: OwpAdapter
  handshaking :: "nat fset"
  sessions :: "(nat, Conn) fmap"
  sworld :: "'w World"
  capacity_log :: "CapacityLog list"

definition accept_stream :: "'w Server \<Rightarrow> 'w Server" where
  "accept_stream V =
     (let A = adapter V in
      if permits A = 0 then
        V\<lparr>adapter := A\<lparr>at_capacity := True\<rparr>,
          capacity_log := capacity_log V @ (if at_capacity A then [] else [RefusingNew])\<rparr>
      else
        V\<lparr>adapter := A\<lparr>permits := permits A - 1, at_capacity := False, conn_seq := conn_seq A + 1\<rparr>,
          handshaking := finsert (unat (conn_seq A)) (handshaking V),
          capacity_log := capacity_log V @ (if at_capacity A then [AcceptingAgain] else [])\<rparr>)"

definition release :: "'w Server \<Rightarrow> 'w Server" where
  "release V = V\<lparr>adapter := (adapter V)\<lparr>permits := permits (adapter V) + 1\<rparr>\<rparr>"

definition handle_connection ::
  "nat \<Rightarrow> nat \<Rightarrow> TlsOutcome \<Rightarrow> (string \<Rightarrow> string option) \<Rightarrow> bool \<Rightarrow> 'w Server \<Rightarrow> 'w Server" where
  "handle_connection c now outcome header ws_ok V =
     (let V1 = V\<lparr>handshaking := handshaking V |-| {|c|}\<rparr> in
      if session_starts (adapter V) outcome header ws_ok then V1\<lparr>sessions := fmupd c (new_conn now) (sessions V)\<rparr>
      else release V1)"

definition after_step :: "nat \<Rightarrow> Conn \<times> 'w World \<Rightarrow> 'w Server \<Rightarrow> 'w Server" where
  "after_step c CW V =
     (let V1 = V\<lparr>sworld := snd CW\<rparr> in
      if phase (fst CW) \<in> {Finished, Crashed} then release (V1\<lparr>sessions := fmdrop c (sessions V)\<rparr>)
      else V1\<lparr>sessions := fmupd c (fst CW) (sessions V)\<rparr>)"

text \<open>The rest of the gateway may do what it likes with the engine and the channels, except under this
  adapter's id. The number counts the connections accepted so far.\<close>

inductive server_reach :: "'w OwpLib \<Rightarrow> 'w Server \<Rightarrow> nat \<Rightarrow> 'w Server \<Rightarrow> bool" for L V0 where
  start: "server_reach L V0 0 V0"
| accept: "server_reach L V0 n V \<Longrightarrow> server_reach L V0 (if permits (adapter V) = 0 then n else Suc n) (accept_stream V)"
| connection: "server_reach L V0 n V \<Longrightarrow> c |\<in>| handshaking V \<Longrightarrow>
    server_reach L V0 n (handle_connection c now outcome header ws_ok V)"
| session: "server_reach L V0 n V \<Longrightarrow> fmlookup (sessions V) c = Some C \<Longrightarrow>
    sess_step L (session_of (adapter V) c) now ev (C, sworld V) = Some CW \<Longrightarrow>
    server_reach L V0 n (after_step c CW V)"
| elsewhere: "server_reach L V0 n V \<Longrightarrow> world_ok W \<Longrightarrow> subs_of W (owp_id (adapter V)) = subs_of (sworld V) (owp_id (adapter V)) \<Longrightarrow>
    server_reach L V0 n (V\<lparr>sworld := W\<rparr>)"

definition new_server :: "OwpAdapter \<Rightarrow> 'w World \<Rightarrow> 'w Server" where
  "new_server A W = \<lparr>adapter = A, handshaking = {||}, sessions = fmempty, sworld = W, capacity_log = []\<rparr>"

section \<open>Running\<close>

text \<open>One bind-and-accept session: what \<open>bind\<close> and \<open>local_addr\<close> answer; the accept loop itself only ends
  by shutdown. Its tasks outlive it, as the adapter does.\<close>

definition bind_and_serve :: "string + unit \<Rightarrow> string + unit \<Rightarrow> AdapterError + unit" where
  "bind_and_serve bound local_addr = res_bind (map_err AdapterIo bound) (\<lambda>_. map_err AdapterIo local_addr)"

definition owp_run :: "OwpAdapter \<Rightarrow> turn list \<Rightarrow> (AdapterError + unit) option \<times> nat" where
  "owp_run A ts = supervise (owp_reconnect (owp_config A)) (owp_on_panic (owp_config A)) (owp_id A) ts"

section \<open>The invariant\<close>

lemma sub_key_conn:
  assumes "sub_key (session_of A c) sid = sub_key (session_of A c') sid'"
  shows "c = c' \<and> sid = sid'"
proof -
  have eq: "show_nat c @ CHR '':'' # sid = show_nat c' @ CHR '':'' # sid'"
    using assms by (simp add: sub_key_def engine_sub_id_def session_of_def)
  have digits: "CHR '':'' \<notin> set (show_nat n)" for n
    using show_nat_digits [of n] by (auto simp: list_all_iff is_ascii_digit_def byte_def)
  have "split_once (CHR '':'') (show_nat c @ CHR '':'' # sid) = Some (show_nat c, sid)"
    "split_once (CHR '':'') (show_nat c' @ CHR '':'' # sid') = Some (show_nat c', sid')"
    by (rule split_once_append [OF digits])+
  then have "Some (show_nat c, sid) = Some (show_nat c', sid')" unfolding eq by simp
  then show ?thesis by (simp add: show_nat_inj)
qed

definition all_keys :: "'w Server \<Rightarrow> SubscriberKey set" where
  "all_keys V = (\<Union>c \<in> fset (fmdom (sessions V)). conn_keys (session_of (adapter V) c) (the (fmlookup (sessions V) c)))"

definition server_inv :: "nat \<Rightarrow> 'w Server \<Rightarrow> bool" where
  "server_inv n V \<longleftrightarrow>
     world_ok (sworld V) \<and> unat (conn_seq (adapter V)) = Suc n \<and>
     permits (adapter V) + fcard (handshaking V) + fcard (fmdom (sessions V)) = max_connections (owp_config (adapter V)) \<and>
     (\<forall>c. c |\<in>| handshaking V \<or> c |\<in>| fmdom (sessions V) \<longrightarrow> c \<le> n) \<and>
     handshaking V |\<inter>| fmdom (sessions V) = {||} \<and>
     (\<forall>c C. fmlookup (sessions V) c = Some C \<longrightarrow> sess_ok (session_of (adapter V) c) C \<and> phase C \<in> {Running, Hung}) \<and>
     subs_of (sworld V) (owp_id (adapter V)) = all_keys V"

lemma subs_of_keys: "subs_of W a = {k \<in> world_keys W. adapter_id k = a}"
  by (auto simp: subs_of_def world_keys_def)

lemma session_of_adapter [simp]:
  "session_of (A\<lparr>permits := n\<rparr>) c = session_of A c" "session_of (A\<lparr>at_capacity := b\<rparr>) c = session_of A c"
  "session_of (A\<lparr>permits := n, at_capacity := b, conn_seq := w\<rparr>) c = session_of A c"
  "session_adapter (session_of A c) = owp_id A" "session_config (session_of A c) = owp_config A"
  by (simp_all add: session_of_def)

lemma conn_keys_adapter: "k \<in> conn_keys (session_of A c) C \<Longrightarrow> adapter_id k = owp_id A"
  by (auto simp: conn_keys_def sub_key_def)

lemma server_sess_inv:
  assumes "server_inv n V" "fmlookup (sessions V) c = Some C"
  shows "sess_inv (session_of (adapter V) c) (C, sworld V)"
proof -
  let ?S = "session_of (adapter V) c"
  have keys: "{k \<in> world_keys (sworld V). adapter_id k = owp_id (adapter V)} = all_keys V"
    using assms(1) by (simp add: server_inv_def subs_of_keys)
  have "world_keys (sworld V) \<inter> range (sub_key ?S) = all_keys V \<inter> range (sub_key ?S)"
    unfolding keys [symmetric] by (auto simp: sub_key_def)
  also have "\<dots> = conn_keys ?S C"
    using assms(2) by (auto simp: all_keys_def conn_keys_def dest!: sub_key_conn intro: fmdomI)
  finally show ?thesis using assms by (auto simp: sess_inv_def server_inv_def)
qed

text \<open>The keys as the image of the pairs of a connection and a sid.\<close>

definition live_sids :: "'w Server \<Rightarrow> (nat \<times> string) set" where
  "live_sids V = {(c, sid). \<exists>C. fmlookup (sessions V) c = Some C \<and> sid |\<in>| fmdom (subs C)}"

definition pair_key :: "OwpAdapter \<Rightarrow> nat \<times> string \<Rightarrow> SubscriberKey" where
  "pair_key A x = sub_key (session_of A (fst x)) (snd x)"

lemma pair_key_inj: "inj (pair_key A)"
  by (rule injI) (auto simp: pair_key_def prod_eq_iff dest: sub_key_conn)

lemma all_keys_pairs: "all_keys V = pair_key (adapter V) ` live_sids V"
  by (force simp: all_keys_def conn_keys_def live_sids_def pair_key_def fmlookup_dom_iff)

lemma conn_keys_pairs: "conn_keys (session_of A c) C = pair_key A ` ({c} \<times> fset (fmdom (subs C)))"
  by (force simp: conn_keys_def pair_key_def)

lemma live_sids_change:
  "fmlookup (sessions V) c = Some C \<Longrightarrow> live_sids (V\<lparr>sessions := fmdrop c (sessions V)\<rparr>) = live_sids V - {c} \<times> fset (fmdom (subs C))"
  "fmlookup (sessions V) c = Some C \<Longrightarrow> live_sids (V\<lparr>sessions := fmupd c C' (sessions V)\<rparr>) =
     (live_sids V - {c} \<times> fset (fmdom (subs C))) \<union> {c} \<times> fset (fmdom (subs C'))"
  by (auto simp: live_sids_def split: if_splits)

lemma all_keys_change:
  assumes "fmlookup (sessions V) c = Some C"
  shows "all_keys (V\<lparr>sessions := fmdrop c (sessions V)\<rparr>) = all_keys V - conn_keys (session_of (adapter V) c) C"
    and "all_keys (V\<lparr>sessions := fmupd c C' (sessions V)\<rparr>) =
       (all_keys V - conn_keys (session_of (adapter V) c) C) \<union> conn_keys (session_of (adapter V) c) C'"
  by (simp_all add: all_keys_pairs conn_keys_pairs live_sids_change [OF assms] image_set_diff [OF pair_key_inj] image_Un)

lemma all_keys_frame [simp]:
  "all_keys (V\<lparr>sworld := W\<rparr>) = all_keys V" "all_keys (V\<lparr>handshaking := H\<rparr>) = all_keys V"
  "all_keys (V\<lparr>capacity_log := l\<rparr>) = all_keys V"
  "all_keys (V\<lparr>adapter := (adapter V)\<lparr>permits := n\<rparr>\<rparr>) = all_keys V"
  "all_keys (V\<lparr>adapter := (adapter V)\<lparr>at_capacity := b\<rparr>\<rparr>) = all_keys V"
  "all_keys (V\<lparr>adapter := (adapter V)\<lparr>permits := n, at_capacity := b, conn_seq := w\<rparr>\<rparr>) = all_keys V"
  by (simp_all add: all_keys_def)

lemma accept_inv:
  assumes "server_inv n V" "permits (adapter V) = 0 \<or> Suc (Suc n) < 2 ^ 64"
  shows "server_inv (if permits (adapter V) = 0 then n else Suc n) (accept_stream V)"
proof (cases "permits (adapter V) = 0")
  case True
  then show ?thesis using assms(1) by (simp add: accept_stream_def server_inv_def Let_def all_keys_def)
next
  case False
  let ?c = "unat (conn_seq (adapter V))"
  have c: "?c = Suc n" using assms(1) by (simp add: server_inv_def)
  have next': "unat (conn_seq (adapter V) + 1) = Suc (Suc n)"
    using c assms(2) False by (simp add: unat_word_ariths)
  have new: "?c |\<notin>| handshaking V" "?c |\<notin>| fmdom (sessions V)"
    using assms(1) c by (auto simp: server_inv_def)
  then show ?thesis
    using assms(1) False next' c
    by (auto simp: accept_stream_def server_inv_def Let_def all_keys_def fcard_finsert_disjoint le_Suc_eq)
qed

lemma connection_inv:
  assumes "server_inv n V" "c |\<in>| handshaking V"
  shows "server_inv n (handle_connection c now outcome header ws_ok V)"
proof -
  have card: "fcard (handshaking V) = Suc (fcard (handshaking V |-| {|c|}))"
    using assms(2) by (metis fcard_Suc_fminus1)
  have c: "c |\<notin>| fmdom (sessions V)" using assms by (auto simp: server_inv_def)
  have keys: "all_keys (V\<lparr>handshaking := H, sessions := fmupd c (new_conn now) (sessions V)\<rparr>) = all_keys V" for H
    using c by (auto simp: all_keys_def conn_keys_def new_conn_def split: if_splits)
  have new: "sess_ok (session_of (adapter V) c) (new_conn now)" "phase (new_conn now) = Running"
    by (simp_all add: sess_ok_def new_conn_def seen_ok_def fcard_fempty)
  note inv = assms(1) [unfolded server_inv_def]
  have disj: "(handshaking V |-| {|c|}) |\<inter>| finsert c (fmdom (sessions V)) = {||}"
    "(handshaking V |-| {|c|}) |\<inter>| fmdom (sessions V) = {||}" using inv by auto
  have ids: "\<forall>d. d |\<in>| handshaking V |-| {|c|} \<or> d |\<in>| finsert c (fmdom (sessions V)) \<longrightarrow> d \<le> n" using inv assms(2) by auto
  have sess: "\<forall>d D. fmlookup (fmupd c (new_conn now) (sessions V)) d = Some D \<longrightarrow>
      sess_ok (session_of (adapter V) d) D \<and> phase D \<in> {Running, Hung}"
    using inv new by auto
  show ?thesis
  proof (cases "session_starts (adapter V) outcome header ws_ok")
    case True
    then have V': "handle_connection c now outcome header ws_ok V =
        V\<lparr>handshaking := handshaking V |-| {|c|}, sessions := fmupd c (new_conn now) (sessions V)\<rparr>"
      by (simp add: handle_connection_def)
    show ?thesis unfolding V' server_inv_def keys using inv disj(1) ids sess card c
      by (simp add: fcard_finsert_disjoint del: fmupd_lookup)
  next
    case False
    then have V': "handle_connection c now outcome header ws_ok V = release (V\<lparr>handshaking := handshaking V |-| {|c|}\<rparr>)"
      by (simp add: handle_connection_def)
    show ?thesis unfolding V' server_inv_def release_def using inv disj(2) ids card
      by (simp add: all_keys_def)
  qed
qed

text \<open>A session's task only crashes on an INFO that does not serialize.\<close>

definition handled_state :: "'w handled \<Rightarrow> Conn" where
  "handled_state r = (case r of Proceed CW \<Rightarrow> fst CW | FatalClose CW \<Rightarrow> fst CW | Blocked CW \<Rightarrow> fst CW)"

lemma send_phase:
  assumes "\<And>CW'. phase (fst CW') = phase (fst CW) \<Longrightarrow> phase (handled_state (k CW')) = phase (fst CW)"
  shows "phase (handled_state (send x CW k)) = phase (fst CW)" "phase (handled_state (send_ok b CW k)) = phase (fst CW)"
  using assms by (cases CW; auto simp: send_ok_def send_def handled_state_def)+

lemma handled_state_simps [simp]:
  "handled_state (Proceed CW) = fst CW" "handled_state (FatalClose CW) = fst CW" "handled_state (Blocked CW) = fst CW"
  by (simp_all add: handled_state_def)

lemma publish_owp_phase: "publish_owp L S i t p CW = (r, CW') \<Longrightarrow> phase (fst CW') = phase (fst CW)"
  by (cases CW) (auto simp: publish_owp_def split: sum.splits prod.splits)

lemma handle_text_phase: "phase (handled_state (handle_text L S t CW)) = phase (fst CW)"
proof -
  have send: "phase (handled_state (send x CW' k)) = phase (fst CW')" "phase (handled_state (send_ok b CW' k)) = phase (fst CW')"
    if "k = Proceed \<or> k = FatalClose" for x b CW' and k :: "Conn \<times> 'a World \<Rightarrow> 'a handled"
    using that by (auto intro!: send_phase)
  have init: "phase (handled_state (handle_init L S i CW)) = phase (fst CW)" for i
    unfolding handle_init_def Let_def
    by (auto split: sum.split prod.split intro!: send_phase [where k = "\<lambda>CW. send _ CW _", THEN trans] send_phase [THEN trans] simp: send)
  have pub: "phase (handled_state (handle_pub L S v i tp p CW)) = phase (fst CW)" for v i tp p
    using publish_owp_phase [of L S i tp p CW] by (auto simp: handle_pub_def send split: prod.split sum.split)
  have sub: "phase (handled_state (handle_sub L S v sid n tp CW)) = phase (fst CW)" for v sid n tp
    by (cases CW) (auto simp: handle_sub_def send split: prod.split sum.split)
  have unsub: "phase (handled_state (handle_unsub S v sid CW)) = phase (fst CW)" for v sid
    by (cases CW) (auto simp: handle_unsub_def send split: option.split)
  show ?thesis
    by (auto simp: handle_text_def send init pub sub unsub split: sum.split SessionState.split ClientOp.split)
qed

lemma settle_phase: "phase (handled_state r) \<noteq> Crashed \<Longrightarrow> phase (fst (settle L S r)) \<noteq> Crashed"
  by (cases r) (auto simp: settle_def finish_def split: prod.splits)

lemma sess_step_not_crashed:
  assumes "\<And>p. \<exists>j. info_to_string (serde L) p = Inr j" "sess_step L S now ev CW = Some CW'"
  shows "phase (fst CW') \<noteq> Crashed"
proof -
  obtain C W where CW: "CW = (C, W)" by fastforce
  have running: "phase C = Running" using assms(2) by (auto simp: sess_step_def CW split: if_splits)
  have printed: "\<not> show_server_op (serde L) x = None" for x
  proof (cases x)
    case (InfoOp p)
    then show ?thesis using assms(1) [of p] by (auto simp: show_server_op_def)
  qed (simp_all add: show_server_op_def split: option.split)
  have fin: "phase (fst (finish L S X)) \<noteq> Crashed" for X by (cases X) (simp add: finish_def)
  have txt': "phase (fst (settle L S (handle_text L S t (C\<lparr>last_frame := now\<rparr>, W)))) \<noteq> Crashed" for t
    using handle_text_phase [of L S t "(C\<lparr>last_frame := now\<rparr>, W)"] running by (intro settle_phase) simp
  have bin: "phase (fst (settle L S (send x (C\<lparr>last_frame := now\<rparr>, W) FatalClose))) \<noteq> Crashed" for x
    using send_phase(1) [of "(C\<lparr>last_frame := now\<rparr>, W)" FatalClose x] running by (intro settle_phase) simp
  show ?thesis
    using assms(2) running fin txt' bin
    by (cases ev) (auto simp: sess_step_def CW handle_frame_ws_def write_outgoing_def forward_turn_def Let_def
        dest: printed [THEN notE] split: option.splits if_splits WsFrame.splits list.splits prod.splits)
qed

lemma session_inv:
  assumes "server_inv n V" "fmlookup (sessions V) c = Some C" "hash_order (sid_order L)"
    and "\<And>p. \<exists>j. info_to_string (serde L) p = Inr j"
    and "sess_step L (session_of (adapter V) c) now ev (C, sworld V) = Some CW"
  shows "server_inv n (after_step c CW V)"
proof -
  let ?S = "session_of (adapter V) c"
  obtain C' W where CW: "CW = (C', W)" by fastforce
  have eff: "effect ?S (C, sworld V) (C', W)"
    using sess_step_effect [OF assms(3) server_sess_inv [OF assms(1,2)] assms(5)] by (simp add: CW)
  have "subs_of W (owp_id (adapter V)) = (subs_of (sworld V) (owp_id (adapter V)) - conn_keys ?S C) \<union> conn_keys ?S C'"
    using eff conn_keys_adapter [of _ "adapter V" c] by (auto simp: effect_def subs_of_keys)
  then have keys: "subs_of W (owp_id (adapter V)) = (all_keys V - conn_keys ?S C) \<union> conn_keys ?S C'"
    using assms(1) by (simp add: server_inv_def)
  have ok: "world_ok W" "sess_ok ?S C'" using eff by (simp_all add: effect_def)
  have crash: "phase C' \<noteq> Crashed" using sess_step_not_crashed [OF assms(4,5)] by (simp add: CW)
  have dom: "c |\<in>| fmdom (sessions V)" using assms(2) by (rule fmdomI)
  show ?thesis
  proof (cases "phase C' = Finished")
    case True
    then have "conn_keys ?S C' = {}" using ok(2) by (auto simp: sess_ok_def conn_keys_def)
    moreover have "fcard (fmdom (sessions V)) = Suc (fcard (fmdom (sessions V) |-| {|c|}))"
      using dom by (metis fcard_Suc_fminus1)
    ultimately show ?thesis
      using assms(1) True keys ok all_keys_change(1) [OF assms(2)]
      by (auto simp: after_step_def CW release_def server_inv_def Let_def all_keys_def)
  next
    case False
    then have "phase C' \<in> {Running, Hung}" using crash by (cases "phase C'") auto
    moreover have "finsert c (fmdom (sessions V)) = fmdom (sessions V)" using dom by auto
    ultimately show ?thesis
      using assms(1) False crash keys ok all_keys_change(2) [OF assms(2), of C']
      by (auto simp: after_step_def CW server_inv_def Let_def all_keys_def)
  qed
qed


lemma server_reach_inv:
  assumes "server_reach L V0 n V" "server_inv 0 V0" "hash_order (sid_order L)" "\<And>p. \<exists>j. info_to_string (serde L) p = Inr j"
  shows "Suc n < 2 ^ 64 \<Longrightarrow> server_inv n V \<and> owp_config (adapter V) = owp_config (adapter V0) \<and> owp_id (adapter V) = owp_id (adapter V0)"
  using assms(1)
proof induction
  case start
  then show ?case using assms(2) by simp
next
  case (accept n V)
  then show ?case
    using accept_inv [of n V] by (cases "permits (adapter V) = 0") (auto simp: accept_stream_def Let_def)
next
  case (connection n V c now outcome header ws_ok)
  then show ?case using connection_inv [of n V c now outcome header ws_ok]
    by (auto simp: handle_connection_def release_def Let_def)
next
  case (session n V c C now ev CW)
  then show ?case using session_inv [of n V c C L now ev CW] assms(3,4)
    by (auto simp: after_step_def release_def Let_def)
next
  case (elsewhere n V W)
  then show ?case by (auto simp: server_inv_def all_keys_def)
qed

text \<open>The saturation messages of the accept loop: the last one says which way it went.\<close>

lemma server_reach_log:
  assumes "server_reach L V0 n V" "capacity_log V0 = []" "\<not> at_capacity (adapter V0)"
  shows "distinct_adj (capacity_log V) \<and>
    (if capacity_log V = [] then \<not> at_capacity (adapter V)
     else last (capacity_log V) = (if at_capacity (adapter V) then RefusingNew else AcceptingAgain))"
  using assms(1)
proof induction
  case (accept n V)
  then show ?case
    by (auto simp: accept_stream_def Let_def distinct_adj_append_iff split: if_splits)
qed (use assms(2,3) in \<open>auto simp: handle_connection_def after_step_def release_def Let_def\<close>)

text \<open>C30: The listener keeps its accounts. In every state the OWP adapter can reach, with or without TLS and a
  schema, whatever becomes of the TLS and WebSocket handshakes, whatever its clients send and however the tasks and the rest of the gateway interleave, the subscriptions the engine
  holds for the adapter are exactly those of its open sessions, so a session that has ended left
  nothing behind and no session disturbs another's; a permit is free for each connection that is not
  open; each session has at most \<open>max_subscriptions\<close> subscriptions, at most a channel's capacity of
  frames queued and at most 64 routes of each kind remembered; and entering and leaving saturation
  are reported in turn. (A session handles one frame as one
  step. Connection ids are 64-bit and wrap; the statement is for the first \<open>2 ^ 64 - 2\<close> connections.)\<close>

theorem owp_server_accounts:
  assumes "server_reach L (new_server A W) n V" and "Suc n < 2 ^ 64"
    and "hash_order (sid_order L)" and "\<And>p. \<exists>j. info_to_string (serde L) p = Inr j"
    and "owp_built a cfg A"
    and "world_ok W" and "subs_of W a = {}"
  shows "subs_of (sworld V) a =
      {SubscriberKey a (SubId (show_nat c @ '':'' @ sid)) | c sid. \<exists>C. fmlookup (sessions V) c = Some C \<and> sid |\<in>| fmdom (subs C)} \<and>
    permits (adapter V) + fcard (handshaking V) + fcard (fmdom (sessions V)) = max_connections cfg \<and>
    (\<forall>c C. fmlookup (sessions V) c = Some C \<longrightarrow>
       fcard (fmdom (subs C)) \<le> max_subscriptions cfg \<and> length (outq C) \<le> DEFAULT_CHANNEL_CAPACITY \<and>
       fcard (seen (unroutable (route_warnings C))) \<le> SEEN_CAP \<and> fcard (seen (invalid (route_warnings C))) \<le> SEEN_CAP) \<and>
    distinct_adj (capacity_log V)"
proof -
  have A: "owp_id A = a" "owp_config A = cfg" "conn_seq A = 1" "permits A = max_connections cfg" "\<not> at_capacity A"
    using owp_built_fields [OF assms(5)] by simp_all
  have "server_inv 0 (new_server A W)"
    using assms(6,7) A by (simp add: server_inv_def new_server_def all_keys_def fcard_fempty)
  then have inv: "server_inv n V" "owp_config (adapter V) = cfg" "owp_id (adapter V) = a"
    using server_reach_inv [OF assms(1) _ assms(3,4,2)] A by (simp_all add: new_server_def)
  have keys: "subs_of (sworld V) a =
      {SubscriberKey a (SubId (show_nat c @ '':'' @ sid)) | c sid. \<exists>C. fmlookup (sessions V) c = Some C \<and> sid |\<in>| fmdom (subs C)}"
  proof -
    have "subs_of (sworld V) a = pair_key (adapter V) ` live_sids V" using inv by (simp add: server_inv_def all_keys_pairs)
    also have "\<dots> = {pair_key (adapter V) (c, sid) | c sid. (c, sid) \<in> live_sids V}" by auto
    finally show ?thesis using inv(3) by (simp add: live_sids_def pair_key_def sub_key_def engine_sub_id_def session_of_def)
  qed
  have "\<forall>c C. fmlookup (sessions V) c = Some C \<longrightarrow> sess_ok (session_of (adapter V) c) C" using inv(1) by (auto simp: server_inv_def)
  then have "\<forall>c C. fmlookup (sessions V) c = Some C \<longrightarrow>
       fcard (fmdom (subs C)) \<le> max_subscriptions cfg \<and> length (outq C) \<le> DEFAULT_CHANNEL_CAPACITY \<and>
       fcard (seen (unroutable (route_warnings C))) \<le> SEEN_CAP \<and> fcard (seen (invalid (route_warnings C))) \<le> SEEN_CAP"
    using inv(2) by (auto simp: sess_ok_def seen_ok_def)
  moreover have "permits (adapter V) + fcard (handshaking V) + fcard (fmdom (sessions V)) = max_connections cfg"
    using inv(1,2) by (simp add: server_inv_def)
  moreover have "distinct_adj (capacity_log V)"
    using server_reach_log [OF assms(1)] A by (simp add: new_server_def)
  ultimately show ?thesis using keys by blast
qed

definition owp_only_header :: "string \<Rightarrow> string option" where
  "owp_only_header n = (if n = ''Sec-WebSocket-Protocol'' then Some ''chat, OWP'' else None)"

lemma owp_only_accepted: "handshake_check [] owp_only_header = Inr ''owp''"
  by code_simp

text \<open>A TLS listener whose first client fails the TLS handshake and whose second gets a session.\<close>

definition demo_listener :: "Delivery bq Server" where
  "demo_listener = new_server (with_tls (new_owp_adapter (AdapterId ''owp'') (default_owp_config ''u''))) owp_demo_world"

lemma demo_listener_fields:
  "adapter demo_listener = with_tls (new_owp_adapter (AdapterId ''owp'') (default_owp_config ''u''))"
  "handshaking demo_listener = {||}" "sessions demo_listener = fmempty"
  by (simp_all add: demo_listener_def new_server_def)

definition demo_refused :: "Delivery bq Server" where
  "demo_refused = handle_connection 1 5 TlsFailed owp_only_header True (accept_stream demo_listener)"

definition demo_served :: "Delivery bq Server" where
  "demo_served = handle_connection 2 6 TlsAccepted owp_only_header True (accept_stream demo_refused)"

lemmas listener_defs = accept_stream_def handle_connection_def release_def session_starts_def Let_def with_tls_def
  new_owp_adapter_def default_owp_config_def DEFAULT_MAX_CONNECTIONS_def demo_listener_fields

lemma demo_refused_fields:
  "handshaking demo_refused = {||}" "sessions demo_refused = fmempty" "permits (adapter demo_refused) = DEFAULT_MAX_CONNECTIONS"
  "conn_seq (adapter demo_refused) = 2" "owp_tls (adapter demo_refused)" "allowed_origins (owp_config (adapter demo_refused)) = []"
  by (simp_all add: demo_refused_def listener_defs)

lemma demo_served_fields:
  "handshaking demo_served = {||}" "sessions demo_served = fmupd 2 (new_conn 6) fmempty"
  by (simp_all add: demo_served_def accept_stream_def handle_connection_def release_def session_starts_def Let_def
      demo_refused_fields owp_only_accepted DEFAULT_MAX_CONNECTIONS_def)

lemma demo_served_reached: "server_reach owp_demo_lib demo_listener 2 demo_served"
proof -
  have "server_reach owp_demo_lib demo_listener 1 (accept_stream demo_listener)"
    using server_reach.accept [OF server_reach.start, of owp_demo_lib demo_listener] by (simp add: listener_defs)
  moreover have "1 |\<in>| handshaking (accept_stream demo_listener)" by (simp add: listener_defs)
  ultimately have "server_reach owp_demo_lib demo_listener 1 demo_refused"
    unfolding demo_refused_def by (rule server_reach.connection)
  from server_reach.accept [OF this] have "server_reach owp_demo_lib demo_listener 2 (accept_stream demo_refused)"
    by (simp add: demo_refused_fields DEFAULT_MAX_CONNECTIONS_def numeral_2_eq_2)
  moreover have "2 |\<in>| handshaking (accept_stream demo_refused)"
    by (simp add: accept_stream_def Let_def demo_refused_fields DEFAULT_MAX_CONNECTIONS_def)
  ultimately show ?thesis unfolding demo_served_def by (rule server_reach.connection)
qed

theorem owp_server_accounts_witness:
  "server_reach owp_demo_lib demo_listener 2 demo_served \<and> fmdom (sessions demo_served) = {|2|} \<and>
     subs_of (sworld demo_served) (AdapterId ''owp'') = {} \<and> permits (adapter demo_served) + 0 + 1 = DEFAULT_MAX_CONNECTIONS"
proof -
  have built: "owp_built (AdapterId ''owp'') (default_owp_config ''u'') (with_tls (new_owp_adapter (AdapterId ''owp'') (default_owp_config ''u'')))"
    by (intro owp_built.intros)
  have "world_ok owp_demo_world" "subs_of owp_demo_world (AdapterId ''owp'') = {}"
    using new_engine_inv by (auto simp: owp_demo_world_def world_ok_def subs_of_def new_engine_def empty_state_def)
  moreover have "\<exists>j. info_to_string (serde owp_demo_lib) p = Inr j" for p by (simp add: owp_demo_lib_def)
  ultimately have acct: "subs_of (sworld demo_served) (AdapterId ''owp'') =
      {SubscriberKey (AdapterId ''owp'') (SubId (show_nat c @ '':'' @ sid)) | c sid. \<exists>C. fmlookup (sessions demo_served) c = Some C \<and> sid |\<in>| fmdom (subs C)} \<and>
      permits (adapter demo_served) + fcard (handshaking demo_served) + fcard (fmdom (sessions demo_served)) = max_connections (default_owp_config ''u'')"
    using owp_server_accounts [OF demo_served_reached [unfolded demo_listener_def] _ owp_demo_order _ built] by simp
  have max: "max_connections (default_owp_config ''u'') = DEFAULT_MAX_CONNECTIONS" by (simp add: default_owp_config_def)
  have "subs_of (sworld demo_served) (AdapterId ''owp'') = {}"
    using acct by (auto simp: demo_served_fields new_conn_def split: if_splits)
  moreover have "permits (adapter demo_served) + 0 + 1 = DEFAULT_MAX_CONNECTIONS"
    using acct max by (simp add: demo_served_fields fcard_fempty fcard_finsert_if)
  ultimately show ?thesis using demo_served_reached by (simp add: demo_served_fields)
qed

end
