(* ===== verification/Stomp_Codec.thy ===== *)
theory Stomp_Codec
  imports Core_Types
begin

text \<open>
  STOMP 1.2 frames, \<open>oa-gateway-stomp/src/codec.rs\<close>, and the framed reader of \<open>client.rs\<close>:
  escaping, encoding, the incremental decoder with its size limit, and the read loop that feeds it.
  A \<open>usize\<close> is a \<open>nat\<close>; the one addition the source checks is checked here at 64 bits.
  A \<open>Vec<u8>\<close> buffer that a function drains is returned with the result.
\<close>

section \<open>Frames\<close>

definition DEFAULT_MAX_FRAME_SIZE :: nat where
  "DEFAULT_MAX_FRAME_SIZE = 16 * 1024 * 1024"

record Frame =
  command :: string
  fheaders :: "(string \<times> string) list"
  body :: bytes

definition new_frame :: "string \<Rightarrow> Frame" where
  "new_frame c = \<lparr>command = c, fheaders = [], body = []\<rparr>"

definition frame_with_header :: "string \<Rightarrow> string \<Rightarrow> Frame \<Rightarrow> Frame" where
  "frame_with_header n v f = f\<lparr>fheaders := fheaders f @ [(n, v)]\<rparr>"

definition frame_with_body :: "bytes \<Rightarrow> Frame \<Rightarrow> Frame" where
  "frame_with_body b f = f\<lparr>body := b\<rparr>"

definition header :: "Frame \<Rightarrow> string \<Rightarrow> string option" where
  "header f n = map_option snd (find (\<lambda>(k, v). k = n) (fheaders f))"

definition escape_char :: "char \<Rightarrow> string" where
  "escape_char c =
     (if c = BSLASH then [BSLASH, BSLASH]
      else if c = CHR '':'' then [BSLASH, CHR ''c'']
      else if c = LF then [BSLASH, CHR ''n'']
      else if c = CR then [BSLASH, CHR ''r'']
      else [c])"

definition escape_header :: "string \<Rightarrow> string" where
  "escape_header s = concat (map escape_char s)"

definition CONTENT_LENGTH :: string where
  "CONTENT_LENGTH = ''content-length''"

definition encode_header :: "string \<times> string \<Rightarrow> bytes" where
  "encode_header = (\<lambda>(k, v). escape_header k @ CHR '':'' # escape_header v @ [LF])"

definition has_len :: "(string \<times> string) list \<Rightarrow> bool" where
  "has_len hs = list_ex (\<lambda>(k, v). k = CONTENT_LENGTH) hs"

definition encode :: "Frame \<Rightarrow> bytes" where
  "encode f =
     command f @ [LF] @ concat (map encode_header (fheaders f)) @
     (if has_len (fheaders f) then []
      else CONTENT_LENGTH @ CHR '':'' # show_nat (length (body f)) @ [LF]) @
     [LF] @ body f @ [NUL]"

section \<open>Decoding\<close>

datatype CodecError =
    NotUtf8 | MissingCommand | BadHeader | BadEscape | BadContentLength | NulInHeaders
  | FrameTooLarge nat | MissingNull | Io string

fun unescape_header :: "string \<Rightarrow> CodecError + string" where
  "unescape_header [] = Inr []"
| "unescape_header (c # cs) =
     (if c \<noteq> BSLASH then res_bind (unescape_header cs) (\<lambda>r. Inr (c # r))
      else (case cs of
          [] \<Rightarrow> Inl BadEscape
        | d # ds \<Rightarrow>
            (if d = BSLASH then res_bind (unescape_header ds) (\<lambda>r. Inr (BSLASH # r))
             else if d = CHR ''c'' then res_bind (unescape_header ds) (\<lambda>r. Inr (CHR '':'' # r))
             else if d = CHR ''n'' then res_bind (unescape_header ds) (\<lambda>r. Inr (LF # r))
             else if d = CHR ''r'' then res_bind (unescape_header ds) (\<lambda>r. Inr (CR # r))
             else Inl BadEscape)))"

fun find_header_end :: "bytes \<Rightarrow> nat option" where
  "find_header_end [] = None"
| "find_header_end [a] = None"
| "find_header_end (a # b # s) =
     (if a = LF \<and> b = LF then Some 2
      else if a = CR \<and> b = LF \<and> prefix [CR, LF] s then Some 4
      else map_option Suc (find_header_end (b # s)))"

fun parse_headers ::
  "bytes list \<Rightarrow> (string \<times> string) list \<Rightarrow> nat option \<Rightarrow> CodecError + (string \<times> string) list \<times> nat option" where
  "parse_headers [] hs len = Inr (hs, len)"
| "parse_headers (l # ls) hs len =
     (if l = [] then parse_headers ls hs len
      else
        res_bind (ok_or (split_once (CHR '':'') l) BadHeader) (\<lambda>(raw_name, raw_value).
        res_bind (unescape_header raw_name) (\<lambda>name.
        res_bind (unescape_header raw_value) (\<lambda>value.
        if name = CONTENT_LENGTH
        then res_bind (ok_or (parse_unsigned 64 value) BadContentLength)
               (\<lambda>n. parse_headers ls (hs @ [(name, value)]) (Some n))
        else parse_headers ls (hs @ [(name, value)]) len))))"

definition heartbeat :: "char \<Rightarrow> bool" where
  "heartbeat b \<longleftrightarrow> b = LF \<or> b = CR \<or> b = NUL"

definition header_lines :: "bytes \<Rightarrow> bytes list" where
  "header_lines hb = map (trim_end_matches CR) (split_on LF hb)"

text \<open>The part of the decoder that follows the header block: where the body ends, if it is there.\<close>

definition take_body ::
  "nat \<Rightarrow> bytes \<Rightarrow> nat \<Rightarrow> string \<Rightarrow> (string \<times> string) list \<Rightarrow> nat option \<Rightarrow> (CodecError + Frame option) \<times> bytes" where
  "take_body max_frame_size buf header_end cmd hs content_length =
     (let frame = (\<lambda>e. (Inr (Some \<lparr>command = cmd, fheaders = hs, body = take (e - header_end) (drop header_end buf)\<rparr>),
                        drop (e + 1) buf))
      in case content_length of
           Some len \<Rightarrow>
             (if len > max_frame_size then (Inl (FrameTooLarge max_frame_size), buf)
              else if header_end + len \<ge> 2 ^ 64 then (Inl (FrameTooLarge max_frame_size), buf)
              else if length buf \<le> header_end + len then (Inr None, buf)
              else if buf ! (header_end + len) \<noteq> NUL then (Inl MissingNull, buf)
              else frame (header_end + len))
         | None \<Rightarrow>
             (case position (\<lambda>b. b = NUL) (drop header_end buf) of
                Some rel \<Rightarrow> frame (header_end + rel)
              | None \<Rightarrow>
                  (if length buf > max_frame_size then (Inl (FrameTooLarge max_frame_size), buf)
                   else (Inr None, buf))))"

definition decode_block ::
  "nat \<Rightarrow> bytes \<Rightarrow> nat \<Rightarrow> (CodecError + Frame option) \<times> bytes" where
  "decode_block max_frame_size buf header_end =
     (let header_bytes = take header_end buf in
      if NUL \<in> set header_bytes then (Inl NulInHeaders, buf)
      else if \<not> utf8_valid header_bytes then (Inl NotUtf8, buf)
      else case header_lines header_bytes of
             [] \<Rightarrow> (Inl MissingCommand, buf)
           | cmd # lines \<Rightarrow>
               (if cmd = [] then (Inl MissingCommand, buf)
                else case parse_headers lines [] None of
                       Inl e \<Rightarrow> (Inl e, buf)
                     | Inr (hs, len) \<Rightarrow> take_body max_frame_size buf header_end cmd hs len))"

definition decode_one_with_limit :: "bytes \<Rightarrow> nat \<Rightarrow> (CodecError + Frame option) \<times> bytes" where
  "decode_one_with_limit buf0 max_frame_size =
     (case position (\<lambda>b. \<not> heartbeat b) buf0 of
        None \<Rightarrow> (Inr None, [])
      | Some start \<Rightarrow>
          (let buf = drop start buf0 in
           case find_header_end buf of
             None \<Rightarrow>
               (if length buf > max_frame_size then (Inl (FrameTooLarge max_frame_size), buf)
                else (Inr None, buf))
           | Some header_end \<Rightarrow>
               (if header_end > max_frame_size then (Inl (FrameTooLarge max_frame_size), buf)
                else decode_block max_frame_size buf header_end)))"

definition decode_one :: "bytes \<Rightarrow> (CodecError + Frame option) \<times> bytes" where
  "decode_one buf = decode_one_with_limit buf DEFAULT_MAX_FRAME_SIZE"

text \<open>\<open>FrameReader::recv\<close> over what the socket answers its reads with, in order: bytes or an error; an
  empty read is the end of the stream. The result carries the buffer and the reads that are left; \<open>None\<close> stands for a
  reader that is still waiting when the given reads are used up.\<close>

type_synonym read_result = "string + bytes"

fun recv :: "nat \<Rightarrow> bytes \<Rightarrow> read_result list \<Rightarrow> ((CodecError + Frame option) \<times> bytes \<times> read_result list) option" where
  "recv limit buf reads =
     (case decode_one_with_limit buf limit of
        (Inl e, buf') \<Rightarrow> Some (Inl e, buf', reads)
      | (Inr (Some f), buf') \<Rightarrow> Some (Inr (Some f), buf', reads)
      | (Inr None, buf') \<Rightarrow>
          (case reads of
             [] \<Rightarrow> None
           | Inl err # rs \<Rightarrow> Some (Inl (Io err), buf', rs)
           | Inr r # rs \<Rightarrow> (if r = [] then Some (Inr None, buf', rs) else recv limit (buf' @ r) rs)))"

declare recv.simps [simp del]

section \<open>Escaping\<close>

lemma unescape_escape_char [simp]:
  "unescape_header (escape_char c @ s) = res_bind (unescape_header s) (\<lambda>r. Inr (c # r))"
  by (simp add: escape_char_def)

lemma unescape_escape: "unescape_header (escape_header s) = Inr s"
  unfolding escape_header_def by (induction s) auto

lemma escape_header_clean: "c \<in> set (escape_header s) \<Longrightarrow> c \<noteq> LF \<and> c \<noteq> CR \<and> c \<noteq> CHR '':''"
  by (auto simp: escape_header_def escape_char_def split: if_splits)

lemma escape_header_NUL: "NUL \<in> set (escape_header s) \<longleftrightarrow> NUL \<in> set s"
  by (auto simp: escape_header_def escape_char_def split: if_splits)

lemma utf8_escape_header [utf8_intros]:
  assumes "utf8_valid s"
  shows "utf8_valid (escape_header s)"
  unfolding escape_header_def
proof (rule utf8_valid_subst [OF _ _ assms])
  show "escape_char c = [c]" if "128 \<le> byte c" for c
    using that by (auto simp: escape_char_def byte_def)
  show "utf8_valid (escape_char c)" if "byte c < 128" for c
    using that by (auto simp: escape_char_def) (simp_all add: byte_def)
qed

section \<open>The end of the header block\<close>

lemma find_header_end_le: "find_header_end s = Some n \<Longrightarrow> n \<le> length s \<and> 2 \<le> n"
  by (induction s arbitrary: n rule: find_header_end.induct)
    (auto split: if_splits dest: prefix_length_le)

lemma find_header_end_append: "find_header_end s = Some n \<Longrightarrow> find_header_end (s @ t) = Some n"
proof (induction s arbitrary: n rule: find_header_end.induct)
  case (3 a b s)
  show ?case
  proof (cases "a = LF \<and> b = LF \<or> a = CR \<and> b = LF \<and> prefix [CR, LF] s")
    case True
    then show ?thesis using "3.prems" by (auto simp: prefix_append)
  next
    case False
    with "3.prems" obtain m where m: "find_header_end (b # s) = Some m" "n = Suc m"
      by auto
    have IH: "find_header_end ((b # s) @ t) = Some m"
      using "3.IH" False m(1) by blast
    have "\<not> (a = CR \<and> b = LF \<and> prefix [CR, LF] (s @ t))"
    proof
      assume *: "a = CR \<and> b = LF \<and> prefix [CR, LF] (s @ t)"
      then have "\<not> prefix [CR, LF] s" using False by blast
      then have "s = [] \<or> s = [CR]"
        using * by (cases s; cases "tl s") (auto simp: prefix_def Cons_eq_append_conv)
      then show False using m(1) * by auto
    qed
    then show ?thesis using False IH m(2) by auto
  qed
qed simp_all

lemma find_header_end_strict_prefix:
  assumes "find_header_end s = Some (length s)" "strict_prefix p s"
  shows "find_header_end p = None"
proof (rule ccontr)
  assume "find_header_end p \<noteq> None"
  then obtain n where n: "find_header_end p = Some n" by blast
  obtain t where "s = p @ t" using assms(2) by (auto simp: strict_prefix_def prefix_def)
  then have "n = length s" using find_header_end_append [OF n, of t] assms(1) by simp
  then show False
    using find_header_end_le [OF n] assms(2) prefix_length_less by fastforce
qed

lemma find_header_end_line:
  assumes "l \<noteq> []" "LF \<notin> set l" "CR \<notin> set l"
  shows "find_header_end (l @ LF # s) = (if prefix [LF] s then Some (length l + 2)
           else map_option (\<lambda>n. n + length l + 1) (find_header_end s))"
proof -
  have nl: "find_header_end (LF # s) = (if prefix [LF] s then Some 2 else map_option Suc (find_header_end s))" for s
    by (cases s) (auto simp: prefix_Cons)
  show ?thesis
    using assms
  proof (induction l)
    case (Cons c l)
    then have c: "c \<noteq> LF" "c \<noteq> CR" by auto
    show ?case
    proof (cases l)
      case Nil
      then show ?thesis using c nl [of s] by (auto simp: option.map_comp o_def)
    next
      case (Cons d k)
      then have "find_header_end (c # l @ LF # s) = map_option Suc (find_header_end (l @ LF # s))"
        using c by simp
      then show ?thesis
        using Cons.IH Cons Cons.prems by (auto simp: option.map_comp o_def)
    qed
  qed simp
qed

text \<open>A header block as the encoder writes it: lines that are not empty, each ended by a line feed,
  and then one more.\<close>

definition block :: "bytes list \<Rightarrow> bytes" where
  "block ls = concat (map (\<lambda>l. l @ [LF]) ls) @ [LF]"

definition good_line :: "bytes \<Rightarrow> bool" where
  "good_line l \<longleftrightarrow> l \<noteq> [] \<and> LF \<notin> set l \<and> CR \<notin> set l"

lemma block_Cons: "block (l # ls) = l @ LF # block ls"
  by (simp add: block_def)

lemma find_header_end_block:
  "ls \<noteq> [] \<Longrightarrow> list_all good_line ls \<Longrightarrow> find_header_end (block ls) = Some (length (block ls))"
proof (induction ls)
  case (Cons l ls)
  then have l: "l \<noteq> []" "LF \<notin> set l" "CR \<notin> set l" by (auto simp: good_line_def)
  show ?case
  proof (cases ls)
    case Nil
    then show ?thesis
      using find_header_end_line [OF l, of "[LF]"] by (simp add: block_def)
  next
    case (Cons k ks)
    then have "\<not> prefix [LF] (block ls)"
      using Cons.prems by (cases k) (auto simp: good_line_def block_Cons)
    then show ?thesis
      using Cons.IH Cons Cons.prems find_header_end_line [OF l, of "block ls"] by (simp add: block_Cons)
  qed
qed simp

lemma split_on_block: "list_all good_line ls \<Longrightarrow> split_on LF (block ls) = ls @ [[], []]"
  by (induction ls) (auto simp: block_Cons split_on_append good_line_def block_def)

lemma trim_good_line: "good_line l \<or> l = [] \<Longrightarrow> trim_end_matches CR l = l"
  by (cases l rule: rev_cases) (auto simp: trim_end_matches_def good_line_def)

lemma header_lines_block: "list_all good_line ls \<Longrightarrow> header_lines (block ls) = ls @ [[], []]"
  by (auto simp: header_lines_def split_on_block list_all_iff trim_good_line intro!: map_idI)

section \<open>Header lines\<close>

definition header_line :: "string \<times> string \<Rightarrow> bytes" where
  "header_line = (\<lambda>(k, v). escape_header k @ CHR '':'' # escape_header v)"

text \<open>The headers a receiver sees: the encoder adds the length when the sender did not.\<close>

definition wire_headers :: "Frame \<Rightarrow> (string \<times> string) list" where
  "wire_headers f = fheaders f @
     (if has_len (fheaders f) then [] else [(CONTENT_LENGTH, show_nat (length (body f)))])"

definition frame_wf :: "Frame \<Rightarrow> bool" where
  "frame_wf f \<longleftrightarrow>
     good_line (command f) \<and> NUL \<notin> set (command f) \<and> utf8_valid (command f) \<and>
     (\<forall>(k, v) \<in> set (fheaders f). utf8_valid k \<and> utf8_valid v \<and> NUL \<notin> set k \<and> NUL \<notin> set v \<and>
        (k = CONTENT_LENGTH \<longrightarrow> parse_unsigned 64 v = Some (length (body f))))"

definition wire_block :: "Frame \<Rightarrow> bytes" where
  "wire_block f = block (command f # map header_line (wire_headers f))"

lemma escape_id: "(\<And>c. c \<in> set s \<Longrightarrow> c \<noteq> BSLASH \<and> c \<noteq> CHR '':'' \<and> c \<noteq> LF \<and> c \<noteq> CR) \<Longrightarrow> escape_header s = s"
  unfolding escape_header_def by (induction s) (auto simp: escape_char_def)

lemma escape_show_nat: "escape_header (show_nat n) = show_nat n"
  using show_nat_digits [of n] by (intro escape_id) (auto simp: list_all_iff is_ascii_digit_def byte_def)

lemma escape_CONTENT_LENGTH: "escape_header CONTENT_LENGTH = CONTENT_LENGTH"
  by (simp add: CONTENT_LENGTH_def escape_header_def escape_char_def)

lemma encode_wire: "encode f = wire_block f @ body f @ [NUL]"
  by (auto simp: encode_def wire_block_def wire_headers_def block_def header_line_def encode_header_def
      escape_show_nat escape_CONTENT_LENGTH case_prod_unfold o_def)

lemma good_header_line: "good_line (header_line h)"
  by (cases h) (auto simp: good_line_def header_line_def dest: escape_header_clean)

lemma good_wire_lines: "good_line (command f) \<Longrightarrow> list_all good_line (command f # map header_line (wire_headers f))"
  by (auto simp: list_all_iff good_header_line)

lemma header_line_split:
  "split_once (CHR '':'') (header_line (k, v)) = Some (escape_header k, escape_header v)"
proof -
  have "CHR '':'' \<notin> set (escape_header k)" using escape_header_clean by blast
  then show ?thesis by (simp add: header_line_def split_once_append)
qed

lemma parse_headers_lines:
  assumes "\<And>v. (CONTENT_LENGTH, v) \<in> set hs \<Longrightarrow> parse_unsigned 64 v = Some n"
  shows "parse_headers (map header_line hs @ [[], []]) acc len =
    Inr (acc @ hs, if has_len hs then Some n else len)"
  using assms
proof (induction hs arbitrary: acc len)
  case Nil
  then show ?case by (simp add: has_len_def)
next
  case (Cons h hs)
  obtain k v where h: "h = (k, v)" by (cases h)
  have IH: "parse_headers (map header_line hs @ [[], []]) acc' len' = Inr (acc' @ hs, if has_len hs then Some n else len')" for acc' len'
    using Cons.prems by (intro Cons.IH) simp
  have "header_line h \<noteq> []" using good_header_line [of h] by (simp add: good_line_def)
  then show ?case
    using Cons.prems by (auto simp: h header_line_split unescape_escape IH has_len_def)
qed

lemma wire_headers_length:
  assumes "frame_wf f" "length (body f) < 2 ^ 64" "(CONTENT_LENGTH, v) \<in> set (wire_headers f)"
  shows "parse_unsigned 64 v = Some (length (body f))"
  using assms by (auto simp: wire_headers_def frame_wf_def parse_unsigned_show_nat split: if_splits)

lemma has_len_wire: "has_len (wire_headers f)"
  by (auto simp: wire_headers_def has_len_def)

lemma parse_wire_headers:
  assumes "frame_wf f" "length (body f) < 2 ^ 64"
  shows "parse_headers (map header_line (wire_headers f) @ [[], []]) [] None =
    Inr (wire_headers f, Some (length (body f)))"
  using parse_headers_lines [where acc = "[]" and len = None, OF wire_headers_length [OF assms]] has_len_wire [of f]
  by simp

lemma wire_headers_wf:
  "frame_wf f \<Longrightarrow> (k, v) \<in> set (wire_headers f) \<Longrightarrow> utf8_valid k \<and> utf8_valid v \<and> NUL \<notin> set k \<and> NUL \<notin> set v"
  using show_nat_digits [of "length (body f)"]
  by (auto simp: wire_headers_def frame_wf_def list_all_iff is_ascii_digit_def byte_def split: if_splits)
    (simp_all add: CONTENT_LENGTH_def byte_def)

lemma wire_block_NUL: "frame_wf f \<Longrightarrow> NUL \<notin> set (wire_block f)"
  using wire_headers_wf [of f]
  by (auto simp: wire_block_def block_def header_line_def escape_header_NUL) (auto simp: frame_wf_def)

lemma utf8_block: "list_all utf8_valid ls \<Longrightarrow> utf8_valid (block ls)"
  by (induction ls) (auto simp: block_Cons byte_def, simp add: block_def byte_def)

lemma wire_block_utf8:
  assumes "frame_wf f"
  shows "utf8_valid (wire_block f)"
proof -
  have "utf8_valid (header_line h)" if "h \<in> set (wire_headers f)" for h
    using that wire_headers_wf [OF assms, of "fst h" "snd h"]
    by (auto simp: header_line_def case_prod_unfold utf8_escape_header byte_def)
  then show ?thesis
    using assms unfolding wire_block_def by (intro utf8_block) (auto simp: list_all_iff frame_wf_def)
qed

section \<open>Whole frames and their prefixes\<close>

lemma wire_block_head: "frame_wf f \<Longrightarrow> \<exists>c s. wire_block f = c # s \<and> \<not> heartbeat c"
  by (cases "command f") (auto simp: frame_wf_def wire_block_def block_Cons good_line_def heartbeat_def)

lemma find_header_end_wire: "frame_wf f \<Longrightarrow> find_header_end (wire_block f) = Some (length (wire_block f))"
  unfolding wire_block_def
  by (intro find_header_end_block good_wire_lines) (simp_all add: frame_wf_def)

lemma decode_wire_block:
  assumes wf: "frame_wf f" and len: "length (body f) < 2 ^ 64"
  shows "decode_block m (wire_block f @ s) (length (wire_block f)) =
    take_body m (wire_block f @ s) (length (wire_block f)) (command f) (wire_headers f) (Some (length (body f)))"
proof -
  have "header_lines (wire_block f) = (command f # map header_line (wire_headers f)) @ [[], []]"
    unfolding wire_block_def using wf by (intro header_lines_block good_wire_lines) (simp add: frame_wf_def)
  moreover have "command f \<noteq> []" using wf by (simp add: frame_wf_def good_line_def)
  ultimately show ?thesis
    using parse_wire_headers [OF wf len] wire_block_NUL [OF wf] wire_block_utf8 [OF wf]
    by (simp add: decode_block_def Let_def)
qed

lemma decode_starts:
  assumes "\<not> heartbeat c"
  shows "decode_one_with_limit (c # s) m =
    (case find_header_end (c # s) of
       None \<Rightarrow> (if length (c # s) > m then (Inl (FrameTooLarge m), c # s) else (Inr None, c # s))
     | Some e \<Rightarrow> (if e > m then (Inl (FrameTooLarge m), c # s) else decode_block m (c # s) e))"
  using assms by (simp add: decode_one_with_limit_def Let_def)

definition fits :: "Frame \<Rightarrow> nat \<Rightarrow> bool" where
  "fits f m \<longleftrightarrow> length (wire_block f) \<le> m \<and> length (body f) \<le> m \<and> m < 2 ^ 63"

lemma decode_wire:
  assumes wf: "frame_wf f" and fit: "fits f m"
  shows "decode_one_with_limit (wire_block f @ s) m =
    (if length s \<le> length (body f) then (Inr None, wire_block f @ s)
     else if s ! length (body f) \<noteq> NUL then (Inl MissingNull, wire_block f @ s)
     else (Inr (Some (f\<lparr>fheaders := wire_headers f, body := take (length (body f)) s\<rparr>)), drop (length (body f) + 1) s))"
proof -
  obtain c t where ct: "wire_block f = c # t" "\<not> heartbeat c" using wire_block_head [OF wf] by blast
  have sizes: "length (wire_block f) \<le> m" "length (body f) \<le> m" "length (body f) < 2 ^ 64"
    "length (wire_block f) + length (body f) < 2 ^ 64"
    using fit by (auto simp: fits_def)
  have "decode_one_with_limit (wire_block f @ s) m = decode_block m (wire_block f @ s) (length (wire_block f))"
    using find_header_end_append [OF find_header_end_wire [OF wf], of s] sizes(1) ct
    by (simp add: decode_starts)
  then show ?thesis
    using decode_wire_block [OF wf sizes(3), of m s] sizes
    by (auto simp: take_body_def Let_def nth_append)
qed

text \<open>C5: Round trip. Decoding the encoding of any well-formed frame that fits the limit, whatever
  follows it in the buffer, gives back its command, its headers (with the \<open>content-length\<close> the
  encoder adds) and its body byte for byte, and leaves exactly what followed.\<close>

theorem decode_encode:
  assumes "frame_wf f" "fits f m"
  shows "decode_one_with_limit (encode f @ rest) m = (Inr (Some (f\<lparr>fheaders := wire_headers f\<rparr>)), rest)"
  using decode_wire [OF assms, of "body f @ NUL # rest"] by (simp add: encode_wire)

definition demo_frame :: Frame where
  "demo_frame = frame_with_body [NUL, CHR ''x''] (frame_with_header ''a:b'' [LF, BSLASH] (new_frame ''SEND''))"

lemmas demo_frame_defs = demo_frame_def new_frame_def frame_with_header_def frame_with_body_def

lemma demo_frame_wf: "frame_wf demo_frame"
  by (simp add: demo_frame_defs frame_wf_def good_line_def CONTENT_LENGTH_def byte_def)

lemma demo_frame_fits: "fits demo_frame 64"
  by (simp add: demo_frame_defs fits_def wire_block_def block_def header_line_def wire_headers_def
      has_len_def CONTENT_LENGTH_def escape_header_def escape_char_def show_nat.simps)

theorem decode_encode_witness:
  "frame_wf demo_frame \<and> fits demo_frame 64 \<and>
   decode_one_with_limit (encode demo_frame @ ''MORE'') 64 =
     (Inr (Some (demo_frame\<lparr>fheaders := wire_headers demo_frame\<rparr>)), ''MORE'')"
  using decode_encode [OF demo_frame_wf demo_frame_fits] demo_frame_wf demo_frame_fits by blast

lemma decode_strict_prefix:
  assumes wf: "frame_wf f" and fit: "fits f m" and p: "strict_prefix p (encode f)"
  shows "decode_one_with_limit p m = (Inr None, p)"
proof (cases "prefix (wire_block f) p")
  case True
  then obtain s where s: "p = wire_block f @ s" by (auto simp: prefix_def)
  then have "length s \<le> length (body f)"
    using p prefix_length_less [OF p] by (simp add: encode_wire)
  then show ?thesis using decode_wire [OF wf fit, of s] s by simp
next
  case False
  have "prefix p (wire_block f) \<or> prefix (wire_block f) p"
    using p prefix_same_cases [of p "encode f" "wire_block f"] by (auto simp: encode_wire strict_prefix_def)
  then have sp: "strict_prefix p (wire_block f)"
    using False by (auto simp: strict_prefix_def)
  show ?thesis
  proof (cases p)
    case Nil
    then show ?thesis by (simp add: decode_one_with_limit_def)
  next
    case (Cons c t)
    then have "\<not> heartbeat c" using wire_block_head [OF wf] sp by (auto simp: strict_prefix_def)
    moreover have "find_header_end p = None"
      using find_header_end_strict_prefix [OF find_header_end_wire [OF wf] sp] .
    moreover have "length p \<le> m" using prefix_length_less [OF sp] fit by (simp add: fits_def)
    ultimately show ?thesis using Cons by (simp add: decode_starts)
  qed
qed

text \<open>C6: Fragmentation. However the socket cuts the bytes into reads, a reader with an empty
  buffer returns the frame that was sent, and what it holds in its buffer plus what is still to be
  read is exactly what was sent after the frame, whatever the reads after these answer.\<close>

theorem recv_any_chunking:
  assumes "frame_wf f" "fits f m" "[] \<notin> set reads" "concat reads = encode f @ rest"
  shows "\<exists>buf reads'. recv m [] (map Inr reads @ later) =
      Some (Inr (Some (f\<lparr>fheaders := wire_headers f\<rparr>)), buf, map Inr reads' @ later) \<and>
    buf @ concat reads' = rest"
proof -
  have "\<exists>buf' reads'. recv m buf (map Inr reads @ later) =
      Some (Inr (Some (f\<lparr>fheaders := wire_headers f\<rparr>)), buf', map Inr reads' @ later) \<and>
    buf' @ concat reads' = rest" if "buf @ concat reads = encode f @ rest" "[] \<notin> set reads" for buf reads
    using that
  proof (induction reads arbitrary: buf)
    case Nil
    then show ?case
      using decode_encode [OF assms(1,2)] by (subst recv.simps) (auto intro: exI [where x = "[]"])
  next
    case (Cons r rs)
    show ?case
    proof (cases "prefix (encode f) buf")
      case True
      then obtain t where t: "buf = encode f @ t" by (auto simp: prefix_def)
      then show ?thesis
        using Cons.prems decode_encode [OF assms(1,2), of t]
        by (subst recv.simps) (auto intro: exI [where x = "r # rs"])
    next
      case False
      have "prefix buf (encode f @ rest)" using Cons.prems(1) by (metis prefixI)
      then have "strict_prefix buf (encode f)"
        using False prefix_same_cases [of buf "encode f @ rest" "encode f"]
        by (auto simp: strict_prefix_def)
      then have "decode_one_with_limit buf m = (Inr None, buf)"
        using decode_strict_prefix [OF assms(1,2)] by blast
      moreover have "r \<noteq> []" using Cons.prems by auto
      ultimately show ?thesis
        using Cons.IH [of "buf @ r"] Cons.prems by (subst recv.simps) simp
    qed
  qed
  then show ?thesis using assms by simp
qed

theorem recv_any_chunking_witness:
  "\<exists>reads. length reads = 3 \<and> concat reads = encode demo_frame @ ''MORE'' \<and>
    (\<exists>buf reads'. recv 64 [] (map Inr reads @ [Inl ''reset'']) =
         Some (Inr (Some (demo_frame\<lparr>fheaders := wire_headers demo_frame\<rparr>)), buf, map Inr reads' @ [Inl ''reset'']) \<and>
       buf @ concat reads' = ''MORE'')"
proof -
  let ?e = "encode demo_frame"
  have e: "?e = CHR ''S'' # tl ?e" "tl ?e \<noteq> []"
    by (simp_all add: encode_def demo_frame_defs)
  let ?reads = "[[CHR ''S''], tl ?e, ''MORE'']"
  have "concat ?reads = ?e @ ''MORE''" using e(1) by simp
  moreover have "[] \<notin> set ?reads" using e(2) by auto
  ultimately show ?thesis
    using recv_any_chunking [OF demo_frame_wf demo_frame_fits, of ?reads "''MORE''" "[Inl ''reset'']"]
    by (intro exI [where x = ?reads]) simp
qed

section \<open>Limits\<close>

text \<open>What a call leaves and what a frame can hold: the header block and the body are each held to
  the limit, not their sum.\<close>

lemma cut_at_NUL:
  assumes "k < length (drop e buf)" "drop e buf ! k = NUL"
  shows "take k (drop e buf) @ NUL # drop (e + k + 1) buf = drop e buf"
  using id_take_nth_drop [OF assms(1)] assms(2) by (metis Suc_eq_plus1 add.assoc add.commute drop_drop)

lemma take_body_None:
  "take_body m buf e c hs len = (Inr None, rest) \<Longrightarrow> e \<le> m \<Longrightarrow> rest = buf \<and> length buf \<le> 2 * m"
  by (auto simp: take_body_def Let_def split: if_splits option.splits)

lemma take_body_Some:
  assumes "take_body m buf e c hs len = (Inr (Some f), rest)" "e \<le> length buf"
  shows "command f = c \<and> fheaders f = hs \<and> body f @ NUL # rest = drop e buf"
proof -
  define k where "k = (case len of Some n \<Rightarrow> n | None \<Rightarrow> the (position (\<lambda>b. b = NUL) (drop e buf)))"
  have k: "k < length (drop e buf) \<and> drop e buf ! k = NUL"
    using assms position_Some_lt [of "\<lambda>b. b = NUL" "drop e buf"]
    by (auto simp: take_body_def Let_def k_def split: if_splits option.splits)
  have "command f = c \<and> fheaders f = hs \<and> body f = take k (drop e buf) \<and> rest = drop (e + k + 1) buf"
    using assms by (auto simp: take_body_def Let_def k_def split: if_splits option.splits)
  then show ?thesis using cut_at_NUL k by metis
qed

lemma decode_block_None:
  "decode_block m buf e = (Inr None, rest) \<Longrightarrow> e \<le> m \<Longrightarrow> rest = buf \<and> length buf \<le> 2 * m"
  by (auto simp: decode_block_def Let_def dest: take_body_None split: if_splits list.splits sum.splits prod.splits)

lemma decode_block_Some:
  "decode_block m buf e = (Inr (Some f), rest) \<Longrightarrow> e \<le> length buf \<Longrightarrow> body f @ NUL # rest = drop e buf"
  by (auto simp: decode_block_def Let_def dest: take_body_Some split: if_splits list.splits sum.splits prod.splits)

lemma decode_block_Inl: "decode_block m buf e = (Inl x, rest) \<Longrightarrow> rest = buf"
  by (auto simp: decode_block_def take_body_def Let_def
      split: if_splits list.splits sum.splits prod.splits option.splits)

lemma decode_start_drop:
  "decode_one_with_limit buf m =
     (case dropWhile heartbeat buf of [] \<Rightarrow> (Inr None, []) | c # s \<Rightarrow> decode_one_with_limit (c # s) m)"
proof (cases "position (\<lambda>b. \<not> heartbeat b) buf")
  case None
  then have "dropWhile heartbeat buf = []" by (simp add: position_None)
  then show ?thesis using None by (simp add: decode_one_with_limit_def del: dropWhile_eq_Nil_conv)
next
  case (Some i)
  then have d: "dropWhile heartbeat buf = drop i buf"
    using position_take_drop [OF Some] by simp
  then obtain c s where cs: "drop i buf = c # s" "\<not> heartbeat c"
    using position_Some_lt [OF Some] by (metis Cons_nth_drop_Suc)
  then show ?thesis using Some d by (simp add: decode_one_with_limit_def)
qed

lemma decode_Some_shrinks:
  assumes "decode_one_with_limit buf m = (Inr (Some f), rest)"
  shows "length rest < length buf"
proof -
  obtain c s where cs: "dropWhile heartbeat buf = c # s" "decode_one_with_limit (c # s) m = (Inr (Some f), rest)" "\<not> heartbeat c"
  proof (cases "dropWhile heartbeat buf")
    case Nil
    then show thesis using trans [OF sym [OF decode_start_drop [of buf m]] assms]
      by (simp del: dropWhile_eq_Nil_conv)
  next
    case (Cons c s)
    show thesis
      by (rule that [OF Cons])
        (use trans [OF sym [OF decode_start_drop [of buf m]] assms] Cons in
          \<open>simp_all add: dropWhile_eq_Cons_conv\<close>)
  qed
  obtain e where e: "find_header_end (c # s) = Some e" "decode_block m (c # s) e = (Inr (Some f), rest)"
    using cs(2,3) by (auto simp: decode_starts split: option.splits if_splits)
  have "drop e (c # s) = body f @ NUL # rest"
    using decode_block_Some [OF e(2)] find_header_end_le [OF e(1)] by simp
  then have "length (drop e (c # s)) = length (body f @ NUL # rest)" by (rule arg_cong)
  then have "length rest < length (c # s)" by (simp del: drop_Cons')
  also have "\<dots> \<le> length buf" using length_dropWhile_le [of heartbeat buf] by (simp only: cs(1))
  finally show ?thesis .
qed

text \<open>C7: Bounds and progress of the decoder on any input whatever. When it asks for more input, all
  it holds back is the buffer without its leading heartbeats, and that is at most twice the limit;
  when it returns a frame it has consumed at least three bytes, and the body it returns and the rest
  of the buffer are exactly the bytes around the terminating NUL.\<close>

theorem decode_bounds:
  "case decode_one_with_limit buf m of
     (Inr None, rest) \<Rightarrow> rest = dropWhile heartbeat buf \<and> length rest \<le> 2 * m
   | (Inr (Some f), rest) \<Rightarrow> (\<exists>head. 2 \<le> length head \<and> length head \<le> m \<and>
         dropWhile heartbeat buf = head @ body f @ NUL # rest)
   | (Inl e, rest) \<Rightarrow> rest = dropWhile heartbeat buf"
proof -
  consider (empty) "dropWhile heartbeat buf = []"
    | (frame) c s where "dropWhile heartbeat buf = c # s" "\<not> heartbeat c"
    by (cases "dropWhile heartbeat buf") (auto simp: dropWhile_eq_Cons_conv)
  then show ?thesis
  proof cases
    case empty
    then show ?thesis by (subst decode_start_drop) (simp del: dropWhile_eq_Nil_conv)
  next
    case frame
    show ?thesis
    proof (cases "find_header_end (c # s)")
      case None
      then show ?thesis using frame by (subst decode_start_drop) (auto simp: decode_starts)
    next
      case (Some e)
      note e = find_header_end_le [OF Some]
      have head: "\<exists>head. 2 \<le> length head \<and> length head \<le> m \<and> c # s = head @ body f @ NUL # rest"
        if "decode_block m (c # s) e = (Inr (Some f), rest)" "e \<le> m" for f rest
        using decode_block_Some [OF that(1)] e that(2)
        by (intro exI [where x = "take e (c # s)"]) (auto simp del: take_Suc_Cons)
      obtain r rest where r: "decode_block m (c # s) e = (r, rest)" by (cases "decode_block m (c # s) e")
      have "decode_one_with_limit buf m = (if e > m then (Inl (FrameTooLarge m), c # s) else (r, rest))"
        using frame Some r by (subst decode_start_drop) (simp add: decode_starts)
      then show ?thesis
        using frame(1) head r decode_block_None [of m "c # s" e rest] decode_block_Inl [of m "c # s" e]
        by (auto split: sum.splits option.splits)
    qed
  qed
qed

text \<open>The limit is applied to the header block and to the announced body separately, so a frame larger
  than the limit is accepted.\<close>

lemma frame_over_limit_accepted:
  "length (encode demo_frame) = 36 \<and>
   decode_one_with_limit (encode demo_frame) 33 = (Inr (Some (demo_frame\<lparr>fheaders := wire_headers demo_frame\<rparr>)), [])"
proof -
  have "length (encode demo_frame) = 36" "fits demo_frame 33"
    by (simp_all add: demo_frame_defs fits_def wire_block_def block_def header_line_def wire_headers_def
        has_len_def CONTENT_LENGTH_def escape_header_def escape_char_def show_nat.simps encode_wire
        numeral_2_eq_2 [symmetric])
  then show ?thesis
    using decode_wire [OF demo_frame_wf, of 33 "body demo_frame @ [NUL]"] by (simp add: encode_wire)
qed

end
