(* ===== verification/Stomp_Adapter.thy ===== *)
theory Stomp_Adapter
  imports Stomp_Codec Adapter_Host
begin

text \<open>
  The STOMP client adapter: destination mapping and sniffing (\<open>dest.rs\<close>), configuration and
  credentials (\<open>config.rs\<close>, \<open>secret.rs\<close>), the frames and the handshake (\<open>client.rs\<close>), and the
  bridge between a broker and the engine (\<open>adapter.rs\<close>). What the runtime chooses is explicit: a
  session runs on the sequence of events its \<open>select!\<close> picks, and a write succeeds or fails as the
  argument \<open>wr\<close> says of the frames written so far.
\<close>

section \<open>Destinations\<close>

definition HDR_STOMP_DEST :: string where "HDR_STOMP_DEST = ''stomp.destination''"

datatype DestinationMap = DestinationMap (dest_prefix: string)

definition new_destination_map :: "string \<Rightarrow> DestinationMap" where
  "new_destination_map p = DestinationMap (if suffix ''/'' p then p else p @ ''/'')"

text \<open>\<open>str::trim_start_matches('/')\<close>.\<close>

definition to_stomp :: "DestinationMap \<Rightarrow> string \<Rightarrow> string" where
  "to_stomp m t = dest_prefix m @ dropWhile (\<lambda>c. c = CHR ''/'') t"

definition from_stomp :: "DestinationMap \<Rightarrow> string \<Rightarrow> string option" where
  "from_stomp m dest =
     (case strip_prefix (dest_prefix m) dest of
        None \<Rightarrow> None
      | Some s \<Rightarrow> if s = [] then None else Some s)"

definition default_destination_map :: DestinationMap where
  "default_destination_map = new_destination_map ''/topic/''"

definition inbound_route :: "string \<Rightarrow> string option \<Rightarrow> RouteKey" where
  "inbound_route t hint = (case hint of
     Some h \<Rightarrow> if h \<noteq> [] then route_typed t h else route_topic t
   | None \<Rightarrow> route_topic t)"

definition sniff_type_hint :: "json_parser \<Rightarrow> xml_parser \<Rightarrow> bytes \<Rightarrow> string option" where
  "sniff_type_hint jp xp data =
     (if \<not> utf8_valid data then None
      else let text = trim_start data in
           if prefix ''{'' text then
             (case jp text of Inl _ \<Rightarrow> None | Inr v \<Rightarrow> single_key v)
           else if prefix ''<'' text then xml_root_local_name xp text
           else None)"

definition sniff_content_type :: "bytes \<Rightarrow> string option \<Rightarrow> ContentType" where
  "sniff_content_type data hdr =
     (let mime = (case hdr of None \<Rightarrow> [] | Some ct \<Rightarrow> trim (hd (split_on (CHR '';'') ct))) in
      if mime \<noteq> [] then ContentType mime
      else if utf8_valid data \<and> prefix ''{'' (trim_start data) then ct_json
      else if utf8_valid data \<and> prefix ''<'' (trim_start data) then ct_xml
      else octet_stream)"

section \<open>Configuration\<close>

datatype Secret = Secret (expose: string)

definition secret_is_empty :: "Secret \<Rightarrow> bool" where
  "secret_is_empty s \<longleftrightarrow> expose s = []"

definition debug_secret :: "Secret \<Rightarrow> string" where
  "debug_secret s = (if expose s = [] then ''Secret('' @ [QUOTE, QUOTE] @ '')'' else ''Secret(<redacted>)'')"

definition show_secret :: "Secret \<Rightarrow> string" where
  "show_secret s = (if expose s = [] then [] else ''<redacted>'')"

record StompConfig =
  broker :: string
  host :: string
  login :: "string option"
  passcode :: "Secret option"
  destination_prefix :: string
  topics :: "string list"
  unwrap_ma_payloads :: bool
  reconnect :: bool
  reconnect_delay :: nat
  connect_timeout :: nat
  suppress_echo :: bool
  on_panic :: OnPanic
  max_frame_size :: nat
  tls :: bool

definition default_stomp_config :: StompConfig where
  "default_stomp_config =
     \<lparr>broker = ''127.0.0.1:61613'', host = ''/'', login = None, passcode = None,
      destination_prefix = ''/topic/'', topics = [''demo''], unwrap_ma_payloads = True, reconnect = True,
      reconnect_delay = from_secs 1, connect_timeout = from_secs 5, suppress_echo = True, on_panic = Abort,
      max_frame_size = DEFAULT_MAX_FRAME_SIZE, tls = False\<rparr>"

section \<open>Frames and handshake\<close>

definition show_codec_error :: "CodecError \<Rightarrow> string" where
  "show_codec_error e = (case e of
     NotUtf8 \<Rightarrow> ''STOMP frame is not valid UTF-8 in command or headers''
   | MissingCommand \<Rightarrow> ''STOMP frame missing command''
   | BadHeader \<Rightarrow> ''STOMP header is missing '' @ [CHR 0x27] @ '':'' @ [CHR 0x27]
   | BadEscape \<Rightarrow> ''STOMP header has invalid escape''
   | BadContentLength \<Rightarrow> ''STOMP content-length is not a number''
   | NulInHeaders \<Rightarrow> ''STOMP header block contains a NUL byte''
   | FrameTooLarge m \<Rightarrow> ''STOMP frame exceeds the '' @ show_nat m @ '' byte limit''
   | MissingNull \<Rightarrow> ''STOMP frame missing NUL terminator''
   | Io m \<Rightarrow> ''I/O error: '' @ m)"

definition subscribe_frame :: "string \<Rightarrow> string \<Rightarrow> Frame" where
  "subscribe_frame i dest =
     frame_with_header ''ack'' ''auto'' (frame_with_header ''destination'' dest
       (frame_with_header ''id'' i (new_frame ''SUBSCRIBE'')))"

definition send_frame :: "string \<Rightarrow> (string \<times> string) list \<Rightarrow> bytes \<Rightarrow> Frame" where
  "send_frame dest hs b =
     (let f = frame_with_header ''destination'' dest (new_frame ''SEND'')
      in f\<lparr>fheaders := fheaders f @ hs, body := b\<rparr>)"

definition disconnect_frame :: Frame where
  "disconnect_frame = new_frame ''DISCONNECT''"

definition connect_frame :: "StompConfig \<Rightarrow> Frame" where
  "connect_frame cfg =
     (let f = frame_with_header ''heart-beat'' ''0,0'' (frame_with_header ''host'' (host cfg)
                (frame_with_header ''accept-version'' ''1.2'' (new_frame ''CONNECT'')))
      in case login cfg of
           None \<Rightarrow> f
         | Some l \<Rightarrow>
             (let f1 = frame_with_header ''login'' l f
              in case passcode cfg of None \<Rightarrow> f1 | Some p \<Rightarrow> frame_with_header ''passcode'' (expose p) f1))"

text \<open>The message of an ERROR frame: its \<open>message\<close> header, else its body, else the fallback.\<close>

definition error_message :: "string \<Rightarrow> Frame \<Rightarrow> string" where
  "error_message fallback f =
     (case header f ''message'' of
        Some m \<Rightarrow> m
      | None \<Rightarrow> if utf8_valid (body f) then body f else fallback)"

record 'w Bridge =
  world :: "'w World"
  sent :: "Frame list"

type_synonym writer = "Frame list \<Rightarrow> Frame \<Rightarrow> CodecError + unit"

definition writer_send :: "writer \<Rightarrow> Frame \<Rightarrow> 'w Bridge \<Rightarrow> (CodecError + unit) \<times> 'w Bridge" where
  "writer_send wr f B =
     (case wr (sent B) f of
        Inl e \<Rightarrow> (Inl e, B)
      | Inr _ \<Rightarrow> (Inr (), B\<lparr>sent := sent B @ [f]\<rparr>))"

text \<open>\<open>dial\<close> is the outcome of the TCP connect and of the TLS handshake; \<open>reply\<close> is what the reader
  answers within the timeout.\<close>

definition connect ::
  "StompConfig \<Rightarrow> CodecError + unit \<Rightarrow> writer \<Rightarrow> (CodecError + Frame option) option \<Rightarrow> 'w Bridge \<Rightarrow>
     (CodecError + unit) \<times> 'w Bridge" where
  "connect cfg dial wr reply B =
     (case dial of
        Inl e \<Rightarrow> (Inl e, B)
      | Inr _ \<Rightarrow>
          (case writer_send wr (connect_frame cfg) B of
             (Inl e, B1) \<Rightarrow> (Inl e, B1)
           | (Inr _, B1) \<Rightarrow>
               (case reply of
                  None \<Rightarrow> (Inl (Io ''STOMP CONNECTED timed out''), B1)
                | Some (Inl e) \<Rightarrow> (Inl e, B1)
                | Some (Inr None) \<Rightarrow> (Inl (Io ''broker closed during CONNECT''), B1)
                | Some (Inr (Some f)) \<Rightarrow>
                    (if command f = ''CONNECTED'' then (Inr (), B1)
                     else if command f = ''ERROR'' then
                       (Inl (Io (''STOMP ERROR: '' @ error_message ''ERROR'' f)), B1)
                     else (Inl (Io (''expected CONNECTED, got '' @ command f)), B1)))))"

section \<open>Inbound\<close>

definition stamp :: "AdapterId \<Rightarrow> string \<Rightarrow> Frame \<Rightarrow> Envelope \<Rightarrow> Envelope" where
  "stamp a dest f e =
     (let e1 = with_header HDR_STOMP_DEST dest (with_origin a e)
      in case header f ''message-id'' of None \<Rightarrow> e1 | Some mid \<Rightarrow> with_header ''stomp.message-id'' mid e1)"

text \<open>The envelopes an inbound MESSAGE becomes, in the order they are published. The last component
  is how many ids were drawn.\<close>

definition inbound_envelopes ::
  "'w Host \<Rightarrow> StompConfig \<Rightarrow> AdapterId \<Rightarrow> DestinationMap \<Rightarrow> Frame \<Rightarrow> 'w World \<Rightarrow> string + Envelope list \<times> nat" where
  "inbound_envelopes h cfg a m f W =
     res_bind (ok_or (header f ''destination'') ''MESSAGE missing destination'') (\<lambda>dest.
     res_bind (ok_or (case header f HDR_TOPIC of Some t \<Rightarrow> Some t | None \<Rightarrow> from_stomp m dest)
                 (''destination '' @ dest @ '' is outside '' @ dest_prefix m)) (\<lambda>tp.
     let hint = (case header f HDR_TYPE_HINT of
                   Some t \<Rightarrow> Some t | None \<Rightarrow> sniff_type_hint (json_parse h) (xml_parse h) (body f));
         ct = sniff_content_type (body f) (header f ''content-type'');
         r = inbound_route tp hint
     in if unwrap_ma_payloads cfg \<and> wrapper_kind (json_parse h) (xml_parse h) (body f) \<noteq> None then
          res_bind (map_err show_agra_error
              (unwrap (json_parse h) (xml_parse h) (fresh_id h W 0, fresh_id h W 1) tp (body f))) (\<lambda>peeled.
            Inr ([stamp a dest f (wrapper peeled), stamp a dest f (inner peeled)], 2))
        else Inr ([stamp a dest f (with_content_type ct (new_envelope (fresh_id h W 0) r (body f)))], 1)))"

definition inbound_publish ::
  "'w Host \<Rightarrow> StompConfig \<Rightarrow> AdapterId \<Rightarrow> DestinationMap \<Rightarrow> Frame \<Rightarrow> 'w World \<Rightarrow> (string + unit) \<times> 'w World" where
  "inbound_publish h cfg a m f W =
     (case inbound_envelopes h cfg a m f W of
        Inl e \<Rightarrow> (Inl e, W)
      | Inr (es, n) \<Rightarrow> (Inr (), publish_all h es (W\<lparr>drawn := drawn W + n\<rparr>)))"

definition handle_frame ::
  "'w Host \<Rightarrow> StompConfig \<Rightarrow> AdapterId \<Rightarrow> DestinationMap \<Rightarrow> Frame \<Rightarrow> 'w World \<Rightarrow> (string + unit) \<times> 'w World" where
  "handle_frame h cfg a m f W =
     (if command f = ''MESSAGE'' then inbound_publish h cfg a m f W
      else if command f = ''ERROR'' then (Inl (''broker ERROR: '' @ error_message ''broker ERROR'' f), W)
      else (Inr (), W))"

section \<open>Outbound\<close>

definition outbound_headers :: "'w Host \<Rightarrow> AdapterId \<Rightarrow> Envelope \<Rightarrow> (string \<times> string) list" where
  "outbound_headers h a e =
     [(''content-type'', ct_str (content_type e)), (HDR_ORIGIN, adapter_str a),
      (HDR_TOPIC, topic (route e)), (HDR_ID, uuid_string h (as_uuid (env_id e)))] @
     (case type_hint (route e) of None \<Rightarrow> [] | Some hint \<Rightarrow> [(HDR_TYPE_HINT, hint)]) @
     filter (\<lambda>(k, v). \<not> (k = HDR_ORIGIN \<or> k = HDR_STOMP_DEST \<or> prefix ''stomp.'' k)) (headers e)"

definition outbound_frame :: "'w Host \<Rightarrow> AdapterId \<Rightarrow> DestinationMap \<Rightarrow> Envelope \<Rightarrow> Frame" where
  "outbound_frame h a m e =
     send_frame (to_stomp m (topic (route e))) (outbound_headers h a e) (payload e)"

definition forward_outbound ::
  "'w Host \<Rightarrow> StompConfig \<Rightarrow> AdapterId \<Rightarrow> writer \<Rightarrow> DestinationMap \<Rightarrow> Delivery \<Rightarrow> 'w Bridge \<Rightarrow> (string + unit) \<times> 'w Bridge" where
  "forward_outbound h cfg a wr m d B =
     (if suppress_echo cfg \<and> is_echo_of (del_envelope d) a then (Inr (), B)
      else case writer_send wr (outbound_frame h a m (del_envelope d)) B of
        (r, B1) \<Rightarrow> (map_err show_codec_error r, B1))"

section \<open>A session\<close>

datatype event = Shutdown | FromBroker "CodecError + Frame option" | FromEngine "Delivery option"

fun drive_session ::
  "'w Host \<Rightarrow> StompConfig \<Rightarrow> AdapterId \<Rightarrow> writer \<Rightarrow> DestinationMap \<Rightarrow> event list \<Rightarrow> 'w Bridge \<Rightarrow>
     (AdapterError + unit) option \<times> 'w Bridge" where
  "drive_session h cfg a wr m [] B = (None, B)"
| "drive_session h cfg a wr m (ev # evs) B =
     (case ev of
        Shutdown \<Rightarrow> (Some (Inr ()), B)
      | FromBroker (Inr (Some f)) \<Rightarrow>
          drive_session h cfg a wr m evs (B\<lparr>world := snd (handle_frame h cfg a m f (world B))\<rparr>)
      | FromBroker (Inr None) \<Rightarrow> (Some (Inl (failed a ''broker closed the connection'')), B)
      | FromBroker (Inl e) \<Rightarrow> (Some (Inl (failed a (show_codec_error e))), B)
      | FromEngine None \<Rightarrow> (Some (Inr ()), B)
      | FromEngine (Some d) \<Rightarrow>
          (case forward_outbound h cfg a wr m d B of
             (Inl e, B1) \<Rightarrow> (Some (Inl (failed a e)), B1)
           | (Inr _, B1) \<Rightarrow> drive_session h cfg a wr m evs B1))"

fun subscribe_topics ::
  "AdapterId \<Rightarrow> writer \<Rightarrow> DestinationMap \<Rightarrow> chan \<Rightarrow> nat \<Rightarrow> string list \<Rightarrow> 'w Bridge \<Rightarrow>
     (AdapterError + unit) \<times> 'w Bridge" where
  "subscribe_topics a wr m c i [] B = (Inr (), B)"
| "subscribe_topics a wr m c i (t # ts) B =
     (let dest = to_stomp m t in
      case writer_send wr (subscribe_frame (''sub-'' @ show_nat i) dest) B of
        (Inl e, B1) \<Rightarrow> (Inl (failed a (''SUBSCRIBE '' @ dest @ '': '' @ show_codec_error e)), B1)
      | (Inr _, B1) \<Rightarrow>
          (case subscribe (engine (world B1)) a (SubId (''stomp-out-'' @ show_nat i)) (route_topic t) c of
             Inl e \<Rightarrow> (Inl (failed a (show_engine_error e)), B1)
           | Inr (eng, key) \<Rightarrow>
               subscribe_topics a wr m c (Suc i) ts (B1\<lparr>world := (world B1)\<lparr>engine := eng\<rparr>\<rparr>)))"

text \<open>\<open>c\<close> is the channel the session opens for its deliveries. \<open>None\<close> is a session still running
  when its events are used up.\<close>

definition session ::
  "'w Host \<Rightarrow> StompConfig \<Rightarrow> AdapterId \<Rightarrow> CodecError + unit \<Rightarrow> writer \<Rightarrow> (CodecError + Frame option) option \<Rightarrow>
     chan \<Rightarrow> event list \<Rightarrow> 'w Bridge \<Rightarrow> (AdapterError + unit) option \<times> 'w Bridge" where
  "session h cfg a dial wr reply c evs B =
     (let m = new_destination_map (destination_prefix cfg) in
      case connect cfg dial wr reply B of
        (Inl e, B1) \<Rightarrow> (Some (Inl (failed a (''connect '' @ broker cfg @ '': '' @ show_codec_error e))), B1)
      | (Inr _, B1) \<Rightarrow>
          (case subscribe_topics a wr m c 0 (topics cfg) (B1\<lparr>world := drop_subs h a (world B1)\<rparr>) of
             (Inl e, B2) \<Rightarrow> (Some (Inl e), B2)
           | (Inr _, B2) \<Rightarrow>
               (case drive_session h cfg a wr m evs B2 of
                  (None, B3) \<Rightarrow> (None, B3)
                | (Some r, B3) \<Rightarrow>
                    (let B4 = snd (writer_send wr disconnect_frame B3)
                     in (Some r, B4\<lparr>world := drop_subs h a (world B4)\<rparr>)))))"

definition serve_inner :: "StompConfig \<Rightarrow> AdapterId \<Rightarrow> turn list \<Rightarrow> (AdapterError + unit) option \<times> nat" where
  "serve_inner cfg a ts = supervise (reconnect cfg) (on_panic cfg) a ts"

section \<open>Destinations\<close>

lemma dest_prefix_slash: "\<exists>p. dest_prefix (new_destination_map p0) = p @ ''/''"
  by (auto simp: new_destination_map_def suffix_def)

text \<open>Topic and destination. A topic that is not just slashes comes back from its destination
  without its leading slashes, so a topic without one comes back as it is, and so does every
  destination whose topic has none; destinations outside the prefix and the bare prefix are
  refused.\<close>

theorem destination_round_trip:
  "from_stomp m (to_stomp m t) = (let u = dropWhile (\<lambda>c. c = CHR ''/'') t in if u = [] then None else Some u) \<and>
   (from_stomp m d = Some s \<longleftrightarrow> s \<noteq> [] \<and> d = dest_prefix m @ s) \<and>
   (from_stomp m d = Some (c # u) \<longrightarrow> (to_stomp m (c # u) = d \<longleftrightarrow> c \<noteq> CHR ''/''))"
proof (intro conjI impI)
  show "from_stomp m (to_stomp m t) = (let u = dropWhile (\<lambda>c. c = CHR ''/'') t in if u = [] then None else Some u)"
    by (simp add: from_stomp_def to_stomp_def Let_def)
  show iff: "from_stomp m d = Some s \<longleftrightarrow> s \<noteq> [] \<and> d = dest_prefix m @ s" for s
    by (auto simp: from_stomp_def strip_prefix_Some split: option.splits if_splits)
  assume "from_stomp m d = Some (c # u)"
  then have d: "d = dest_prefix m @ c # u" using iff by simp
  have "length (dropWhile (\<lambda>c. c = CHR ''/'') u) \<le> length u" by (rule length_dropWhile_le)
  then show "to_stomp m (c # u) = d \<longleftrightarrow> c \<noteq> CHR ''/''"
    by (auto simp: d to_stomp_def dest: arg_cong [where f = length])
qed

theorem destination_round_trip_witness:
  "from_stomp default_destination_map ''/topic/demo'' = Some ''demo'' \<and>
   to_stomp default_destination_map ''demo'' = ''/topic/demo''"
proof -
  have "dest_prefix default_destination_map = ''/topic/''"
    by (simp add: default_destination_map_def new_destination_map_def suffix_def)
  then show ?thesis
    using destination_round_trip [of default_destination_map "''demo''" "''/topic/demo''" "''demo''" "CHR ''d''" "''emo''"]
    by simp
qed

section \<open>Echo suppression\<close>

lemma stamp_simps [simp]:
  "origin (stamp a dest f e) = Some (adapter_str a)" "payload (stamp a dest f e) = payload e"
  "route (stamp a dest f e) = route e" "content_type (stamp a dest f e) = content_type e"
  by (auto simp: stamp_def HDR_STOMP_DEST_def HDR_ORIGIN_def Let_def split: option.splits)

lemma inbound_stamped:
  "inbound_envelopes h cfg a m f W = Inr (es, n) \<Longrightarrow> e \<in> set es \<Longrightarrow> is_echo_of e a"
  by (auto simp: inbound_envelopes_def res_elims Let_def is_echo_of_def split: if_splits)

lemma handle_frame_publishes:
  "\<exists>es n. snd (handle_frame h cfg a m f W) = publish_all h es (W\<lparr>drawn := drawn W + n\<rparr>) \<and> (\<forall>e \<in> set es. is_echo_of e a)"
proof (cases "command f = ''MESSAGE'' \<and> (\<exists>es n. inbound_envelopes h cfg a m f W = Inr (es, n))")
  case True
  then obtain es n where es: "inbound_envelopes h cfg a m f W = Inr (es, n)" by blast
  then show ?thesis
    using True inbound_stamped [OF es]
    by (intro exI [where x = es] exI [where x = n]) (simp add: handle_frame_def inbound_publish_def)
next
  case False
  then have "snd (handle_frame h cfg a m f W) = W"
    by (auto simp: handle_frame_def inbound_publish_def split: sum.splits)
  then show ?thesis by (intro exI [where x = "[]"] exI [where x = 0]) (simp add: publish_all_def)
qed

interpretation stomp_bridge: stamped_bridge h a "\<lambda>f W. snd (handle_frame h cfg a m f W)" "\<lambda>_. True"
  "\<lambda>d B. if suppress_echo cfg then forward_outbound h cfg a wr m d B else (Inr (), B)" "\<lambda>B. (Inr (), B)"
  for h a cfg m wr
proof
  fix f :: Frame and W
  show "\<exists>es n. snd (handle_frame h cfg a m f W) = publish_all h es (W\<lparr>drawn := drawn W + n\<rparr>) \<and>
      (\<forall>e \<in> set es. is_echo_of e a \<and> True)"
    using handle_frame_publishes by simp
qed (simp add: forward_outbound_def)

text \<open>C12: No echo. Whatever frame the broker sends, every delivery it causes on any channel carries
  this adapter's origin, so with echo suppression on the adapter writes nothing for it: a MESSAGE is
  never sent back to the broker it came from.\<close>

theorem stomp_no_echo:
  assumes "mpsc (try_send h) queue capacity shut" and "suppress_echo cfg"
    and "handle_frame h cfg a m f W = (r, W')"
  shows "\<exists>ds. queue (chans W') b = queue (chans W) b @ ds \<and>
    (\<forall>d \<in> set ds. forward_outbound h cfg a wr m d B = (Inr (), B))"
  using stomp_bridge.no_echo [OF assms(1), where a = a and cfg = cfg and m = m and i = f and W = W and b = b and wr = wr and s = B]
    assms(2,3) by simp

definition demo_host :: "Delivery bq Host" where
  "demo_host = \<lparr>try_send = bq_send, key_order = sorted_list_of_fset, sub_order = sorted_list_of_fset,
     json_parse = (\<lambda>s. Inl ''no''), json_print = (\<lambda>v. Inl ''no''), xml_parse = no_xml, new_v4 = id,
     uuid_string = show_nat\<rparr>"

lemma demo_host_ok: "host_ok demo_host" "mpsc (try_send demo_host) bq_queue bq_capacity bq_closed"
  by (simp_all add: demo_host_def host_ok_def hash_order_sorted mpsc_bq)

definition demo_message :: Frame where
  "demo_message = frame_with_body ''x'' (frame_with_header ''destination'' ''/topic/demo'' (new_frame ''MESSAGE''))"

theorem stomp_no_echo_witness:
  "\<exists>W' ds. handle_frame demo_host default_stomp_config (AdapterId ''stomp'') default_destination_map demo_message
      \<lparr>engine = demo_engine, chans = demo_world, drawn = 0\<rparr> = (Inr (), W') \<and>
    bq_queue (chans W') 1 = ds \<and>
    (\<forall>d \<in> set ds. forward_outbound demo_host default_stomp_config (AdapterId ''stomp'') (\<lambda>_ _. Inr ()) default_destination_map d
        \<lparr>world = W', sent = []\<rparr> = (Inr (), \<lparr>world = W', sent = []\<rparr>))"
proof -
  let ?h = "handle_frame demo_host default_stomp_config (AdapterId ''stomp'') default_destination_map demo_message
      \<lparr>engine = demo_engine, chans = demo_world, drawn = 0\<rparr>"
  have on: "suppress_echo default_stomp_config" by (simp add: default_stomp_config_def)
  have ok: "fst ?h = Inr ()"
    by (simp add: handle_frame_def inbound_publish_def inbound_envelopes_def demo_message_def new_frame_def header_def
        frame_with_header_def frame_with_body_def hdr_defs default_destination_map_def new_destination_map_def
        from_stomp_def strip_prefix_def Let_def wrapper_kind_def trim_start_def strip_any.simps unicode_ws_def suffix_def byte_def)
  have "bq_queue demo_world 1 = []" by (simp add: demo_world_def bq_queue_def)
  then show ?thesis
    using stomp_no_echo [OF demo_host_ok(2) on, where a = "AdapterId ''stomp''" and m = default_destination_map
        and f = demo_message and W = "\<lparr>engine = demo_engine, chans = demo_world, drawn = 0\<rparr>" and r = "Inr ()"
        and W' = "snd ?h" and b = 1 and wr = "\<lambda>_ _. Inr ()" and B = "\<lparr>world = snd ?h, sent = []\<rparr>"] ok
    by (cases ?h) auto
qed

section \<open>What a session writes\<close>

fun deliveries :: "event list \<Rightarrow> Delivery list" where
  "deliveries [] = []"
| "deliveries (FromEngine (Some d) # evs) = d # deliveries evs"
| "deliveries (_ # evs) = deliveries evs"

lemma forward_outbound_cases:
  "forward_outbound h cfg a wr m d B = (r, B') \<Longrightarrow>
     world B' = world B \<and>
     (sent B' = sent B \<or> sent B' = sent B @ [outbound_frame h a m (del_envelope d)] \<and>
        \<not> (suppress_echo cfg \<and> is_echo_of (del_envelope d) a))"
  by (auto simp: forward_outbound_def writer_send_def split: if_splits sum.splits prod.splits)

lemma event_cases:
  obtains (stop) "ev = Shutdown \<or> (\<exists>e. ev = FromBroker (Inl e)) \<or> ev = FromBroker (Inr None) \<or> ev = FromEngine None"
    | (frame) f where "ev = FromBroker (Inr (Some f))"
    | (delivery) d where "ev = FromEngine (Some d)"
proof (cases ev)
  case (FromBroker x)
  then show thesis using stop frame by (cases x) (metis option.exhaust)+
next
  case (FromEngine x)
  then show thesis using stop delivery by (cases x) auto
qed (use stop in blast)

text \<open>A session writes to the broker only what the engine delivered to it, in that order, each
  delivery at most once, and never a delivery that originated here when echo suppression is on.\<close>

theorem stomp_session_writes:
  assumes "drive_session h cfg a wr m evs B = (r, B')"
  shows "\<exists>ds. sent B' = sent B @ map (\<lambda>d. outbound_frame h a m (del_envelope d)) ds \<and>
    subseq ds (deliveries evs) \<and>
    list_all (\<lambda>d. \<not> (suppress_echo cfg \<and> is_echo_of (del_envelope d) a)) ds"
  using assms
proof (induction evs arbitrary: B)
  case Nil
  then show ?case by (intro exI [where x = "[]"]) simp
next
  case (Cons ev evs)
  show ?case
  proof (cases ev rule: event_cases)
    case stop
    then have "sent B' = sent B" using Cons.prems by auto
    then show ?thesis by (intro exI [where x = "[]"]) simp
  next
    case (frame f)
    then have "drive_session h cfg a wr m evs (B\<lparr>world := snd (handle_frame h cfg a m f (world B))\<rparr>) = (r, B')"
      using Cons.prems by simp
    from Cons.IH [OF this] show ?thesis by (simp add: frame)
  next
    case (delivery d)
    obtain q B1 where q: "forward_outbound h cfg a wr m d B = (q, B1)" by (cases "forward_outbound h cfg a wr m d B")
    define now where "now = (if sent B1 = sent B then [] else [d])"
    have now: "sent B1 = sent B @ map (\<lambda>d. outbound_frame h a m (del_envelope d)) now"
      "list_all (\<lambda>d. \<not> (suppress_echo cfg \<and> is_echo_of (del_envelope d) a)) now" "subseq now [d]"
      using forward_outbound_cases [OF q] by (auto simp: now_def)
    show ?thesis
    proof (cases q)
      case (Inl e)
      then have "B' = B1" using Cons.prems delivery q by simp
      then show ?thesis
        using now delivery by (intro exI [where x = now]) (auto simp: now_def)
    next
      case (Inr u)
      then have "drive_session h cfg a wr m evs B1 = (r, B')" using Cons.prems delivery q by simp
      from Cons.IH [OF this] obtain ds where ds: "sent B' = sent B1 @ map (\<lambda>d. outbound_frame h a m (del_envelope d)) ds"
        "subseq ds (deliveries evs)" "list_all (\<lambda>d. \<not> (suppress_echo cfg \<and> is_echo_of (del_envelope d) a)) ds"
        by blast
      have "subseq (now @ ds) ([d] @ deliveries evs)"
        using now(3) ds(2) by (rule list_emb_append_mono)
      then show ?thesis
        using delivery now ds by (intro exI [where x = "now @ ds"]) simp
    qed
  qed
qed

definition demo_delivery :: "string \<Rightarrow> Delivery" where
  "demo_delivery o' = \<lparr>del_sub = SubId ''stomp-out-0'', del_envelope = with_origin (AdapterId o') demo_envelope\<rparr>"

definition demo_bridge :: "Delivery bq Bridge" where
  "demo_bridge = \<lparr>world = \<lparr>engine = demo_engine, chans = demo_world, drawn = 0\<rparr>, sent = []\<rparr>"

theorem stomp_session_writes_witness:
  "\<exists>r B' (ds :: Delivery list). drive_session demo_host default_stomp_config (AdapterId ''stomp'') (\<lambda>_ _. Inr ()) default_destination_map
     [FromEngine (Some (demo_delivery ''stomp'')), FromEngine (Some (demo_delivery ''owp'')), Shutdown] demo_bridge = (r, B') \<and>
   sent B' = map (\<lambda>d. outbound_frame demo_host (AdapterId ''stomp'') default_destination_map (del_envelope d)) ds \<and>
   length (sent B') = 1 \<and> list_all (\<lambda>d. \<not> is_echo_of (del_envelope d) (AdapterId ''stomp'')) ds"
proof -
  let ?s = "drive_session demo_host default_stomp_config (AdapterId ''stomp'') (\<lambda>_ _. Inr ()) default_destination_map
     [FromEngine (Some (demo_delivery ''stomp'')), FromEngine (Some (demo_delivery ''owp'')), Shutdown] demo_bridge"
  have "length (sent (snd ?s)) = 1"
    by (simp add: forward_outbound_def default_stomp_config_def demo_delivery_def is_echo_of_def writer_send_def demo_bridge_def)
  moreover have "suppress_echo default_stomp_config" by (simp add: default_stomp_config_def)
  moreover have "sent demo_bridge = []" by (simp add: demo_bridge_def)
  moreover obtain ds :: "Delivery list" where "sent (snd ?s) = sent demo_bridge @
      map (\<lambda>d. outbound_frame demo_host (AdapterId ''stomp'') default_destination_map (del_envelope d)) ds"
    "list_all (\<lambda>d. \<not> (suppress_echo default_stomp_config \<and> is_echo_of (del_envelope d) (AdapterId ''stomp''))) ds"
    using stomp_session_writes [OF prod.collapse [symmetric, of ?s]] by blast
  ultimately have "?s = (fst ?s, snd ?s) \<and>
      sent (snd ?s) = map (\<lambda>d. outbound_frame demo_host (AdapterId ''stomp'') default_destination_map (del_envelope d)) ds \<and>
      length (sent (snd ?s)) = 1 \<and> list_all (\<lambda>d. \<not> is_echo_of (del_envelope d) (AdapterId ''stomp'')) ds"
    by (simp del: drive_session.simps)
  then show ?thesis by blast
qed

text \<open>A broker ERROR frame does not end the session: it is dropped like any other frame that cannot
  be published.\<close>

lemma error_frame_ignored:
  "command f = ''ERROR'' \<Longrightarrow>
   drive_session h cfg a wr m (FromBroker (Inr (Some f)) # evs) B = drive_session h cfg a wr m evs B"
  by (simp add: handle_frame_def)

section \<open>From one gateway to the next\<close>

lemma header_find [simp]:
  "header \<lparr>command = c, fheaders = (k, v) # hs, body = b\<rparr> n =
     (if k = n then Some v else header \<lparr>command = c, fheaders = hs, body = b\<rparr> n)"
  by (simp add: header_def)

definition plain_mime :: "string \<Rightarrow> bool" where
  "plain_mime s \<longleftrightarrow> s \<noteq> [] \<and> trim (hd (split_on (CHR '';'') s)) = s"

lemma outbound_header:
  "header (outbound_frame h a m e) ''destination'' = Some (to_stomp m (topic (route e)))"
  "header (outbound_frame h a m e) HDR_TOPIC = Some (topic (route e))"
  "header (outbound_frame h a m e) ''content-type'' = Some (ct_str (content_type e))"
  "type_hint (route e) = Some hint \<Longrightarrow> header (outbound_frame h a m e) HDR_TYPE_HINT = Some hint"
  by (simp_all add: outbound_frame_def send_frame_def new_frame_def frame_with_header_def outbound_headers_def hdr_defs Let_def)

text \<open>The headers the receiving side reads.\<close>

definition relayed :: "Frame \<Rightarrow> Frame \<Rightarrow> bool" where
  "relayed f g \<longleftrightarrow> command g = ''MESSAGE'' \<and> body g = body f \<and>
     list_all (\<lambda>n. header g n = header f n) [''destination'', HDR_TOPIC, HDR_TYPE_HINT, ''content-type'']"

text \<open>A typed message crosses two gateways intact. When a broker relays the frame one STOMP adapter
  wrote as a MESSAGE with the same body and the same headers, the adapter that receives it publishes
  one envelope with the same topic, type hint, payload and content type, stamped with its own
  origin, whatever destination prefixes the two sides use.\<close>

lemma relayed_inbound:
  assumes "relayed (outbound_frame h a m e) g"
    and "type_hint (route e) = Some hint" "hint \<noteq> []" "plain_mime (ct_str (content_type e))"
    and "\<not> unwrap_ma_payloads cfg \<or> wrapper_kind (json_parse h') (xml_parse h') (payload e) = None"
  shows "\<exists>e'. inbound_envelopes h' cfg b m' g W = Inr ([e'], 1) \<and> route e' = route e \<and> payload e' = payload e \<and>
    content_type e' = content_type e \<and> origin e' = Some (adapter_str b)"
proof -
  have g: "header g ''destination'' = Some (to_stomp m (topic (route e)))" "header g HDR_TOPIC = Some (topic (route e))"
    "header g HDR_TYPE_HINT = Some hint" "header g ''content-type'' = Some (ct_str (content_type e))" "body g = payload e"
    using assms(1) outbound_header [where h = h and a = a and m = m and e = e] outbound_header(4) [OF assms(2), where h = h and a = a and m = m]
    by (simp_all add: relayed_def outbound_frame_def send_frame_def Let_def)
  have "sniff_content_type (payload e) (Some (ct_str (content_type e))) = content_type e"
    using assms(4) by (simp add: sniff_content_type_def plain_mime_def)
  moreover have "inbound_route (topic (route e)) (Some hint) = route e"
    using assms(2,3) by (simp add: inbound_route_def route_typed_def)
  ultimately show ?thesis
    using g assms(5) by (auto simp: inbound_envelopes_def)
qed

text \<open>What the adapter relies on of a broker: a frame it relays keeps its body and the headers that the
  receiving side reads. Then a typed message gets across.\<close>

locale stomp_relay =
  fixes relays :: "Frame \<Rightarrow> Frame \<Rightarrow> bool"
  assumes relays_intact: "relays f g \<Longrightarrow> relayed f g"
begin

lemma crosses:
  assumes "relays (outbound_frame h a m e) g"
    and "type_hint (route e) = Some hint" "hint \<noteq> []" "plain_mime (ct_str (content_type e))"
    and "\<not> unwrap_ma_payloads cfg \<or> wrapper_kind (json_parse h') (xml_parse h') (payload e) = None"
  shows "\<exists>e'. handle_frame h' cfg b m' g W = (Inr (), publish_all h' [e'] (W\<lparr>drawn := drawn W + 1\<rparr>)) \<and>
    inbound_envelopes h' cfg b m' g W = Inr ([e'], 1) \<and>
    route e' = route e \<and> payload e' = payload e \<and> content_type e' = content_type e \<and> origin e' = Some (adapter_str b)"
proof -
  have g: "relayed (outbound_frame h a m e) g" using assms(1) by (rule relays_intact)
  obtain e' where "inbound_envelopes h' cfg b m' g W = Inr ([e'], 1)" "route e' = route e" "payload e' = payload e"
    "content_type e' = content_type e" "origin e' = Some (adapter_str b)"
    using relayed_inbound [OF g assms(2-5)] by blast
  then show ?thesis using g by (auto simp: handle_frame_def inbound_publish_def relayed_def)
qed

end

interpretation plain_relay: stomp_relay relayed
  by unfold_locales

section \<open>The life of a session\<close>

lemma writer_send_world [simp]: "world (snd (writer_send wr f B)) = world B"
  by (simp add: writer_send_def split: sum.splits)

lemma writer_send_same: "writer_send wr f B = (r, B') \<Longrightarrow> world B' = world B"
  using writer_send_world [of wr f B] by (simp del: writer_send_world)

lemma connect_world: "connect cfg dial wr reply B = (r, B') \<Longrightarrow> world B' = world B"
  by (auto simp: connect_def dest: writer_send_same split: sum.splits prod.splits option.splits if_splits)

lemma handle_frame_state [simp]: "engine_state (engine (snd (handle_frame h cfg a m f W))) = engine_state (engine W)"
  by (auto simp: handle_frame_def inbound_publish_def split: sum.splits prod.splits)

lemma drive_session_state:
  "drive_session h cfg a wr m evs B = (r, B') \<Longrightarrow> engine_state (engine (world B')) = engine_state (engine (world B))"
proof (induction evs arbitrary: B)
  case (Cons ev evs)
  show ?case
  proof (cases ev rule: event_cases)
    case stop
    then show ?thesis using Cons.prems by auto
  next
    case (frame f)
    then have "drive_session h cfg a wr m evs (B\<lparr>world := snd (handle_frame h cfg a m f (world B))\<rparr>) = (r, B')"
      using Cons.prems by simp
    from Cons.IH [OF this] show ?thesis by simp
  next
    case (delivery d)
    obtain q B1 where q: "forward_outbound h cfg a wr m d B = (q, B1)" by (cases "forward_outbound h cfg a wr m d B")
    then show ?thesis
      using Cons.prems Cons.IH [of B1] delivery forward_outbound_cases [OF q] by (cases q) auto
  qed
qed simp

abbreviation subs_table :: "'w Bridge \<Rightarrow> (SubscriberKey, Subscription) fmap" where
  "subs_table B \<equiv> by_key (engine_state (engine (world B)))"

definition out_key :: "AdapterId \<Rightarrow> nat \<Rightarrow> SubscriberKey" where
  "out_key a i = SubscriberKey a (SubId (''stomp-out-'' @ show_nat i))"

lemma out_key_inj: "out_key a i = out_key a j \<longleftrightarrow> i = j"
  by (simp add: out_key_def show_nat_inj)

lemma subscribe_topics_keeps:
  assumes "subscribe_topics a wr m c i ts B = (r, B')" "world_ok (world B)"
  shows "world_ok (world B') \<and> (\<forall>b. b \<noteq> a \<longrightarrow> subs_of (world B') b = subs_of (world B) b)"
  using assms
proof (induction ts arbitrary: i B)
  case (Cons t ts)
  let ?f = "subscribe_frame (''sub-'' @ show_nat i) (to_stomp m t)"
  obtain q B1 where q: "writer_send wr ?f B = (q, B1)" by (cases "writer_send wr ?f B")
  have W: "world B1 = world B" by (rule writer_send_same [OF q])
  show ?case
  proof (cases "\<exists>u eng key. q = Inr u \<and> subscribe (engine (world B1)) a (SubId (''stomp-out-'' @ show_nat i)) (route_topic t) c = Inr (eng, key)")
    case True
    then obtain u eng key where ok: "q = Inr u" "subscribe (engine (world B1)) a (SubId (''stomp-out-'' @ show_nat i)) (route_topic t) c = Inr (eng, key)"
      by blast
    let ?B = "B1\<lparr>world := (world B1)\<lparr>engine := eng\<rparr>\<rparr>"
    have rec: "subscribe_topics a wr m c (Suc i) ts ?B = (r, B')"
      using Cons.prems(1) q ok by (simp add: Let_def)
    have "world_ok (world ?B)" using eng.sub_inv [OF _ ok(2)] Cons.prems(2) W by (simp add: world_ok_def)
    moreover have "subs_of (world ?B) b = subs_of (world B) b" if "b \<noteq> a" for b
      using eng.sub_Inr [OF ok(2)] W that by (auto simp: subs_of_def)
    ultimately show ?thesis using Cons.IH [OF rec] by auto
  next
    case False
    then have "B' = B1" using Cons.prems(1) q by (auto simp: Let_def split: sum.splits)
    then show ?thesis using W Cons.prems(2) by simp
  qed
qed simp

text \<open>C15: A session that gets through its SUBSCRIBE phase leaves the engine as it found it: however it
  ends, no subscription of this adapter remains, and no other adapter's subscription is touched.\<close>

theorem stomp_session_cleans_up:
  assumes "session h cfg a dial wr reply c evs B = (Some r, B')"
    and "connect cfg dial wr reply B = (Inr (), B1)"
    and "subscribe_topics a wr (new_destination_map (destination_prefix cfg)) c 0 (topics cfg)
           (B1\<lparr>world := drop_subs h a (world B1)\<rparr>) = (Inr (), B2)"
    and "world_ok (world B)" "host_ok h"
  shows "world_ok (world B') \<and> subs_of (world B') a = {} \<and> (\<forall>b. b \<noteq> a \<longrightarrow> subs_of (world B') b = subs_of (world B) b)"
proof -
  let ?m = "new_destination_map (destination_prefix cfg)"
  obtain B3 where drive: "drive_session h cfg a wr ?m evs B2 = (Some r, B3)"
    and B': "B' = (snd (writer_send wr disconnect_frame B3))\<lparr>world := drop_subs h a (world B3)\<rparr>"
    using assms(1-3) by (auto simp: session_def Let_def split: prod.splits option.splits)
  have W1: "world B1 = world B" by (rule connect_world [OF assms(2)])
  have B2: "world_ok (world B2)" "\<And>b. b \<noteq> a \<Longrightarrow> subs_of (world B2) b = subs_of (drop_subs h a (world B)) b"
    using subscribe_topics_keeps [OF assms(3)] drop_subs_ok(1) [OF assms(4,5)] W1 by auto
  show ?thesis
    using session_clean_up [OF assms(4,5) B2 drive_session_state [OF drive]] by (simp add: B')
qed

lemma subscribe_topics_all:
  assumes "\<And>fs f. wr fs f = Inr ()" and "\<And>j. i \<le> j \<Longrightarrow> out_key a j |\<notin>| fmdom (subs_table B)"
  shows "\<exists>B'. subscribe_topics a wr m c i ts B = (Inr (), B') \<and>
    sent B' = sent B @ map (\<lambda>j. subscribe_frame (''sub-'' @ show_nat (i + j)) (to_stomp m (ts ! j))) [0..<length ts] \<and>
    (\<forall>j < length ts. fmlookup (subs_table B') (out_key a (i + j)) = Some \<lparr>sub_route = route_topic (ts ! j), tx = c\<rparr>) \<and>
    (\<forall>k. (\<forall>j < length ts. k \<noteq> out_key a (i + j)) \<longrightarrow> fmlookup (subs_table B') k = fmlookup (subs_table B) k)"
  using assms(2)
proof (induction ts arbitrary: i B)
  case (Cons t ts)
  let ?f = "subscribe_frame (''sub-'' @ show_nat i) (to_stomp m t)"
  let ?B1 = "B\<lparr>sent := sent B @ [?f]\<rparr>"
  have free: "SubscriberKey a (SubId (''stomp-out-'' @ show_nat i)) |\<notin>| fmdom (subs_table ?B1)"
    using Cons.prems [of i] by (simp add: out_key_def)
  obtain eng key where sub: "subscribe (engine (world ?B1)) a (SubId (''stomp-out-'' @ show_nat i)) (route_topic t) c = Inr (eng, key)"
    using eng.sub_succeeds [OF free] by blast
  let ?B2 = "?B1\<lparr>world := (world ?B1)\<lparr>engine := eng\<rparr>\<rparr>"
  have tbl: "by_key (engine_state eng) = fmupd (out_key a i) \<lparr>sub_route = route_topic t, tx = c\<rparr> (subs_table B)"
    using eng.sub_Inr [OF sub] by (simp add: out_key_def)
  have rec: "subscribe_topics a wr m c i (t # ts) B = subscribe_topics a wr m c (Suc i) ts ?B2"
    using sub by (simp add: Let_def writer_send_def assms(1))
  have "out_key a j |\<notin>| fmdom (subs_table ?B2)" if "Suc i \<le> j" for j
    using that Cons.prems [of j] by (simp add: tbl out_key_inj)
  from Cons.IH [of "Suc i" ?B2, OF this] obtain B' where B': "subscribe_topics a wr m c (Suc i) ts ?B2 = (Inr (), B')"
    "sent B' = sent ?B2 @ map (\<lambda>j. subscribe_frame (''sub-'' @ show_nat (Suc i + j)) (to_stomp m (ts ! j))) [0..<length ts]"
    "\<And>j. j < length ts \<Longrightarrow> fmlookup (subs_table B') (out_key a (Suc i + j)) = Some \<lparr>sub_route = route_topic (ts ! j), tx = c\<rparr>"
    "\<And>k. (\<forall>j < length ts. k \<noteq> out_key a (Suc i + j)) \<Longrightarrow> fmlookup (subs_table B') k = fmlookup (subs_table ?B2) k"
    by blast
  have upt: "[0..<length (t # ts)] = 0 # map Suc [0..<length ts]"
    by (simp add: upt_conv_Cons map_Suc_upt del: upt_Suc)
  have "fmlookup (subs_table B') (out_key a (i + j)) = Some \<lparr>sub_route = route_topic ((t # ts) ! j), tx = c\<rparr>"
    if "j < length (t # ts)" for j
    using that B'(3) [of "j - 1"] B'(4) [of "out_key a i"] by (cases j) (auto simp: tbl out_key_inj)
  moreover have "fmlookup (subs_table B') k = fmlookup (subs_table B) k" if "\<forall>j < length (t # ts). k \<noteq> out_key a (i + j)" for k
  proof -
    have "\<forall>j < length ts. k \<noteq> out_key a (Suc i + j)" "k \<noteq> out_key a i"
      using that by (force, fastforce)
    then show ?thesis using B'(4) [of k] by (simp add: tbl)
  qed
  ultimately show ?case
    using B'(1,2) unfolding rec upt by (intro exI [where x = B']) (simp add: o_def)
qed simp

lemma empty_no_key: "subs_of W a = {} \<Longrightarrow> out_key a j |\<notin>| fmdom (by_key (engine_state (engine W)))"
  by (auto simp: subs_of_def out_key_def)

lemma subscribe_phase:
  assumes "\<And>fs f. wr fs f = Inr ()" "command f = ''CONNECTED''" "world_ok (world B)" "host_ok h"
  shows "\<exists>B1 B2. connect cfg (Inr ()) wr (Some (Inr (Some f))) B = (Inr (), B1) \<and>
    subscribe_topics a wr m c 0 (topics cfg) (B1\<lparr>world := drop_subs h a (world B1)\<rparr>) = (Inr (), B2) \<and>
    sent B2 = sent B @ connect_frame cfg #
      map (\<lambda>j. subscribe_frame (''sub-'' @ show_nat j) (to_stomp m (topics cfg ! j))) [0..<length (topics cfg)] \<and>
    subs_of (world B2) a = out_key a ` {..<length (topics cfg)} \<and>
    (\<forall>j < length (topics cfg).
       fmlookup (subs_table B2) (out_key a j) = Some \<lparr>sub_route = route_topic (topics cfg ! j), tx = c\<rparr>)"
proof -
  let ?B1 = "B\<lparr>sent := sent B @ [connect_frame cfg]\<rparr>"
  let ?D = "?B1\<lparr>world := drop_subs h a (world ?B1)\<rparr>"
  have conn: "connect cfg (Inr ()) wr (Some (Inr (Some f))) B = (Inr (), ?B1)"
    using assms(1,2) by (simp add: connect_def writer_send_def)
  have none: "subs_of (world ?D) a = {}" using drop_subs_ok(2) [OF assms(3,4)] by simp
  have "out_key a j |\<notin>| fmdom (subs_table ?D)" for j using empty_no_key [OF none] by simp
  from subscribe_topics_all [of wr 0 a ?D m c "topics cfg", OF assms(1) this]
  obtain B2 where B2: "subscribe_topics a wr m c 0 (topics cfg) ?D = (Inr (), B2)"
    "sent B2 = sent ?D @ map (\<lambda>j. subscribe_frame (''sub-'' @ show_nat j) (to_stomp m (topics cfg ! j))) [0..<length (topics cfg)]"
    "\<And>j. j < length (topics cfg) \<Longrightarrow> fmlookup (subs_table B2) (out_key a j) = Some \<lparr>sub_route = route_topic (topics cfg ! j), tx = c\<rparr>"
    "\<And>k. (\<forall>j < length (topics cfg). k \<noteq> out_key a j) \<Longrightarrow> fmlookup (subs_table B2) k = fmlookup (subs_table ?D) k"
    by auto
  have "k \<in> subs_of (world B2) a \<longleftrightarrow> k \<in> out_key a ` {..<length (topics cfg)}" for k
  proof (cases "\<exists>j < length (topics cfg). k = out_key a j")
    case True
    then obtain j where "j < length (topics cfg)" "k = out_key a j" by blast
    then show ?thesis using B2(3) by (auto simp: subs_of_def out_key_def intro: fmdomI)
  next
    case False
    then have "fmlookup (subs_table B2) k = fmlookup (subs_table ?D) k" using B2(4) by blast
    then have "k \<in> subs_of (world B2) a \<longleftrightarrow> k \<in> subs_of (world ?D) a"
      by (simp add: subs_of_def fmlookup_dom_iff)
    then show ?thesis using none False by auto
  qed
  then have "subs_of (world B2) a = out_key a ` {..<length (topics cfg)}" by blast
  then show ?thesis using conn B2(1-3) by (intro exI [where x = ?B1] exI [where x = B2]) simp
qed

text \<open>A session whose connection holds bridges every configured topic. After the broker accepts
  it, the frames written are CONNECT and then one SUBSCRIBE per topic in order, and this adapter's
  subscriptions are exactly one wildcard subscription per topic, all on the session's channel,
  whatever an earlier session left behind.\<close>

theorem stomp_session_subscribes:
  assumes "\<And>fs f. wr fs f = Inr ()" "command f = ''CONNECTED''" "world_ok (world B)" "host_ok h"
  shows "\<exists>B1 B2. connect cfg (Inr ()) wr (Some (Inr (Some f))) B = (Inr (), B1) \<and>
    subscribe_topics a wr m c 0 (topics cfg) (B1\<lparr>world := drop_subs h a (world B1)\<rparr>) = (Inr (), B2) \<and>
    sent B2 = sent B @ connect_frame cfg #
      map (\<lambda>j. subscribe_frame (''sub-'' @ show_nat j) (to_stomp m (topics cfg ! j))) [0..<length (topics cfg)] \<and>
    subs_of (world B2) a = out_key a ` {..<length (topics cfg)} \<and>
    (\<forall>j < length (topics cfg).
       fmlookup (subs_table B2) (out_key a j) = Some \<lparr>sub_route = route_topic (topics cfg ! j), tx = c\<rparr>)"
  by (rule subscribe_phase [OF assms])

definition connected_frame :: Frame where
  "connected_frame = new_frame ''CONNECTED''"

lemma demo_bridge_ok: "world_ok (world demo_bridge)"
  using demo_engine_inv by (simp add: world_ok_def demo_bridge_def)

lemma demo_connected: "command connected_frame = ''CONNECTED''"
  by (simp add: connected_frame_def new_frame_def)

theorem stomp_session_subscribes_witness:
  "\<exists>B2 :: Delivery bq Bridge. subs_of (world B2) (AdapterId ''stomp'') = {out_key (AdapterId ''stomp'') 0} \<and>
    sent B2 = [connect_frame default_stomp_config, subscribe_frame ''sub-0'' (to_stomp default_destination_map ''demo'')] \<and>
    fmlookup (subs_table B2) (out_key (AdapterId ''stomp'') 0) = Some \<lparr>sub_route = route_topic ''demo'', tx = 5\<rparr>"
proof -
  have t: "topics default_stomp_config = [''demo'']" by (simp add: default_stomp_config_def)
  have s: "sent demo_bridge = []" by (simp add: demo_bridge_def)
  show ?thesis
    using stomp_session_subscribes [where wr = "\<lambda>_ _. Inr ()" and a = "AdapterId ''stomp''" and c = 5 and m = default_destination_map
        and cfg = default_stomp_config, OF refl demo_connected demo_bridge_ok demo_host_ok(1)]
    by (auto simp: t s lessThan_Suc show_nat.simps)
qed

theorem stomp_session_cleans_up_witness:
  "\<exists>B'. session demo_host default_stomp_config (AdapterId ''stomp'') (Inr ()) (\<lambda>_ _. Inr ()) (Some (Inr (Some connected_frame))) 5
      [Shutdown] demo_bridge = (Some (Inr ()), B') \<and> subs_of (world B') (AdapterId ''stomp'') = {}"
proof -
  let ?a = "AdapterId ''stomp''" and ?m = "new_destination_map (destination_prefix default_stomp_config)"
  obtain B1 B2 where B: "connect default_stomp_config (Inr ()) (\<lambda>_ _. Inr ()) (Some (Inr (Some connected_frame))) demo_bridge = (Inr (), B1)"
    "subscribe_topics ?a (\<lambda>_ _. Inr ()) ?m 5 0 (topics default_stomp_config) (B1\<lparr>world := drop_subs demo_host ?a (world B1)\<rparr>) = (Inr (), B2)"
    using subscribe_phase [where wr = "\<lambda>_ _. Inr ()" and a = ?a and c = 5 and m = ?m
        and cfg = default_stomp_config, OF refl demo_connected demo_bridge_ok demo_host_ok(1)] by blast
  then have s: "\<exists>B'. session demo_host default_stomp_config ?a (Inr ()) (\<lambda>_ _. Inr ()) (Some (Inr (Some connected_frame))) 5
      [Shutdown] demo_bridge = (Some (Inr ()), B')"
    by (simp add: session_def Let_def)
  then show ?thesis
    using stomp_session_cleans_up [OF _ B demo_bridge_ok demo_host_ok(1)] by blast
qed

text \<open>A SUBSCRIBE that cannot be written ends the session before its clean-up, and the subscriptions made
  so far stay in the engine.\<close>

definition fails_third :: writer where
  "fails_third fs f = (if length fs < 2 then Inr () else Inl (Io ''closed''))"

lemma subscribe_failure_leaks:
  "\<exists>e B'. session demo_host (default_stomp_config\<lparr>topics := [''a'', ''b'']\<rparr>) (AdapterId ''new'') (Inr ()) fails_third
      (Some (Inr (Some connected_frame))) 5 evs demo_bridge = (Some (Inl e), B') \<and>
    out_key (AdapterId ''new'') 0 \<in> subs_of (world B') (AdapterId ''new'')"
proof -
  let ?a = "AdapterId ''new''" and ?cfg = "default_stomp_config\<lparr>topics := [''a'', ''b'']\<rparr>"
  let ?B1 = "demo_bridge\<lparr>sent := [connect_frame ?cfg]\<rparr>"
  let ?D = "?B1\<lparr>world := drop_subs demo_host ?a (world ?B1)\<rparr>"
  have conn: "connect ?cfg (Inr ()) fails_third (Some (Inr (Some connected_frame))) demo_bridge = (Inr (), ?B1)"
    by (simp add: connect_def writer_send_def fails_third_def demo_bridge_def demo_connected)
  have "subs_of (world ?D) ?a = {}" using drop_subs_ok(2) [OF demo_bridge_ok demo_host_ok(1)] by simp
  then have "SubscriberKey ?a (SubId (''stomp-out-'' @ show_nat 0)) |\<notin>| fmdom (by_key (engine_state (engine (world ?D))))"
    using empty_no_key [of "world ?D" ?a 0] by (simp add: out_key_def)
  then obtain eng key where sub: "subscribe (engine (world ?D)) ?a (SubId (''stomp-out-'' @ show_nat 0)) (route_topic ''a'') 5 = Inr (eng, key)"
    using eng.sub_succeeds by blast
  have "SubscriberKey ?a (SubId (''stomp-out-'' @ show_nat 0)) |\<in>| fmdom (by_key (engine_state eng))"
    using eng.sub_Inr [OF sub] by simp
  then show ?thesis
    using conn sub
    by (auto simp: session_def Let_def writer_send_def fails_third_def subs_of_def out_key_def)
qed

end
