(* ===== verification/Dds_Provider.thy ===== *)
theory Dds_Provider
  imports Adapter_Host Uci_Validate
begin

text \<open>
  The provider side of \<open>oa-gateway-dds\<close>: the samples of \<open>types.rs\<close>, the settings of \<open>config.rs\<close>, the
  QoS file of \<open>qos_xml.rs\<close>, the traits of \<open>provider.rs\<close> and their implementation on the \<open>rustdds\<close>
  crate, \<open>provider/rustdds.rs\<close>. The crate itself is the record \<open>DdsLib\<close>: what joining, creating and
  writing answer. What a reader takes is an argument of each poll. A session keeps the samples it
  wrote, in order.
\<close>

section \<open>Samples\<close>

record DdsSample =
  smeta :: WrapperMeta
  sencoded :: bytes

record MaDataPayload =
  ma_kind :: string
  ma_message_type :: string
  ma_encoded :: bytes
  ma_originator_uuid :: string
  ma_rx_payload_id :: string
  ma_command_id :: string
  ma_destination_routing :: string

definition TYPE_NAME :: string where "TYPE_NAME = ''MaDataPayload''"

definition unwrap_or_default :: "string option \<Rightarrow> string" where
  "unwrap_or_default s = (case s of None \<Rightarrow> [] | Some t \<Rightarrow> t)"

definition from_sample :: "DdsSample \<Rightarrow> MaDataPayload" where
  "from_sample s =
     \<lparr>ma_kind = (case kind (smeta s) of Rx \<Rightarrow> ''rx'' | Tx \<Rightarrow> ''tx''),
      ma_message_type = message_type_enum (smeta s),
      ma_encoded = sencoded s,
      ma_originator_uuid = unwrap_or_default (originator_uuid (smeta s)),
      ma_rx_payload_id = unwrap_or_default (rx_payload_id (smeta s)),
      ma_command_id = unwrap_or_default (command_id (smeta s)),
      ma_destination_routing = unwrap_or_default (destination_routing (smeta s))\<rparr>"

definition nonempty :: "string \<Rightarrow> string option" where
  "nonempty s = (if s = [] then None else Some s)"

definition into_sample :: "MaDataPayload \<Rightarrow> string + DdsSample" where
  "into_sample p =
     res_bind (if ma_kind p = ''rx'' then Inr Rx
               else if ma_kind p = ''tx'' then Inr Tx
               else Inl (''unknown wrapper kind '' @ ma_kind p)) (\<lambda>k.
     Inr \<lparr>smeta = \<lparr>kind = k, message_type_enum = ma_message_type p,
            originator_uuid = nonempty (ma_originator_uuid p), rx_payload_id = nonempty (ma_rx_payload_id p),
            command_id = nonempty (ma_command_id p), destination_routing = nonempty (ma_destination_routing p)\<rparr>,
          sencoded = ma_encoded p\<rparr>)"

section \<open>Settings\<close>

definition DEFAULT_MAX_SAMPLE_SIZE :: nat where "DEFAULT_MAX_SAMPLE_SIZE = 16 * 1024 * 1024"

datatype DdsProviderKind = Rustdds

definition show_provider_kind :: "DdsProviderKind \<Rightarrow> string" where
  "show_provider_kind k = (case k of Rustdds \<Rightarrow> ''rustdds'')"

definition provider_kind_from_str :: "string \<Rightarrow> string + DdsProviderKind" where
  "provider_kind_from_str s =
     (if s = ''rustdds'' then Inr Rustdds
      else Inl (''unknown dds provider '' @ in_quotes s @ ''; expected rustdds''))"

record DdsConfig =
  dds_provider :: DdsProviderKind
  domain_id :: nat
  qos :: string
  dds_topics :: "string list"
  dds_unwrap_ma_payloads :: bool
  dds_suppress_echo :: bool
  dds_on_panic :: OnPanic
  dds_reconnect :: bool
  dds_reconnect_delay :: nat
  dds_schema :: "Schema option"
  dds_validate :: Mode
  max_sample_size :: nat

definition default_dds_config :: DdsConfig where
  "default_dds_config =
     \<lparr>dds_provider = Rustdds, domain_id = 0, qos = ''config/dds-qos.xml'', dds_topics = [''demo''],
      dds_unwrap_ma_payloads = True, dds_suppress_echo = True, dds_on_panic = Abort, dds_reconnect = False,
      dds_reconnect_delay = from_secs 1, dds_schema = None, dds_validate = Warn,
      max_sample_size = DEFAULT_MAX_SAMPLE_SIZE\<rparr>"

section \<open>The QoS file\<close>

datatype Reliability = BestEffort | Reliable

datatype Durability = Volatile | TransientLocal

datatype History = KeepLast int | KeepAll

record QosSpec =
  reliability :: Reliability
  durability :: Durability
  history :: History

definition default_qos :: QosSpec where
  "default_qos = \<lparr>reliability = Reliable, durability = Volatile, history = KeepLast 16\<rparr>"

definition ALLOWED :: "string list" where
  "ALLOWED = [''dds'', ''qos_library'', ''qos_profile'', ''datawriter_qos'', ''datareader_qos'', ''reliability'',
     ''durability'', ''history'', ''kind'', ''depth'']"

function (sequential) check_unknown :: "xelem \<Rightarrow> string + unit"
  and check_unknown_all :: "xelem list \<Rightarrow> string + unit" where
  "check_unknown (XElem n t a ks) =
     (if n \<notin> set ALLOWED then Inl (''unknown element <'' @ n @ ''>'') else check_unknown_all ks)"
| "check_unknown_all [] = Inr ()"
| "check_unknown_all (k # ks) = res_bind (check_unknown k) (\<lambda>_. check_unknown_all ks)"
  by pat_completeness auto
termination
  by (relation "measure (case_sum size (size_list size))") (auto simp: size_list_conv_sum_list)

function (sequential) first_entity_qos :: "xelem \<Rightarrow> xelem option"
  and first_entity_in :: "xelem list \<Rightarrow> xelem option" where
  "first_entity_qos (XElem n t a ks) =
     (if n = ''datawriter_qos'' \<or> n = ''datareader_qos'' then Some (XElem n t a ks) else first_entity_in ks)"
| "first_entity_in [] = None"
| "first_entity_in (k # ks) =
     (case first_entity_qos k of Some found \<Rightarrow> Some found | None \<Rightarrow> first_entity_in ks)"
  by pat_completeness auto
termination
  by (relation "measure (case_sum size (size_list size))") (auto simp: size_list_conv_sum_list)

definition child_text :: "xelem \<Rightarrow> string \<Rightarrow> string option" where
  "child_text x n =
     map_option trim (Option.bind (find (\<lambda>k. xname k = n) (xkids x)) xtext)"

definition parse_reliability :: "xelem \<Rightarrow> string + Reliability" where
  "parse_reliability x =
     (case child_text x ''kind'' of
        None \<Rightarrow> Inr Reliable
      | Some k \<Rightarrow>
          if k = ''RELIABLE'' then Inr Reliable
          else if k = ''BEST_EFFORT'' then Inr BestEffort
          else Inl (''unknown reliability kind '' @ k))"

definition parse_durability :: "xelem \<Rightarrow> string + Durability" where
  "parse_durability x =
     (case child_text x ''kind'' of
        None \<Rightarrow> Inr Volatile
      | Some k \<Rightarrow>
          if k = ''VOLATILE'' then Inr Volatile
          else if k = ''TRANSIENT_LOCAL'' then Inr TransientLocal
          else Inl (''unknown durability kind '' @ k))"

text \<open>Why \<open>str::parse::<i32>\<close> refuses a text: digits are read one by one, and the first that is not
  a digit or does not fit decides.\<close>

fun int_error_loop :: "bool \<Rightarrow> nat \<Rightarrow> string \<Rightarrow> string" where
  "int_error_loop neg acc [] = ''''"
| "int_error_loop neg acc (c # cs) =
     (if \<not> is_ascii_digit c then ''invalid digit found in string''
      else if 10 * acc + digit_val c > (if neg then 2 ^ 31 else 2 ^ 31 - 1) then
        (if neg then ''number too small to fit in target type'' else ''number too large to fit in target type'')
      else int_error_loop neg (10 * acc + digit_val c) cs)"

definition parse_i32_error :: "string \<Rightarrow> string" where
  "parse_i32_error s =
     (case s of
        [] \<Rightarrow> ''cannot parse integer from empty string''
      | c # cs \<Rightarrow>
          if c = CHR ''+'' \<or> c = CHR ''-'' then
            (if cs = [] then ''invalid digit found in string'' else int_error_loop (c = CHR ''-'') 0 cs)
          else int_error_loop False 0 s)"

definition parse_depth :: "xelem \<Rightarrow> string + History" where
  "parse_depth x =
     (let d = (case child_text x ''depth'' of Some t \<Rightarrow> t | None \<Rightarrow> ''16'')
      in map_err (\<lambda>err. ''history depth: '' @ err)
           (case parse_signed 32 d of Some n \<Rightarrow> Inr (KeepLast n) | None \<Rightarrow> Inl (parse_i32_error d)))"

definition parse_history :: "xelem \<Rightarrow> string + History" where
  "parse_history x =
     (case child_text x ''kind'' of
        Some k \<Rightarrow>
          if k = ''KEEP_ALL'' then Inr KeepAll
          else if k = ''KEEP_LAST'' then parse_depth x
          else Inl (''unknown history kind '' @ k)
      | None \<Rightarrow> parse_depth x)"

fun apply_children :: "xelem list \<Rightarrow> QosSpec \<Rightarrow> string + QosSpec" where
  "apply_children [] spec = Inr spec"
| "apply_children (k # ks) spec =
     res_bind (if xname k = ''reliability'' then map_sum id (\<lambda>r. spec\<lparr>reliability := r\<rparr>) (parse_reliability k)
               else if xname k = ''durability'' then map_sum id (\<lambda>d. spec\<lparr>durability := d\<rparr>) (parse_durability k)
               else if xname k = ''history'' then map_sum id (\<lambda>x. spec\<lparr>history := x\<rparr>) (parse_history k)
               else Inl (''unknown element <'' @ xname k @ ''>'')) (apply_children ks)"

definition apply_entity :: "QosSpec \<Rightarrow> xelem \<Rightarrow> string + QosSpec" where
  "apply_entity spec x = apply_children (xkids x) spec"

definition parse_qos :: "(string \<Rightarrow> string + xelem) \<Rightarrow> string \<Rightarrow> string + QosSpec" where
  "parse_qos document xml =
     res_bind (document xml) (\<lambda>doc.
     res_bind (check_unknown doc) (\<lambda>_.
     case first_entity_qos doc of
       None \<Rightarrow> Inr default_qos
     | Some x \<Rightarrow> apply_entity default_qos x))"

section \<open>A rustdds session\<close>

record DdsLib =
  read_to_string :: "string \<Rightarrow> string + string"
  qos_document :: "string \<Rightarrow> string + xelem"
  new_participant :: "nat \<Rightarrow> string + nat"
  create_publisher :: "QosSpec \<Rightarrow> string + unit"
  create_subscriber :: "QosSpec \<Rightarrow> string + unit"
  participant_topic :: "string \<Rightarrow> string \<Rightarrow> string + unit"
  create_datawriter :: "string \<Rightarrow> string + unit"
  create_datareader :: "string \<Rightarrow> string + unit"
  writer_write :: "(string \<times> MaDataPayload) list \<Rightarrow> string \<Rightarrow> MaDataPayload \<Rightarrow> string + unit"

definition load_qos :: "DdsLib \<Rightarrow> string \<Rightarrow> string + QosSpec" where
  "load_qos L path =
     res_bind (map_err (\<lambda>err. ''cannot read '' @ path @ '': '' @ err) (read_to_string L path)) (\<lambda>t.
     map_err (\<lambda>err. ''in '' @ path @ '': '' @ err) (parse_qos (qos_document L) t))"

record RustddsSession =
  guid_prefix :: nat
  session_qos :: QosSpec
  writers :: "string fset"
  readers :: "string fset"
  written :: "(string \<times> MaDataPayload) list"

definition join_domain :: "DdsLib \<Rightarrow> nat \<Rightarrow> string \<Rightarrow> string + RustddsSession" where
  "join_domain L d path =
     res_bind (load_qos L path) (\<lambda>spec.
     res_bind (map_err (\<lambda>err. ''join domain '' @ show_nat d @ '': '' @ err) (new_participant L d)) (\<lambda>g.
     res_bind (map_err (\<lambda>err. ''create publisher: '' @ err) (create_publisher L spec)) (\<lambda>_.
     res_bind (map_err (\<lambda>err. ''create subscriber: '' @ err) (create_subscriber L spec)) (\<lambda>_.
     Inr \<lparr>guid_prefix = g, session_qos = spec, writers = {||}, readers = {||}, written = []\<rparr>))))"

definition create_topic :: "DdsLib \<Rightarrow> string \<Rightarrow> RustddsSession \<Rightarrow> string + RustddsSession" where
  "create_topic L n S =
     (if n |\<in>| writers S then Inr S
      else
        res_bind (map_err (\<lambda>err. ''topic '' @ n @ '': '' @ err) (participant_topic L n TYPE_NAME)) (\<lambda>_.
        res_bind (map_err (\<lambda>err. ''writer '' @ n @ '': '' @ err) (create_datawriter L n)) (\<lambda>_.
        res_bind (map_err (\<lambda>err. ''reader '' @ n @ '': '' @ err) (create_datareader L n)) (\<lambda>_.
        Inr (S\<lparr>writers := finsert n (writers S), readers := finsert n (readers S)\<rparr>)))))"

definition dds_write :: "DdsLib \<Rightarrow> string \<Rightarrow> DdsSample \<Rightarrow> RustddsSession \<Rightarrow> (string + unit) \<times> RustddsSession" where
  "dds_write L t s S =
     (if t |\<notin>| writers S then (Inl (''no writer for '' @ t), S)
      else case writer_write L (written S) t (from_sample s) of
        Inl err \<Rightarrow> (Inl (''write '' @ t @ '': '' @ err), S)
      | Inr _ \<Rightarrow> (Inr (), S\<lparr>written := written S @ [(t, from_sample s)]\<rparr>))"

text \<open>What a reader takes is a list of payloads with the prefix of the participant that wrote each.
  The readers are visited in the iteration order of their map.\<close>

type_synonym taken = "string \<Rightarrow> string + (nat \<times> MaDataPayload) list"

fun read_samples :: "nat \<Rightarrow> string \<Rightarrow> (nat \<times> MaDataPayload) list \<Rightarrow> string + (string \<times> DdsSample) list" where
  "read_samples mine t [] = Inr []"
| "read_samples mine t ((g, p) # ps) =
     (if g = mine then read_samples mine t ps
      else
        res_bind (map_err (\<lambda>err. t @ '': '' @ err) (into_sample p)) (\<lambda>s.
        res_bind (read_samples mine t ps) (\<lambda>ss. Inr ((t, s) # ss))))"

fun poll_readers :: "nat \<Rightarrow> taken \<Rightarrow> string list \<Rightarrow> string + (string \<times> DdsSample) list" where
  "poll_readers mine take_from [] = Inr []"
| "poll_readers mine take_from (t # ts) =
     res_bind (map_err (\<lambda>err. ''take '' @ t @ '': '' @ err) (take_from t)) (\<lambda>ps.
     res_bind (read_samples mine t ps) (\<lambda>ss.
     res_bind (poll_readers mine take_from ts) (\<lambda>rest. Inr (ss @ rest))))"

definition session_poll ::
  "(string fset \<Rightarrow> string list) \<Rightarrow> taken \<Rightarrow> RustddsSession \<Rightarrow> string + (string \<times> DdsSample) list" where
  "session_poll order take_from S = poll_readers (guid_prefix S) take_from (order (readers S))"

section \<open>Lemmas\<close>

lemma unwrap_or_default_simps [simp]: "unwrap_or_default None = []" "unwrap_or_default (Some t) = t"
  by (simp_all add: unwrap_or_default_def)

lemma nonempty_unwrap: "nonempty (unwrap_or_default s) = (if s = Some [] then None else s)"
  by (cases s) (simp_all add: nonempty_def)

text \<open>Whether the four optional fields of the metadata can be told from empty ones on the wire.\<close>

definition no_empty_fields :: "WrapperMeta \<Rightarrow> bool" where
  "no_empty_fields m \<longleftrightarrow>
     originator_uuid m \<noteq> Some [] \<and> rx_payload_id m \<noteq> Some [] \<and> command_id m \<noteq> Some [] \<and> destination_routing m \<noteq> Some []"

lemma sample_back: "into_sample p = Inr s \<Longrightarrow> from_sample s = p"
  by (auto simp: into_sample_def from_sample_def nonempty_def split: if_splits intro: MaDataPayload.equality)

text \<open>A sample that goes onto the domain and is read there again is the same sample, exactly
  when none of its optional fields is an empty text (the wire has no other way to say absent);
  and a payload read from the domain goes back onto it as the same payload, exactly when its kind is
  one of the two.\<close>

theorem sample_roundtrip:
  "(into_sample (from_sample s) = Inr s \<longleftrightarrow> no_empty_fields (smeta s)) \<and>
   ((\<exists>s. into_sample p = Inr s \<and> from_sample s = p) \<longleftrightarrow> ma_kind p = ''rx'' \<or> ma_kind p = ''tx'') \<and>
   (if into_sample p = Inr s then from_sample s = p \<and> no_empty_fields (smeta s) else True)"
proof (intro conjI)
  have k: "(case k of Rx \<Rightarrow> ''rx'' | Tx \<Rightarrow> ''tx'') = ''rx'' \<longleftrightarrow> k = Rx"
    "(case k of Rx \<Rightarrow> ''rx'' | Tx \<Rightarrow> ''tx'') = ''tx'' \<longleftrightarrow> k = Tx" for k by (cases k; simp)+
  show "into_sample (from_sample s) = Inr s \<longleftrightarrow> no_empty_fields (smeta s)"
    by (cases s; cases "smeta s"; cases "kind (smeta s)")
      (auto simp: into_sample_def from_sample_def nonempty_unwrap no_empty_fields_def k)
  have n: "unwrap_or_default (nonempty t) = t" "nonempty t \<noteq> Some []" for t by (simp_all add: nonempty_def)
  show "(\<exists>s. into_sample p = Inr s \<and> from_sample s = p) \<longleftrightarrow> ma_kind p = ''rx'' \<or> ma_kind p = ''tx''"
    by (auto simp: into_sample_def from_sample_def n split: if_splits intro: MaDataPayload.equality)
  show "if into_sample p = Inr s then from_sample s = p \<and> no_empty_fields (smeta s) else True"
    by (auto simp: into_sample_def from_sample_def n no_empty_fields_def split: if_splits intro: MaDataPayload.equality)
qed

text \<open>The QoS file: the whole document is vetted, and the first entity in document order decides.\<close>

lemma check_unknown_iff:
  "check_unknown x = Inr () \<longleftrightarrow> (\<forall>y \<in> set (descendants x). xname y \<in> set ALLOWED)"
  "check_unknown_all xs = Inr () \<longleftrightarrow> (\<forall>x \<in> set xs. \<forall>y \<in> set (descendants x). xname y \<in> set ALLOWED)"
proof (induction x and xs rule: check_unknown_check_unknown_all.induct)
  case (3 k ks)
  then show ?case by (cases "check_unknown k") auto
qed auto

lemma find_append: "find P (xs @ ys) = (case find P xs of Some x \<Rightarrow> Some x | None \<Rightarrow> find P ys)"
  by (induction xs) auto

lemma first_entity_find:
  "first_entity_qos x = find (\<lambda>y. xname y = ''datawriter_qos'' \<or> xname y = ''datareader_qos'') (descendants x)"
  "first_entity_in xs = find (\<lambda>y. xname y = ''datawriter_qos'' \<or> xname y = ''datareader_qos'') (concat (map descendants xs))"
  by (induction x and xs rule: first_entity_qos_first_entity_in.induct) (auto simp: find_append split: option.splits)

text \<open>A poll: the payloads of other participants, each as a sample, or the first failure.\<close>

definition foreign :: "nat \<Rightarrow> (nat \<times> MaDataPayload) list \<Rightarrow> MaDataPayload list" where
  "foreign mine ps = map snd (filter (\<lambda>(g, p). g \<noteq> mine) ps)"

definition sample_at :: "string \<Rightarrow> MaDataPayload \<Rightarrow> string + string \<times> DdsSample" where
  "sample_at t p = map_sum id (Pair t) (into_sample p)"

lemma read_samples_iff: "read_samples mine t ps = Inr ss \<longleftrightarrow> map (sample_at t) (foreign mine ps) = map Inr ss"
proof (induction ps arbitrary: ss)
  case (Cons gp ps)
  obtain g p where gp: "gp = (g, p)" by (cases gp)
  show ?case
  proof (cases "g = mine")
    case True
    then show ?thesis using Cons.IH by (simp add: gp foreign_def)
  next
    case False
    then have f: "foreign mine (gp # ps) = p # foreign mine ps" by (simp add: gp foreign_def)
    show ?thesis
    proof (cases "into_sample p")
      case (Inl e)
      then have "sample_at t p = Inl e" by (simp add: sample_at_def)
      then show ?thesis using Inl False by (cases ss) (simp_all add: gp f [unfolded gp])
    next
      case (Inr s)
      then have "sample_at t p = Inr (t, s)" by (simp add: sample_at_def)
      moreover have "read_samples mine t (gp # ps) = Inr ss \<longleftrightarrow>
          (\<exists>us. ss = (t, s) # us \<and> read_samples mine t ps = Inr us)"
        using Inr False by (cases "read_samples mine t ps") (auto simp: gp)
      ultimately show ?thesis unfolding f Cons.IH by (cases ss) auto
    qed
  qed
qed (auto simp: foreign_def)

lemma poll_readers_iff:
  "poll_readers mine take_from ts = Inr ss \<longleftrightarrow>
     list_all (\<lambda>t. \<not> isl (take_from t)) ts \<and>
     concat (map (\<lambda>t. map (sample_at t) (foreign mine (projr (take_from t)))) ts) = map Inr ss"
proof (induction ts arbitrary: ss)
  case (Cons t ts)
  show ?case
  proof (cases "take_from t")
    case (Inr ps)
    have split: "map (sample_at t) (foreign mine ps) @ rest = map Inr ss \<longleftrightarrow>
        (\<exists>us vs. ss = us @ vs \<and> map (sample_at t) (foreign mine ps) = map Inr us \<and> rest = map Inr vs)" for rest
      by (auto simp: append_eq_map_conv)
    have "poll_readers mine take_from (t # ts) = Inr ss \<longleftrightarrow>
        (\<exists>us vs. ss = us @ vs \<and> read_samples mine t ps = Inr us \<and> poll_readers mine take_from ts = Inr vs)"
      using Inr by (cases "read_samples mine t ps"; cases "poll_readers mine take_from ts") auto
    then show ?thesis using Inr by (simp add: split read_samples_iff Cons.IH) blast
  qed simp
qed auto

text \<open>A poll answers exactly when every reader could be read and every payload of another
  participant has a known kind; it then gives those payloads as samples under their topics, in the
  order the readers gave them, and nothing this participant wrote. One payload of an unknown kind
  fails the poll.\<close>

theorem poll_exact:
  "session_poll order take_from S = Inr ss \<longleftrightarrow>
     list_all (\<lambda>t. \<not> isl (take_from t)) (order (readers S)) \<and>
     concat (map (\<lambda>t. map (sample_at t) (foreign (guid_prefix S) (projr (take_from t)))) (order (readers S))) = map Inr ss"
  unfolding session_poll_def by (rule poll_readers_iff)

end
