(* ===== verification/Dds_Adapter.thy ===== *)
theory Dds_Adapter
  imports Dds_Provider Owp_Convert
begin

text \<open>
  The DDS adapter, \<open>oa-gateway-dds/src/adapter.rs\<close> and \<open>convert.rs\<close>, over the provider of
  \<open>Dds_Provider\<close>: a session joins the domain, creates its topics, subscribes to them in the engine and
  bridges both ways until shutdown. A session is run on the list of what its \<open>select!\<close> loop sees. Logged
  messages change nothing and are left out.
\<close>

section \<open>Inbound\<close>

definition dds_violations_of :: "Codecs \<Rightarrow> bytes \<Rightarrow> Schema option \<Rightarrow> Mode \<Rightarrow> Violation list" where
  "dds_violations_of c p schema mode =
     (if \<not> mode_is_on mode then []
      else case schema of
        None \<Rightarrow> []
      | Some s \<Rightarrow>
          if \<not> utf8_valid p then []
          else (let parsed = (if looks_like_xml p then from_xml c s p else from_json c s p)
                in case parsed of Inr m \<Rightarrow> validate c m s | Inl _ \<Rightarrow> []))"

definition dds_publish_checked :: "'w Host \<Rightarrow> Codecs \<Rightarrow> DdsConfig \<Rightarrow> Envelope \<Rightarrow> 'w World \<Rightarrow> 'w World" where
  "dds_publish_checked h c cfg e W =
     (let vs = dds_violations_of c (payload e) (dds_schema cfg) (dds_validate cfg) in
      if vs \<noteq> [] \<and> dds_validate cfg = Reject then W else publish_one h e W)"

text \<open>The envelopes a sample becomes, in the order they are published, and how many ids were drawn.\<close>

definition dds_envelopes ::
  "'w Host \<Rightarrow> DdsConfig \<Rightarrow> AdapterId \<Rightarrow> string \<Rightarrow> DdsSample \<Rightarrow> 'w World \<Rightarrow> string + Envelope list \<times> nat" where
  "dds_envelopes h cfg a t s W =
     (if length (sencoded s) > max_sample_size cfg then Inr ([], 0)
      else if dds_unwrap_ma_payloads cfg then
        res_bind (map_err show_agra_error
            (unwrapped_from_parts (json_parse h) (xml_parse h) (json_print h)
               (fresh_id h W 0, fresh_id h W 1) t (smeta s) (sencoded s))) (\<lambda>peeled.
          Inr ([with_origin a (wrapper peeled), with_origin a (inner peeled)], 2))
      else
        Inr ([with_origin a (new_envelope (fresh_id h W 0) (route_typed t (element_name (kind (smeta s)))) (sencoded s))], 1))"

definition dds_inbound_publish ::
  "'w Host \<Rightarrow> Codecs \<Rightarrow> DdsConfig \<Rightarrow> AdapterId \<Rightarrow> string \<Rightarrow> DdsSample \<Rightarrow> 'w World \<Rightarrow> (string + unit) \<times> 'w World" where
  "dds_inbound_publish h c cfg a t s W =
     (case dds_envelopes h cfg a t s W of
        Inl err \<Rightarrow> (Inl err, W)
      | Inr (es, n) \<Rightarrow> (Inr (), fold (dds_publish_checked h c cfg) es (W\<lparr>drawn := drawn W + n\<rparr>)))"

fun dds_publish_samples ::
  "'w Host \<Rightarrow> Codecs \<Rightarrow> DdsConfig \<Rightarrow> AdapterId \<Rightarrow> (string \<times> DdsSample) list \<Rightarrow> 'w World \<Rightarrow> (string + unit) \<times> 'w World" where
  "dds_publish_samples h c cfg a [] W = (Inr (), W)"
| "dds_publish_samples h c cfg a ((t, s) # ss) W =
     (case dds_inbound_publish h c cfg a t s W of
        (Inl err, W1) \<Rightarrow> (Inl err, W1)
      | (Inr _, W1) \<Rightarrow> dds_publish_samples h c cfg a ss W1)"

section \<open>Outbound\<close>

definition sample_from_envelope :: "'w Host \<Rightarrow> Envelope \<Rightarrow> string + DdsSample" where
  "sample_from_envelope h e =
     (if wrapper_kind (json_parse h) (xml_parse h) (payload e) \<noteq> None then
        res_bind (map_err show_agra_error
            (unwrap (json_parse h) (xml_parse h) (MessageId 0, MessageId 0) (topic (route e)) (payload e))) (\<lambda>peeled.
          Inr \<lparr>smeta = meta peeled, sencoded = payload (inner peeled)\<rparr>)
      else
        (let hint = (case type_hint (route e) of Some t \<Rightarrow> t | None \<Rightarrow> topic (route e))
         in Inr \<lparr>smeta = \<lparr>kind = Rx, message_type_enum = element_to_enum hint, originator_uuid = None,
                  rx_payload_id = None, command_id = None, destination_routing = None\<rparr>,
                sencoded = payload e\<rparr>))"

record 'w DdsBridge =
  dworld :: "'w World"
  dsession :: RustddsSession

definition dds_forward_outbound ::
  "'w Host \<Rightarrow> DdsLib \<Rightarrow> DdsConfig \<Rightarrow> AdapterId \<Rightarrow> Delivery \<Rightarrow> RustddsSession \<Rightarrow> (string + unit) \<times> RustddsSession" where
  "dds_forward_outbound h L cfg a d S =
     (if dds_suppress_echo cfg \<and> is_echo_of (del_envelope d) a then (Inr (), S)
      else let t = topic (route (del_envelope d)) in
        if t \<notin> set (dds_topics cfg) then (Inr (), S)
        else case sample_from_envelope h (del_envelope d) of
          Inl err \<Rightarrow> (Inl err, S)
        | Inr s \<Rightarrow> dds_write L t s S)"

section \<open>A session\<close>

datatype dds_event = DdsShutdown | DdsDelivery "Delivery option" | DdsTick taken

definition dds_poll_inbound ::
  "'w Host \<Rightarrow> Codecs \<Rightarrow> (string fset \<Rightarrow> string list) \<Rightarrow> DdsConfig \<Rightarrow> AdapterId \<Rightarrow> taken \<Rightarrow> 'w DdsBridge \<Rightarrow>
     (string + unit) \<times> 'w DdsBridge" where
  "dds_poll_inbound h c order cfg a take_from B =
     (case session_poll order take_from (dsession B) of
        Inl err \<Rightarrow> (Inl err, B)
      | Inr ss \<Rightarrow> (case dds_publish_samples h c cfg a ss (dworld B) of (r, W) \<Rightarrow> (r, B\<lparr>dworld := W\<rparr>)))"

fun dds_drive ::
  "'w Host \<Rightarrow> Codecs \<Rightarrow> DdsLib \<Rightarrow> (string fset \<Rightarrow> string list) \<Rightarrow> DdsConfig \<Rightarrow> AdapterId \<Rightarrow> dds_event list \<Rightarrow> 'w DdsBridge \<Rightarrow>
     (AdapterError + unit) option \<times> 'w DdsBridge" where
  "dds_drive h c L order cfg a [] B = (None, B)"
| "dds_drive h c L order cfg a (DdsShutdown # evs) B = (Some (Inr ()), B)"
| "dds_drive h c L order cfg a (DdsDelivery None # evs) B = (Some (Inr ()), B)"
| "dds_drive h c L order cfg a (DdsDelivery (Some d) # evs) B =
     dds_drive h c L order cfg a evs (B\<lparr>dsession := snd (dds_forward_outbound h L cfg a d (dsession B))\<rparr>)"
| "dds_drive h c L order cfg a (DdsTick take_from # evs) B =
     (case dds_poll_inbound h c order cfg a take_from B of
        (Inl err, B1) \<Rightarrow> (Some (Inl (failed a err)), B1)
      | (Inr _, B1) \<Rightarrow> dds_drive h c L order cfg a evs B1)"

fun create_topics :: "DdsLib \<Rightarrow> string list \<Rightarrow> RustddsSession \<Rightarrow> string + RustddsSession" where
  "create_topics L [] S = Inr S"
| "create_topics L (t # ts) S = res_bind (create_topic L t S) (create_topics L ts)"

fun dds_subscribe :: "AdapterId \<Rightarrow> chan \<Rightarrow> nat \<Rightarrow> string list \<Rightarrow> 'w World \<Rightarrow> (AdapterError + unit) \<times> 'w World" where
  "dds_subscribe a ch i [] W = (Inr (), W)"
| "dds_subscribe a ch i (t # ts) W =
     (case subscribe (engine W) a (SubId (''dds-'' @ show_nat i)) (route_topic t) ch of
        Inl e \<Rightarrow> (Inl (failed a (show_engine_error e)), W)
      | Inr (eng, key) \<Rightarrow> dds_subscribe a ch (Suc i) ts (W\<lparr>engine := eng\<rparr>))"

text \<open>\<open>ch\<close> is the channel the session opens for its deliveries. \<open>None\<close> is a session still running
  when its events are used up. The session's writes come back with the world.\<close>

definition dds_serve ::
  "'w Host \<Rightarrow> Codecs \<Rightarrow> DdsLib \<Rightarrow> (string fset \<Rightarrow> string list) \<Rightarrow> DdsConfig \<Rightarrow> AdapterId \<Rightarrow> chan \<Rightarrow> dds_event list \<Rightarrow> 'w World \<Rightarrow>
     (AdapterError + unit) option \<times> 'w World \<times> (string \<times> MaDataPayload) list" where
  "dds_serve h c L order cfg a ch evs W =
     (case res_bind (join_domain L (domain_id cfg) (qos cfg)) (create_topics L (dds_topics cfg)) of
        Inl err \<Rightarrow> (Some (Inl (failed a err)), W, [])
      | Inr S \<Rightarrow>
          (case dds_subscribe a ch 0 (dds_topics cfg) (drop_subs h a W) of
             (Inl e, W1) \<Rightarrow> (Some (Inl e), W1, written S)
           | (Inr _, W1) \<Rightarrow>
               (case dds_drive h c L order cfg a evs \<lparr>dworld = W1, dsession = S\<rparr> of
                  (None, B) \<Rightarrow> (None, dworld B, written (dsession B))
                | (Some r, B) \<Rightarrow> (Some r, drop_subs h a (dworld B), written (dsession B)))))"

definition dds_run :: "DdsConfig \<Rightarrow> AdapterId \<Rightarrow> turn list \<Rightarrow> (AdapterError + unit) option \<times> nat" where
  "dds_run cfg a ts = supervise (dds_reconnect cfg) (dds_on_panic cfg) a ts"

section \<open>What comes in\<close>

lemma dds_violations_eq: "dds_violations_of = violations_of"
  by (intro ext) (auto simp: dds_violations_of_def violations_of_def Let_def split: option.splits)

definition admits :: "Codecs \<Rightarrow> DdsConfig \<Rightarrow> Envelope \<Rightarrow> bool" where
  "admits c cfg e \<longleftrightarrow> dds_validate cfg \<noteq> Reject \<or> dds_violations_of c (payload e) (dds_schema cfg) (dds_validate cfg) = []"

lemma publish_checked_all: "fold (dds_publish_checked h c cfg) es W = publish_all h (filter (admits c cfg) es) W"
  by (induction es arbitrary: W) (auto simp: dds_publish_checked_def admits_def publish_all_def Let_def)

lemma dds_envelopes_stamped: "dds_envelopes h cfg a t s W = Inr (es, n) \<Longrightarrow> e \<in> set es \<Longrightarrow> is_echo_of e a"
  by (auto simp: dds_envelopes_def res_elims is_echo_of_def split: if_splits)

lemma publish_all_append: "publish_all h (es @ es') W = publish_all h es' (publish_all h es W)"
  by (simp add: publish_all_def)

lemma dds_samples_published:
  "\<exists>es n. snd (dds_publish_samples h c cfg a ss W) = publish_all h es (W\<lparr>drawn := drawn W + n\<rparr>) \<and>
     (\<forall>e \<in> set es. is_echo_of e a \<and> admits c cfg e)"
proof (induction ss arbitrary: W)
  case Nil
  show ?case by (intro exI [of _ "[]"] exI [of _ 0]) (simp add: publish_all_def)
next
  case (Cons ts ss)
  obtain t s where ts: "ts = (t, s)" by (cases ts)
  show ?case
  proof (cases "dds_envelopes h cfg a t s W")
    case (Inl err)
    then show ?thesis
      by (intro exI [of _ "[]"] exI [of _ 0]) (simp add: ts dds_inbound_publish_def publish_all_def)
  next
    case (Inr p)
    obtain es n where p: "p = (es, n)" by (cases p)
    let ?es = "filter (admits c cfg) es" and ?W = "W\<lparr>drawn := drawn W + n\<rparr>"
    obtain es' n' where rest: "snd (dds_publish_samples h c cfg a ss (publish_all h ?es ?W)) =
        publish_all h es' ((publish_all h ?es ?W)\<lparr>drawn := drawn (publish_all h ?es ?W) + n'\<rparr>)"
      "\<forall>e \<in> set es'. is_echo_of e a \<and> admits c cfg e"
      using Cons.IH by blast
    have "snd (dds_publish_samples h c cfg a (ts # ss) W) = publish_all h (?es @ es') (W\<lparr>drawn := drawn W + (n + n')\<rparr>)"
      using rest(1) Inr p
      by (simp add: ts dds_inbound_publish_def publish_checked_all publish_all_drawn publish_all_append add.assoc)
    then show ?thesis
      using rest(2) dds_envelopes_stamped [OF Inr [unfolded p]] by (intro exI [of _ "?es @ es'"] exI [of _ "n + n'"]) auto
  qed
qed

interpretation dds_bridge: stamped_bridge h a "\<lambda>ss W. snd (dds_publish_samples h c cfg a ss W)" "admits c cfg"
  "\<lambda>d S. if dds_suppress_echo cfg then dds_forward_outbound h L cfg a d S else (Inr (), S)" "\<lambda>S. (Inr (), S)"
  for h a c cfg L
  by unfold_locales (rule dds_samples_published, simp add: dds_forward_outbound_def)

lemma dds_poll_world:
  "dds_poll_inbound h c order cfg a take_from B = (r, B') \<Longrightarrow>
     dsession B' = dsession B \<and> (\<exists>ss. dworld B' = snd (dds_publish_samples h c cfg a ss (dworld B)))"
  by (auto simp: dds_poll_inbound_def split: sum.splits prod.splits intro: exI [of _ "[]"]) (metis snd_conv)

text \<open>C33: Whatever samples a poll of the domain reads, every delivery they cause on any channel is
  stamped as this adapter's, so with echo suppression on it is not written back; and in reject mode
  none of them departs from the schema.\<close>

theorem dds_no_echo:
  assumes "mpsc (try_send h) queue capacity shut" and "dds_suppress_echo cfg"
    and "dds_poll_inbound h c order cfg a take_from B = (r, B')"
  shows "\<exists>ds. queue (chans (dworld B')) b = queue (chans (dworld B)) b @ ds \<and>
    (\<forall>d \<in> set ds. dds_forward_outbound h L cfg a d S = (Inr (), S) \<and>
       (dds_validate cfg = Reject \<longrightarrow> violations_of c (payload (del_envelope d)) (dds_schema cfg) Reject = []))"
proof -
  obtain ss where "dworld B' = snd (dds_publish_samples h c cfg a ss (dworld B))"
    using dds_poll_world [OF assms(3)] by blast
  then show ?thesis
    using dds_bridge.no_echo [OF assms(1), where a = a and c = c and cfg = cfg and i = ss and W = "dworld B" and b = b and L = L and s = S] assms(2)
    by (auto simp: admits_def dds_violations_eq)
qed

section \<open>A session and the engine\<close>

definition dds_key :: "AdapterId \<Rightarrow> nat \<Rightarrow> SubscriberKey" where
  "dds_key a i = SubscriberKey a (SubId (''dds-'' @ show_nat i))"

lemma dds_key_inj: "dds_key a i = dds_key a j \<longleftrightarrow> i = j"
  by (simp add: dds_key_def show_nat_inj)

abbreviation dds_table :: "'w World \<Rightarrow> (SubscriberKey, Subscription) fmap" where
  "dds_table W \<equiv> by_key (engine_state (engine W))"

text \<open>The subscribe phase: with its ids free it always succeeds, adds one subscription per topic and
  changes no other.\<close>

definition dds_bridged :: "AdapterId \<Rightarrow> chan \<Rightarrow> nat \<Rightarrow> string list \<Rightarrow> 'w World \<Rightarrow> 'w World \<Rightarrow> bool" where
  "dds_bridged a ch i ts W W' \<longleftrightarrow>
     (\<forall>j < length ts. fmlookup (dds_table W') (dds_key a (i + j)) = Some \<lparr>sub_route = route_topic (ts ! j), tx = ch\<rparr>) \<and>
     (\<forall>k. (\<forall>j < length ts. k \<noteq> dds_key a (i + j)) \<longrightarrow> fmlookup (dds_table W') k = fmlookup (dds_table W) k)"

lemma dds_bridged_Cons:
  assumes "dds_table W1 = fmupd (dds_key a i) \<lparr>sub_route = route_topic t, tx = ch\<rparr> (dds_table W)"
    and "dds_bridged a ch (Suc i) ts W1 W'"
  shows "dds_bridged a ch i (t # ts) W W'"
  unfolding dds_bridged_def
proof (intro conjI allI impI)
  have at_key: "\<And>j. j < length ts \<Longrightarrow> fmlookup (dds_table W') (dds_key a (Suc i + j)) = Some \<lparr>sub_route = route_topic (ts ! j), tx = ch\<rparr>"
    and other: "\<And>k. (\<forall>j < length ts. k \<noteq> dds_key a (Suc i + j)) \<Longrightarrow> fmlookup (dds_table W') k = fmlookup (dds_table W1) k"
    using assms(2) by (auto simp: dds_bridged_def)
  show "fmlookup (dds_table W') (dds_key a (i + j)) = Some \<lparr>sub_route = route_topic ((t # ts) ! j), tx = ch\<rparr>"
    if "j < length (t # ts)" for j
    using that at_key [of "j - 1"] other [of "dds_key a i"] by (cases j) (auto simp: assms(1) dds_key_inj)
  show "fmlookup (dds_table W') k = fmlookup (dds_table W) k" if k: "\<forall>j < length (t # ts). k \<noteq> dds_key a (i + j)" for k
  proof -
    have "k \<noteq> dds_key a (Suc i + j)" if "j < length ts" for j using k [rule_format, of "Suc j"] that by simp
    moreover have "k \<noteq> dds_key a i" using k [rule_format, of 0] by simp
    ultimately show ?thesis using other [of k] by (simp add: assms(1))
  qed
qed

lemma dds_subscribe_all:
  assumes "\<And>j. i \<le> j \<Longrightarrow> dds_key a j |\<notin>| fmdom (dds_table W)" "world_ok W"
  shows "\<exists>W'. dds_subscribe a ch i ts W = (Inr (), W') \<and> world_ok W' \<and> dds_bridged a ch i ts W W'"
  using assms
proof (induction ts arbitrary: i W)
  case Nil
  then show ?case by (simp add: dds_bridged_def)
next
  case (Cons t ts)
  obtain eng key where sub: "subscribe (engine W) a (SubId (''dds-'' @ show_nat i)) (route_topic t) ch = Inr (eng, key)"
    using eng.sub_succeeds [of a "SubId (''dds-'' @ show_nat i)"] Cons.prems(1) [of i] unfolding dds_key_def by blast
  let ?W = "W\<lparr>engine := eng\<rparr>"
  have tbl: "dds_table ?W = fmupd (dds_key a i) \<lparr>sub_route = route_topic t, tx = ch\<rparr> (dds_table W)"
    using eng.sub_Inr [OF sub] by (simp add: dds_key_def)
  have ok: "world_ok ?W" using eng.sub_inv [OF _ sub] Cons.prems(2) by (simp add: world_ok_def)
  have "dds_key a j |\<notin>| fmdom (dds_table ?W)" if "Suc i \<le> j" for j
    using that Cons.prems(1) [of j] unfolding tbl by (simp add: dds_key_inj)
  from Cons.IH [OF this ok] obtain W' where "dds_subscribe a ch (Suc i) ts ?W = (Inr (), W')" "world_ok W'"
    "dds_bridged a ch (Suc i) ts ?W W'" by blast
  then show ?case using sub dds_bridged_Cons [OF tbl] by auto
qed

lemma dds_bridged_subs:
  assumes "dds_bridged a ch 0 ts W W'" "subs_of W a = {}"
  shows "subs_of W' a = dds_key a ` {..<length ts}" "b \<noteq> a \<Longrightarrow> subs_of W' b = subs_of W b"
proof -
  have at_key: "k |\<in>| fmdom (dds_table W')" if "j < length ts" "k = dds_key a j" for j k
    using assms(1) that by (auto simp: dds_bridged_def intro: fmdomI)
  have other: "k |\<in>| fmdom (dds_table W') \<longleftrightarrow> k |\<in>| fmdom (dds_table W)" if "\<forall>j < length ts. k \<noteq> dds_key a j" for k
    using assms(1) that by (auto simp: dds_bridged_def fmlookup_dom_iff)
  have id: "adapter_id (dds_key a j) = a" for j by (simp add: dds_key_def)
  show "subs_of W' a = dds_key a ` {..<length ts}"
  proof (rule set_eqI)
    fix k
    show "k \<in> subs_of W' a \<longleftrightarrow> k \<in> dds_key a ` {..<length ts}"
    proof (cases "\<exists>j < length ts. k = dds_key a j")
      case True
      then show ?thesis using at_key id by (auto simp: subs_of_def)
    next
      case False
      then have "k \<in> subs_of W' a \<longleftrightarrow> k \<in> subs_of W a" using other [of k] by (simp add: subs_of_def)
      then show ?thesis using False assms(2) by auto
    qed
  qed
  show "subs_of W' b = subs_of W b" if "b \<noteq> a"
  proof -
    have "k |\<in>| fmdom (dds_table W') \<longleftrightarrow> k |\<in>| fmdom (dds_table W)" if "adapter_id k = b" for k
      using other [of k] that \<open>b \<noteq> a\<close> id by metis
    then show ?thesis by (auto simp: subs_of_def)
  qed
qed

lemma dds_drive_state:
  "dds_drive h c L order cfg a evs B = (r, B') \<Longrightarrow> engine_state (engine (dworld B')) = engine_state (engine (dworld B))"
proof (induction h c L order cfg a evs B rule: dds_drive.induct)
  case (5 h c L order cfg a take_from evs B)
  obtain q B1 where q: "dds_poll_inbound h c order cfg a take_from B = (q, B1)"
    by (cases "dds_poll_inbound h c order cfg a take_from B")
  have "engine_state (engine (dworld B1)) = engine_state (engine (dworld B))"
    using dds_poll_world [OF q] dds_bridge.inbound_state by metis
  then show ?case using 5 q by (cases q) auto
qed auto

text \<open>C34: A session that joins its domain bridges every configured topic and nothing else, whatever an
  earlier session left behind: its subscriptions are exactly one wildcard subscription per topic on its
  own channel, they stay so for as long as it runs, none is left when it ends, however it ends, and no
  other adapter's subscription is ever touched.\<close>

theorem dds_session_bridges:
  assumes "res_bind (join_domain L (domain_id cfg) (qos cfg)) (create_topics L (dds_topics cfg)) = Inr S"
    and "world_ok W" "host_ok h"
  shows "\<exists>W1. dds_subscribe a ch 0 (dds_topics cfg) (drop_subs h a W) = (Inr (), W1) \<and>
    subs_of W1 a = dds_key a ` {..<length (dds_topics cfg)} \<and>
    (\<forall>j < length (dds_topics cfg).
       fmlookup (dds_table W1) (dds_key a j) = Some \<lparr>sub_route = route_topic (dds_topics cfg ! j), tx = ch\<rparr>) \<and>
    (case dds_serve h c L order cfg a ch evs W of
       (r, W', ws) \<Rightarrow> world_ok W' \<and> subs_of W' a = (if r = None then subs_of W1 a else {}) \<and>
         (\<forall>b. b \<noteq> a \<longrightarrow> subs_of W' b = subs_of W b))"
proof -
  let ?D = "drop_subs h a W"
  have none: "subs_of ?D a = {}" using drop_subs_ok(2) [OF assms(2,3)] .
  have free: "dds_key a j |\<notin>| fmdom (dds_table ?D)" for j using none by (auto simp: subs_of_def dds_key_def)
  obtain W1 where W1: "dds_subscribe a ch 0 (dds_topics cfg) ?D = (Inr (), W1)" "world_ok W1"
      "dds_bridged a ch 0 (dds_topics cfg) ?D W1"
    using dds_subscribe_all [OF free drop_subs_ok(1) [OF assms(2,3)]] by blast
  note subs = dds_bridged_subs [OF W1(3) none]
  obtain r B where B: "dds_drive h c L order cfg a evs \<lparr>dworld = W1, dsession = S\<rparr> = (r, B)"
    by (cases "dds_drive h c L order cfg a evs \<lparr>dworld = W1, dsession = S\<rparr>")
  have st: "engine_state (engine (dworld B)) = engine_state (engine W1)" using dds_drive_state [OF B] by simp
  have kept: "world_ok (dworld B)" "\<And>b. subs_of (dworld B) b = subs_of W1 b"
    using st W1(2) by (simp_all add: world_ok_def subs_of_def)
  have "case dds_serve h c L order cfg a ch evs W of
       (r, W', ws) \<Rightarrow> world_ok W' \<and> subs_of W' a = (if r = None then subs_of W1 a else {}) \<and>
         (\<forall>b. b \<noteq> a \<longrightarrow> subs_of W' b = subs_of W b)"
    using assms(1) W1(1) B kept subs(2) drop_subs_ok(3) [OF assms(2,3)]
      session_clean_up [OF assms(2,3) W1(2) subs(2) st]
    by (cases r) (simp_all add: dds_serve_def)
  then show ?thesis using W1 subs(1) by (auto simp: dds_bridged_def)
qed

section \<open>Relaying\<close>

lemma inner_topic [simp]: "topic (route (inner_envelope i tp bs ct x m)) = tp"
  by (simp add: inner_envelope_def Let_def with_header_opt_def split: option.splits)

text \<open>C35: A sample read from the domain and peeled becomes two envelopes on its topic: the wrapper,
  which an adapter that bridges the topic to a domain writes as the very same sample, and the inner
  message with the sample's bytes. So a payload crosses two gateways unchanged.\<close>

theorem dds_relay:
  assumes "json_faithful (json_parse h) (json_print h) (minimal_root (smeta s) (sencoded s))"
    and "length (sencoded s) \<le> MAX_DECODED_PAYLOAD" "length (sencoded s) \<le> max_sample_size cfg"
    and "dds_unwrap_ma_payloads cfg" and "into_sample p = Inr s"
  shows "\<exists>w i. dds_envelopes h cfg a t s W = Inr ([w, i], 2) \<and> topic (route w) = t \<and> topic (route i) = t \<and>
    sample_from_envelope h w = Inr s \<and> from_sample s = p \<and> payload i = sencoded s"
proof -
  let ?parts = "\<lambda>ids. unwrapped_from_parts (json_parse h) (xml_parse h) (json_print h) ids t (smeta s) (sencoded s)"
  let ?ids = "(fresh_id h W 0, fresh_id h W 1)" and ?no = "(MessageId 0, MessageId 0)"
  obtain u where u: "?parts ?ids = Inr u" "meta u = smeta s" "payload (inner u) = sencoded s"
    using unwrap_parts_eq [OF assms(1,2)] by blast
  obtain v where v: "?parts ?no = Inr v" "unwrap (json_parse h) (xml_parse h) ?no t (payload (wrapper v)) = Inr v"
      "meta v = smeta s" "payload (inner v) = sencoded s"
    using unwrap_parts_eq [OF assms(1,2)] by blast
  obtain j where j: "json_print h (minimal_root (smeta s) (sencoded s)) = Inr j"
      "json_parse h j = Inr (minimal_root (smeta s) (sencoded s))" "utf8_valid j" "prefix ''{'' j" "trim_start j = j"
    using assms(1) by (auto elim: json_faithfulE)
  have pay: "payload (wrapper u) = j" "payload (wrapper v) = j" "topic (route (wrapper u)) = t" "topic (route (inner u)) = t"
    using u(1) v(1) j(1) assms(2)
    by (auto simp: unwrapped_from_parts_def minimal_wrapper_json_def)
  obtain d where "minimal_root (smeta s) (sencoded s) = JObject [(element_name (kind (smeta s)), d)]"
    using minimal_data by metis
  then have "wrapper_kind (json_parse h) (xml_parse h) j \<noteq> None"
    using j by (simp add: wrapper_kind_def Let_def single_key_def as_object_def)
  then have "sample_from_envelope h (with_origin a (wrapper u)) = Inr s"
    using v pay by (simp add: sample_from_envelope_def)
  moreover have "from_sample s = p" using sample_back [OF assms(5)] .
  ultimately show ?thesis
    using u pay assms(2-4) by (simp add: dds_envelopes_def)
qed

text \<open>C36: A sample larger than the wrapper limit of 8 MiB and within \<open>max_sample_size\<close> is not dropped:
  with peeling on it ends the session with an error, before anything that was read after it is
  published.\<close>

theorem dds_large_sample_fatal:
  assumes "session_poll order take_from (dsession B) = Inr ((t, s) # rest)" and "dds_unwrap_ma_payloads cfg"
    and "MAX_DECODED_PAYLOAD < length (sencoded s)" "length (sencoded s) \<le> max_sample_size cfg"
  shows "dds_drive h c L order cfg a (DdsTick take_from # evs) B =
    (Some (Inl (failed a (show_agra_error PayloadTooLarge))), B)"
  using assms by (simp add: dds_poll_inbound_def dds_inbound_publish_def dds_envelopes_def unwrapped_from_parts_def)

section \<open>A session on a concrete domain\<close>

definition demo_sample :: "bytes \<Rightarrow> DdsSample" where
  "demo_sample bs = \<lparr>smeta = \<lparr>kind = Tx, message_type_enum = ''PING'', originator_uuid = None, rx_payload_id = None,
     command_id = Some ''c1'', destination_routing = None\<rparr>, sencoded = bs\<rparr>"

definition dds_host :: "bytes \<Rightarrow> Delivery bq Host" where
  "dds_host bs = \<lparr>try_send = bq_send, key_order = sorted_list_of_fset, sub_order = sorted_list_of_fset,
     json_parse = one_value_parser ''{x}'' (minimal_root (smeta (demo_sample bs)) bs), json_print = one_value_printer ''{x}'',
     xml_parse = no_xml, new_v4 = id, uuid_string = show_nat\<rparr>"

lemma dds_host_ok: "host_ok (dds_host bs)" "mpsc (try_send (dds_host bs)) bq_queue bq_capacity bq_closed"
  by (simp_all add: dds_host_def host_ok_def hash_order_sorted mpsc_bq)

definition demo_lib :: DdsLib where
  "demo_lib = \<lparr>read_to_string = (\<lambda>p. Inr ''<dds/>''), qos_document = (\<lambda>t. Inr (XElem ''dds'' None [] [])),
     new_participant = (\<lambda>d. Inr 7), create_publisher = (\<lambda>q. Inr ()), create_subscriber = (\<lambda>q. Inr ()),
     participant_topic = (\<lambda>n t. Inr ()), create_datawriter = (\<lambda>n. Inr ()), create_datareader = (\<lambda>n. Inr ()),
     writer_write = (\<lambda>ws t p. Inr ())\<rparr>"

definition joined_session :: RustddsSession where
  "joined_session = \<lparr>guid_prefix = 7, session_qos = default_qos, writers = {|''demo''|}, readers = {|''demo''|}, written = []\<rparr>"

lemma demo_joins:
  "res_bind (join_domain demo_lib (domain_id default_dds_config) (qos default_dds_config))
     (create_topics demo_lib (dds_topics default_dds_config)) = Inr joined_session"
  by (simp add: join_domain_def demo_lib_def load_qos_def parse_qos_def ALLOWED_def default_dds_config_def create_topic_def
      joined_session_def)

abbreviation dds_id :: AdapterId where "dds_id \<equiv> AdapterId ''dds''"

abbreviation demo_dds_world :: "Delivery bq World" where
  "demo_dds_world \<equiv> \<lparr>engine = demo_engine, chans = demo_world, drawn = 0\<rparr>"

abbreviation demo_taken :: "bytes \<Rightarrow> taken" where
  "demo_taken bs \<equiv> \<lambda>t. Inr [(7, from_sample (demo_sample [])), (9, from_sample (demo_sample bs))]"

lemma demo_into: "into_sample (from_sample (demo_sample bs)) = Inr (demo_sample bs)"
  by (simp add: into_sample_def from_sample_def demo_sample_def nonempty_def)

lemma demo_poll:
  "session_poll sorted_list_of_fset (demo_taken bs) joined_session = Inr [(''demo'', demo_sample bs)]"
proof -
  have "sorted_list_of_fset {|''demo''|} = [''demo'']" by (simp add: sorted_list_of_fset.rep_eq)
  then show ?thesis by (simp add: session_poll_def joined_session_def demo_into)
qed

lemma demo_dds_world_ok: "world_ok demo_dds_world"
  using demo_engine_inv by (simp add: world_ok_def)

theorem dds_session_bridges_witness:
  "\<exists>W1 :: Delivery bq World. subs_of W1 dds_id = {dds_key dds_id 0} \<and>
     fmlookup (dds_table W1) (dds_key dds_id 0) = Some \<lparr>sub_route = route_topic ''demo'', tx = 4\<rparr> \<and>
     (case dds_serve (dds_host ''x'') wrapper_codecs demo_lib sorted_list_of_fset default_dds_config dds_id 4
        [DdsTick (demo_taken ''x''), DdsShutdown] demo_dds_world of
          (r, W', ws) \<Rightarrow> subs_of W' dds_id = (if r = None then subs_of W1 dds_id else {}))"
proof -
  have ts: "dds_topics default_dds_config = [''demo'']" by (simp add: default_dds_config_def)
  let ?run = "dds_serve (dds_host ''x'') wrapper_codecs demo_lib sorted_list_of_fset default_dds_config dds_id 4
        [DdsTick (demo_taken ''x''), DdsShutdown] demo_dds_world"
  obtain W1 :: "Delivery bq World" where W1: "subs_of W1 dds_id = dds_key dds_id ` {..<length (dds_topics default_dds_config)}"
    "\<forall>j < length (dds_topics default_dds_config). fmlookup (dds_table W1) (dds_key dds_id j) =
        Some \<lparr>sub_route = route_topic (dds_topics default_dds_config ! j), tx = 4\<rparr>"
    "case ?run of (r, W', ws) \<Rightarrow> world_ok W' \<and> subs_of W' dds_id = (if r = None then subs_of W1 dds_id else {}) \<and>
        (\<forall>b. b \<noteq> dds_id \<longrightarrow> subs_of W' b = subs_of demo_dds_world b)"
    using dds_session_bridges [OF demo_joins demo_dds_world_ok dds_host_ok(1) [of "''x''"], where a = dds_id and ch = 4
        and c = wrapper_codecs and order = sorted_list_of_fset and evs = "[DdsTick (demo_taken ''x''), DdsShutdown]"]
    by (elim exE conjE) (rule that)
  show ?thesis
  proof (intro exI conjI)
    show "subs_of W1 dds_id = {dds_key dds_id 0}" using W1(1) by (simp add: ts lessThan_Suc)
    show "fmlookup (dds_table W1) (dds_key dds_id 0) = Some \<lparr>sub_route = route_topic ''demo'', tx = 4\<rparr>"
      using W1(2) by (simp add: ts)
    show "case ?run of (r, W', ws) \<Rightarrow> subs_of W' dds_id = (if r = None then subs_of W1 dds_id else {})"
      using W1(3) by (cases ?run) simp
  qed
qed

theorem dds_no_echo_witness:
  "\<exists>r B' ds. dds_poll_inbound (dds_host ''x'') wrapper_codecs sorted_list_of_fset default_dds_config dds_id (demo_taken ''x'')
      \<lparr>dworld = demo_dds_world, dsession = joined_session\<rparr> = (r, B') \<and>
    bq_queue (chans (dworld B')) 1 = ds \<and>
    (\<forall>d \<in> set ds. dds_forward_outbound (dds_host ''x'') demo_lib default_dds_config dds_id d joined_session = (Inr (), joined_session))"
proof -
  let ?B = "\<lparr>dworld = demo_dds_world, dsession = joined_session\<rparr>"
  obtain r B' where p: "dds_poll_inbound (dds_host ''x'') wrapper_codecs sorted_list_of_fset default_dds_config dds_id
      (demo_taken ''x'') ?B = (r, B')"
    by (cases "dds_poll_inbound (dds_host ''x'') wrapper_codecs sorted_list_of_fset default_dds_config dds_id (demo_taken ''x'') ?B")
  have on: "dds_suppress_echo default_dds_config" by (simp add: default_dds_config_def)
  have "bq_queue demo_world 1 = []" by (simp add: demo_world_def bq_queue_def)
  then show ?thesis
    using dds_no_echo [OF dds_host_ok(2) on p, of 1 demo_lib joined_session] p by auto
qed

theorem dds_relay_witness:
  "\<exists>w i. dds_envelopes (dds_host ''x'') default_dds_config dds_id ''demo'' (demo_sample ''x'') demo_dds_world = Inr ([w, i], 2) \<and>
     sample_from_envelope (dds_host ''x'') w = Inr (demo_sample ''x'')"
proof -
  have j: "json_faithful (json_parse (dds_host ''x'')) (json_print (dds_host ''x''))
      (minimal_root (smeta (demo_sample ''x'')) (sencoded (demo_sample ''x'')))"
    using one_value_faithful by (simp add: dds_host_def demo_sample_def)
  have "length (sencoded (demo_sample ''x'')) \<le> MAX_DECODED_PAYLOAD"
    "length (sencoded (demo_sample ''x'')) \<le> max_sample_size default_dds_config"
    "dds_unwrap_ma_payloads default_dds_config"
    by (simp_all add: demo_sample_def MAX_DECODED_PAYLOAD_def default_dds_config_def DEFAULT_MAX_SAMPLE_SIZE_def)
  from dds_relay [OF j this demo_into, where a = dds_id and t = "''demo''" and W = demo_dds_world]
  show ?thesis by blast
qed

abbreviation large_payload :: bytes where
  "large_payload \<equiv> replicate (9 * 1024 * 1024) CHR ''x''"

theorem dds_large_sample_fatal_witness:
  "dds_drive (dds_host ''x'') wrapper_codecs demo_lib sorted_list_of_fset default_dds_config dds_id
     [DdsTick (demo_taken large_payload)] \<lparr>dworld = demo_dds_world, dsession = joined_session\<rparr> =
   (Some (Inl (failed dds_id (show_agra_error PayloadTooLarge))), \<lparr>dworld = demo_dds_world, dsession = joined_session\<rparr>)"
proof -
  have "MAX_DECODED_PAYLOAD < length (sencoded (demo_sample large_payload))"
    "length (sencoded (demo_sample large_payload)) \<le> max_sample_size default_dds_config"
    by (simp_all add: demo_sample_def MAX_DECODED_PAYLOAD_def default_dds_config_def DEFAULT_MAX_SAMPLE_SIZE_def del: replicate.simps)
  moreover have "dds_unwrap_ma_payloads default_dds_config" by (simp add: default_dds_config_def)
  moreover have "session_poll sorted_list_of_fset (demo_taken large_payload)
      (dsession \<lparr>dworld = demo_dds_world, dsession = joined_session\<rparr>) = Inr ((''demo'', demo_sample large_payload) # [])"
    unfolding DdsBridge.simps by (rule demo_poll)
  ultimately show ?thesis using dds_large_sample_fatal by blast
qed

end
