(* ===== verification/Host_Config.thy ===== *)
theory Host_Config
  imports Owp_Server Stomp_Adapter Dds_Adapter
begin

text \<open>
  What the host reads before it starts anything, \<open>oa-gateway/src\<close>: the command line (\<open>cli.rs\<close>), the
  sections of the configuration with their defaults and the strings they check (\<open>config/\<close>), and
  addresses (\<open>addr.rs\<close>). The TOML reader that fills the sections is the host's argument; what it puts
  into a field that is not in the file is the default here, except that a section that is present is
  enabled.
\<close>

section \<open>The command line\<close>

datatype Cli = Run string | Help | Version

fun parse_args_loop :: "string list \<Rightarrow> string option \<Rightarrow> string + Cli" where
  "parse_args_loop [] config =
     (case config of Some path \<Rightarrow> Inr (Run path) | None \<Rightarrow> Inl ''missing CONFIG. Try `oa-gateway --help`.'')"
| "parse_args_loop (arg # args) config =
     (if arg = ''-h'' \<or> arg = ''--help'' then Inr Help
      else if arg = ''-V'' \<or> arg = ''--version'' then Inr Version
      else if prefix ''-'' arg then Inl (''unknown option `'' @ arg @ ''`. Try `oa-gateway --help`.'')
      else if config = None then parse_args_loop args (Some arg)
      else Inl (''unexpected second argument `'' @ arg @ ''`. oa-gateway takes one config path.''))"

definition parse_args :: "string list \<Rightarrow> string + Cli" where
  "parse_args args = parse_args_loop args None"

section \<open>Sections\<close>

record EngineSection =
  stats_interval_secs :: nat

definition default_engine_section :: EngineSection where
  "default_engine_section = \<lparr>stats_interval_secs = 30\<rparr>"

record UciSection =
  uci_schema :: "string list"
  uci_validate :: string

definition default_uci_section :: UciSection where
  "default_uci_section = \<lparr>uci_schema = [], uci_validate = show_mode Warn\<rparr>"

definition uci_validate_mode :: "UciSection \<Rightarrow> string + Mode" where
  "uci_validate_mode s = map_err (\<lambda>err. ''uci.validate: '' @ err) (parse_mode (uci_validate s))"

record LoopbackSection =
  lo_enabled :: bool
  lo_id :: string

definition default_loopback_section :: LoopbackSection where
  "default_loopback_section = \<lparr>lo_enabled = False, lo_id = ''loopback''\<rparr>"

record OwpSection =
  ow_enabled :: bool
  ow_id :: string
  ow_bind :: string
  ow_server_id :: string
  ow_system_label :: string
  ow_schema :: string
  ow_unwrap_ma_payloads :: bool
  ow_xml_baseline :: bool
  ow_tls_cert :: string
  ow_tls_key :: string
  ow_tls_client_ca :: string
  ow_max_frame_size :: nat
  ow_max_connections :: nat
  ow_max_subscriptions :: nat
  ow_init_timeout_secs :: nat
  ow_idle_timeout_secs :: nat
  ow_allowed_origins :: "string list"
  ow_reconnect :: bool
  ow_reconnect_delay_secs :: nat
  ow_on_panic :: string

definition default_owp_section :: OwpSection where
  "default_owp_section =
     \<lparr>ow_enabled = False, ow_id = ''owp'', ow_bind = ''127.0.0.1:9000'', ow_server_id = ''oa-gateway-0'',
      ow_system_label = ''OA-Gateway Prototype'', ow_schema = ''002.5.0'', ow_unwrap_ma_payloads = True,
      ow_xml_baseline = False, ow_tls_cert = [], ow_tls_key = [], ow_tls_client_ca = [],
      ow_max_frame_size = OWP_DEFAULT_MAX_FRAME_SIZE, ow_max_connections = DEFAULT_MAX_CONNECTIONS,
      ow_max_subscriptions = DEFAULT_MAX_SUBSCRIPTIONS, ow_init_timeout_secs = DEFAULT_INIT_TIMEOUT_SECS,
      ow_idle_timeout_secs = DEFAULT_IDLE_TIMEOUT_SECS, ow_allowed_origins = [], ow_reconnect = False,
      ow_reconnect_delay_secs = 1, ow_on_panic = show_on_panic Abort\<rparr>"

definition owp_on_panic_mode :: "OwpSection \<Rightarrow> string + OnPanic" where
  "owp_on_panic_mode s = map_err (\<lambda>err. ''owp.on_panic: '' @ err) (on_panic_from_str (ow_on_panic s))"

record StompSection =
  st_enabled :: bool
  st_id :: string
  st_broker :: string
  st_host :: string
  st_login :: string
  st_passcode :: Secret
  st_destination_prefix :: string
  st_topics :: "string list"
  st_unwrap_ma_payloads :: bool
  st_reconnect :: bool
  st_reconnect_delay_secs :: nat
  st_connect_timeout_secs :: nat
  st_suppress_echo :: bool
  st_on_panic :: string
  st_max_frame_size :: nat
  st_tls :: bool
  st_tls_ca :: string
  st_tls_server_name :: string
  st_tls_client_cert :: string
  st_tls_client_key :: string

definition default_stomp_section :: StompSection where
  "default_stomp_section =
     \<lparr>st_enabled = False, st_id = ''stomp'', st_broker = ''127.0.0.1:61613'', st_host = ''/'', st_login = [],
      st_passcode = Secret [], st_destination_prefix = ''/topic/'', st_topics = [''demo''],
      st_unwrap_ma_payloads = True, st_reconnect = True, st_reconnect_delay_secs = 1, st_connect_timeout_secs = 5,
      st_suppress_echo = True, st_on_panic = show_on_panic Abort, st_max_frame_size = DEFAULT_MAX_FRAME_SIZE,
      st_tls = False, st_tls_ca = [], st_tls_server_name = [], st_tls_client_cert = [], st_tls_client_key = []\<rparr>"

definition stomp_on_panic_mode :: "StompSection \<Rightarrow> string + OnPanic" where
  "stomp_on_panic_mode s = map_err (\<lambda>err. ''stomp.on_panic: '' @ err) (on_panic_from_str (st_on_panic s))"

record DdsSection =
  dd_enabled :: bool
  dd_id :: string
  dd_provider :: string
  dd_domain_id :: nat
  dd_qos :: string
  dd_topics :: "string list"
  dd_unwrap_ma_payloads :: bool
  dd_suppress_echo :: bool
  dd_reconnect :: bool
  dd_reconnect_delay_secs :: nat
  dd_on_panic :: string
  dd_max_sample_size :: nat

definition default_dds_section :: DdsSection where
  "default_dds_section =
     \<lparr>dd_enabled = False, dd_id = ''dds'', dd_provider = show_provider_kind Rustdds, dd_domain_id = 0, dd_qos = [],
      dd_topics = [''demo''], dd_unwrap_ma_payloads = True, dd_suppress_echo = True, dd_reconnect = False,
      dd_reconnect_delay_secs = 1, dd_on_panic = show_on_panic Abort, dd_max_sample_size = DEFAULT_MAX_SAMPLE_SIZE\<rparr>"

definition provider_kind :: "DdsSection \<Rightarrow> string + DdsProviderKind" where
  "provider_kind s = map_err (\<lambda>err. ''dds.provider: '' @ err) (provider_kind_from_str (dd_provider s))"

definition dds_on_panic_mode :: "DdsSection \<Rightarrow> string + OnPanic" where
  "dds_on_panic_mode s = map_err (\<lambda>err. ''dds.on_panic: '' @ err) (on_panic_from_str (dd_on_panic s))"

definition require_qos :: "(string \<Rightarrow> bool) \<Rightarrow> DdsSection \<Rightarrow> string + string" where
  "require_qos path_exists s =
     (if dd_qos s = [] then Inl ''dds.qos is required when [dds] is present''
      else if \<not> path_exists (dd_qos s) then Inl (''dds.qos '' @ dd_qos s @ '' not found'')
      else Inr (dd_qos s))"

record Config =
  engine_section :: EngineSection
  uci_section :: UciSection
  loopback_section :: LoopbackSection
  owp_section :: OwpSection
  stomp_section :: StompSection
  dds_section :: DdsSection

definition default_config :: Config where
  "default_config = \<lparr>engine_section = default_engine_section, uci_section = default_uci_section,
     loopback_section = default_loopback_section, owp_section = default_owp_section,
     stomp_section = default_stomp_section, dds_section = default_dds_section\<rparr>"

section \<open>Addresses\<close>

text \<open>Parsing a socket address and looking a name up are arguments. A candidate is an address with
  its family: \<open>True\<close> is IPv4.\<close>

record AddrLib =
  parse_socket :: "string \<Rightarrow> string option"
  lookup_host :: "string \<Rightarrow> string + (bool \<times> string) list"

definition resolve_addr :: "AddrLib \<Rightarrow> string \<Rightarrow> string \<Rightarrow> string + string" where
  "resolve_addr A key v =
     (case parse_socket A v of
        Some addr \<Rightarrow> Inr addr
      | None \<Rightarrow>
          res_bind (map_err (\<lambda>err. key @ '' = '' @ [QUOTE] @ v @ [QUOTE] @ '' is not a usable address ('' @ err @
              ''). Expected host:port, such as 127.0.0.1:9000.'') (lookup_host A v)) (\<lambda>candidates.
          ok_or (map_option snd (case find fst candidates of
                   Some c \<Rightarrow> Some c
                 | None \<Rightarrow> (case candidates of [] \<Rightarrow> None | c # _ \<Rightarrow> Some c)))
            (key @ '' = '' @ [QUOTE] @ v @ [QUOTE] @ '' resolved to no addresses'')))"

text \<open>\<open>str::rfind\<close> of a character.\<close>

definition rfind :: "char \<Rightarrow> string \<Rightarrow> nat option" where
  "rfind c s = map_option (\<lambda>i. length s - 1 - i) (position (\<lambda>x. x = c) (rev s))"

definition host_part :: "string \<Rightarrow> string" where
  "host_part v =
     (let plain = (case rfind CHR '':'' v of Some i \<Rightarrow> take i v | None \<Rightarrow> v)
      in case strip_prefix ''['' v of
           Some rest \<Rightarrow> (case position (\<lambda>x. x = CHR '']'') rest of Some e \<Rightarrow> take e rest | None \<Rightarrow> plain)
         | None \<Rightarrow> plain)"

section \<open>Lemmas\<close>

text \<open>The gateway runs on exactly one argument that is not an option.\<close>

lemma parse_args_run: "parse_args args = Inr (Run p) \<longleftrightarrow> args = [p] \<and> \<not> prefix ''-'' p"
proof -
  have more: "parse_args_loop args (Some c) = Inr (Run p) \<longleftrightarrow> args = [] \<and> c = p" for args c
    by (cases args) auto
  show ?thesis unfolding parse_args_def by (cases args) (auto simp: more)
qed

text \<open>The name a certificate is checked against: what stands before the port.\<close>

lemma position_rev: "CHR '':'' \<notin> set p \<Longrightarrow> rfind CHR '':'' (n @ CHR '':'' # p) = Some (length n)"
  unfolding rfind_def by (simp, subst position_append) auto

lemma host_part_of:
  "CHR '':'' \<notin> set p \<Longrightarrow> \<not> prefix ''['' (n @ CHR '':'' # p) \<Longrightarrow> host_part (n @ CHR '':'' # p) = n"
  "CHR '']'' \<notin> set n \<Longrightarrow> host_part (CHR ''['' # n @ CHR '']'' # CHR '':'' # p) = n"
proof -
  show "CHR '':'' \<notin> set p \<Longrightarrow> \<not> prefix ''['' (n @ CHR '':'' # p) \<Longrightarrow> host_part (n @ CHR '':'' # p) = n"
    by (simp add: host_part_def position_rev strip_prefix_def)
  have "position (\<lambda>x. x = CHR '']'') (n @ CHR '']'' # CHR '':'' # p) = Some (length n)" if "CHR '']'' \<notin> set n"
    using that by (intro position_append) auto
  then show "CHR '']'' \<notin> set n \<Longrightarrow> host_part (CHR ''['' # n @ CHR '']'' # CHR '':'' # p) = n"
    by (simp add: host_part_def strip_prefix_def)
qed

end
