(* ===== verification/Adapter_Tls.thy ===== *)
theory Adapter_Tls
  imports Gateway_Prelude
begin

text \<open>
  TLS settings, \<open>oa-gateway-adapter/src/tls.rs\<close>: which listener and which dialer the configured files
  give, or the message that refuses them. Reading files, parsing PEM, the certificate checks of \<open>rustls\<close>
  and the trust store of the operating system are the record \<open>TlsLib\<close>. A certificate and a key are the
  bytes they are parsed to. What is modelled of a listener is what it presents and whom it asks for a
  certificate; of a dialer, whom it trusts, the name it checks and what it presents. A stream is a plain
  one or one that \<open>tokio_rustls\<close> made, with whatever polling operations those have.
\<close>

record TlsLib =
  fs_read :: "string \<Rightarrow> string + bytes"
  pem_certs :: "bytes \<Rightarrow> string + bytes list"
  pem_key :: "bytes \<Rightarrow> string + bytes"
  add_root :: "bytes list \<Rightarrow> bytes \<Rightarrow> string + unit"
  build_verifier :: "bytes list \<Rightarrow> string + unit"
  single_cert :: "bytes list \<Rightarrow> bytes \<Rightarrow> string + unit"
  client_auth_cert :: "bytes list \<Rightarrow> bytes \<Rightarrow> string + unit"
  native_roots :: "bytes list"
  native_errors :: "string list"
  server_name_of :: "string \<Rightarrow> string + unit"

section \<open>Streams\<close>

datatype 'a poll = Pending | Ready "string + 'a"

text \<open>The \<open>AsyncRead\<close> and \<open>AsyncWrite\<close> operations of a stream type, each with the stream it leaves. A
  read is given the room of its buffer.\<close>

record 's io_ops =
  op_read :: "nat \<Rightarrow> 's \<Rightarrow> bytes poll \<times> 's"
  op_write :: "bytes \<Rightarrow> 's \<Rightarrow> nat poll \<times> 's"
  op_flush :: "'s \<Rightarrow> unit poll \<times> 's"
  op_shutdown :: "'s \<Rightarrow> unit poll \<times> 's"

datatype ('s, 't, 'c) MaybeTlsStream = Plain 's | Server 't | Client 'c

definition label :: "('s, 't, 'c) MaybeTlsStream \<Rightarrow> string" where
  "label m = (case m of Plain _ \<Rightarrow> ''tcp'' | Server _ \<Rightarrow> ''tls'' | Client _ \<Rightarrow> ''tls'')"

definition poll_read ::
  "'s io_ops \<Rightarrow> 't io_ops \<Rightarrow> 'c io_ops \<Rightarrow> nat \<Rightarrow> ('s, 't, 'c) MaybeTlsStream \<Rightarrow> bytes poll \<times> ('s, 't, 'c) MaybeTlsStream" where
  "poll_read p s c room m =
     (case m of
        Plain x \<Rightarrow> map_prod id Plain (op_read p room x)
      | Server x \<Rightarrow> map_prod id Server (op_read s room x)
      | Client x \<Rightarrow> map_prod id Client (op_read c room x))"

definition poll_write ::
  "'s io_ops \<Rightarrow> 't io_ops \<Rightarrow> 'c io_ops \<Rightarrow> bytes \<Rightarrow> ('s, 't, 'c) MaybeTlsStream \<Rightarrow> nat poll \<times> ('s, 't, 'c) MaybeTlsStream" where
  "poll_write p s c buf m =
     (case m of
        Plain x \<Rightarrow> map_prod id Plain (op_write p buf x)
      | Server x \<Rightarrow> map_prod id Server (op_write s buf x)
      | Client x \<Rightarrow> map_prod id Client (op_write c buf x))"

definition poll_flush ::
  "'s io_ops \<Rightarrow> 't io_ops \<Rightarrow> 'c io_ops \<Rightarrow> ('s, 't, 'c) MaybeTlsStream \<Rightarrow> unit poll \<times> ('s, 't, 'c) MaybeTlsStream" where
  "poll_flush p s c m =
     (case m of
        Plain x \<Rightarrow> map_prod id Plain (op_flush p x)
      | Server x \<Rightarrow> map_prod id Server (op_flush s x)
      | Client x \<Rightarrow> map_prod id Client (op_flush c x))"

definition poll_shutdown ::
  "'s io_ops \<Rightarrow> 't io_ops \<Rightarrow> 'c io_ops \<Rightarrow> ('s, 't, 'c) MaybeTlsStream \<Rightarrow> unit poll \<times> ('s, 't, 'c) MaybeTlsStream" where
  "poll_shutdown p s c m =
     (case m of
        Plain x \<Rightarrow> map_prod id Plain (op_shutdown p x)
      | Server x \<Rightarrow> map_prod id Server (op_shutdown s x)
      | Client x \<Rightarrow> map_prod id Client (op_shutdown c x))"

section \<open>Listeners and dialers\<close>

record ServerTls =
  presented :: "bytes list"
  client_roots :: "bytes list option"

record ClientTls =
  trusted :: "bytes list"
  checked_name :: string
  client_auth :: "bytes list option"

definition debug_server_tls :: "ServerTls \<Rightarrow> string" where
  "debug_server_tls t = ''ServerTls { .. }''"

text \<open>\<open>dbg\<close> is the \<open>Debug\<close> form of a \<open>ServerName\<close>.\<close>

definition debug_client_tls :: "(string \<Rightarrow> string) \<Rightarrow> ClientTls \<Rightarrow> string" where
  "debug_client_tls dbg t = ''ClientTls { server_name: '' @ dbg (checked_name t) @ '', .. }''"

text \<open>The handshakes of \<open>tokio_rustls\<close> are the arguments \<open>acceptor\<close> and \<open>connector\<close>.\<close>

definition tls_accept ::
  "(ServerTls \<Rightarrow> 's \<Rightarrow> string + 't) \<Rightarrow> ServerTls \<Rightarrow> 's \<Rightarrow> string + ('s, 't, 'c) MaybeTlsStream" where
  "tls_accept acceptor t s = res_bind (acceptor t s) (\<lambda>x. Inr (Server x))"

definition tls_connect ::
  "(bytes list \<times> bytes list option \<Rightarrow> string \<Rightarrow> 's \<Rightarrow> string + 'c) \<Rightarrow> ClientTls \<Rightarrow> 's \<Rightarrow>
     string + ('s, 't, 'c) MaybeTlsStream" where
  "tls_connect connector t s =
     res_bind (connector (trusted t, client_auth t) (checked_name t) s) (\<lambda>x. Inr (Client x))"

text \<open>The process-wide provider is set once; a later attempt is discarded.\<close>

definition install_provider :: "string option \<Rightarrow> string option" where
  "install_provider p = (case p of None \<Rightarrow> Some ''ring'' | Some q \<Rightarrow> Some q)"

fun add_roots :: "TlsLib \<Rightarrow> string \<Rightarrow> bytes list \<Rightarrow> bytes list \<Rightarrow> string + bytes list" where
  "add_roots L field roots [] = Inr roots"
| "add_roots L field roots (c # cs) =
     res_bind (map_err (\<lambda>err. field @ '': '' @ err) (add_root L roots c)) (\<lambda>_. add_roots L field (roots @ [c]) cs)"

definition root_store_from_pem :: "TlsLib \<Rightarrow> string \<Rightarrow> bytes \<Rightarrow> string + bytes list" where
  "root_store_from_pem L field pem =
     res_bind (map_err (\<lambda>err. field @ '' is not a valid PEM certificate bundle: '' @ err) (pem_certs L pem)) (\<lambda>certs.
     if certs = [] then
       Inl (field @ '' contains no certificates. Expected a PEM bundle of certificate authorities.'')
     else add_roots L field [] certs)"

definition server_tls_from_pem :: "TlsLib \<Rightarrow> string \<Rightarrow> bytes \<Rightarrow> bytes \<Rightarrow> bytes option \<Rightarrow> string + ServerTls" where
  "server_tls_from_pem L key_prefix cert_pem key_pem client_ca_pem =
     res_bind (map_err (\<lambda>err. key_prefix @ ''_cert is not a valid PEM certificate chain: '' @ err) (pem_certs L cert_pem)) (\<lambda>certs.
     if certs = [] then
       Inl (key_prefix @ ''_cert contains no certificates. Expected a PEM chain, leaf certificate first.'')
     else
       res_bind (map_err (\<lambda>err. key_prefix @ ''_key contains no private key ('' @ err @
           ''). Expected a PEM PKCS#8, PKCS#1, or SEC1 key.'') (pem_key L key_pem)) (\<lambda>key.
       res_bind (case client_ca_pem of
           None \<Rightarrow> Inr None
         | Some pem \<Rightarrow>
             res_bind (root_store_from_pem L (key_prefix @ ''_client_ca'') pem) (\<lambda>roots.
             res_bind (map_err (\<lambda>err. key_prefix @ ''_client_ca: '' @ err) (build_verifier L roots)) (\<lambda>_.
             Inr (Some roots)))) (\<lambda>verifier.
       res_bind (map_err (\<lambda>err. key_prefix @ ''_cert and '' @ key_prefix @ ''_key do not match: '' @ err)
           (single_cert L certs key)) (\<lambda>_.
       Inr \<lparr>presented = certs, client_roots = verifier\<rparr>))))"

text \<open>\<open>Option<&Path>::map(read).transpose()\<close>.\<close>

definition read_opt :: "TlsLib \<Rightarrow> string \<Rightarrow> string option \<Rightarrow> string + bytes option" where
  "read_opt L field path =
     (case path of
        None \<Rightarrow> Inr None
      | Some p \<Rightarrow> map_sum (\<lambda>err. ''cannot read '' @ field @ '' '' @ p @ '': '' @ err) Some (fs_read L p))"

definition server_tls ::
  "TlsLib \<Rightarrow> string \<Rightarrow> string option \<Rightarrow> string option \<Rightarrow> string option \<Rightarrow> string + ServerTls option" where
  "server_tls L key_prefix cert key client_ca =
     (case (cert, key) of
        (None, None) \<Rightarrow>
          if client_ca \<noteq> None then
            Inl (key_prefix @ ''_client_ca is set but '' @ key_prefix @ ''_cert and '' @ key_prefix @
              ''_key are not. Verifying client certificates needs the listener to terminate TLS first.'')
          else Inr None
      | (Some _, None) \<Rightarrow>
          Inl (key_prefix @ ''_cert is set but '' @ key_prefix @
            ''_key is not. TLS needs both a certificate chain and its private key.'')
      | (None, Some _) \<Rightarrow>
          Inl (key_prefix @ ''_key is set but '' @ key_prefix @
            ''_cert is not. TLS needs both a certificate chain and its private key.'')
      | (Some cert_path, Some key_path) \<Rightarrow>
          res_bind (map_err (\<lambda>err. ''cannot read '' @ key_prefix @ ''_cert '' @ cert_path @ '': '' @ err) (fs_read L cert_path)) (\<lambda>cert_pem.
          res_bind (map_err (\<lambda>err. ''cannot read '' @ key_prefix @ ''_key '' @ key_path @ '': '' @ err) (fs_read L key_path)) (\<lambda>key_pem.
          res_bind (read_opt L (key_prefix @ ''_client_ca'') client_ca) (\<lambda>client_ca_pem.
          map_sum id Some (server_tls_from_pem L key_prefix cert_pem key_pem client_ca_pem)))))"

definition client_tls_from_pem ::
  "TlsLib \<Rightarrow> string \<Rightarrow> bytes option \<Rightarrow> string \<Rightarrow> bytes option \<Rightarrow> bytes option \<Rightarrow> string + ClientTls" where
  "client_tls_from_pem L key_prefix ca_pem server_name client_cert_pem client_key_pem =
     res_bind (case ca_pem of
         Some pem \<Rightarrow> root_store_from_pem L (key_prefix @ ''_ca'') pem
       | None \<Rightarrow>
           if native_roots L = [] then
             Inl (''cannot read the operating system trust store for '' @ key_prefix @
               (case native_errors L of [] \<Rightarrow> [] | err # _ \<Rightarrow> '': '' @ err) @
               ''. Set '' @ key_prefix @ ''_ca to a PEM bundle instead.'')
           else Inr (native_roots L)) (\<lambda>roots.
     res_bind (map_err (\<lambda>err. key_prefix @ ''_server_name = '' @ [QUOTE] @ server_name @ [QUOTE] @
         '' is not a usable DNS name or IP address ('' @ err @ '').'') (server_name_of L server_name)) (\<lambda>_.
     res_bind (case (client_cert_pem, client_key_pem) of
         (None, None) \<Rightarrow> Inr None
       | (Some cert_pem, Some key_pem) \<Rightarrow>
           res_bind (map_err (\<lambda>err. key_prefix @ ''_client_cert is not a valid PEM certificate chain: '' @ err)
               (pem_certs L cert_pem)) (\<lambda>certs.
           if certs = [] then
             Inl (key_prefix @ ''_client_cert contains no certificates. Expected a PEM chain, leaf certificate first.'')
           else
             res_bind (map_err (\<lambda>err. key_prefix @ ''_client_key contains no private key ('' @ err @
                 ''). Expected a PEM PKCS#8, PKCS#1, or SEC1 key.'') (pem_key L key_pem)) (\<lambda>key.
             res_bind (map_err (\<lambda>err. key_prefix @ ''_client_cert and '' @ key_prefix @ ''_client_key do not match: '' @ err)
                 (client_auth_cert L certs key)) (\<lambda>_.
             Inr (Some certs))))
       | (Some _, None) \<Rightarrow>
           Inl (key_prefix @ ''_client_cert is set but '' @ key_prefix @
             ''_client_key is not. A client certificate needs both a certificate chain and its private key.'')
       | (None, Some _) \<Rightarrow>
           Inl (key_prefix @ ''_client_key is set but '' @ key_prefix @
             ''_client_cert is not. A client certificate needs both a certificate chain and its private key.'')) (\<lambda>auth.
     Inr \<lparr>trusted = roots, checked_name = server_name, client_auth = auth\<rparr>)))"

definition client_tls ::
  "TlsLib \<Rightarrow> string \<Rightarrow> string option \<Rightarrow> string \<Rightarrow> string option \<Rightarrow> string option \<Rightarrow> string + ClientTls" where
  "client_tls L key_prefix ca server_name client_cert client_key =
     res_bind (read_opt L (key_prefix @ ''_ca'') ca) (\<lambda>ca_pem.
     res_bind (read_opt L (key_prefix @ ''_client_cert'') client_cert) (\<lambda>cert_pem.
     res_bind (read_opt L (key_prefix @ ''_client_key'') client_key) (\<lambda>key_pem.
     client_tls_from_pem L key_prefix ca_pem server_name cert_pem key_pem)))"

section \<open>What is asked for is what is given\<close>

lemma add_roots_Inr: "add_roots L field roots cs = Inr out \<Longrightarrow> out = roots @ cs"
  by (induction cs arbitrary: roots) (fastforce simp: res_elims)+

lemma root_store_nonempty: "root_store_from_pem L field pem = Inr roots \<Longrightarrow> roots \<noteq> [] \<and> pem_certs L pem = Inr roots"
  by (auto simp: root_store_from_pem_def res_elims split: if_splits dest: add_roots_Inr)

lemma read_opt_Inr: "read_opt L field p = Inr v \<Longrightarrow> (v = None \<longleftrightarrow> p = None)"
  by (auto simp: read_opt_def split: option.splits) (cases "fs_read L (the p)"; auto)

lemma server_tls_given:
  "server_tls L p cert key ca = Inr None \<longleftrightarrow> cert = None \<and> key = None \<and> ca = None"
  "server_tls L p cert key ca = Inr (Some t) \<Longrightarrow>
     presented t \<noteq> [] \<and> (client_roots t = None \<longleftrightarrow> ca = None) \<and> client_roots t \<noteq> Some []"
proof -
  have pem: "server_tls_from_pem L p c k v = Inr t \<Longrightarrow>
      presented t \<noteq> [] \<and> (client_roots t = None \<longleftrightarrow> v = None) \<and> client_roots t \<noteq> Some []" for c k v t
    by (auto simp: server_tls_from_pem_def res_elims split: if_splits option.splits dest: root_store_nonempty)
  have some: "map_sum id Some r = Inr (Some t) \<longleftrightarrow> r = Inr t" "map_sum id Some r \<noteq> Inr None" for r :: "string + ServerTls" and t
    by (cases r; simp)+
  show "server_tls L p cert key ca = Inr None \<longleftrightarrow> cert = None \<and> key = None \<and> ca = None"
    by (auto simp: server_tls_def res_elims some split: option.splits)
  show "presented t \<noteq> [] \<and> (client_roots t = None \<longleftrightarrow> ca = None) \<and> client_roots t \<noteq> Some []"
    if "server_tls L p cert key ca = Inr (Some t)"
    using that by (auto simp: server_tls_def res_elims some split: option.splits if_splits dest!: pem dest: read_opt_Inr)
qed

lemma client_tls_given:
  "client_tls L p ca n cert key = Inr t \<Longrightarrow>
     trusted t \<noteq> [] \<and> checked_name t = n \<and>
     (if cert = None then key = None \<and> client_auth t = None
      else key \<noteq> None \<and> (\<exists>c cs. client_auth t = Some (c # cs)))"
proof -
  have pem: "client_tls_from_pem L p r n c k = Inr t \<Longrightarrow> trusted t \<noteq> [] \<and> checked_name t = n \<and>
     (if c = None then k = None \<and> client_auth t = None else k \<noteq> None \<and> (\<exists>x xs. client_auth t = Some (x # xs)))" for r c k
    by (auto simp: client_tls_from_pem_def res_elims neq_Nil_conv split: if_splits option.splits dest!: root_store_nonempty)
  show "client_tls L p ca n cert key = Inr t \<Longrightarrow> ?thesis"
    by (auto simp: client_tls_def res_elims dest!: pem dest: read_opt_Inr split: if_splits)
qed

section \<open>A stream keeps its kind\<close>

lemma install_provider_idem: "install_provider (install_provider p) = install_provider p"
  by (simp add: install_provider_def split: option.splits)

text \<open>A handshake that succeeds gives an encrypted stream, never the plain one, and no operation turns
  one kind of stream into another; what a plain stream answers is what the socket answers.\<close>

lemma handshake_encrypts:
  "tls_accept acceptor t s = Inr m \<Longrightarrow> label m = ''tls''" "tls_connect connector u s = Inr n \<Longrightarrow> label n = ''tls''"
  by (auto simp: tls_accept_def tls_connect_def label_def res_elims)

lemma stream_kind_kept:
  "label (snd (poll_read p s c room m)) = label m" "label (snd (poll_write p s c buf m)) = label m"
  "label (snd (poll_flush p s c m)) = label m" "label (snd (poll_shutdown p s c m)) = label m"
  by (cases m; simp add: label_def poll_read_def poll_write_def poll_flush_def poll_shutdown_def)+

text \<open>What is printed of a dialer is its name only: no certificate or key shows.\<close>

lemma debug_hides: "checked_name t = checked_name u \<Longrightarrow> debug_client_tls dbg t = debug_client_tls dbg u"
  by (simp add: debug_client_tls_def)

end
