(* ===== verification/Loopback.thy ===== *)
theory Loopback
  imports Adapter_Host
begin

text \<open>
  The in-process adapter, \<open>oa-gateway-loopback/src/lib.rs\<close>. A handle numbers its subscriptions from
  one, with a 64-bit counter. The task that strips the subscription id from deliveries is a function of
  the deliveries it takes; whether its receiver is still there is an argument.
\<close>

record Loopback =
  lb_id :: AdapterId
  next_sub :: "64 word"

definition new_loopback :: "AdapterId \<Rightarrow> Loopback" where
  "new_loopback a = \<lparr>lb_id = a, next_sub = 1\<rparr>"

definition lb_subscribe ::
  "RouteKey \<Rightarrow> chan \<Rightarrow> Loopback \<Rightarrow> 'w World \<Rightarrow> (EngineError + unit) \<times> Loopback \<times> 'w World" where
  "lb_subscribe r ch L W =
     (let L' = L\<lparr>next_sub := next_sub L + 1\<rparr> in
      case subscribe (engine W) (lb_id L) (SubId (''lb-'' @ show_nat (unat (next_sub L)))) r ch of
        Inl e \<Rightarrow> (Inl e, L', W)
      | Inr (eng, key) \<Rightarrow> (Inr (), L', W\<lparr>engine := eng\<rparr>))"

fun lb_forward :: "(Envelope list \<Rightarrow> bool) \<Rightarrow> Envelope list \<Rightarrow> Delivery list \<Rightarrow> Envelope list" where
  "lb_forward is_open out [] = out"
| "lb_forward is_open out (d # ds) =
     (if is_open out then lb_forward is_open (out @ [del_envelope d]) ds else out)"

definition lb_publish :: "'w Host \<Rightarrow> Envelope \<Rightarrow> 'w World \<Rightarrow> 'w World \<times> PublishOutcome" where
  "lb_publish h e W =
     (case publish (try_send h) (key_order h) (engine W) (chans W) e of
        (eng, w, out) \<Rightarrow> (W\<lparr>engine := eng, chans := w\<rparr>, out))"

definition lb_shutdown :: "'w Host \<Rightarrow> Loopback \<Rightarrow> 'w World \<Rightarrow> 'w World \<times> nat" where
  "lb_shutdown h L W =
     (case drop_adapter (sub_order h) (engine W) (lb_id L) of (eng, n) \<Rightarrow> (W\<lparr>engine := eng\<rparr>, n))"

text \<open>\<open>run\<close> waits for the token: \<open>None\<close> until it fires.\<close>

definition lb_run :: "'w Host \<Rightarrow> bool \<Rightarrow> Loopback \<Rightarrow> 'w World \<Rightarrow> (AdapterError + unit) option \<times> 'w World" where
  "lb_run h fired L W = (if fired then (Some (Inr ()), fst (lb_shutdown h L W)) else (None, W))"

section \<open>Handles\<close>

text \<open>The subscriptions of a handle carry the numbers it has given out.\<close>

definition lb_inv :: "Loopback \<Rightarrow> 'w World \<Rightarrow> bool" where
  "lb_inv L W \<longleftrightarrow> world_ok W \<and>
     (\<forall>k \<in> subs_of W (lb_id L). \<exists>n < unat (next_sub L). sub_id k = SubId (''lb-'' @ show_nat n))"

lemma lb_forward_all: "(\<And>xs. is_open xs) \<Longrightarrow> lb_forward is_open out ds = out @ map del_envelope ds"
  by (induction ds arbitrary: out) simp_all

lemma unat_Suc: "unat (w :: 64 word) < 2 ^ 64 - 1 \<Longrightarrow> unat (w + 1) = Suc (unat w)"
  by (subst unat_add_lem [THEN iffD1]) simp_all

text \<open>A handle never refuses a subscription: its ids do not repeat before the counter is used up.\<close>

lemma lb_subscribe_ok:
  assumes "lb_inv L W" "unat (next_sub L) < 2 ^ 64 - 1"
  shows "\<exists>W'. lb_subscribe r ch L W = (Inr (), L\<lparr>next_sub := next_sub L + 1\<rparr>, W') \<and>
    lb_inv (L\<lparr>next_sub := next_sub L + 1\<rparr>) W' \<and>
    subs_of W' (lb_id L) = insert (SubscriberKey (lb_id L) (SubId (''lb-'' @ show_nat (unat (next_sub L))))) (subs_of W (lb_id L)) \<and>
    (\<forall>b. b \<noteq> lb_id L \<longrightarrow> subs_of W' b = subs_of W b)"
proof -
  let ?i = "SubId (''lb-'' @ show_nat (unat (next_sub L)))"
  have "SubscriberKey (lb_id L) ?i \<notin> subs_of W (lb_id L)"
    using assms(1) by (auto simp: lb_inv_def show_nat_inj)
  then have free: "SubscriberKey (lb_id L) ?i |\<notin>| fmdom (by_key (engine_state (engine W)))"
    by (simp add: subs_of_def)
  obtain eng key where sub: "subscribe (engine W) (lb_id L) ?i r ch = Inr (eng, key)"
    using eng.sub_succeeds [OF free] by blast
  let ?W = "W\<lparr>engine := eng\<rparr>"
  have tbl: "by_key (engine_state eng) = fmupd (SubscriberKey (lb_id L) ?i) \<lparr>sub_route = r, tx = ch\<rparr> (by_key (engine_state (engine W)))"
    using eng.sub_Inr [OF sub] by blast
  have ok: "world_ok ?W" using eng.sub_inv [OF _ sub] assms(1) by (simp add: world_ok_def lb_inv_def)
  have subs: "subs_of ?W (lb_id L) = insert (SubscriberKey (lb_id L) ?i) (subs_of W (lb_id L))"
    "\<And>b. b \<noteq> lb_id L \<Longrightarrow> subs_of ?W b = subs_of W b"
    by (auto simp: subs_of_def tbl)
  have "lb_inv (L\<lparr>next_sub := next_sub L + 1\<rparr>) ?W"
    using assms(1) ok subs(1) unat_Suc [OF assms(2)] by (auto simp: lb_inv_def less_Suc_eq)
  then show ?thesis using sub subs by (simp add: lb_subscribe_def Let_def)
qed

lemma lb_shutdown_ok:
  assumes "world_ok W" "host_ok h" "lb_shutdown h L W = (W', n)"
  shows "world_ok W' \<and> subs_of W' (lb_id L) = {} \<and> (\<forall>b. b \<noteq> lb_id L \<longrightarrow> subs_of W' b = subs_of W b) \<and> lb_inv L W'"
proof -
  have "W' = drop_subs h (lb_id L) W" using assms(3) by (auto simp: lb_shutdown_def drop_subs_def split: prod.splits)
  then show ?thesis using drop_subs_ok [OF assms(1,2)] by (simp add: lb_inv_def)
qed

end
