(* ===== verification/Uci_Xsd.thy ===== *)
theory Uci_Xsd
  imports Uci_Validate "HOL-Library.Multiset"
begin

text \<open>
  The XSD compiler, \<open>oa-gateway-uci/src/xsd\<close>: \<open>node_util.rs\<close>, \<open>parse.rs\<close>, \<open>assemble.rs\<close> and
  \<open>references.rs\<close>, and the fixture schema of \<open>slice.rs\<close>. A \<open>roxmltree\<close> node is what the compiler
  reads of it: the namespace and local name of its tag, its attributes without a namespace, the
  namespace bindings in scope and its child elements; text and comments are never looked at. The
  parser is the argument \<open>parse\<close>, the \<open>regex\<close> crate the argument \<open>rx\<close>.

  The lemmas say what a schema that compiled is: the declarations of all documents, each name once,
  with every reference resolved, whatever the order of the documents; and what is left that a type
  of it can fail on later.
\<close>

section \<open>Nodes\<close>

datatype xsd_node =
  XsdNode (ns: "string option") (tag: string) (attrs: "(string \<times> string) list")
    (bindings: "(string option \<times> string) list") (kids: "xsd_node list")

definition XS :: string where "XS = ''http://www.w3.org/2001/XMLSchema''"

definition attribute :: "xsd_node \<Rightarrow> string \<Rightarrow> string option" where
  "attribute n a = map_of (attrs n) a"

definition lookup_namespace_uri :: "xsd_node \<Rightarrow> string option \<Rightarrow> string option" where
  "lookup_namespace_uri n p = map_of (bindings n) p"

definition is_xs :: "xsd_node \<Rightarrow> bool" where
  "is_xs n \<longleftrightarrow> ns n = Some XS"

definition definitions :: "xsd_node \<Rightarrow> UciError + xsd_node list" where
  "definitions n =
     (case find (\<lambda>c. \<not> is_xs c) (kids n) of
        Some c \<Rightarrow> Inl (Xsd (''unexpected element <'' @ tag c @ ''> outside the XML Schema namespace''))
      | None \<Rightarrow> Inr (filter (\<lambda>c. tag c \<noteq> ''annotation'') (kids n)))"

definition required :: "xsd_node \<Rightarrow> string \<Rightarrow> UciError + string" where
  "required n a =
     ok_or (attribute n a) (Xsd (''<xs:'' @ tag n @ ''> is missing the required '' @ a @ ''= attribute''))"

definition type_ref :: "xsd_node \<Rightarrow> string \<Rightarrow> string" where
  "type_ref n qname =
     (let (p, l) = (case split_once CHR '':'' qname of Some (p, l) \<Rightarrow> (Some p, l) | None \<Rightarrow> (None, qname))
      in if lookup_namespace_uri n p = Some XS then ''xs:'' @ l else l)"

section \<open>One declaration\<close>

definition xsd_min_occurs :: "xsd_node \<Rightarrow> string \<Rightarrow> UciError + nat" where
  "xsd_min_occurs n owner =
     (case attribute n ''minOccurs'' of
        None \<Rightarrow> Inr 1
      | Some raw \<Rightarrow>
          ok_or (parse_unsigned 32 raw) (Xsd (in_quotes owner @ '' has an unreadable minOccurs='' @ in_quotes raw)))"

definition xsd_max_occurs :: "xsd_node \<Rightarrow> string \<Rightarrow> UciError + MaxOccurs" where
  "xsd_max_occurs n owner =
     (case attribute n ''maxOccurs'' of
        None \<Rightarrow> Inr (Bounded 1)
      | Some raw \<Rightarrow>
          (if raw = ''unbounded'' then Inr Unbounded
           else ok_or (map_option Bounded (parse_unsigned 32 raw))
                  (Xsd (in_quotes owner @ '' has an unreadable maxOccurs='' @ in_quotes raw))))"

definition local_element :: "xsd_node \<Rightarrow> string \<Rightarrow> UciError + Element" where
  "local_element n owner =
     res_bind (map_err (\<lambda>_. Xsd (''an element of '' @ in_quotes owner @ '' has no name='')) (required n ''name'')) (\<lambda>nm.
     res_bind (case attribute n ''type'' of
         Some t \<Rightarrow> Inr (type_ref n t)
       | None \<Rightarrow> Inl (Xsd (''element '' @ in_quotes (owner @ ''/'' @ nm) @
                      '' has no type=; anonymous inline types are not supported''))) (\<lambda>t.
     res_bind (xsd_min_occurs n owner) (\<lambda>mn.
     res_bind (xsd_max_occurs n owner) (\<lambda>mx.
     Inr \<lparr>ename = nm, etype = t, min_occurs = mn, max_occurs = mx\<rparr>))))"

fun compositor_loop :: "string \<Rightarrow> xsd_node list \<Rightarrow> UciError + Element list" where
  "compositor_loop owner [] = Inr []"
| "compositor_loop owner (c # cs) =
     (if tag c = ''element'' then
        res_bind (local_element c owner) (\<lambda>e. res_bind (compositor_loop owner cs) (\<lambda>es. Inr (e # es)))
      else Inl (Xsd (''complexType '' @ in_quotes owner @ '' nests '' @ in_quotes (''xs:'' @ tag c) @
                  '' inside a compositor, which is not supported'')))"

definition compositor :: "xsd_node \<Rightarrow> string \<Rightarrow> UciError + Element list" where
  "compositor n owner =
     (if attribute n ''minOccurs'' \<noteq> None \<or> attribute n ''maxOccurs'' \<noteq> None then
        Inl (Xsd (''complexType '' @ in_quotes owner @
          '' puts occurrence constraints on a compositor, which the flat element model cannot represent''))
      else res_bind (definitions n) (compositor_loop owner))"

text \<open>A sequence or a choice; anything else is the error the caller words.\<close>

definition group_of :: "string \<Rightarrow> (string \<Rightarrow> string) \<Rightarrow> xsd_node \<Rightarrow> UciError + Group" where
  "group_of owner unsupported c =
     (if tag c = ''sequence'' then res_bind (compositor c owner) (\<lambda>es. Inr (sequence es))
      else if tag c = ''choice'' then res_bind (compositor c owner) (\<lambda>es. Inr (choice es))
      else Inl (Xsd (unsupported (tag c))))"

fun extra_groups :: "string \<Rightarrow> xsd_node list \<Rightarrow> UciError + Group list" where
  "extra_groups owner [] = Inr []"
| "extra_groups owner (c # cs) =
     res_bind (group_of owner (\<lambda>other. ''complexType '' @ in_quotes owner @
         '' extends its base with unsupported '' @ in_quotes (''xs:'' @ other)) c) (\<lambda>g.
     res_bind (extra_groups owner cs) (\<lambda>gs. Inr (g # gs)))"

definition complex_content :: "xsd_node \<Rightarrow> string \<Rightarrow> UciError + ComplexContent" where
  "complex_content n owner =
     res_bind (definitions n) (\<lambda>ds.
     case ds of
       [] \<Rightarrow> Inl (Xsd (''complexType '' @ in_quotes owner @ '' has an empty xs:complexContent''))
     | derivation # _ \<Rightarrow>
         (if tag derivation \<noteq> ''extension'' then
            Inl (Xsd (''complexType '' @ in_quotes owner @ '' derives by '' @ in_quotes (''xs:'' @ tag derivation) @
                   ''; only extension is supported''))
          else
            res_bind (required derivation ''base'') (\<lambda>b.
            res_bind (definitions derivation) (\<lambda>inner.
            res_bind (extra_groups owner inner) (\<lambda>extra.
            Inr (Extension (type_ref derivation b) extra))))))"

definition content_model :: "string \<Rightarrow> xsd_node \<Rightarrow> UciError + ComplexContent" where
  "content_model owner c =
     (if tag c = ''complexContent'' then complex_content c owner
      else res_bind (group_of owner (\<lambda>other. ''complexType '' @ in_quotes owner @
             '' uses unsupported content model '' @ in_quotes (''xs:'' @ other)) c) (\<lambda>g. Inr (Groups [g])))"

fun content_loop :: "string \<Rightarrow> xsd_node list \<Rightarrow> bool \<Rightarrow> ComplexContent \<Rightarrow> UciError + ComplexContent" where
  "content_loop owner [] is_defined ct = Inr ct"
| "content_loop owner (c # cs) is_defined ct =
     (if is_defined then
        Inl (Xsd (''complexType '' @ in_quotes owner @ '' declares more than one content model''))
      else res_bind (content_model owner c) (content_loop owner cs True))"

definition complex_type :: "xsd_node \<Rightarrow> UciError + ComplexType" where
  "complex_type n =
     res_bind (required n ''name'') (\<lambda>nm.
     res_bind (definitions n) (\<lambda>ds.
     res_bind (content_loop nm ds False (Groups [])) (\<lambda>ct.
     Inr \<lparr>cname = nm, abstract = (attribute n ''abstract'' = Some ''true''), content = ct\<rparr>)))"

definition facet_count :: "string \<Rightarrow> string \<Rightarrow> string \<Rightarrow> UciError + nat" where
  "facet_count nm v what =
     ok_or (parse_unsigned 64 v)
       (Xsd (''simpleType '' @ in_quotes nm @ '' has '' @ what @ '' of '' @ in_quotes v @ '', which is not a length''))"

definition facet_number :: "string \<Rightarrow> string \<Rightarrow> string \<Rightarrow> UciError + f64" where
  "facet_number nm v what =
     ok_or (parse_f64 v)
       (Xsd (''simpleType '' @ in_quotes nm @ '' has '' @ what @ '' of '' @ in_quotes v @ '', which is not a number''))"

definition add_facet :: "regex_new \<Rightarrow> string \<Rightarrow> string \<Rightarrow> string \<Rightarrow> Facets \<Rightarrow> UciError + Facets" where
  "add_facet rx nm t v f =
     (if t = ''enumeration'' then Inr (f\<lparr>enumeration := enumeration f @ [v]\<rparr>)
      else if t = ''pattern'' then Inr (f\<lparr>patterns := patterns f @ [new_pattern rx v]\<rparr>)
      else if t = ''length'' then res_bind (facet_count nm v ''a length'') (\<lambda>k. Inr (f\<lparr>flength := Some k\<rparr>))
      else if t = ''minLength'' then res_bind (facet_count nm v ''a minLength'') (\<lambda>k. Inr (f\<lparr>min_length := Some k\<rparr>))
      else if t = ''maxLength'' then res_bind (facet_count nm v ''a maxLength'') (\<lambda>k. Inr (f\<lparr>max_length := Some k\<rparr>))
      else if t = ''minInclusive'' then
        res_bind (facet_number nm v ''a minInclusive'') (\<lambda>x. Inr (f\<lparr>min_inclusive := Some x\<rparr>))
      else if t = ''maxInclusive'' then
        res_bind (facet_number nm v ''a maxInclusive'') (\<lambda>x. Inr (f\<lparr>max_inclusive := Some x\<rparr>))
      else if t = ''minExclusive'' then
        res_bind (facet_number nm v ''a minExclusive'') (\<lambda>x. Inr (f\<lparr>min_exclusive := Some x\<rparr>))
      else if t = ''maxExclusive'' then
        res_bind (facet_number nm v ''a maxExclusive'') (\<lambda>x. Inr (f\<lparr>max_exclusive := Some x\<rparr>))
      else Inl (Xsd (''simpleType '' @ in_quotes nm @ '' uses unsupported facet '' @ in_quotes (''xs:'' @ t))))"

fun facet_loop :: "regex_new \<Rightarrow> string \<Rightarrow> xsd_node list \<Rightarrow> Facets \<Rightarrow> UciError + Facets" where
  "facet_loop rx nm [] f = Inr f"
| "facet_loop rx nm (c # cs) f =
     (if tag c = ''whiteSpace'' then facet_loop rx nm cs f
      else
        res_bind (map_err (\<lambda>_. Xsd (''simpleType '' @ in_quotes nm @ '' has an '' @ in_quotes (''xs:'' @ tag c) @
            '' facet with no value='')) (required c ''value'')) (\<lambda>v.
        res_bind (add_facet rx nm (tag c) v f) (facet_loop rx nm cs)))"

definition simple_type :: "regex_new \<Rightarrow> xsd_node \<Rightarrow> UciError + string \<times> SimpleType" where
  "simple_type rx n =
     res_bind (required n ''name'') (\<lambda>nm.
     res_bind (definitions n) (\<lambda>ds.
     case ds of
       [] \<Rightarrow> Inl (Xsd (''simpleType '' @ in_quotes nm @ '' has no xs:restriction''))
     | restriction # _ \<Rightarrow>
         (if tag restriction \<noteq> ''restriction'' then
            Inl (Xsd (''simpleType '' @ in_quotes nm @ '' uses '' @ in_quotes (''xs:'' @ tag restriction) @
                   ''; only restriction is supported''))
          else
            res_bind (required restriction ''base'') (\<lambda>b.
            res_bind (definitions restriction) (\<lambda>fs.
            res_bind (facet_loop rx nm fs default_facets) (\<lambda>f.
            Inr (nm, \<lparr>base = type_ref restriction b, facets = f\<rparr>)))))))"

section \<open>A document\<close>

datatype Definition = DElement | DComplex | DSimple

definition claim :: "Schema \<Rightarrow> string \<Rightarrow> Definition \<Rightarrow> UciError + unit" where
  "claim s nm k =
     (let taken = (case k of
            DElement \<Rightarrow> fmlookup (global_elements s) nm \<noteq> None
          | DComplex \<Rightarrow> fmlookup (complex_types s) nm \<noteq> None
          | DSimple \<Rightarrow> fmlookup (simple_types s) nm \<noteq> None);
          what = (case k of DElement \<Rightarrow> ''global element'' | DComplex \<Rightarrow> ''complexType'' | DSimple \<Rightarrow> ''simpleType'')
      in if taken then
           Inl (Xsd (what @ '' '' @ in_quotes nm @ '' is defined twice; is the same document passed more than once?''))
         else Inr ())"

definition add_child :: "regex_new \<Rightarrow> xsd_node \<Rightarrow> Schema \<Rightarrow> UciError + Schema" where
  "add_child rx c s =
     (if tag c = ''element'' then
        res_bind (required c ''name'') (\<lambda>nm.
        res_bind (map_err (\<lambda>_. Xsd (''global element '' @ in_quotes nm @
            '' has no type=; anonymous inline types are not supported'')) (required c ''type'')) (\<lambda>t.
        res_bind (claim s nm DElement) (\<lambda>_.
        Inr (s\<lparr>global_elements := fmupd nm (type_ref c t) (global_elements s)\<rparr>))))
      else if tag c = ''complexType'' then
        res_bind (complex_type c) (\<lambda>ct.
        res_bind (claim s (cname ct) DComplex) (\<lambda>_.
        Inr (s\<lparr>complex_types := fmupd (cname ct) ct (complex_types s)\<rparr>)))
      else if tag c = ''simpleType'' then
        res_bind (simple_type rx c) (\<lambda>(nm, st).
        res_bind (claim s nm DSimple) (\<lambda>_.
        Inr (s\<lparr>simple_types := fmupd nm st (simple_types s)\<rparr>)))
      else if tag c = ''include'' \<or> tag c = ''import'' then Inr s
      else Inl (Xsd (''top-level '' @ in_quotes (''xs:'' @ tag c) @ '' is outside the supported subset'')))"

fun add_children :: "regex_new \<Rightarrow> xsd_node list \<Rightarrow> Schema \<Rightarrow> UciError + Schema" where
  "add_children rx [] s = Inr s"
| "add_children rx (c # cs) s = res_bind (add_child rx c s) (add_children rx cs)"

definition add_document :: "regex_new \<Rightarrow> xsd_node \<Rightarrow> Schema \<Rightarrow> UciError + Schema" where
  "add_document rx r s =
     (if \<not> is_xs r \<or> tag r \<noteq> ''schema'' then
        Inl (Xsd (''root element is <'' @ tag r @ ''>, expected <xs:schema>''))
      else res_bind (definitions r) (\<lambda>ds. add_children rx ds s))"

section \<open>References\<close>

definition MAX_REPORTED :: nat where "MAX_REPORTED = 10"

definition known :: "Schema \<Rightarrow> string \<Rightarrow> bool" where
  "known s t \<longleftrightarrow> prefix ''xs:'' t \<or> fmlookup (complex_types s) t \<noteq> None \<or> fmlookup (simple_types s) t \<noteq> None"

text \<open>The \<open>BTreeSet\<close> of names is a strictly sorted list.\<close>

definition note_missing :: "Schema \<Rightarrow> string \<Rightarrow> string list \<Rightarrow> string list" where
  "note_missing s t missing = (if known s t then missing else insort_insert t missing)"

definition fm_values :: "(string, 'a) fmap \<Rightarrow> 'a list" where
  "fm_values m = map (\<lambda>k. the (fmlookup m k)) (sorted_list_of_fset (fmdom m))"

definition content_refs :: "ComplexContent \<Rightarrow> string list" where
  "content_refs c =
     (case c of
        Groups gs \<Rightarrow> map etype (concat (map elements gs))
      | Extension b extra \<Rightarrow> b # map etype (concat (map elements extra)))"

definition type_refs :: "Schema \<Rightarrow> string list" where
  "type_refs s =
     fm_values (global_elements s) @ concat (map (content_refs \<circ> content) (fm_values (complex_types s))) @
     map base (fm_values (simple_types s))"

definition check_references :: "Schema \<Rightarrow> UciError + unit" where
  "check_references s =
     (let missing = fold (note_missing s) (type_refs s) [] in
      if missing = [] then Inr ()
      else
        (let listed = take MAX_REPORTED missing;
             rest = (if length missing > length listed
                       then '', and '' @ show_nat (length missing - length listed) @ '' more'' else '''')
         in Inl (Xsd (show_nat (length missing) @
              '' type reference(s) do not resolve, so a schema document is probably missing: '' @
              join '', '' listed @ rest))))"

section \<open>Compiling\<close>

fun compile_documents ::
  "regex_new \<Rightarrow> (string \<Rightarrow> string + xsd_node) \<Rightarrow> nat \<Rightarrow> string list \<Rightarrow> Schema \<Rightarrow> UciError + Schema" where
  "compile_documents rx parse i [] s = Inr s"
| "compile_documents rx parse i (d # ds) s =
     (if uci_nesting_exceeds d MAX_DEPTH then
        Inl (Xsd (''document '' @ show_nat i @ '' nests deeper than '' @ show_nat MAX_DEPTH @ '' elements''))
      else
        res_bind (map_err (\<lambda>e. Xsd (''document '' @ show_nat i @ '' is not well-formed XML: '' @ e)) (parse d)) (\<lambda>doc.
        res_bind (add_document rx doc s) (compile_documents rx parse (Suc i) ds)))"

definition compile :: "regex_new \<Rightarrow> (string \<Rightarrow> string + xsd_node) \<Rightarrow> string list \<Rightarrow> UciError + Schema" where
  "compile rx parse documents =
     res_bind (compile_documents rx parse 0 documents new_schema) (\<lambda>s.
     res_bind (check_references s) (\<lambda>_. Inr s))"

section \<open>The fixture\<close>

text \<open>\<open>slice.rs\<close>, with the calls of its chains in order. Every reference of it resolves.\<close>

definition build_v25 :: Schema where
  "build_v25 = fold (\<lambda>f. f)
     [complex ''PingType'' [el_opt ''n'' ''xs:int'', el_opt ''from'' ''xs:string''],
      schema_element ''Ping'' ''PingType'',
      complex ''SystemIDType'' [el ''UUID'' ''xs:string''],
      complex ''OwnerProducerType'' [el ''GovernmentIdentifier'' ''xs:string''],
      complex ''SecurityInformationType'' [el ''Classification'' ''xs:string'', el_many ''OwnerProducer'' ''OwnerProducerType''],
      complex ''MessageHeaderType'' [el ''SystemID'' ''SystemIDType'', el ''Timestamp'' ''xs:dateTime'', el ''SchemaVersion'' ''xs:string'', el ''Mode'' ''xs:string''],
      complex ''PositionType'' [el ''Latitude'' ''xs:double'', el ''Longitude'' ''xs:double'', el_opt ''Altitude'' ''xs:double'', el_opt ''Timestamp'' ''xs:dateTime''],
      complex ''InertialStateType'' [el ''Position'' ''PositionType''],
      complex ''MessageDataType'' [el_opt ''n'' ''xs:int'', el_opt ''SystemID'' ''SystemIDType'', el_opt ''Source'' ''xs:string'', el_opt ''CurrentOperatingDomain'' ''xs:string'', el_opt ''InertialState'' ''InertialStateType''],
      complex ''PositionReportType'' [el_opt ''SecurityInformation'' ''SecurityInformationType'', el_opt ''MessageHeader'' ''MessageHeaderType'', el_opt ''MessageData'' ''MessageDataType''],
      schema_element ''PositionReport'' ''PositionReportType'',
      complex_abstract ''DetailBase'' [el ''kind'' ''xs:string''],
      schema_extend ''InertialDetail'' ''DetailBase'' [el ''Latitude'' ''xs:double'', el ''Longitude'' ''xs:double''],
      complex ''PolySampleType'' [el ''Detail'' ''DetailBase''],
      schema_element ''PolySample'' ''PolySampleType'',
      complex ''PriorityType'' [el_opt ''Priority'' ''xs:int'', el_opt ''PrecedenceWithinPriority'' ''xs:int''],
      complex ''UuidRefType'' [el ''UUID'' ''xs:string''],
      complex ''RxMessageDataType'' [el_opt ''RxDataPayloadID'' ''UuidRefType'', el_opt ''DataPayloadOriginatorID'' ''UuidRefType'', el_opt ''CommandID'' ''UuidRefType'', el_opt ''CommandState'' ''xs:string'', el_opt ''EncodedPayload'' ''xs:hexBinary'', el_opt ''Timestamp'' ''xs:dateTime'',
         el_opt ''MessageType'' ''xs:string'', el_opt ''DestinationRouting'' ''xs:string'', el_opt ''Priority'' ''PriorityType''],
      complex ''MaWrapperType'' [el_opt ''SecurityInformation'' ''SecurityInformationType'', el_opt ''MessageHeader'' ''MessageHeaderType'', el_opt ''MessageData'' ''RxMessageDataType''],
      schema_element ''MA_RxDataPayload'' ''MaWrapperType'',
      schema_element ''MA_TxDataPayloadCommand'' ''MaWrapperType'']
     new_schema"

section \<open>What the documents declare\<close>

text \<open>The declarations of a document, read without regard to those of others: \<open>None\<close> when the
  document leaves the supported subset. A schema holds a list of declarations when each of its maps
  is exactly those of its kind.\<close>

datatype Decl = ElementDecl string string | ComplexDecl ComplexType | SimpleDecl string SimpleType

fun decl_key :: "Decl \<Rightarrow> Definition \<times> string" where
  "decl_key (ElementDecl n t) = (DElement, n)"
| "decl_key (ComplexDecl ct) = (DComplex, cname ct)"
| "decl_key (SimpleDecl n st) = (DSimple, n)"

definition decl_of :: "regex_new \<Rightarrow> xsd_node \<Rightarrow> Decl list option" where
  "decl_of rx c =
     (if tag c = ''element'' then
        (case (attribute c ''name'', attribute c ''type'') of
           (Some n, Some t) \<Rightarrow> Some [ElementDecl n (type_ref c t)] | _ \<Rightarrow> None)
      else if tag c = ''complexType'' then
        (case complex_type c of Inr ct \<Rightarrow> Some [ComplexDecl ct] | Inl _ \<Rightarrow> None)
      else if tag c = ''simpleType'' then
        (case simple_type rx c of Inr (n, st) \<Rightarrow> Some [SimpleDecl n st] | Inl _ \<Rightarrow> None)
      else if tag c = ''include'' \<or> tag c = ''import'' then Some []
      else None)"

fun decls_of :: "regex_new \<Rightarrow> xsd_node list \<Rightarrow> Decl list option" where
  "decls_of rx [] = Some []"
| "decls_of rx (c # cs) =
     (case (decl_of rx c, decls_of rx cs) of (Some d, Some ds) \<Rightarrow> Some (d @ ds) | _ \<Rightarrow> None)"

definition declared :: "regex_new \<Rightarrow> (string \<Rightarrow> string + xsd_node) \<Rightarrow> string \<Rightarrow> Decl list option" where
  "declared rx parse d =
     (if uci_nesting_exceeds d MAX_DEPTH then None
      else case parse d of
        Inl _ \<Rightarrow> None
      | Inr r \<Rightarrow>
          (if \<not> is_xs r \<or> tag r \<noteq> ''schema'' then None
           else case definitions r of Inl _ \<Rightarrow> None | Inr cs \<Rightarrow> decls_of rx cs))"

definition schema_holds :: "Decl list \<Rightarrow> Schema \<Rightarrow> bool" where
  "schema_holds ds s \<longleftrightarrow>
     (\<forall>n t. fmlookup (global_elements s) n = Some t \<longleftrightarrow> ElementDecl n t \<in> set ds) \<and>
     (\<forall>n ct. fmlookup (complex_types s) n = Some ct \<longleftrightarrow> cname ct = n \<and> ComplexDecl ct \<in> set ds) \<and>
     (\<forall>n st. fmlookup (simple_types s) n = Some st \<longleftrightarrow> SimpleDecl n st \<in> set ds)"

definition schema_closed :: "Schema \<Rightarrow> bool" where
  "schema_closed s \<longleftrightarrow> (\<forall>t \<in> set (type_refs s). known s t)"

text \<open>One declaration more.\<close>

fun put :: "Decl \<Rightarrow> Schema \<Rightarrow> Schema" where
  "put (ElementDecl n t) s = s\<lparr>global_elements := fmupd n t (global_elements s)\<rparr>"
| "put (ComplexDecl ct) s = s\<lparr>complex_types := fmupd (cname ct) ct (complex_types s)\<rparr>"
| "put (SimpleDecl n st) s = s\<lparr>simple_types := fmupd n st (simple_types s)\<rparr>"

lemma schema_holds_unique: "schema_holds ds s \<Longrightarrow> schema_holds ds s' \<Longrightarrow> s = s'"
proof -
  assume a: "schema_holds ds s" "schema_holds ds s'"
  have eq: "m = m'" if "\<And>k v. fmlookup m k = Some v \<longleftrightarrow> fmlookup m' k = Some v" for m m' :: "(string, 'a) fmap"
    by (rule fmap_ext) (metis that not_None_eq)
  have "global_elements s = global_elements s'" "complex_types s = complex_types s'" "simple_types s = simple_types s'"
    using a by (intro eq; simp add: schema_holds_def)+
  then show ?thesis by (simp add: Schema.equality)
qed

lemma decl_key_eq:
  "decl_key d = (DElement, n) \<longleftrightarrow> (\<exists>t. d = ElementDecl n t)"
  "decl_key d = (DComplex, n) \<longleftrightarrow> (\<exists>ct. cname ct = n \<and> d = ComplexDecl ct)"
  "decl_key d = (DSimple, n) \<longleftrightarrow> (\<exists>st. d = SimpleDecl n st)"
  by (cases d; auto)+

lemma decl_key_in: "k \<in> decl_key ` A \<longleftrightarrow> (\<exists>d. d \<in> A \<and> decl_key d = k)"
  by auto

lemma schema_holds_fresh:
  assumes "schema_holds ds s"
  shows "fmlookup (global_elements s) n = None \<longleftrightarrow> (DElement, n) \<notin> decl_key ` set ds"
    and "fmlookup (complex_types s) n = None \<longleftrightarrow> (DComplex, n) \<notin> decl_key ` set ds"
    and "fmlookup (simple_types s) n = None \<longleftrightarrow> (DSimple, n) \<notin> decl_key ` set ds"
  using assms unfolding decl_key_in decl_key_eq schema_holds_def by (metis not_None_eq)+

lemma schema_holds_put:
  assumes "schema_holds ds s" "decl_key d \<notin> decl_key ` set ds"
  shows "schema_holds (ds @ [d]) (put d s)"
proof (cases d)
  case (ElementDecl n t)
  then show ?thesis using assms schema_holds_fresh(1) [OF assms(1), of n]
    by (auto simp: schema_holds_def) (metis option.distinct(1))+
next
  case (ComplexDecl ct)
  then show ?thesis using assms schema_holds_fresh(2) [OF assms(1), of "cname ct"]
    by (auto simp: schema_holds_def) (metis option.distinct(1))+
next
  case (SimpleDecl n st)
  then show ?thesis using assms schema_holds_fresh(3) [OF assms(1), of n]
    by (auto simp: schema_holds_def) (metis option.distinct(1))+
qed

fun absent :: "Definition \<times> string \<Rightarrow> Schema \<Rightarrow> bool" where
  "absent (DElement, n) s = (fmlookup (global_elements s) n = None)"
| "absent (DComplex, n) s = (fmlookup (complex_types s) n = None)"
| "absent (DSimple, n) s = (fmlookup (simple_types s) n = None)"

lemma absent_iff: "schema_holds ds s \<Longrightarrow> absent k s \<longleftrightarrow> k \<notin> decl_key ` set ds"
  by (cases "(k, s)" rule: absent.cases) (simp_all add: schema_holds_fresh)

lemma claim_iff: "claim s n k = Inr u \<longleftrightarrow> absent (k, n) s"
  by (cases k) (simp_all add: claim_def)

lemma add_child_decl:
  "add_child rx c s = Inr s' \<longleftrightarrow>
     decl_of rx c = Some [] \<and> s' = s \<or>
     (\<exists>d. decl_of rx c = Some [d] \<and> absent (decl_key d) s \<and> s' = put d s)"
proof -
  consider (e) "tag c = ''element''" | (ct) "tag c = ''complexType''" | (st) "tag c = ''simpleType''"
    | (o) "tag c \<noteq> ''element''" "tag c \<noteq> ''complexType''" "tag c \<noteq> ''simpleType''" by blast
  then show ?thesis
  proof cases
    case e
    then show ?thesis
      by (auto simp: add_child_def decl_of_def res_bind_Inr required_def ok_or_Inr map_err_Inr claim_iff split: option.splits)
  next
    case ct
    then show ?thesis
      by (auto simp: add_child_def decl_of_def res_bind_Inr claim_iff split: sum.splits)
  next
    case st
    then show ?thesis
      by (auto simp: add_child_def decl_of_def res_bind_Inr claim_iff split: sum.splits)
  qed (auto simp: add_child_def decl_of_def)
qed

lemma decls_of_Cons:
  "decls_of rx (c # cs) = Some r \<longleftrightarrow>
     (\<exists>d ds. decl_of rx c = Some d \<and> decls_of rx cs = Some ds \<and> r = d @ ds)"
  by (auto split: option.splits)

lemma add_children_iff:
  assumes "schema_holds ds0 s" "distinct (map decl_key ds0)"
  shows "add_children rx cs s = Inr s' \<longleftrightarrow>
    (\<exists>ds. decls_of rx cs = Some ds \<and> distinct (map decl_key (ds0 @ ds)) \<and> schema_holds (ds0 @ ds) s')"
  using assms
proof (induction cs arbitrary: s ds0)
  case Nil
  then show ?case using schema_holds_unique by auto
next
  case (Cons c cs)
  show ?case
  proof (cases "decl_of rx c")
    case (Some ds)
    have shape: "ds = [] \<or> (\<exists>d. ds = [d])"
      using Some by (auto simp: decl_of_def split: if_splits option.splits sum.splits)
    show ?thesis
    proof (cases ds)
      case Nil
      then show ?thesis using Some Cons.IH [OF Cons.prems]
        by (auto simp: res_bind_Inr add_child_decl decls_of_Cons simp del: decls_of.simps(2))
    next
      case (Cons d rest)
      then have d: "ds = [d]" using shape by auto
      show ?thesis
      proof (cases "absent (decl_key d) s")
        case True
        then have k: "decl_key d \<notin> decl_key ` set ds0" using absent_iff [OF Cons.prems(1)] by simp
        have dist: "distinct (map decl_key (ds0 @ [d]))" using Cons.prems(2) k by auto
        show ?thesis using Some d True Cons.IH [OF schema_holds_put [OF Cons.prems(1) k] dist]
          by (auto simp: res_bind_Inr add_child_decl decls_of_Cons simp del: decls_of.simps(2))
      next
        case False
        then have "decl_key d \<in> decl_key ` set ds0" using absent_iff [OF Cons.prems(1)] by simp
        then show ?thesis using Some d False
          by (auto simp: res_bind_Inr add_child_decl decls_of_Cons simp del: decls_of.simps(2))
      qed
    qed
  qed (auto simp: res_bind_Inr add_child_decl)
qed

lemma schema_holds_new: "schema_holds [] new_schema"
  by (simp add: schema_holds_def new_schema_def)

lemma schema_holds_exists: "distinct (map decl_key ds) \<Longrightarrow> \<exists>s. schema_holds ds s"
proof (induction ds rule: rev_induct)
  case Nil
  then show ?case using schema_holds_new by blast
next
  case (snoc d ds)
  then show ?case using schema_holds_put [of ds _ d] by auto
qed

lemma compile_documents_iff:
  assumes "schema_holds ds0 s" "distinct (map decl_key ds0)"
  shows "compile_documents rx parse i docs s = Inr s' \<longleftrightarrow>
    (\<exists>dss. list_all2 (\<lambda>d ds. declared rx parse d = Some ds) docs dss \<and>
       distinct (map decl_key (ds0 @ concat dss)) \<and> schema_holds (ds0 @ concat dss) s')"
  using assms
proof (induction docs arbitrary: s ds0 i)
  case Nil
  then show ?case using schema_holds_unique by auto
next
  case (Cons d docs)
  have doc: "compile_documents rx parse i (d # docs) s = Inr s' \<longleftrightarrow>
      (\<exists>ds s1. declared rx parse d = Some ds \<and> distinct (map decl_key (ds0 @ ds)) \<and> schema_holds (ds0 @ ds) s1 \<and>
         compile_documents rx parse (Suc i) docs s1 = Inr s')"
    using add_children_iff [OF Cons.prems]
    by (auto simp: declared_def add_document_def res_bind_Inr split: sum.splits)
  have step: "compile_documents rx parse (Suc i) docs s1 = Inr s' \<longleftrightarrow>
      (\<exists>dss. list_all2 (\<lambda>d ds. declared rx parse d = Some ds) docs dss \<and>
         distinct (map decl_key ((ds0 @ ds) @ concat dss)) \<and> schema_holds ((ds0 @ ds) @ concat dss) s')"
    if "distinct (map decl_key (ds0 @ ds))" "schema_holds (ds0 @ ds) s1" for ds s1
    using Cons.IH [OF that(2,1)] .
  show ?case
  proof
    assume "compile_documents rx parse i (d # docs) s = Inr s'"
    then obtain ds s1 dss where "declared rx parse d = Some ds"
      "list_all2 (\<lambda>d ds. declared rx parse d = Some ds) docs dss"
      "distinct (map decl_key ((ds0 @ ds) @ concat dss))" "schema_holds ((ds0 @ ds) @ concat dss) s'"
      unfolding doc using step by blast
    then show "\<exists>dss. list_all2 (\<lambda>d ds. declared rx parse d = Some ds) (d # docs) dss \<and>
       distinct (map decl_key (ds0 @ concat dss)) \<and> schema_holds (ds0 @ concat dss) s'"
      by (intro exI [of _ "ds # dss"]) simp
  next
    assume "\<exists>dss. list_all2 (\<lambda>d ds. declared rx parse d = Some ds) (d # docs) dss \<and>
       distinct (map decl_key (ds0 @ concat dss)) \<and> schema_holds (ds0 @ concat dss) s'"
    then obtain ds dss where p: "declared rx parse d = Some ds"
      "list_all2 (\<lambda>d ds. declared rx parse d = Some ds) docs dss"
      "distinct (map decl_key ((ds0 @ ds) @ concat dss))" "schema_holds ((ds0 @ ds) @ concat dss) s'"
      by (auto simp: list_all2_Cons1 image_Un)
    have dist: "distinct (map decl_key (ds0 @ ds))" using p(3) by auto
    obtain s1 where "schema_holds (ds0 @ ds) s1" using schema_holds_exists [OF dist] by blast
    then show "compile_documents rx parse i (d # docs) s = Inr s'"
      unfolding doc using step [OF dist] p dist by blast
  qed
qed

section \<open>Resolved references\<close>

lemma fold_note_missing:
  "sorted m \<Longrightarrow> distinct m \<Longrightarrow>
     sorted (fold (note_missing s) ts m) \<and> distinct (fold (note_missing s) ts m) \<and>
     set (fold (note_missing s) ts m) = set m \<union> {t \<in> set ts. \<not> known s t}"
proof (induction ts arbitrary: m)
  case (Cons t ts)
  have "sorted (note_missing s t m)" "distinct (note_missing s t m)"
    using Cons.prems by (simp_all add: note_missing_def sorted_insort_insert distinct_insort_insert)
  from Cons.IH [OF this] show ?case by (auto simp: note_missing_def set_insort_insert)
qed simp

lemma check_references_iff: "check_references s = Inr u \<longleftrightarrow> schema_closed s"
proof -
  have "fold (note_missing s) (type_refs s) [] = [] \<longleftrightarrow> schema_closed s"
    using fold_note_missing [of "[]" s "type_refs s"] by (auto simp: schema_closed_def simp flip: set_empty)
  then show ?thesis by (simp add: check_references_def Let_def)
qed

lemma set_fm_values: "set (fm_values m) = {v. \<exists>k. fmlookup m k = Some v}"
proof -
  have "set (fm_values m) = (\<lambda>k. the (fmlookup m k)) ` fset (fmdom m)"
    by (simp add: fm_values_def)
  also have "\<dots> = {v. \<exists>k. fmlookup m k = Some v}"
    by (force simp: fmdomI fmlookup_dom_iff image_iff)
  finally show ?thesis .
qed

lemma schema_closedD:
  assumes "schema_closed s"
  shows "fmlookup (global_elements s) n = Some t \<Longrightarrow> known s t"
    and "fmlookup (complex_types s) n = Some ct \<Longrightarrow> u \<in> set (content_refs (content ct)) \<Longrightarrow> known s u"
    and "fmlookup (simple_types s) n = Some st \<Longrightarrow> known s (base st)"
  using assms by (fastforce simp: schema_closed_def type_refs_def set_fm_values)+

lemma known_iff: "known s t \<longleftrightarrow> is_simple s t \<or> is_complex s t"
  by (auto simp: known_def is_simple_def is_complex_def)

lemma derives_known:
  "derives s t gs \<Longrightarrow> schema_closed s \<Longrightarrow> e \<in> set (concat (map elements gs)) \<Longrightarrow> known s (etype e)"
proof (induction rule: derives.induct)
  case (derives_groups t ct gs)
  then show ?case by (intro schema_closedD(2) [of s t ct]) (auto simp: content_refs_def)
next
  case (derives_extension t ct b extra out)
  then show ?case using schema_closedD(2) [of s t ct "etype e"] by (auto simp: content_refs_def)
qed

lemma reaches_undefined_known:
  assumes "reaches_undefined s t u" "schema_closed s" "is_complex s t"
  shows "known s u"
proof -
  have "(extends s)\<^sup>*\<^sup>* t u" "u \<noteq> t" using assms by (auto simp: reaches_undefined_def is_complex_def)
  then obtain v where "extends s v u" by (metis rtranclp.cases)
  then show ?thesis using schema_closedD(2) [OF assms(2)] by (auto simp: extends_def content_refs_def)
qed

lemma build_v25_closed: "schema_closed build_v25 \<and> check_references build_v25 = Inr ()"
proof -
  have "list_all (known build_v25) (type_refs build_v25)" by code_simp
  then show ?thesis by (simp add: check_references_iff) (simp add: schema_closed_def list_all_iff)
qed

section \<open>Properties\<close>

lemma compile_iff:
  "compile rx parse docs = Inr s \<longleftrightarrow>
     (\<exists>dss. list_all2 (\<lambda>d ds. declared rx parse d = Some ds) docs dss \<and>
        distinct (map decl_key (concat dss)) \<and> schema_holds (concat dss) s) \<and> schema_closed s"
  using compile_documents_iff [OF schema_holds_new, of rx parse 0 docs s]
  by (auto simp: compile_def res_bind_Inr check_references_iff)

lemma compile_order:
  assumes "mset docs = mset docs'" "compile rx parse docs = Inr s"
  shows "compile rx parse docs' = Inr s"
proof -
  let ?P = "\<lambda>d ds. declared rx parse d = Some ds"
  obtain dss where dss: "list_all2 ?P docs dss" "distinct (map decl_key (concat dss))" "schema_holds (concat dss) s"
    and cl: "schema_closed s" using assms(2) by (auto simp: compile_iff)
  obtain dss' where dss': "list_all2 ?P docs' dss'" "mset dss' = mset dss"
    using list_all2_reorder_left_invariance [OF dss(1) assms(1) [symmetric]] by auto
  have "mset (concat dss') = mset (concat dss)" using dss'(2) by (metis mset_concat mset_map sum_mset_sum_list)
  then have "distinct (map decl_key (concat dss'))" and same: "set (concat dss') = set (concat dss)"
    using dss(2) by (metis mset_eq_imp_distinct_iff mset_map, metis mset_eq_setD)
  moreover have "schema_holds (concat dss') s" using dss(3) unfolding schema_holds_def same .
  ultimately show ?thesis using dss'(1) cl unfolding compile_iff by blast
qed

text \<open>C31: A schema compiles exactly when every document is in the supported subset, no name is declared
  twice by them together and every reference resolves; it then holds the declarations of all documents
  and nothing else, and it is the same schema in whatever order the documents are given.\<close>

theorem compile_exact:
  "(compile rx parse docs = Inr s \<longleftrightarrow>
      (\<exists>dss. list_all2 (\<lambda>d ds. declared rx parse d = Some ds) docs dss \<and>
         distinct (map decl_key (concat dss)) \<and> schema_holds (concat dss) s) \<and> schema_closed s) \<and>
   (if mset docs = mset docs' then compile rx parse docs = Inr s \<longleftrightarrow> compile rx parse docs' = Inr s else True)"
  using compile_order [of docs docs' rx parse s] compile_order [of docs' docs rx parse s]
  by (simp flip: compile_iff) metis

text \<open>C32: In a compiled schema the type of every global element is defined, and so is the type of
  every element of a complex type, inherited ones included. Collecting the elements of a complex type
  fails only for an extension chain that runs into a cycle or that ends in a simple type, neither of
  which the compiler refuses.\<close>

theorem compiled_types_resolve:
  assumes "compile rx parse docs = Inr s"
  shows "(case global_type s n of None \<Rightarrow> True | Some t \<Rightarrow> is_simple s t \<or> is_complex s t) \<and>
    (is_complex s t \<longrightarrow>
       (case flatten s t of
          Inr es \<Rightarrow> \<forall>e \<in> set es. is_simple s (etype e) \<or> is_complex s (etype e)
        | Inl err \<Rightarrow> (\<exists>m. err = Xsd m) \<and> reaches_cycle s t \<or>
            (\<exists>b. err = UnknownType b \<and> (extends s)\<^sup>*\<^sup>* t b \<and> is_simple s b \<and> \<not> is_complex s b)))"
proof -
  have cl: "schema_closed s" using assms by (simp add: compile_iff)
  have glob: "case global_type s n of None \<Rightarrow> True | Some t \<Rightarrow> is_simple s t \<or> is_complex s t"
    using schema_closedD(1) [OF cl] by (auto simp: global_type_def known_iff split: option.splits)
  have "case flatten s t of
          Inr es \<Rightarrow> \<forall>e \<in> set es. is_simple s (etype e) \<or> is_complex s (etype e)
        | Inl err \<Rightarrow> (\<exists>m. err = Xsd m) \<and> reaches_cycle s t \<or>
            (\<exists>b. err = UnknownType b \<and> (extends s)\<^sup>*\<^sup>* t b \<and> is_simple s b \<and> \<not> is_complex s b)"
    if "is_complex s t"
  proof (cases "groups s t")
    case (Inr gs)
    then have "derives s t gs" using groups_outcome [of s t] by simp
    then show ?thesis using Inr derives_known [OF _ cl] by (auto simp: flatten_def known_iff [symmetric])
  next
    case (Inl err)
    then have "case err of UnknownType u \<Rightarrow> reaches_undefined s t u | Xsd m \<Rightarrow> reaches_cycle s t | _ \<Rightarrow> False"
      using groups_outcome [of s t] by simp
    then show ?thesis using Inl reaches_undefined_known [OF _ cl that]
      by (cases err) (auto simp: flatten_def known_iff reaches_undefined_def is_complex_def)
  qed
  then show ?thesis using glob by blast
qed

text \<open>A document with a message type, and a type that extends a primitive.\<close>

definition xs_node :: "string \<Rightarrow> (string \<times> string) list \<Rightarrow> xsd_node list \<Rightarrow> xsd_node" where
  "xs_node t as ks = XsdNode (Some XS) t as [(Some ''xs'', XS), (Some ''uci'', ''urn:example'')] ks"

definition demo_xsd :: xsd_node where
  "demo_xsd = xs_node ''schema'' []
     [xs_node ''element'' [(''name'', ''Ping''), (''type'', ''uci:PingType'')] [],
      xs_node ''complexType'' [(''name'', ''PingType'')]
        [xs_node ''sequence'' [] [xs_node ''element'' [(''name'', ''n''), (''type'', ''xs:int''), (''minOccurs'', ''0'')] []]],
      xs_node ''complexType'' [(''name'', ''OddType'')]
        [xs_node ''complexContent'' [] [xs_node ''extension'' [(''base'', ''xs:string'')] []]]]"

definition demo_parse :: "string \<Rightarrow> string + xsd_node" where
  "demo_parse t = Inr demo_xsd"

definition demo_schema :: Schema where
  "demo_schema =
     \<lparr>global_elements = fmupd ''Ping'' ''PingType'' fmempty,
      complex_types = fmupd ''OddType'' \<lparr>cname = ''OddType'', abstract = False, content = Extension ''xs:string'' []\<rparr>
        (fmupd ''PingType'' \<lparr>cname = ''PingType'', abstract = False, content = Groups [sequence [el_opt ''n'' ''xs:int'']]\<rparr> fmempty),
      simple_types = fmempty\<rparr>"

lemmas xsd_eval = decl_of_def attribute_def type_ref_def lookup_namespace_uri_def complex_type_def required_def
  ok_or_def definitions_def is_xs_def content_model_def group_of_def compositor_def local_element_def
  xsd_min_occurs_def xsd_max_occurs_def complex_content_def el_opt_def parse_unsigned_def is_ascii_digit_def
  digits_val_def digit_val_def byte_def

lemma other_ns: "''urn:example'' \<noteq> XS"
  by (simp add: XS_def)

lemma demo_compiles: "compile (\<lambda>_. None) demo_parse [''<xs:schema/>''] = Inr demo_schema"
proof -
  let ?e = "ElementDecl ''Ping'' ''PingType''"
    and ?p = "ComplexDecl \<lparr>cname = ''PingType'', abstract = False, content = Groups [sequence [el_opt ''n'' ''xs:int'']]\<rparr>"
    and ?o = "ComplexDecl \<lparr>cname = ''OddType'', abstract = False, content = Extension ''xs:string'' []\<rparr>"
  have "\<not> uci_nesting_exceeds ''<xs:schema/>'' MAX_DEPTH" by code_simp
  moreover have "decls_of (\<lambda>_. None) (kids demo_xsd) = Some [?e, ?p, ?o]"
    by (simp add: demo_xsd_def xs_node_def xsd_eval other_ns)
  moreover have "definitions demo_xsd = Inr (kids demo_xsd)" by code_simp
  ultimately have d: "declared (\<lambda>_. None) demo_parse ''<xs:schema/>'' = Some [?e, ?p, ?o]"
    by (simp add: declared_def demo_parse_def) (simp add: demo_xsd_def xs_node_def is_xs_def)
  have h: "schema_holds [?e, ?p, ?o] demo_schema"
  proof -
    have 1: "schema_holds [?e] (put ?e new_schema)"
      using schema_holds_put [OF schema_holds_new, of ?e] by simp
    have 2: "schema_holds [?e, ?p] (put ?p (put ?e new_schema))"
      using schema_holds_put [OF 1, of ?p] by simp
    have "schema_holds [?e, ?p, ?o] (put ?o (put ?p (put ?e new_schema)))"
      using schema_holds_put [OF 2, of ?o] by simp
    then show ?thesis by (simp add: demo_schema_def new_schema_def)
  qed
  have "list_all (known demo_schema) (type_refs demo_schema)" by code_simp
  then have "schema_closed demo_schema" by (simp add: schema_closed_def list_all_iff)
  then show ?thesis
    unfolding compile_iff using d h by (intro conjI exI [of _ "[[?e, ?p, ?o]]"]) simp_all
qed

theorem compiled_types_resolve_witness:
  "global_type demo_schema ''Ping'' = Some ''PingType'' \<and> is_complex demo_schema ''PingType'' \<and>
   (\<exists>b. flatten demo_schema ''OddType'' = Inl (UnknownType b) \<and> is_simple demo_schema b)"
proof -
  have lk: "fmlookup (complex_types demo_schema) ''OddType'' =
      Some \<lparr>cname = ''OddType'', abstract = False, content = Extension ''xs:string'' []\<rparr>"
    "fmlookup (complex_types demo_schema) ''xs:string'' = None" by (simp_all add: demo_schema_def)
  have f: "flatten demo_schema ''OddType'' = Inl (UnknownType ''xs:string'')"
    by (simp add: flatten_def groups_def groups_chain.simps [of demo_schema "''OddType''" "[]"]
        groups_chain.simps [of demo_schema "''xs:string''"] lk)
  have odd: "is_complex demo_schema ''OddType''" by (simp add: is_complex_def lk)
  have "is_simple demo_schema ''xs:string''"
    using compiled_types_resolve [OF demo_compiles, where t = "''OddType''"] f odd by auto
  then show ?thesis
    using f by (simp add: demo_schema_def global_type_def is_complex_def)
qed

end
