(* ===== verification/Host.thy ===== *)
theory Host
  imports Host_Config Adapter_Tls Loopback Uci_Xsd
begin

text \<open>
  The host process, \<open>oa-gateway/src\<close>: \<open>config::load\<close>, \<open>schema.rs\<close>, \<open>tls.rs\<close>, \<open>adapters/\<close>, \<open>serve.rs\<close> and
  \<open>main.rs\<close>. Starting an adapter is a value of \<open>Started\<close>: the adapter that was built and handed to
  \<open>tokio::spawn\<close>. A start that fails comes with the adapters that were already spawned. The file system,
  the TOML reader, name lookup, the TLS library, XML and regular expressions and Ctrl-C are the record
  \<open>HostLib\<close>. Log lines are left out, except for what the statistics ticker reports.
\<close>

record HostLib =
  path_exists :: "string \<Rightarrow> bool"
  host_read :: "string \<Rightarrow> string + string"
  from_toml :: "string \<Rightarrow> string + Config"
  addr_lib :: AddrLib
  tls_lib :: TlsLib
  xsd_document :: "string \<Rightarrow> string + xsd_node"
  host_regex :: regex_new
  fresh_uuid :: string
  ctrl_c :: "string + unit"

section \<open>Inputs\<close>

definition load_config :: "HostLib \<Rightarrow> string \<Rightarrow> string + Config" where
  "load_config L path =
     (if \<not> path_exists L path then Inl (''config file '' @ path @ '' not found'')
      else
        res_bind (map_err (\<lambda>err. ''cannot read '' @ path @ '': '' @ err) (host_read L path)) (\<lambda>t.
        map_err (\<lambda>err. ''in '' @ path @ '': '' @ err) (from_toml L t)))"

fun read_schema_files :: "HostLib \<Rightarrow> string list \<Rightarrow> string + string list" where
  "read_schema_files L [] = Inr []"
| "read_schema_files L (p # ps) =
     res_bind (map_err (\<lambda>err. ''cannot read uci.schema entry '' @ p @ '': '' @ err) (host_read L p)) (\<lambda>t.
     res_bind (read_schema_files L ps) (\<lambda>ts. Inr (t # ts)))"

definition load_schema :: "HostLib \<Rightarrow> Config \<Rightarrow> string + Schema option" where
  "load_schema L cfg =
     (if uci_schema (uci_section cfg) = [] then
        (if ow_enabled (owp_section cfg) \<and> ow_xml_baseline (owp_section cfg) then
           Inl (''owp.xml_baseline needs a UCI schema, but uci.schema lists no files. '' @
             ''Point it at the schema documents (UCI_MessageDefinitions and '' @
             ''UCI_SecurityMarkings), or set owp.xml_baseline = false.'')
         else Inr None)
      else
        res_bind (read_schema_files L (uci_schema (uci_section cfg))) (\<lambda>documents.
        map_sum (\<lambda>err. ''cannot compile the UCI schema: '' @ show_uci_error err) Some
          (compile (host_regex L) (xsd_document L) documents)))"

definition non_empty_path :: "string \<Rightarrow> string option" where
  "non_empty_path v = (if v = [] then None else Some v)"

record HostTls =
  tls_owp :: "ServerTls option"
  tls_stomp :: "ClientTls option"

definition load_stomp_tls :: "TlsLib \<Rightarrow> StompSection \<Rightarrow> string + ClientTls option" where
  "load_stomp_tls T s =
     (if \<not> st_enabled s then Inr None
      else if st_tls s then
        map_sum id Some (client_tls T ''stomp.tls'' (non_empty_path (st_tls_ca s))
          (if st_tls_server_name s = [] then host_part (st_broker s) else st_tls_server_name s)
          (non_empty_path (st_tls_client_cert s)) (non_empty_path (st_tls_client_key s)))
      else if st_tls_client_cert s \<noteq> [] then
        Inl (''stomp.tls_client_cert is set but stomp.tls is not. A client certificate '' @
          ''needs stomp.tls = true to matter.'')
      else if st_tls_client_key s \<noteq> [] then
        Inl (''stomp.tls_client_key is set but stomp.tls is not. A client certificate '' @
          ''needs stomp.tls = true to matter.'')
      else Inr None)"

definition load_tls :: "TlsLib \<Rightarrow> Config \<Rightarrow> string + HostTls" where
  "load_tls T cfg =
     res_bind (if ow_enabled (owp_section cfg) then
         server_tls T ''owp.tls'' (non_empty_path (ow_tls_cert (owp_section cfg)))
           (non_empty_path (ow_tls_key (owp_section cfg))) (non_empty_path (ow_tls_client_ca (owp_section cfg)))
       else Inr None) (\<lambda>o'.
     res_bind (load_stomp_tls T (stomp_section cfg)) (\<lambda>s.
     Inr \<lparr>tls_owp = o', tls_stomp = s\<rparr>))"

section \<open>Adapters\<close>

datatype Started =
    StartedLoopback Loopback
  | StartedOwp OwpAdapter "ServerTls option"
  | StartedStomp AdapterId StompConfig "ClientTls option"
  | StartedDds AdapterId DdsConfig

definition start_loopback :: "LoopbackSection \<Rightarrow> Started" where
  "start_loopback s = StartedLoopback (new_loopback (AdapterId (lo_id s)))"

definition start_owp ::
  "string \<Rightarrow> OwpSection \<Rightarrow> string \<Rightarrow> Schema option \<Rightarrow> Mode \<Rightarrow> ServerTls option \<Rightarrow> string + Started" where
  "start_owp uuid s bind schema mode t =
     res_bind (owp_on_panic_mode s) (\<lambda>on_p.
     let A = new_owp_adapter (AdapterId (ow_id s))
           \<lparr>owp_bind = bind, server_id = ow_server_id s, system_label = ow_system_label s,
            init_schema_required = (if ow_schema s = [] then None else Some (ow_schema s)), system_uuid = uuid,
            owp_unwrap_ma_payloads = ow_unwrap_ma_payloads s, xml_baseline = ow_xml_baseline s,
            owp_max_frame_size = ow_max_frame_size s, max_connections = ow_max_connections s,
            max_subscriptions = ow_max_subscriptions s,
            init_timeout = (if ow_init_timeout_secs s > 0 then Some (from_secs (ow_init_timeout_secs s)) else None),
            idle_timeout = (if ow_idle_timeout_secs s > 0 then Some (from_secs (ow_idle_timeout_secs s)) else None),
            allowed_origins = ow_allowed_origins s, validate_mode = mode, owp_on_panic = on_p,
            owp_reconnect = ow_reconnect s, owp_reconnect_delay = from_secs (ow_reconnect_delay_secs s)\<rparr>;
         A1 = (case schema of Some x \<Rightarrow> with_schema x A | None \<Rightarrow> A);
         A2 = (case t of Some _ \<Rightarrow> with_tls A1 | None \<Rightarrow> A1)
     in Inr (StartedOwp A2 t))"

definition start_stomp :: "StompSection \<Rightarrow> string \<Rightarrow> ClientTls option \<Rightarrow> string + Started" where
  "start_stomp s bro t =
     res_bind (stomp_on_panic_mode s) (\<lambda>on_p.
     Inr (StartedStomp (AdapterId (st_id s))
       \<lparr>broker = bro, host = st_host s, login = (if st_login s = [] then None else Some (st_login s)),
        passcode = (if secret_is_empty (st_passcode s) then None else Some (st_passcode s)),
        destination_prefix = st_destination_prefix s, topics = st_topics s,
        unwrap_ma_payloads = st_unwrap_ma_payloads s, reconnect = st_reconnect s,
        reconnect_delay = from_secs (st_reconnect_delay_secs s), connect_timeout = from_secs (st_connect_timeout_secs s),
        suppress_echo = st_suppress_echo s, on_panic = on_p, max_frame_size = st_max_frame_size s, tls = (t \<noteq> None)\<rparr> t))"

definition start_dds :: "(string \<Rightarrow> bool) \<Rightarrow> DdsSection \<Rightarrow> Schema option \<Rightarrow> Mode \<Rightarrow> string + Started" where
  "start_dds pex s schema mode =
     res_bind (require_qos pex s) (\<lambda>q.
     res_bind (provider_kind s) (\<lambda>pk.
     res_bind (dds_on_panic_mode s) (\<lambda>on_p.
     Inr (StartedDds (AdapterId (dd_id s))
       \<lparr>dds_provider = pk, domain_id = dd_domain_id s, qos = q, dds_topics = dd_topics s,
        dds_unwrap_ma_payloads = dd_unwrap_ma_payloads s, dds_suppress_echo = dd_suppress_echo s, dds_on_panic = on_p,
        dds_reconnect = dd_reconnect s, dds_reconnect_delay = from_secs (dd_reconnect_delay_secs s),
        dds_schema = schema, dds_validate = mode, max_sample_size = dd_max_sample_size s\<rparr>))))"

text \<open>The push of a start that may fail, onto the handles so far.\<close>

definition push_start ::
  "bool \<Rightarrow> string + Started \<Rightarrow> (string + unit) \<times> Started list \<Rightarrow> (string + unit) \<times> Started list" where
  "push_start on r st =
     (case st of
        (Inl err, hs) \<Rightarrow> (Inl err, hs)
      | (Inr _, hs) \<Rightarrow>
          if \<not> on then (Inr (), hs)
          else case r of Inl err \<Rightarrow> (Inl err, hs) | Inr a \<Rightarrow> (Inr (), hs @ [a]))"

definition spawn_enabled ::
  "HostLib \<Rightarrow> Config \<Rightarrow> Schema option \<Rightarrow> Mode \<Rightarrow> HostTls \<Rightarrow> string \<Rightarrow> string \<Rightarrow> (string + unit) \<times> Started list" where
  "spawn_enabled L cfg schema mode T bind bro =
     push_start (dd_enabled (dds_section cfg)) (start_dds (path_exists L) (dds_section cfg) schema mode)
       (push_start (st_enabled (stomp_section cfg)) (start_stomp (stomp_section cfg) bro (tls_stomp T))
         (push_start (ow_enabled (owp_section cfg))
           (start_owp (fresh_uuid L) (owp_section cfg) bind schema mode (tls_owp T))
           (push_start (lo_enabled (loopback_section cfg)) (Inr (start_loopback (loopback_section cfg)))
             (Inr (), []))))"

definition start_adapters ::
  "HostLib \<Rightarrow> Config \<Rightarrow> Schema option \<Rightarrow> Mode \<Rightarrow> HostTls \<Rightarrow> (string + unit) \<times> Started list" where
  "start_adapters L cfg schema mode T =
     (case (if ow_enabled (owp_section cfg) then resolve_addr (addr_lib L) ''owp.bind'' (ow_bind (owp_section cfg)) else Inr []) of
        Inl err \<Rightarrow> (Inl err, [])
      | Inr bind \<Rightarrow>
          (case (if st_enabled (stomp_section cfg)
                 then resolve_addr (addr_lib L) ''stomp.broker'' (st_broker (stomp_section cfg)) else Inr []) of
             Inl err \<Rightarrow> (Inl err, [])
           | Inr bro \<Rightarrow>
               (case spawn_enabled L cfg schema mode T bind bro of
                  (Inl err, hs) \<Rightarrow> (Inl err, hs)
                | (Inr _, hs) \<Rightarrow>
                    if hs = [] then
                      (Inl ''no adapters enabled. Add a [loopback], [owp], [stomp], or [dds] section.'', [])
                    else (Inr (), hs))))"

section \<open>The process\<close>

text \<open>What one sample of the ticker reports: the counters, and the drops since the sample before.\<close>

definition stats_sample :: "Engine \<Rightarrow> 64 word \<Rightarrow> 64 word option \<times> 64 word" where
  "stats_sample eng last_dropped =
     (let d = stat_dropped (stats eng)
      in (if d > last_dropped then Some (d - last_dropped) else None, d))"

fun stats_ticker :: "nat \<Rightarrow> Engine list \<Rightarrow> 64 word \<Rightarrow> 64 word option list" where
  "stats_ticker interval_secs [] last_dropped = []"
| "stats_ticker interval_secs (eng # engs) last_dropped =
     (if interval_secs = 0 then []
      else case stats_sample eng last_dropped of (r, d) \<Rightarrow> r # stats_ticker interval_secs engs d)"

text \<open>Everything up to and including the start of the adapters; then the wait for Ctrl-C and for every
  task to end.\<close>

definition startup :: "HostLib \<Rightarrow> string \<Rightarrow> (string + unit) \<times> Started list" where
  "startup L path =
     (case res_bind (load_config L path) (\<lambda>cfg.
           res_bind (load_schema L cfg) (\<lambda>schema.
           res_bind (uci_validate_mode (uci_section cfg)) (\<lambda>mode.
           res_bind (load_tls (tls_lib L) cfg) (\<lambda>T. Inr (cfg, schema, mode, T))))) of
        Inl err \<Rightarrow> (Inl err, [])
      | Inr (cfg, schema, mode, T) \<Rightarrow> start_adapters L cfg schema mode T)"

definition serve :: "HostLib \<Rightarrow> string \<Rightarrow> (string + unit) \<times> Started list" where
  "serve L path =
     (case startup L path of
        (Inl err, hs) \<Rightarrow> (Inl err, hs)
      | (Inr _, hs) \<Rightarrow> (map_err (\<lambda>err. ''cannot listen for Ctrl-C: '' @ err) (ctrl_c L), hs))"

definition run_host :: "HostLib \<Rightarrow> string list \<Rightarrow> (string + unit) \<times> Started list" where
  "run_host L args =
     (case parse_args args of
        Inl err \<Rightarrow> (Inl err, [])
      | Inr Help \<Rightarrow> (Inr (), [])
      | Inr Version \<Rightarrow> (Inr (), [])
      | Inr (Run path) \<Rightarrow> serve L path)"

definition exit_code :: "(string + unit) \<times> Started list \<Rightarrow> nat" where
  "exit_code r = (case fst r of Inl _ \<Rightarrow> 1 | Inr _ \<Rightarrow> 0)"

section \<open>What is started\<close>

lemma push_start_member:
  "push_start on r st = (q, hs) \<Longrightarrow> x \<in> set hs \<Longrightarrow> x \<in> set (snd st) \<or> on \<and> r = Inr x"
  by (auto simp: push_start_def split: prod.splits sum.splits if_splits)

lemma start_adapters_member:
  assumes "start_adapters L cfg schema mode T = (q, hs)" "x \<in> set hs"
  shows "lo_enabled (loopback_section cfg) \<and> x = start_loopback (loopback_section cfg) \<or>
    ow_enabled (owp_section cfg) \<and> (\<exists>bind. start_owp (fresh_uuid L) (owp_section cfg) bind schema mode (tls_owp T) = Inr x) \<or>
    st_enabled (stomp_section cfg) \<and> (\<exists>bro. start_stomp (stomp_section cfg) bro (tls_stomp T) = Inr x) \<or>
    dd_enabled (dds_section cfg) \<and> start_dds (path_exists L) (dds_section cfg) schema mode = Inr x"
proof -
  obtain bind bro where "x \<in> set (snd (spawn_enabled L cfg schema mode T bind bro))"
    using assms unfolding start_adapters_def
    by (auto split: sum.splits prod.splits if_splits) (metis snd_conv)+
  then show ?thesis
    unfolding spawn_enabled_def by (auto dest!: push_start_member [OF surjective_pairing])
qed

lemma startup_member:
  assumes "startup L path = (q, hs)" "x \<in> set hs"
  obtains cfg schema mode T where "load_config L path = Inr cfg" "load_schema L cfg = Inr schema"
    "uci_validate_mode (uci_section cfg) = Inr mode" "load_tls (tls_lib L) cfg = Inr T"
    "start_adapters L cfg schema mode T = (q, hs)"
proof (cases "res_bind (load_config L path) (\<lambda>cfg. res_bind (load_schema L cfg) (\<lambda>schema.
    res_bind (uci_validate_mode (uci_section cfg)) (\<lambda>mode.
    res_bind (load_tls (tls_lib L) cfg) (\<lambda>T. Inr (cfg, schema, mode, T)))))")
  case (Inl err)
  then show ?thesis using assms by (simp add: startup_def)
next
  case (Inr y)
  then show ?thesis using assms that by (auto simp: startup_def res_elims)
qed

lemma start_kinds:
  "start_loopback s \<noteq> StartedOwp A t" "start_loopback s \<noteq> StartedStomp a c u"
  "start_stomp ss b w \<noteq> Inr (StartedOwp A t)" "start_dds pe ds sc m \<noteq> Inr (StartedOwp A t)"
  "start_owp i os b' sc m w' \<noteq> Inr (StartedStomp a c u)" "start_dds pe ds sc m \<noteq> Inr (StartedStomp a c u)"
  by (auto simp: start_loopback_def start_stomp_def start_dds_def start_owp_def res_elims Let_def)

lemma startup_owp:
  assumes "startup L path = (q, hs)" "StartedOwp A t \<in> set hs"
  obtains cfg schema mode T bind where "load_config L path = Inr cfg" "load_schema L cfg = Inr schema"
    "load_tls (tls_lib L) cfg = Inr T" "ow_enabled (owp_section cfg)"
    "start_owp (fresh_uuid L) (owp_section cfg) bind schema mode (tls_owp T) = Inr (StartedOwp A t)"
  using startup_member [OF assms] start_adapters_member [OF _ assms(2)] start_kinds(1,3,4) by metis

lemma startup_stomp:
  assumes "startup L path = (q, hs)" "StartedStomp a c u \<in> set hs"
  obtains cfg T bro where "load_config L path = Inr cfg" "load_tls (tls_lib L) cfg = Inr T" "st_enabled (stomp_section cfg)"
    "start_stomp (stomp_section cfg) bro (tls_stomp T) = Inr (StartedStomp a c u)"
  using startup_member [OF assms] start_adapters_member [OF _ assms(2)] start_kinds(2,5,6) by metis

lemma load_schema_given:
  assumes "load_schema L cfg = Inr sc"
  shows "ow_enabled (owp_section cfg) \<and> ow_xml_baseline (owp_section cfg) \<Longrightarrow> sc \<noteq> None"
    and "sc = Some s \<Longrightarrow> \<exists>docs. compile (host_regex L) (xsd_document L) docs = Inr s"
proof -
  have some: "map_sum f Some r = Inr y \<longleftrightarrow> (\<exists>s. y = Some s \<and> r = Inr s)" for f :: "UciError \<Rightarrow> string" and r y
    by (cases r) auto
  show "sc \<noteq> None" if "ow_enabled (owp_section cfg) \<and> ow_xml_baseline (owp_section cfg)"
    using assms that by (auto simp: load_schema_def res_elims some split: if_splits)
  show "\<exists>docs. compile (host_regex L) (xsd_document L) docs = Inr s" if "sc = Some s"
    using assms that by (auto simp: load_schema_def res_elims some split: if_splits)
qed

lemma start_owp_adapter:
  assumes "start_owp uuid s bind schema mode w = Inr (StartedOwp A t)"
  shows "t = w" "owp_tls A \<longleftrightarrow> w \<noteq> None" "owp_schema A = schema" "xml_baseline (owp_config A) = ow_xml_baseline s"
    "validate_mode (owp_config A) = mode"
  using assms
  by (auto simp: start_owp_def res_elims Let_def new_owp_adapter_def with_schema_def with_tls_def split: option.splits)

text \<open>C37: An OWP adapter that the host has started with \<open>xml_baseline\<close> on has a compiled schema, all
  of whose references resolve. So every envelope of every session of it is converted with that schema,
  and the answer that no schema is loaded is never given.\<close>

theorem host_baseline_has_schema:
  assumes "startup L path = (q, hs)" "StartedOwp A t \<in> set hs" "xml_baseline (owp_config A)"
  shows "\<exists>s. owp_schema A = Some s \<and> schema_closed s \<and>
    to_baseline X (session_of A c) e = toward_xml (codecs X) e s"
proof -
  obtain cfg schema mode bind w where st: "load_schema L cfg = Inr schema" "ow_enabled (owp_section cfg)"
    "start_owp (fresh_uuid L) (owp_section cfg) bind schema mode w = Inr (StartedOwp A t)"
    by (rule startup_owp [OF assms(1,2)]) (rule that)
  note A = start_owp_adapter [OF st(3)]
  obtain s where s: "schema = Some s" using load_schema_given(1) [OF st(1)] st(2) A(4) assms(3) by auto
  then obtain docs where "compile (host_regex L) (xsd_document L) docs = Inr s"
    using load_schema_given(2) [OF st(1)] by blast
  then have "schema_closed s" by (simp add: compile_iff)
  then show ?thesis using A(3) s assms(3) by (simp add: to_baseline_def session_of_def)
qed

lemma load_tls_parts:
  assumes "load_tls L cfg = Inr T"
  shows "ow_enabled (owp_section cfg) \<Longrightarrow> server_tls L ''owp.tls'' (non_empty_path (ow_tls_cert (owp_section cfg)))
      (non_empty_path (ow_tls_key (owp_section cfg))) (non_empty_path (ow_tls_client_ca (owp_section cfg))) = Inr (tls_owp T)"
    and "load_stomp_tls L (stomp_section cfg) = Inr (tls_stomp T)"
  using assms by (auto simp: load_tls_def res_elims)

lemma non_empty_path_None [simp]: "non_empty_path v = None \<longleftrightarrow> v = []"
  by (simp add: non_empty_path_def)

definition stomp_tls_name :: "StompSection \<Rightarrow> string" where
  "stomp_tls_name s = (if st_tls_server_name s = [] then host_part (st_broker s) else st_tls_server_name s)"

lemma load_stomp_tls_given:
  assumes "load_stomp_tls L s = Inr u" "st_enabled s"
  shows "case u of
      None \<Rightarrow> \<not> st_tls s \<and> st_tls_client_cert s = [] \<and> st_tls_client_key s = []
    | Some y \<Rightarrow> st_tls s \<and> trusted y \<noteq> [] \<and> checked_name y = stomp_tls_name s \<and>
        (client_auth y = None \<longleftrightarrow> st_tls_client_cert s = []) \<and> (st_tls_client_cert s = [] \<longleftrightarrow> st_tls_client_key s = [])"
proof (cases "st_tls s")
  case True
  let ?c = "client_tls L ''stomp.tls'' (non_empty_path (st_tls_ca s)) (stomp_tls_name s)
    (non_empty_path (st_tls_client_cert s)) (non_empty_path (st_tls_client_key s))"
  have "map_sum id Some ?c = Inr u" using assms True by (simp add: load_stomp_tls_def stomp_tls_name_def)
  then obtain y where y: "u = Some y" "?c = Inr y" by (cases ?c) auto
  show ?thesis using client_tls_given [OF y(2)] True y(1) by (auto split: if_splits)
next
  case False
  then show ?thesis using assms by (auto simp: load_stomp_tls_def split: if_splits)
qed

lemma start_stomp_adapter:
  "start_stomp s bro w = Inr (StartedStomp a c u) \<Longrightarrow> u = w \<and> (tls c \<longleftrightarrow> w \<noteq> None)"
  by (auto simp: start_stomp_def res_elims)

text \<open>C38: TLS is never quietly left off. A listener the host has started is plaintext only when no
  certificate, key or client CA is configured; with a client CA it asks every client for a certificate
  from a bundle that is not empty. A broker connection is plaintext only when \<open>stomp.tls\<close> is off and
  no client certificate or key is configured (a \<open>tls_ca\<close> does not turn TLS on); else it checks the configured name against trust anchors
  that are not empty, and presents a certificate exactly when one is configured.\<close>

theorem tls_never_left_off:
  assumes "startup L path = (q, hs)" "load_config L path = Inr cfg"
  shows "(StartedOwp A t \<in> set hs \<longrightarrow> owp_tls A = (t \<noteq> None) \<and>
      (case t of
         None \<Rightarrow> ow_tls_cert (owp_section cfg) = [] \<and> ow_tls_key (owp_section cfg) = [] \<and> ow_tls_client_ca (owp_section cfg) = []
       | Some x \<Rightarrow> presented x \<noteq> [] \<and> (client_roots x = None \<longleftrightarrow> ow_tls_client_ca (owp_section cfg) = []) \<and>
           client_roots x \<noteq> Some [])) \<and>
    (StartedStomp a c u \<in> set hs \<longrightarrow> tls c = (u \<noteq> None) \<and>
      (case u of
         None \<Rightarrow> \<not> st_tls (stomp_section cfg) \<and> st_tls_client_cert (stomp_section cfg) = [] \<and>
           st_tls_client_key (stomp_section cfg) = []
       | Some y \<Rightarrow> st_tls (stomp_section cfg) \<and> trusted y \<noteq> [] \<and> checked_name y = stomp_tls_name (stomp_section cfg) \<and>
           (client_auth y = None \<longleftrightarrow> st_tls_client_cert (stomp_section cfg) = []) \<and>
           (st_tls_client_cert (stomp_section cfg) = [] \<longleftrightarrow> st_tls_client_key (stomp_section cfg) = [])))"
proof (intro conjI impI)
  assume "StartedOwp A t \<in> set hs"
  then obtain T bind schema mode where st: "load_tls (tls_lib L) cfg = Inr T" "ow_enabled (owp_section cfg)"
    "start_owp (fresh_uuid L) (owp_section cfg) bind schema mode (tls_owp T) = Inr (StartedOwp A t)"
    using startup_owp [OF assms(1)] assms(2) by (metis sum.inject(2))
  have "tls_owp T = t" "owp_tls A = (t \<noteq> None)" using start_owp_adapter [OF st(3)] by simp_all
  then show "owp_tls A = (t \<noteq> None)"
    "case t of
       None \<Rightarrow> ow_tls_cert (owp_section cfg) = [] \<and> ow_tls_key (owp_section cfg) = [] \<and> ow_tls_client_ca (owp_section cfg) = []
     | Some x \<Rightarrow> presented x \<noteq> [] \<and> (client_roots x = None \<longleftrightarrow> ow_tls_client_ca (owp_section cfg) = []) \<and>
         client_roots x \<noteq> Some []"
    using load_tls_parts(1) [OF st(1,2)] server_tls_given(1) server_tls_given(2) [of "tls_lib L"]
    by (auto split: option.splits)
next
  assume "StartedStomp a c u \<in> set hs"
  then obtain T bro where st: "load_tls (tls_lib L) cfg = Inr T" "st_enabled (stomp_section cfg)"
    "start_stomp (stomp_section cfg) bro (tls_stomp T) = Inr (StartedStomp a c u)"
    using startup_stomp [OF assms(1)] assms(2) by (metis sum.inject(2))
  have u: "tls_stomp T = u" "tls c = (u \<noteq> None)" using start_stomp_adapter [OF st(3)] by auto
  then show "tls c = (u \<noteq> None)" by simp
  show "case u of
         None \<Rightarrow> \<not> st_tls (stomp_section cfg) \<and> st_tls_client_cert (stomp_section cfg) = [] \<and>
           st_tls_client_key (stomp_section cfg) = []
       | Some y \<Rightarrow> st_tls (stomp_section cfg) \<and> trusted y \<noteq> [] \<and> checked_name y = stomp_tls_name (stomp_section cfg) \<and>
           (client_auth y = None \<longleftrightarrow> st_tls_client_cert (stomp_section cfg) = []) \<and>
           (st_tls_client_cert (stomp_section cfg) = [] \<longleftrightarrow> st_tls_client_key (stomp_section cfg) = [])"
    using load_stomp_tls_given [OF load_tls_parts(2) [OF st(1)] st(2)] u(1) by simp
qed

fun adapter_label :: "Started \<Rightarrow> string" where
  "adapter_label (StartedLoopback l) = ''loopback''"
| "adapter_label (StartedOwp A t) = ''owp''"
| "adapter_label (StartedStomp a c u) = ''stomp''"
| "adapter_label (StartedDds a c) = ''dds''"

definition enabled_labels :: "Config \<Rightarrow> string list" where
  "enabled_labels cfg =
     map snd (filter fst [(lo_enabled (loopback_section cfg), ''loopback''), (ow_enabled (owp_section cfg), ''owp''),
       (st_enabled (stomp_section cfg), ''stomp''), (dd_enabled (dds_section cfg), ''dds'')])"

lemma push_start_labels:
  assumes "push_start on r st = (Inr (), hs)" "\<And>x. r = Inr x \<Longrightarrow> adapter_label x = l"
  shows "\<exists>hs0. st = (Inr (), hs0) \<and> map adapter_label hs = map adapter_label hs0 @ (if on then [l] else [])"
  using assms by (auto simp: push_start_def split: prod.splits sum.splits if_splits)

lemma start_labels:
  "adapter_label (start_loopback s) = ''loopback''"
  "start_owp i os b sc m w = Inr x \<Longrightarrow> adapter_label x = ''owp''"
  "start_stomp ss b' u = Inr x \<Longrightarrow> adapter_label x = ''stomp''"
  "start_dds pe ds sc m = Inr x \<Longrightarrow> adapter_label x = ''dds''"
  by (auto simp: start_loopback_def start_stomp_def start_dds_def start_owp_def res_elims Let_def)

lemma spawn_enabled_labels:
  assumes "spawn_enabled L cfg schema mode T bind bro = (Inr (), hs)"
  shows "map adapter_label hs = enabled_labels cfg"
proof -
  obtain h3 where 3: "push_start (st_enabled (stomp_section cfg)) (start_stomp (stomp_section cfg) bro (tls_stomp T))
         (push_start (ow_enabled (owp_section cfg))
           (start_owp (fresh_uuid L) (owp_section cfg) bind schema mode (tls_owp T))
           (push_start (lo_enabled (loopback_section cfg)) (Inr (start_loopback (loopback_section cfg)))
             (Inr (), []))) = (Inr (), h3)"
    "map adapter_label hs = map adapter_label h3 @ (if dd_enabled (dds_section cfg) then [''dds''] else [])"
    using push_start_labels [OF assms [unfolded spawn_enabled_def], of "''dds''"] start_labels(4) by blast
  obtain h2 where 2: "push_start (ow_enabled (owp_section cfg))
           (start_owp (fresh_uuid L) (owp_section cfg) bind schema mode (tls_owp T))
           (push_start (lo_enabled (loopback_section cfg)) (Inr (start_loopback (loopback_section cfg)))
             (Inr (), [])) = (Inr (), h2)"
    "map adapter_label h3 = map adapter_label h2 @ (if st_enabled (stomp_section cfg) then [''stomp''] else [])"
    using push_start_labels [OF 3(1), of "''stomp''"] start_labels(3) by blast
  obtain h1 where 1: "push_start (lo_enabled (loopback_section cfg)) (Inr (start_loopback (loopback_section cfg))) (Inr (), []) = (Inr (), h1)"
    "map adapter_label h2 = map adapter_label h1 @ (if ow_enabled (owp_section cfg) then [''owp''] else [])"
    using push_start_labels [OF 2(1), of "''owp''"] start_labels(2) by blast
  have "map adapter_label h1 = (if lo_enabled (loopback_section cfg) then [''loopback''] else [])"
    using 1(1) by (auto simp: push_start_def start_labels)
  then show ?thesis using 1(2) 2(2) 3(2) by (simp add: enabled_labels_def)
qed

text \<open>C39: A start that succeeds has started exactly the adapters the configuration enables, in their
  order, and at least one; a start that cannot resolve the address of the listener, or that of the
  broker, fails with that error and has started none. But
  an adapter may be running when a start fails: with a bad \<open>stomp.on_panic\<close> the OWP listener is
  already spawned when the configuration is refused.\<close>

theorem host_start:
  assumes "load_config L path = Inr cfg" "load_schema L cfg = Inr schema"
    "uci_validate_mode (uci_section cfg) = Inr mode" "load_tls (tls_lib L) cfg = Inr T"
  shows "(startup L path = (Inr (), hs) \<longrightarrow> map adapter_label hs = enabled_labels cfg \<and> hs \<noteq> []) \<and>
    (ow_enabled (owp_section cfg) \<and> resolve_addr (addr_lib L) ''owp.bind'' (ow_bind (owp_section cfg)) = Inl err \<longrightarrow>
       startup L path = (Inl err, [])) \<and>
    ((ow_enabled (owp_section cfg) \<longrightarrow> resolve_addr (addr_lib L) ''owp.bind'' (ow_bind (owp_section cfg)) = Inr bind) \<and>
     st_enabled (stomp_section cfg) \<and> resolve_addr (addr_lib L) ''stomp.broker'' (st_broker (stomp_section cfg)) = Inl err \<longrightarrow>
       startup L path = (Inl err, [])) \<and>
    (ow_enabled (owp_section cfg) \<and> resolve_addr (addr_lib L) ''owp.bind'' (ow_bind (owp_section cfg)) = Inr bind \<and>
     owp_on_panic_mode (owp_section cfg) = Inr on_p \<and>
     st_enabled (stomp_section cfg) \<and> resolve_addr (addr_lib L) ''stomp.broker'' (st_broker (stomp_section cfg)) = Inr bro \<and>
     stomp_on_panic_mode (stomp_section cfg) = Inl err \<longrightarrow>
       fst (startup L path) = Inl err \<and> (\<exists>A t. StartedOwp A t \<in> set (snd (startup L path))))"
proof -
  have s: "startup L path = start_adapters L cfg schema mode T" using assms by (simp add: startup_def)
  have one: "map adapter_label hs = enabled_labels cfg \<and> hs \<noteq> []" if ok: "start_adapters L cfg schema mode T = (Inr (), hs)"
  proof -
    obtain bind bro where "spawn_enabled L cfg schema mode T bind bro = (Inr (), hs)" "hs \<noteq> []"
      using ok unfolding start_adapters_def by (auto split: sum.splits prod.splits if_splits)
    then show ?thesis using spawn_enabled_labels by blast
  qed
  have bad: "fst (startup L path) = Inl err \<and> (\<exists>A t. StartedOwp A t \<in> set (snd (startup L path)))"
    if "ow_enabled (owp_section cfg)" "resolve_addr (addr_lib L) ''owp.bind'' (ow_bind (owp_section cfg)) = Inr bind"
      and on_p: "owp_on_panic_mode (owp_section cfg) = Inr on_p"
      and "st_enabled (stomp_section cfg)" "resolve_addr (addr_lib L) ''stomp.broker'' (st_broker (stomp_section cfg)) = Inr bro"
      "stomp_on_panic_mode (stomp_section cfg) = Inl err"
  proof -
    obtain A t where ow: "start_owp (fresh_uuid L) (owp_section cfg) bind schema mode (tls_owp T) = Inr (StartedOwp A t)"
      using on_p by (simp add: start_owp_def Let_def)
    have "start_stomp (stomp_section cfg) bro (tls_stomp T) = Inl err" using that(6) by (simp add: start_stomp_def)
    then show ?thesis
      using that ow unfolding s by (auto simp: start_adapters_def spawn_enabled_def push_start_def split: prod.splits)
  qed
  show ?thesis using one bad unfolding s by (auto simp: start_adapters_def)
qed

section \<open>The statistics ticker\<close>

text \<open>While the drop counter does not wrap, what the ticker reports adds up to every drop since the
  value it started from.\<close>

lemma stats_ticker_accounts:
  assumes "interval_secs > 0" "sorted (l # map (\<lambda>e. stat_dropped (stats e)) engs)"
  shows "sum_list (map (case_option 0 id) (stats_ticker interval_secs engs l)) =
    (if engs = [] then 0 else stat_dropped (stats (last engs)) - l)"
  using assms(2)
proof (induction engs arbitrary: l)
  case (Cons e engs)
  let ?d = "stat_dropped (stats e)"
  have "l \<le> ?d" "sorted (?d # map (\<lambda>e. stat_dropped (stats e)) engs)" using Cons.prems by auto
  then show ?case using Cons.IH [of ?d] assms(1) by (auto simp: stats_sample_def Let_def not_less)
qed simp

section \<open>Concrete hosts\<close>

definition demo_tls_lib :: TlsLib where
  "demo_tls_lib = \<lparr>fs_read = Inr, pem_certs = (\<lambda>b. Inr [b]), pem_key = Inr, add_root = (\<lambda>_ _. Inr ()), build_verifier = (\<lambda>_. Inr ()),
     single_cert = (\<lambda>_ _. Inr ()), client_auth_cert = (\<lambda>_ _. Inr ()), native_roots = [''os''], native_errors = [],
     server_name_of = (\<lambda>_. Inr ())\<rparr>"

definition demo_host_lib :: "Config \<Rightarrow> HostLib" where
  "demo_host_lib cfg = \<lparr>path_exists = (\<lambda>_. True), host_read = (\<lambda>_. Inr ''<xs:schema/>''), from_toml = (\<lambda>_. Inr cfg),
     addr_lib = \<lparr>parse_socket = Some, lookup_host = (\<lambda>_. Inl ''no'')\<rparr>, tls_lib = demo_tls_lib, xsd_document = demo_parse,
     host_regex = (\<lambda>_. None), fresh_uuid = ''u'', ctrl_c = Inr ()\<rparr>"

definition baseline_config :: Config where
  "baseline_config = default_config\<lparr>
     uci_section := \<lparr>uci_schema = [''a.xsd''], uci_validate = ''warn''\<rparr>,
     owp_section := default_owp_section\<lparr>ow_enabled := True, ow_xml_baseline := True,
       ow_tls_cert := ''c.pem'', ow_tls_key := ''k.pem'', ow_tls_client_ca := ''ca.pem''\<rparr>\<rparr>"

lemmas host_eval = demo_host_lib_def default_config_def default_uci_section_def default_owp_section_def
  default_stomp_section_def default_loopback_section_def default_dds_section_def load_config_def load_schema_def
  uci_validate_mode_def parse_mode_def load_tls_def load_stomp_tls_def server_tls_def server_tls_from_pem_def
  root_store_from_pem_def read_opt_def non_empty_path_def demo_tls_lib_def resolve_addr_def owp_on_panic_mode_def
  stomp_on_panic_mode_def on_panic_from_str_def show_on_panic_def

lemma baseline_loads:
  "load_config (demo_host_lib baseline_config) ''c'' = Inr baseline_config"
  "load_schema (demo_host_lib baseline_config) baseline_config = Inr (Some demo_schema)"
  "uci_validate_mode (uci_section baseline_config) = Inr Warn"
  "load_tls (tls_lib (demo_host_lib baseline_config)) baseline_config =
     Inr \<lparr>tls_owp = Some \<lparr>presented = [''c.pem''], client_roots = Some [''ca.pem'']\<rparr>, tls_stomp = None\<rparr>"
  using demo_compiles by (simp_all add: host_eval baseline_config_def)

lemma baseline_starts:
  "\<exists>A. startup (demo_host_lib baseline_config) ''c'' =
     (Inr (), [StartedOwp A (Some \<lparr>presented = [''c.pem''], client_roots = Some [''ca.pem'']\<rparr>)]) \<and> xml_baseline (owp_config A)"
  using baseline_loads
  by (simp add: startup_def start_adapters_def spawn_enabled_def push_start_def start_owp_def Let_def host_eval baseline_config_def
      new_owp_adapter_def with_schema_def with_tls_def)

theorem host_baseline_has_schema_witness:
  "\<exists>A s. owp_schema A = Some s \<and> schema_closed s \<and>
     to_baseline owp_demo_lib (session_of A 1) demo_envelope = toward_xml (codecs owp_demo_lib) demo_envelope s"
proof -
  obtain A where A: "startup (demo_host_lib baseline_config) ''c'' =
      (Inr (), [StartedOwp A (Some \<lparr>presented = [''c.pem''], client_roots = Some [''ca.pem'']\<rparr>)])" "xml_baseline (owp_config A)"
    using baseline_starts by blast
  show ?thesis
    using host_baseline_has_schema [OF A(1) _ A(2), where X = owp_demo_lib and c = 1 and e = demo_envelope] by auto
qed

theorem tls_never_left_off_witness:
  "\<exists>A x. startup (demo_host_lib baseline_config) ''c'' = (Inr (), [StartedOwp A (Some x)]) \<and> owp_tls A \<and>
     presented x \<noteq> [] \<and> client_roots x \<noteq> None"
proof -
  obtain A where A: "startup (demo_host_lib baseline_config) ''c'' =
      (Inr (), [StartedOwp A (Some \<lparr>presented = [''c.pem''], client_roots = Some [''ca.pem'']\<rparr>)])"
    using baseline_starts by blast
  show ?thesis
    using tls_never_left_off [OF A baseline_loads(1), of A "Some \<lparr>presented = [''c.pem''], client_roots = Some [''ca.pem'']\<rparr>"] A
    by auto
qed

definition bad_panic_config :: Config where
  "bad_panic_config = default_config\<lparr>
     owp_section := default_owp_section\<lparr>ow_enabled := True\<rparr>,
     stomp_section := default_stomp_section\<lparr>st_enabled := True, st_on_panic := ''die''\<rparr>\<rparr>"

theorem host_start_witness:
  "\<exists>A t err. startup (demo_host_lib bad_panic_config) ''c'' = (Inl err, [StartedOwp A t]) \<and> prefix ''stomp.on_panic: '' err"
proof -
  let ?L = "demo_host_lib bad_panic_config"
  have in_: "load_config ?L ''c'' = Inr bad_panic_config" "load_schema ?L bad_panic_config = Inr None"
    "uci_validate_mode (uci_section bad_panic_config) = Inr Warn"
    "load_tls (tls_lib ?L) bad_panic_config = Inr \<lparr>tls_owp = None, tls_stomp = None\<rparr>"
    by (simp_all add: host_eval bad_panic_config_def show_mode_def)
  have "\<exists>err. stomp_on_panic_mode (stomp_section bad_panic_config) = Inl err \<and> prefix ''stomp.on_panic: '' err"
    by (simp add: host_eval bad_panic_config_def)
  then obtain err where err: "stomp_on_panic_mode (stomp_section bad_panic_config) = Inl err" "prefix ''stomp.on_panic: '' err"
    by blast
  have cond: "ow_enabled (owp_section bad_panic_config)" "st_enabled (stomp_section bad_panic_config)"
    "resolve_addr (addr_lib ?L) ''owp.bind'' (ow_bind (owp_section bad_panic_config)) = Inr ''127.0.0.1:9000''"
    "resolve_addr (addr_lib ?L) ''stomp.broker'' (st_broker (stomp_section bad_panic_config)) = Inr ''127.0.0.1:61613''"
    "owp_on_panic_mode (owp_section bad_panic_config) = Inr Abort"
    by (simp_all add: host_eval bad_panic_config_def)
  have "fst (startup ?L ''c'') = Inl err \<and> (\<exists>A t. StartedOwp A t \<in> set (snd (startup ?L ''c'')))"
    using host_start [OF in_, where err = err] cond err by blast
  moreover have "length (snd (startup ?L ''c'')) \<le> 1"
    using in_ cond err(1)
    by (simp add: startup_def start_adapters_def spawn_enabled_def push_start_def start_stomp_def start_owp_def Let_def)
      (simp add: host_eval bad_panic_config_def)
  ultimately show ?thesis using err(2)
    by (cases "startup ?L ''c''"; cases "snd (startup ?L ''c'')") auto
qed

end
