(* ===== verification/Float_Ops.thy ===== *)
theory Float_Ops
  imports Json_Value
begin

text \<open>
  The \<open>f64\<close> arithmetic that the load generator uses, over the values of \<open>Json_Value\<close>: the IEEE 754
  operations, \<open>f64::round\<close>, the saturating \<open>as\<close> casts and \<open>Duration::from_secs_f64\<close>. The lemmas say that
  rounding to \<open>f64\<close> is monotone and leaves whole numbers below \<open>2 ^ 53\<close> alone.
\<close>

section \<open>Operations\<close>

definition f64_nat :: "nat \<Rightarrow> f64" where
  "f64_nat n = f64_of False (of_nat n)"

definition f64_mul :: "f64 \<Rightarrow> f64 \<Rightarrow> f64" where
  "f64_mul a b =
     (case (a, b) of
        (Fin n x, Fin m y) \<Rightarrow> f64_of (n \<noteq> m) (x * y)
      | (Inf n, Inf m) \<Rightarrow> Inf (n \<noteq> m)
      | (Inf n, Fin m y) \<Rightarrow> if y = 0 then NaN else Inf (n \<noteq> m)
      | (Fin n x, Inf m) \<Rightarrow> if x = 0 then NaN else Inf (n \<noteq> m)
      | _ \<Rightarrow> NaN)"

definition f64_div :: "f64 \<Rightarrow> f64 \<Rightarrow> f64" where
  "f64_div a b =
     (case (a, b) of
        (Fin n x, Fin m y) \<Rightarrow>
          if y = 0 then (if x = 0 then NaN else Inf (n \<noteq> m)) else f64_of (n \<noteq> m) (x / y)
      | (Inf n, Fin m _) \<Rightarrow> Inf (n \<noteq> m)
      | (Fin n _, Inf m) \<Rightarrow> Fin (n \<noteq> m) 0
      | _ \<Rightarrow> NaN)"

text \<open>An exact difference of zero is the positive zero, except for a negative zero less a positive one.\<close>

definition f64_sub :: "f64 \<Rightarrow> f64 \<Rightarrow> f64" where
  "f64_sub a b =
     (case (a, b) of
        (Fin n x, Fin m y) \<Rightarrow>
          (let v = (if n then - x else x) - (if m then - y else y)
           in if v = 0 then Fin (n \<and> \<not> m) 0 else f64_of (v < 0) \<bar>v\<bar>)
      | (Inf n, Inf m) \<Rightarrow> if n = m then NaN else Inf n
      | (Inf n, Fin _ _) \<Rightarrow> Inf n
      | (Fin _ _, Inf m) \<Rightarrow> Inf (\<not> m)
      | _ \<Rightarrow> NaN)"

text \<open>\<open>f64::round\<close>, half away from zero, and \<open>as usize\<close>, which saturates.\<close>

definition f64_round :: "f64 \<Rightarrow> f64" where
  "f64_round a = (case a of Fin n x \<Rightarrow> Fin n (of_int \<lfloor>x + 1 / 2\<rfloor>) | _ \<Rightarrow> a)"

definition f64_as_usize :: "f64 \<Rightarrow> nat" where
  "f64_as_usize a =
     (case a of
        NaN \<Rightarrow> 0
      | Inf n \<Rightarrow> (if n then 0 else 2 ^ 64 - 1)
      | Fin n x \<Rightarrow> (if n then 0 else min (nat \<lfloor>x\<rfloor>) (2 ^ 64 - 1)))"

text \<open>\<open>Duration::from_secs_f64\<close>, in nanoseconds: to the nearest, ties to even. It panics, here \<open>None\<close>,
  for a negative number, a NaN and anything that does not fit \<open>2 ^ 64\<close> seconds.\<close>

definition from_secs_f64 :: "f64 \<Rightarrow> nat option" where
  "from_secs_f64 a =
     (case a of
        Fin n x \<Rightarrow>
          (if n \<and> x \<noteq> 0 then None
           else let ns = nat (round_half_even (x * 10 ^ 9)) in if ns < 2 ^ 64 * 10 ^ 9 then Some ns else None)
      | _ \<Rightarrow> None)"

section \<open>Rounding\<close>

lemma round_half_even_int [simp]: "round_half_even (of_int i) = i"
  by (simp add: round_half_even_def)

lemma round_half_even_bounds: "\<lfloor>q\<rfloor> \<le> round_half_even q" "round_half_even q \<le> \<lceil>q\<rceil>"
proof -
  show "\<lfloor>q\<rfloor> \<le> round_half_even q" by (simp add: round_half_even_def Let_def)
  show "round_half_even q \<le> \<lceil>q\<rceil>"
  proof (cases "q = of_int \<lfloor>q\<rfloor>")
    case True
    then show ?thesis by (metis ceiling_of_int order_refl round_half_even_int)
  next
    case False
    then have "\<lceil>q\<rceil> = \<lfloor>q\<rfloor> + 1" by (simp add: ceiling_altdef)
    then show ?thesis by (simp add: round_half_even_def Let_def)
  qed
qed

lemma round_half_even_mono: "p \<le> q \<Longrightarrow> round_half_even p \<le> round_half_even q"
proof (cases "\<lfloor>p\<rfloor> = \<lfloor>q\<rfloor>")
  case True
  assume "p \<le> q"
  then show ?thesis using True by (auto simp: round_half_even_def Let_def)
next
  case False
  assume le: "p \<le> q"
  then have "\<lfloor>p\<rfloor> < \<lfloor>q\<rfloor>" using False floor_mono by (metis order_le_less)
  then have "\<lfloor>p\<rfloor> + 1 \<le> round_half_even q" using round_half_even_bounds(1) [of q] by linarith
  moreover have "round_half_even p \<le> \<lfloor>p\<rfloor> + 1" by (simp add: round_half_even_def Let_def)
  ultimately show ?thesis by linarith
qed

section \<open>The exponent\<close>

lemma floorlog_powi:
  assumes "0 < n"
  shows "2 powi (int (floorlog 2 n) - 1) \<le> (of_nat n :: rat)" "(of_nat n :: rat) < 2 powi int (floorlog 2 n)"
proof -
  have b: "2 ^ (floorlog 2 n - 1) \<le> n" "n < 2 ^ floorlog 2 n" and "0 < floorlog 2 n"
    using floorlog_bounds [OF assms, of 2] assms by (auto simp: floorlog_def)
  then have "int (floorlog 2 n) - 1 = int (floorlog 2 n - 1)" by simp
  moreover have "2 ^ (floorlog 2 n - 1) \<le> (of_nat n :: rat)" "(of_nat n :: rat) < 2 ^ floorlog 2 n"
    using b by (metis of_nat_le_iff of_nat_numeral of_nat_power, metis of_nat_less_iff of_nat_numeral of_nat_power)
  ultimately show "2 powi (int (floorlog 2 n) - 1) \<le> (of_nat n :: rat)" "(of_nat n :: rat) < 2 powi int (floorlog 2 n)"
    by (metis power_int_of_nat)+
qed

text \<open>The binary order of a positive number, and the exponent of its last kept bit.\<close>

lemma f64_exponent_bounds:
  assumes "0 < q"
  obtains k where "f64_exponent q = max (-1074) k" "2 powi (k + 52) \<le> q" "q < 2 powi (k + 53)"
proof -
  obtain n d where nd: "quotient_of q = (n, d)" by force
  have "0 < d" and q: "q = of_int n / of_int d"
    using quotient_of_denom_pos [OF nd] quotient_of_div [OF nd] by simp_all
  then have pos: "0 < d" "0 < n" using assms by (simp_all add: zero_less_divide_iff)
  define a b where "a = int (floorlog 2 (nat n))" and "b = int (floorlog 2 (nat d))"
  have n: "2 powi (a - 1) \<le> (of_int n :: rat)" "(of_int n :: rat) < 2 powi a"
    using floorlog_powi [of "nat n"] pos by (simp_all add: a_def)
  have d: "2 powi (b - 1) \<le> (of_int d :: rat)" "(of_int d :: rat) < 2 powi b"
    using floorlog_powi [of "nat d"] pos by (simp_all add: b_def)
  have "2 powi (a - 1 - b) = 2 powi (a - 1) / (2 powi b :: rat)" by (simp add: power_int_diff)
  also have "\<dots> \<le> q" unfolding q using n d pos by (intro frac_le) auto
  finally have lo: "2 powi (a - 1 - b) \<le> q" .
  have "q < 2 powi a / 2 powi (b - 1)" unfolding q using n d pos by (intro frac_less) auto
  also have "\<dots> = 2 powi (a - b + 1)" by (simp add: power_int_diff power_int_add)
  finally have hi: "q < 2 powi (a - b + 1)" .
  define e where "e = a - b - 53"
  define k where "k = (if q < 2 powi (e + 53) then e else e + 1)"
  have "f64_exponent q = max (-1074) k"
    by (simp add: f64_exponent_def nd k_def e_def a_def b_def Let_def)
  moreover have "2 powi (k + 52) \<le> q"
    using lo by (auto simp: k_def e_def algebra_simps)
  moreover have "q < 2 powi (k + 53)"
    using hi by (auto simp: k_def e_def algebra_simps)
  ultimately show ?thesis using that by blast
qed

text \<open>What \<open>f64_of\<close> rounds a magnitude to, before the range is looked at.\<close>

definition f64_mag :: "rat \<Rightarrow> rat" where
  "f64_mag q = of_int (round_half_even (q / 2 powi f64_exponent q)) * 2 powi f64_exponent q"

lemma f64_of_mag: "f64_of neg q = (if q = 0 then Fin neg 0 else if f64_mag q \<ge> 2 powi 1024 then Inf neg else Fin neg (f64_mag q))"
  by (simp add: f64_of_def f64_mag_def Let_def)

lemma powi_le: "i \<le> j \<Longrightarrow> (2 :: rat) powi i \<le> 2 powi j"
  by (simp add: power_int_increasing)

lemma f64_mag_le:
  assumes "q \<le> of_int i * 2 powi f64_exponent q"
  shows "f64_mag q \<le> of_int i * 2 powi f64_exponent q"
proof -
  have "q / 2 powi f64_exponent q \<le> of_int i"
    using assms by (simp add: divide_le_eq)
  from round_half_even_mono [OF this] show ?thesis
    by (simp add: f64_mag_def)
qed

lemma f64_mag_ge:
  assumes "of_int i * 2 powi f64_exponent q \<le> q"
  shows "of_int i * 2 powi f64_exponent q \<le> f64_mag q"
proof -
  have "of_int i \<le> q / 2 powi f64_exponent q"
    using assms by (simp add: le_divide_eq)
  from round_half_even_mono [OF this] show ?thesis
    by (simp add: f64_mag_def)
qed

lemma f64_mag_mono:
  assumes "0 < p" "p \<le> q"
  shows "f64_mag p \<le> f64_mag q"
proof -
  obtain j where j: "f64_exponent p = max (-1074) j" "2 powi (j + 52) \<le> p" "p < 2 powi (j + 53)"
    using f64_exponent_bounds [OF assms(1)] .
  have "0 < q" using assms by linarith
  then obtain k where k: "f64_exponent q = max (-1074) k" "2 powi (k + 52) \<le> q" "q < 2 powi (k + 53)"
    using f64_exponent_bounds by blast
  have "j \<le> k"
  proof (rule ccontr)
    assume "\<not> j \<le> k"
    then have "(2 :: rat) powi (k + 53) \<le> 2 powi (j + 52)" by (intro powi_le) simp
    then show False using j(2) k(3) assms(2) by linarith
  qed
  then consider "f64_exponent p = f64_exponent q" | "f64_exponent p < f64_exponent q" "f64_exponent q = k"
    using j(1) k(1) by linarith
  then show ?thesis
  proof cases
    case 1
    then have "round_half_even (p / 2 powi f64_exponent p) \<le> round_half_even (q / 2 powi f64_exponent q)"
      using assms(2) by (intro round_half_even_mono) (simp add: divide_right_mono)
    then show ?thesis using 1 by (simp add: f64_mag_def)
  next
    case 2
    let ?e = "f64_exponent p"
    have "p \<le> 2 powi (?e + 53)"
      using j(3) powi_le [of "j + 53" "?e + 53"] j(1) by simp
    then have "p \<le> of_int (2 ^ 53) * 2 powi ?e" by (simp add: power_int_add)
    from f64_mag_le [OF this] have "f64_mag p \<le> 2 powi (?e + 53)" by (simp add: power_int_add)
    also have "\<dots> \<le> 2 powi (k + 52)" using 2 by (intro powi_le) simp
    also have "\<dots> \<le> f64_mag q"
      using f64_mag_ge [of "2 ^ 52" q] k(2) 2(2) by (simp add: power_int_add)
    finally show ?thesis .
  qed
qed

lemma f64_mag_nonneg: "0 \<le> q \<Longrightarrow> 0 \<le> f64_mag q"
  using f64_mag_ge [of 0 q] by simp

text \<open>A number with at most 53 significant bits is kept.\<close>

lemma f64_mag_dyadic:
  assumes "n < 2 ^ 53" "0 < n" "j \<le> 1074"
  shows "f64_mag (of_nat n / 2 ^ j) = of_nat n / 2 ^ j"
proof -
  let ?q = "of_nat n / 2 ^ j :: rat"
  have pos: "0 < ?q" using assms by simp
  obtain k where k: "f64_exponent ?q = max (-1074) k" "2 powi (k + 52) \<le> ?q"
    using f64_exponent_bounds [OF pos] .
  have "(of_nat n :: rat) < 2 ^ 53"
    using assms(1) by (metis of_nat_less_iff of_nat_numeral of_nat_power)
  then have "?q < 2 ^ 53 / 2 ^ j" by (simp add: divide_strict_right_mono)
  also have "\<dots> = 2 powi (53 - int j)" by (simp add: power_int_diff)
  finally have "(2 :: rat) powi (k + 52) < 2 powi (53 - int j)" using k(2) by linarith
  then have "\<not> 53 - int j \<le> k + 52" using powi_le [of "53 - int j" "k + 52"] by auto
  then have "f64_exponent ?q \<le> - int j" using k(1) assms(3) by simp
  then obtain m where m: "f64_exponent ?q = - int j - int m"
    by (metis diff_ge_0_iff_ge diff_diff_eq2 add_diff_cancel_left' diff_add_cancel zero_le_imp_eq_int)
  have "?q / 2 powi (- int j - int m) = of_int (int n * 2 ^ m)"
    by (simp add: power_int_diff power_int_minus power_int_of_nat field_simps)
  then show ?thesis
    unfolding f64_mag_def m
    by (simp only: round_half_even_int) (simp add: power_int_diff power_int_minus power_int_of_nat field_simps)
qed

lemma f64_mag_nat: "n < 2 ^ 53 \<Longrightarrow> 0 < n \<Longrightarrow> f64_mag (of_nat n) = of_nat n"
  using f64_mag_dyadic [of n 0] by simp

lemma f64_of_nat:
  assumes "n < 2 ^ 53"
  shows "f64_of neg (of_nat n) = Fin neg (of_nat n)"
proof (cases "n = 0")
  case False
  have "(of_nat n :: rat) < 2 ^ 53"
    using assms by (metis of_nat_less_iff of_nat_numeral of_nat_power)
  also have "(2 :: rat) ^ 53 \<le> 2 powi 1024" by simp
  finally show ?thesis using False assms by (simp add: f64_of_mag f64_mag_nat)
qed (simp add: f64_of_mag)

end
