(* ===== verification/Bench_Cli.thy ===== *)
theory Bench_Cli
  imports Float_Ops
begin

text \<open>
  The command line of the load generator, \<open>oa-gateway-bench/src/cli.rs\<close>, with the outcome of \<open>main.rs\<close>. A
  \<open>Duration\<close> is its nanoseconds. Reading a duration can panic inside \<open>Duration::from_secs_f64\<close>, so a
  failure is either a message or \<open>Panic\<close>.
\<close>

section \<open>Commands\<close>

definition USAGE :: string where
  "USAGE = concat (map (\<lambda>l. l @ [CHR 0x0A])
     [''OA-Gateway bench '' @ [CHR 0xE2, CHR 0x80, CHR 0x94] @ '' latency and throughput against public gateway APIs'',
      [],
      ''Usage:'',
      ''  oa-gateway-bench engine   [options]'',
      ''  oa-gateway-bench loopback [options]'',
      ''  oa-gateway-bench owp      [options]'',
      ''  oa-gateway-bench uci      [options]'',
      ''  oa-gateway-bench ping     [options]'',
      [],
      ''Shared options:'',
      ''  --duration DUR       How long to publish (default 10s). 200ms, 10s, 1m, or seconds.'',
      ''  --warmup DUR         Discard latency samples sent in this prefix of --duration (default 1s).'',
      ''  --rate N             Publishes per second. 0 means as-fast-as-possible (default 0).'',
      ''  --payload-bytes N    Minimum JSON payload size (default 64).'',
      ''  --json PATH          Write the same numbers as one JSON object.'',
      ''  -h, --help           Print this help and exit.'',
      [],
      ''engine options:'',
      ''  --subscribers N      How many engine subscribers (default 1).'',
      ''  --capacity N         Delivery channel size passed to Engine::subscribe (default 4096).'',
      [],
      ''owp options:'',
      ''  --publishers N       WebSocket publishers (default 1).'',
      ''  --subscribers N      WebSocket subscribers (default 1).'',
      ''  --xml-baseline       Embedded OWP converts OMS JSON '' @ [CHR 0xE2, CHR 0x86, CHR 0x94] @ '' UCI XML (fixture schema).'',
      ''  --url URL            Attach to a running gateway instead of starting OWP.'',
      ''  --ack-latency        Also time PUB '' @ [CHR 0xE2, CHR 0x86, CHR 0x92] @ '' +OK on the publisher socket.'',
      [],
      ''uci options:'',
      ''  --iterations N       Convert this many times (default 2000).'',
      ''  --direction DIR      json-to-xml (default) or xml-to-json.'',
      [],
      ''ping options:'',
      ''  --url URL            Attach to a running gateway instead of starting OWP.'',
      [],
      ''Examples:'',
      ''  oa-gateway-bench engine --duration 5s --warmup 1s'',
      ''  oa-gateway-bench engine --capacity 64'',
      ''  oa-gateway-bench owp --xml-baseline --duration 5s'',
      ''  oa-gateway-bench owp --url ws://127.0.0.1:9000/'',
      ''  oa-gateway-bench uci --iterations 2000'',
      ''  oa-gateway-bench ping --url ws://127.0.0.1:9000/''])"

record SharedArgs =
  sh_duration :: nat
  sh_warmup :: nat
  sh_rate :: nat
  sh_payload_bytes :: nat
  sh_json :: "string option"

definition default_shared_args :: SharedArgs where
  "default_shared_args = \<lparr>sh_duration = 10 * 10 ^ 9, sh_warmup = 10 ^ 9, sh_rate = 0, sh_payload_bytes = 64, sh_json = None\<rparr>"

record EngineArgs =
  en_shared :: SharedArgs
  en_subscribers :: nat
  en_capacity :: nat

definition default_engine_args :: EngineArgs where
  "default_engine_args = \<lparr>en_shared = default_shared_args, en_subscribers = 1, en_capacity = 4096\<rparr>"

record LoopbackArgs =
  lp_shared :: SharedArgs

record OwpArgs =
  ob_shared :: SharedArgs
  ob_publishers :: nat
  ob_subscribers :: nat
  ob_xml_baseline :: bool
  ob_url :: "string option"
  ob_ack_latency :: bool

definition default_owp_args :: OwpArgs where
  "default_owp_args =
     \<lparr>ob_shared = default_shared_args, ob_publishers = 1, ob_subscribers = 1, ob_xml_baseline = False,
      ob_url = None, ob_ack_latency = False\<rparr>"

datatype UciDirection = JsonToXml | XmlToJson

record PingArgs =
  pi_url :: "string option"

record UciArgs =
  ub_iterations :: nat
  ub_direction :: UciDirection
  ub_json :: "string option"

definition default_uci_args :: UciArgs where
  "default_uci_args = \<lparr>ub_iterations = 2000, ub_direction = JsonToXml, ub_json = None\<rparr>"

datatype Command =
    EngineCmd EngineArgs
  | LoopbackCmd LoopbackArgs
  | OwpCmd OwpArgs
  | UciCmd UciArgs
  | PingCmd PingArgs
  | HelpCmd

datatype Failure = Err string | Panic

section \<open>Values\<close>

definition backticked :: "string \<Rightarrow> string" where
  "backticked s = ''`'' @ s @ ''`''"

definition try_help :: string where
  "try_help = ''Try `oa-gateway-bench --help`.''"

definition needs_value :: "string \<Rightarrow> Failure" where
  "needs_value flag = Err (flag @ '' needs a value. '' @ try_help)"

definition parse_u64 :: "string \<Rightarrow> Failure + nat" where
  "parse_u64 s = ok_or (parse_unsigned 64 s) (Err (backticked s @ '' is not a non-negative integer''))"

definition parse_nonzero :: "string \<Rightarrow> Failure + nat" where
  "parse_nonzero s =
     res_bind (ok_or (parse_unsigned 64 s) (Err (backticked s @ '' is not a positive integer''))) (\<lambda>n.
     if n = 0 then Inl (Err ''value must be at least 1'') else Inr n)"

definition strip_suffix :: "string \<Rightarrow> string \<Rightarrow> string option" where
  "strip_suffix x s = (if suffix x s then Some (take (length s - length x) s) else None)"

definition not_a_duration :: "string \<Rightarrow> Failure" where
  "not_a_duration s = Err (backticked s @ '' is not a duration'')"

definition parse_secs :: "string \<Rightarrow> string \<Rightarrow> Failure + nat" where
  "parse_secs t original =
     res_bind (ok_or (parse_f64 t) (not_a_duration original)) (\<lambda>n.
     if f64_lt n (Fin False 0) then Inl (not_a_duration original)
     else ok_or (from_secs_f64 n) Panic)"

definition parse_duration :: "string \<Rightarrow> Failure + nat" where
  "parse_duration s =
     (case strip_suffix ''ms'' s of
        Some ms \<Rightarrow> res_bind (ok_or (parse_unsigned 64 ms) (not_a_duration s)) (\<lambda>n. Inr (n * 10 ^ 6))
      | None \<Rightarrow>
          (case strip_suffix ''s'' s of
             Some secs \<Rightarrow> parse_secs secs s
           | None \<Rightarrow>
               (case strip_suffix ''m'' s of
                  Some mins \<Rightarrow>
                    res_bind (ok_or (parse_f64 mins) (not_a_duration s)) (\<lambda>n.
                    ok_or (from_secs_f64 (f64_mul n (Fin False 60))) Panic)
                | None \<Rightarrow> parse_secs s s)))"

section \<open>Options\<close>

definition is_help :: "string \<Rightarrow> bool" where
  "is_help arg \<longleftrightarrow> arg = ''-h'' \<or> arg = ''--help''"

definition usage_error :: Failure where
  "usage_error = Err (trim_end USAGE)"

fun parse_shared_loop :: "string list \<Rightarrow> SharedArgs \<Rightarrow> Failure + SharedArgs" where
  "parse_shared_loop [] out = Inr out"
| "parse_shared_loop (arg # args) out =
     (if arg \<in> {''--duration'', ''--warmup'', ''--rate'', ''--payload-bytes'', ''--json''} then
        (case args of
           [] \<Rightarrow> Inl (needs_value arg)
         | v # rest \<Rightarrow>
             if arg = ''--duration'' then
               res_bind (parse_duration v) (\<lambda>d. parse_shared_loop rest (out\<lparr>sh_duration := d\<rparr>))
             else if arg = ''--warmup'' then
               res_bind (parse_duration v) (\<lambda>d. parse_shared_loop rest (out\<lparr>sh_warmup := d\<rparr>))
             else if arg = ''--rate'' then
               res_bind (parse_u64 v) (\<lambda>n. parse_shared_loop rest (out\<lparr>sh_rate := n\<rparr>))
             else if arg = ''--payload-bytes'' then
               res_bind (parse_nonzero v) (\<lambda>n. parse_shared_loop rest (out\<lparr>sh_payload_bytes := n\<rparr>))
             else parse_shared_loop rest (out\<lparr>sh_json := Some v\<rparr>))
      else Inl (Err (''unknown option '' @ backticked arg @ ''. '' @ try_help)))"

definition parse_shared :: "string list \<Rightarrow> Failure + SharedArgs" where
  "parse_shared args = parse_shared_loop args default_shared_args"

text \<open>The loops of \<open>parse_engine\<close> and \<open>parse_owp\<close> leave what they do not know, in order, for
  \<open>parse_shared\<close>.\<close>

fun parse_engine_loop :: "string list \<Rightarrow> EngineArgs \<Rightarrow> string list \<Rightarrow> Failure + EngineArgs \<times> string list" where
  "parse_engine_loop [] out rest = Inr (out, rest)"
| "parse_engine_loop (arg # args) out rest =
     (if is_help arg then Inl usage_error
      else if arg \<in> {''--subscribers'', ''--capacity''} then
        (case args of
           [] \<Rightarrow> Inl (needs_value arg)
         | v # args' \<Rightarrow>
             res_bind (parse_nonzero v) (\<lambda>n.
             parse_engine_loop args'
               (if arg = ''--subscribers'' then out\<lparr>en_subscribers := n\<rparr> else out\<lparr>en_capacity := n\<rparr>) rest))
      else parse_engine_loop args out (rest @ [arg]))"

definition parse_engine :: "string list \<Rightarrow> Failure + EngineArgs" where
  "parse_engine args =
     res_bind (parse_engine_loop args default_engine_args []) (\<lambda>(out, rest).
     res_bind (parse_shared rest) (\<lambda>sh. Inr (out\<lparr>en_shared := sh\<rparr>)))"

definition parse_loopback :: "string list \<Rightarrow> Failure + LoopbackArgs" where
  "parse_loopback args =
     (if list_ex is_help args then Inl usage_error
      else res_bind (parse_shared args) (\<lambda>sh. Inr \<lparr>lp_shared = sh\<rparr>))"

fun parse_owp_loop :: "string list \<Rightarrow> OwpArgs \<Rightarrow> string list \<Rightarrow> Failure + OwpArgs \<times> string list" where
  "parse_owp_loop [] out rest = Inr (out, rest)"
| "parse_owp_loop (arg # args) out rest =
     (if is_help arg then Inl usage_error
      else if arg \<in> {''--publishers'', ''--subscribers'', ''--url''} then
        (case args of
           [] \<Rightarrow> Inl (needs_value arg)
         | v # args' \<Rightarrow>
             if arg = ''--url'' then parse_owp_loop args' (out\<lparr>ob_url := Some v\<rparr>) rest
             else res_bind (parse_nonzero v) (\<lambda>n.
               parse_owp_loop args'
                 (if arg = ''--publishers'' then out\<lparr>ob_publishers := n\<rparr> else out\<lparr>ob_subscribers := n\<rparr>) rest))
      else if arg = ''--xml-baseline'' then parse_owp_loop args (out\<lparr>ob_xml_baseline := True\<rparr>) rest
      else if arg = ''--ack-latency'' then parse_owp_loop args (out\<lparr>ob_ack_latency := True\<rparr>) rest
      else parse_owp_loop args out (rest @ [arg]))"

definition parse_owp :: "string list \<Rightarrow> Failure + OwpArgs" where
  "parse_owp args =
     res_bind (parse_owp_loop args default_owp_args []) (\<lambda>(out, rest).
     res_bind (parse_shared rest) (\<lambda>sh. Inr (out\<lparr>ob_shared := sh\<rparr>)))"

definition parse_direction :: "string \<Rightarrow> Failure + UciDirection" where
  "parse_direction v =
     (if v = ''json-to-xml'' then Inr JsonToXml
      else if v = ''xml-to-json'' then Inr XmlToJson
      else Inl (Err (''--direction must be json-to-xml or xml-to-json, not '' @ backticked v)))"

fun parse_uci_loop :: "string list \<Rightarrow> UciArgs \<Rightarrow> Failure + UciArgs" where
  "parse_uci_loop [] out = Inr out"
| "parse_uci_loop (arg # args) out =
     (if is_help arg then Inl usage_error
      else if arg \<in> {''--iterations'', ''--direction'', ''--json''} then
        (case args of
           [] \<Rightarrow> Inl (needs_value arg)
         | v # args' \<Rightarrow>
             if arg = ''--iterations'' then
               res_bind (parse_u64 v) (\<lambda>n. parse_uci_loop args' (out\<lparr>ub_iterations := n\<rparr>))
             else if arg = ''--direction'' then
               res_bind (parse_direction v) (\<lambda>d. parse_uci_loop args' (out\<lparr>ub_direction := d\<rparr>))
             else parse_uci_loop args' (out\<lparr>ub_json := Some v\<rparr>))
      else Inl (Err (''unknown option '' @ backticked arg @ '' for uci. '' @ try_help)))"

definition parse_uci :: "string list \<Rightarrow> Failure + UciArgs" where
  "parse_uci args = parse_uci_loop args default_uci_args"

fun parse_ping_loop :: "string list \<Rightarrow> PingArgs \<Rightarrow> Failure + PingArgs" where
  "parse_ping_loop [] out = Inr out"
| "parse_ping_loop (arg # args) out =
     (if is_help arg then Inl usage_error
      else if arg = ''--url'' then
        (case args of
           [] \<Rightarrow> Inl (needs_value arg)
         | v # args' \<Rightarrow> parse_ping_loop args' (out\<lparr>pi_url := Some v\<rparr>))
      else Inl (Err (''unknown option '' @ backticked arg @ '' for ping. '' @ try_help)))"

definition parse_ping :: "string list \<Rightarrow> Failure + PingArgs" where
  "parse_ping args = parse_ping_loop args \<lparr>pi_url = None\<rparr>"

definition bench_parse_args :: "string list \<Rightarrow> Failure + Command" where
  "bench_parse_args args =
     (case args of
        [] \<Rightarrow> Inl (Err (''missing command. '' @ try_help))
      | first # rest \<Rightarrow>
          if is_help first then Inr HelpCmd
          else if first = ''engine'' then map_sum id EngineCmd (parse_engine rest)
          else if first = ''loopback'' then map_sum id LoopbackCmd (parse_loopback rest)
          else if first = ''owp'' then map_sum id OwpCmd (parse_owp rest)
          else if first = ''uci'' then map_sum id UciCmd (parse_uci rest)
          else if first = ''ping'' then map_sum id PingCmd (parse_ping rest)
          else if prefix ''-'' first then Inl (Err (''unknown option '' @ backticked first @ ''. '' @ try_help))
          else Inl (Err (''unknown command '' @ backticked first @ ''. '' @ try_help)))"

section \<open>The process\<close>

text \<open>What \<open>main\<close> prints on its two streams and the status it exits with; a panic is status 101. The
  scenarios are the argument \<open>run\<close>.\<close>

record BenchExit =
  to_stdout :: string
  to_stderr :: string
  status :: nat

definition bench_run :: "(Command \<Rightarrow> Failure + unit) \<Rightarrow> string list \<Rightarrow> (Failure + unit) \<times> string" where
  "bench_run run args =
     (case bench_parse_args args of
        Inl err \<Rightarrow> (Inl err, [])
      | Inr HelpCmd \<Rightarrow> (Inr (), USAGE)
      | Inr c \<Rightarrow> (run c, []))"

definition bench_main :: "(Command \<Rightarrow> Failure + unit) \<Rightarrow> string list \<Rightarrow> BenchExit" where
  "bench_main run args =
     (case bench_run run args of
        (Inr _, shown) \<Rightarrow> \<lparr>to_stdout = shown, to_stderr = [], status = 0\<rparr>
      | (Inl (Err err), shown) \<Rightarrow>
          if err = trim_end USAGE then \<lparr>to_stdout = shown @ USAGE, to_stderr = [], status = 0\<rparr>
          else \<lparr>to_stdout = shown, to_stderr = err @ [CHR 0x0A], status = 1\<rparr>
      | (Inl Panic, shown) \<Rightarrow> \<lparr>to_stdout = shown, to_stderr = [], status = 101\<rparr>)"

section \<open>Durations\<close>

lemma strip_suffix_append [simp]: "strip_suffix x (s @ x) = Some s"
  by (simp add: strip_suffix_def suffix_def)

lemma strip_suffix_other: "x \<noteq> [] \<Longrightarrow> last x \<noteq> c \<Longrightarrow> strip_suffix x (s @ [c]) = None"
  by (auto simp: strip_suffix_def suffix_def) (metis last_appendR last_snoc)

lemma parse_decimal_show_nat: "parse_decimal (show_nat n) = Some (of_nat n)"
proof -
  have tw: "takeWhile is_ascii_digit (show_nat n) = show_nat n" "dropWhile is_ascii_digit (show_nat n) = []"
    using show_nat_digits [of n] by (simp_all add: list_all_iff)
  show ?thesis by (simp add: parse_decimal_def parse_exponent_def tw)
qed

lemma digit_lower: "is_ascii_digit c \<Longrightarrow> to_ascii_lowercase c = c"
  by (auto simp: is_ascii_digit_def to_ascii_lowercase_def is_ascii_uppercase_def)

lemma show_nat_no_word:
  assumes "\<not> is_ascii_digit (to_ascii_lowercase w)"
  shows "\<not> eq_ignore_ascii_case (show_nat n) (w # ws)"
proof -
  obtain d ds where "show_nat n = d # ds" "is_ascii_digit d"
    using show_nat_digits [of n] by (cases "show_nat n") (auto simp: show_nat_nonempty)
  then show ?thesis using assms digit_lower by (auto simp: eq_ignore_ascii_case_def)
qed

lemma parse_f64_show_nat: "parse_f64 (show_nat n) = Some (f64_nat n)"
    "parse_f64 (CHR ''-'' # show_nat n) = Some (f64_of True (of_nat n))"
proof -
  have w: "\<not> is_ascii_digit (to_ascii_lowercase CHR ''i'')" "\<not> is_ascii_digit (to_ascii_lowercase CHR ''n'')"
    by code_simp+
  have "hd (show_nat n) \<noteq> CHR ''-''" "hd (show_nat n) \<noteq> CHR ''+''"
    using show_nat_Cons [of n] digit_not_sign by force+
  then show "parse_f64 (show_nat n) = Some (f64_nat n)"
      "parse_f64 (CHR ''-'' # show_nat n) = Some (f64_of True (of_nat n))"
    using show_nat_no_word [OF w(1), of n] show_nat_no_word [OF w(2), of n]
    by (simp_all add: parse_f64_def parse_decimal_show_nat f64_nat_def)
qed

lemma from_secs_nat: "n < 2 ^ 64 \<Longrightarrow> from_secs_f64 (Fin False (of_nat n)) = Some (n * 10 ^ 9)"
proof -
  assume n: "n < 2 ^ 64"
  have "(of_nat n :: rat) * 10 ^ 9 = of_int (int (n * 10 ^ 9))" by simp
  then have "nat (round_half_even (of_nat n * 10 ^ 9)) = n * 10 ^ 9"
    by (simp only: round_half_even_int nat_int)
  then show ?thesis using n by (simp add: from_secs_f64_def)
qed

lemma not_less_zero: "\<not> f64_lt (f64_nat n) (Fin False 0)"
  using f64_mag_nonneg [of "of_nat n"] by (simp add: f64_nat_def f64_of_mag f64_lt_def)

text \<open>A duration in whole units is read exactly: milliseconds over all of \<open>u64\<close>, seconds and minutes as
  far as \<open>f64\<close> is exact.\<close>

lemma parse_duration_exact:
  "n < 2 ^ 64 \<Longrightarrow> parse_duration (show_nat n @ ''ms'') = Inr (n * 10 ^ 6)"
  "n < 2 ^ 53 \<Longrightarrow> parse_duration (show_nat n @ ''s'') = Inr (n * 10 ^ 9)"
  "n < 2 ^ 53 \<Longrightarrow> parse_duration (show_nat n) = Inr (n * 10 ^ 9)"
  "60 * n < 2 ^ 53 \<Longrightarrow> parse_duration (show_nat n @ ''m'') = Inr (60 * n * 10 ^ 9)"
proof -
  obtain ds d where nd: "show_nat n = ds @ [d]" "is_ascii_digit d"
    using show_nat_digits [of n] by (cases "show_nat n" rule: rev_cases) auto
  have d: "d \<noteq> CHR ''m''" "d \<noteq> CHR ''s''" using nd(2) by (auto simp: is_ascii_digit_def byte_def)
  have ms: "strip_suffix ''ms'' (show_nat n @ ''s'') = None"
    using nd d by (auto simp: strip_suffix_def suffix_def append_eq_append_conv2 append_eq_Cons_conv)
  show "parse_duration (show_nat n @ ''ms'') = Inr (n * 10 ^ 6)" if "n < 2 ^ 64"
    using that by (simp add: parse_duration_def parse_unsigned_show_nat)
  have secs: "parse_secs (show_nat n) s = Inr (n * 10 ^ 9)" if "n < 2 ^ 53" for s
  proof -
    have "f64_nat n = Fin False (of_nat n)" and "n < 2 ^ 64" using that by (simp_all add: f64_nat_def f64_of_nat)
    then show ?thesis
      using not_less_zero [of n] by (simp add: parse_secs_def parse_f64_show_nat(1) from_secs_nat)
  qed
  show "parse_duration (show_nat n @ ''s'') = Inr (n * 10 ^ 9)" if "n < 2 ^ 53"
    using that ms secs by (simp add: parse_duration_def)
  show "parse_duration (show_nat n) = Inr (n * 10 ^ 9)" if "n < 2 ^ 53"
    using secs [OF that, of "show_nat n"] nd(1) d by (simp add: parse_duration_def strip_suffix_other)
  show "parse_duration (show_nat n @ ''m'') = Inr (60 * n * 10 ^ 9)" if "60 * n < 2 ^ 53"
  proof -
    have n: "f64_nat n = Fin False (of_nat n)" using that by (simp add: f64_nat_def f64_of_nat)
    have "f64_mul (f64_nat n) (Fin False 60) = Fin False (of_nat (60 * n))"
      using f64_of_nat [OF that, of False] by (simp add: n f64_mul_def mult.commute)
    then show ?thesis
      using that from_secs_nat [of "60 * n"]
      by (simp add: parse_duration_def strip_suffix_other parse_f64_show_nat(1))
  qed
qed

lemma f64_mag_pos: "0 < n \<Longrightarrow> 1 \<le> f64_mag (of_nat n)"
  using f64_mag_mono [of 1 "of_nat n"] f64_mag_nat [of 1] by simp

text \<open>The two ways a negative number reaches \<open>from_secs_f64\<close>, and what it makes of them.\<close>

lemma from_secs_negative:
  "0 < n \<Longrightarrow> from_secs_f64 (f64_mul (f64_of True (of_nat n)) (Fin False 60)) = None"
  "0 < n \<Longrightarrow> f64_lt (f64_of True (of_nat n)) (Fin False 0)"
proof -
  assume n: "0 < n"
  let ?m = "f64_mag (of_nat n)"
  have m: "1 \<le> ?m" using f64_mag_pos [OF n] .
  then have "1 \<le> f64_mag (?m * 60)" using f64_mag_mono [of 1 "?m * 60"] f64_mag_nat [of 1] by simp
  then show "from_secs_f64 (f64_mul (f64_of True (of_nat n)) (Fin False 60)) = None"
    using m n by (auto simp: f64_of_mag f64_mul_def from_secs_f64_def)
  show "f64_lt (f64_of True (of_nat n)) (Fin False 0)"
    using m n by (simp add: f64_of_mag f64_lt_def)
qed

section \<open>What is accepted\<close>

definition is_u64 :: "nat \<Rightarrow> bool" where
  "is_u64 n \<longleftrightarrow> n < 2 ^ 64"

definition is_count :: "nat \<Rightarrow> bool" where
  "is_count n \<longleftrightarrow> 0 < n \<and> is_u64 n"

definition is_duration :: "nat \<Rightarrow> bool" where
  "is_duration d \<longleftrightarrow> d < 2 ^ 64 * 10 ^ 9"

definition shared_ok :: "SharedArgs \<Rightarrow> bool" where
  "shared_ok sh \<longleftrightarrow>
     is_duration (sh_duration sh) \<and> is_duration (sh_warmup sh) \<and> is_u64 (sh_rate sh) \<and> is_count (sh_payload_bytes sh)"

definition command_ok :: "Command \<Rightarrow> bool" where
  "command_ok c \<longleftrightarrow>
     (case c of
        EngineCmd a \<Rightarrow> shared_ok (en_shared a) \<and> is_count (en_subscribers a) \<and> is_count (en_capacity a)
      | LoopbackCmd a \<Rightarrow> shared_ok (lp_shared a)
      | OwpCmd a \<Rightarrow> shared_ok (ob_shared a) \<and> is_count (ob_publishers a) \<and> is_count (ob_subscribers a)
      | UciCmd a \<Rightarrow> is_u64 (ub_iterations a)
      | _ \<Rightarrow> True)"

lemma parse_unsigned_bound: "parse_unsigned w s = Some n \<Longrightarrow> n < 2 ^ w"
  by (auto simp: parse_unsigned_def Let_def split: if_splits)

lemma parse_u64_Inr: "parse_u64 s = Inr n \<Longrightarrow> is_u64 n"
  using parse_unsigned_bound [of 64 s n] by (simp add: parse_u64_def ok_or_Inr is_u64_def)

lemma parse_nonzero_Inr: "parse_nonzero s = Inr n \<Longrightarrow> is_count n"
  using parse_unsigned_bound [of 64 s n]
  by (auto simp: parse_nonzero_def res_bind_Inr ok_or_Inr is_count_def is_u64_def split: if_splits)

lemma from_secs_bound: "from_secs_f64 a = Some d \<Longrightarrow> is_duration d"
  by (auto simp: from_secs_f64_def is_duration_def Let_def split: f64.splits if_splits)

lemma parse_duration_bound: "parse_duration s = Inr d \<Longrightarrow> is_duration d"
proof -
  have "is_duration (n * 10 ^ 6)" if "parse_unsigned 64 m = Some n" for m n
    using parse_unsigned_bound [OF that] by (simp add: is_duration_def)
  then show "parse_duration s = Inr d \<Longrightarrow> is_duration d"
    by (auto simp: parse_duration_def parse_secs_def res_bind_Inr ok_or_Inr split: option.splits if_splits dest: from_secs_bound)
qed

lemmas value_bounds = parse_u64_Inr parse_nonzero_Inr parse_duration_bound

lemma parse_shared_loop_ok: "parse_shared_loop args out = Inr sh \<Longrightarrow> shared_ok out \<Longrightarrow> shared_ok sh"
proof (induction args out rule: parse_shared_loop.induct)
  case (2 arg args out)
  obtain v rest where args: "args = v # rest" using 2(6) by (auto split: list.splits if_splits)
  show ?case
    using 2(6,7) 2(1-5) [of v rest] value_bounds
    by (auto simp: args res_bind_Inr shared_ok_def split: if_splits)
qed simp

lemma parse_shared_ok: "parse_shared args = Inr sh \<Longrightarrow> shared_ok sh"
  unfolding parse_shared_def
  by (erule parse_shared_loop_ok) (simp add: shared_ok_def default_shared_args_def is_duration_def is_u64_def is_count_def)

lemma parse_engine_loop_ok:
  "parse_engine_loop args out rest = Inr (out', rest') \<Longrightarrow> is_count (en_subscribers out) \<Longrightarrow> is_count (en_capacity out) \<Longrightarrow>
     is_count (en_subscribers out') \<and> is_count (en_capacity out')"
proof (induction args out rest rule: parse_engine_loop.induct)
  case (2 arg args out rest)
  show ?case
  proof (cases "arg \<in> {''--subscribers'', ''--capacity''} \<and> \<not> is_help arg")
    case True
    then obtain v args' n where args: "args = v # args'" "parse_nonzero v = Inr n"
        "parse_engine_loop args' (if arg = ''--subscribers'' then out\<lparr>en_subscribers := n\<rparr> else out\<lparr>en_capacity := n\<rparr>) rest
           = Inr (out', rest')"
      using 2(3) by (auto simp: res_bind_Inr split: list.splits)
    then show ?thesis using 2(1) [of v args' n] 2(4,5) True parse_nonzero_Inr [of v n] by auto
  next
    case False
    then show ?thesis using 2(2-5) by (auto split: if_splits)
  qed
qed simp

lemma parse_owp_loop_ok:
  "parse_owp_loop args out rest = Inr (out', rest') \<Longrightarrow> is_count (ob_publishers out) \<Longrightarrow> is_count (ob_subscribers out) \<Longrightarrow>
     is_count (ob_publishers out') \<and> is_count (ob_subscribers out')"
proof (induction args out rest rule: parse_owp_loop.induct)
  case (2 arg args out rest)
  show ?case
  proof (cases "arg \<in> {''--publishers'', ''--subscribers'', ''--url''} \<and> \<not> is_help arg")
    case True
    then obtain v args' where args: "args = v # args'" using 2(6) by (auto split: list.splits)
    show ?thesis
    proof (cases "arg = ''--url''")
      case url: True
      then show ?thesis using 2(1) [of v args'] 2(6-8) True args by auto
    next
      case False
      then obtain n where "parse_nonzero v = Inr n"
          "parse_owp_loop args' (if arg = ''--publishers'' then out\<lparr>ob_publishers := n\<rparr> else out\<lparr>ob_subscribers := n\<rparr>) rest
             = Inr (out', rest')"
        using 2(6) True args by (auto simp: res_bind_Inr)
      then show ?thesis using 2(2) [of v args' n] 2(7,8) True False args parse_nonzero_Inr [of v n] by auto
    qed
  next
    case False
    then show ?thesis using 2(3-8) by (auto split: if_splits)
  qed
qed simp

lemma parse_uci_loop_ok: "parse_uci_loop args out = Inr a \<Longrightarrow> is_u64 (ub_iterations out) \<Longrightarrow> is_u64 (ub_iterations a)"
proof (induction args out rule: parse_uci_loop.induct)
  case (2 arg args out)
  obtain v args' where args: "args = v # args'" using 2(4) by (auto split: list.splits if_splits)
  show ?case
    using 2(4,5) 2(1-3) [of v args'] parse_u64_Inr by (auto simp: args res_bind_Inr split: if_splits)
qed simp

lemma map_sum_Inr_iff: "map_sum id f r = Inr c \<longleftrightarrow> (\<exists>a. r = Inr a \<and> c = f a)"
  by (cases r) auto

text \<open>An accepted command has no count of zero and nothing outside the range of its Rust type: what a
  scenario would panic on, a channel of capacity 0, is refused at the command line.\<close>

lemma accepted_command_ok:
  assumes "bench_parse_args args = Inr c"
  shows "command_ok c"
proof -
  have defaults: "is_count 1" "is_count 4096" "is_u64 2000" by (simp_all add: is_count_def is_u64_def)
  have eng: "command_ok (EngineCmd a)" if "parse_engine r = Inr a" for r a
    using that parse_engine_loop_ok [of r default_engine_args "[]"] defaults
    by (auto simp: parse_engine_def res_bind_Inr default_engine_args_def command_ok_def dest: parse_shared_ok)
  have owp: "command_ok (OwpCmd a)" if "parse_owp r = Inr a" for r a
    using that parse_owp_loop_ok [of r default_owp_args "[]"] defaults
    by (auto simp: parse_owp_def res_bind_Inr default_owp_args_def command_ok_def dest: parse_shared_ok)
  have lp: "command_ok (LoopbackCmd a)" if "parse_loopback r = Inr a" for r a
    using that by (auto simp: parse_loopback_def res_bind_Inr command_ok_def split: if_splits dest: parse_shared_ok)
  have uci: "command_ok (UciCmd a)" if "parse_uci r = Inr a" for r a
    using that parse_uci_loop_ok [of r default_uci_args a] defaults
    by (simp add: parse_uci_def default_uci_args_def command_ok_def)
  have rest: "command_ok (PingCmd a)" "command_ok HelpCmd" for a by (simp_all add: command_ok_def)
  show ?thesis
    using assms eng owp lp uci rest
    by (auto simp: bench_parse_args_def map_sum_Inr_iff split: list.splits if_splits)
qed

lemma usage_head: "trim_end USAGE \<noteq> backticked s @ t"
proof -
  have "take 1 (trim_end USAGE) = ''O''" by code_simp
  then show ?thesis by (auto simp: backticked_def)
qed

lemma engine_duration_refused:
  assumes "parse_duration v = Inl f" "\<not> is_help v" "v \<noteq> ''--subscribers''" "v \<noteq> ''--capacity''"
  shows "bench_run run [''engine'', ''--duration'', v] = (Inl f, [])"
  using assms by (simp add: bench_run_def bench_parse_args_def parse_engine_def parse_shared_def is_help_def)

text \<open>A negative number of minutes, a NaN and an infinity are not refused with a message, as negative
  seconds are: they reach \<open>Duration::from_secs_f64\<close>, and the process panics.\<close>

lemma bench_duration_panics:
  assumes "0 < n"
  shows "status (bench_main run [''engine'', ''--duration'', CHR ''-'' # show_nat n @ ''s'']) = 1 \<and>
     to_stderr (bench_main run [''engine'', ''--duration'', CHR ''-'' # show_nat n @ ''s'']) =
       backticked (CHR ''-'' # show_nat n @ ''s'') @ '' is not a duration'' @ [CHR 0x0A] \<and>
     status (bench_main run [''engine'', ''--duration'', CHR ''-'' # show_nat n @ ''m'']) = 101 \<and>
     status (bench_main run [''engine'', ''--duration'', ''nan'']) = 101 \<and>
     status (bench_main run [''engine'', ''--duration'', ''inf'']) = 101"
proof -
  obtain ds d where nd: "show_nat n = ds @ [d]" "is_ascii_digit d"
    using show_nat_digits [of n] by (cases "show_nat n" rule: rev_cases) auto
  have d: "d \<noteq> CHR ''m''" using nd(2) by (auto simp: is_ascii_digit_def byte_def)
  have neg: "CHR ''-'' # show_nat n @ [c] = (CHR ''-'' # show_nat n) @ [c]" for c by simp
  have ms: "strip_suffix ''ms'' ((CHR ''-'' # show_nat n) @ ''s'') = None"
    using nd d by (auto simp: strip_suffix_def suffix_def append_eq_append_conv2 append_eq_Cons_conv)
  have plain: "\<not> is_help (CHR ''-'' # show_nat n @ [c])" "CHR ''-'' # show_nat n @ [c] \<noteq> ''--subscribers''"
      "CHR ''-'' # show_nat n @ [c] \<noteq> ''--capacity''" for c
    using show_nat_Cons [of n] by (auto simp: is_help_def is_ascii_digit_def byte_def)
  have "parse_duration (CHR ''-'' # show_nat n @ ''s'') = Inl (not_a_duration (CHR ''-'' # show_nat n @ ''s''))"
    unfolding neg using ms from_secs_negative(2) [OF assms]
    by (simp add: parse_duration_def parse_secs_def parse_f64_show_nat(2) del: append_Cons)
  note seconds = engine_duration_refused [OF this plain, of run]
  have "parse_duration (CHR ''-'' # show_nat n @ ''m'') = Inl Panic"
    unfolding neg using from_secs_negative(1) [OF assms]
    by (simp add: parse_duration_def strip_suffix_other parse_f64_show_nat(2) del: append_Cons)
  note minutes = engine_duration_refused [OF this plain, of run]
  have "parse_duration ''nan'' = Inl Panic" "parse_duration ''inf'' = Inl Panic" by code_simp+
  then have "bench_run run [''engine'', ''--duration'', ''nan''] = (Inl Panic, [])"
      "bench_run run [''engine'', ''--duration'', ''inf''] = (Inl Panic, [])"
    by (simp_all add: engine_duration_refused is_help_def)
  then show ?thesis
    using seconds minutes usage_head [symmetric] by (simp add: bench_main_def not_a_duration_def)
qed

end
