(* ===== verification/Bench_Report.thy ===== *)
theory Bench_Report
  imports Bench_Cli Core_Engine "HOL-Library.Multiset"
begin

text \<open>
  What the load generator sends and what it reports, \<open>oa-gateway-bench/src\<close>: the payloads of \<open>payload.rs\<close>,
  the send times of \<open>clock.rs\<close>, the percentiles and rates of \<open>report.rs\<close>, and the \<open>engine\<close> scenario of
  \<open>scenarios/engine.rs\<close>, which publishes to its own subscribers through a routing engine. How often its
  loop runs and what the subscriber tasks do to the channels meanwhile is the list of its turns; what the
  clock shows is an argument. The text summary and the JSON file are in
  \<open>Bench_Scenarios\<close>.
\<close>

section \<open>Payloads\<close>

datatype PayloadKind = PingKind | PositionReportKind

definition kind_topic :: "PayloadKind \<Rightarrow> string" where
  "kind_topic k = (case k of PingKind \<Rightarrow> ''demo'' | PositionReportKind \<Rightarrow> ''PositionReport'')"

definition kind_type_hint :: "PayloadKind \<Rightarrow> string" where
  "kind_type_hint k = (case k of PingKind \<Rightarrow> ''Ping'' | PositionReportKind \<Rightarrow> ''PositionReport'')"

definition dq :: char where "dq = CHR 0x22"

definition dquoted :: "string \<Rightarrow> string" where
  "dquoted s = dq # s @ [dq]"

definition ping_json :: "nat \<Rightarrow> string \<Rightarrow> string" where
  "ping_json seq from =
     (if from = [] then ''{'' @ dquoted ''Ping'' @ '':{'' @ dquoted ''n'' @ '':'' @ show_nat seq @ ''}}''
      else ''{'' @ dquoted ''Ping'' @ '':{'' @ dquoted ''n'' @ '':'' @ show_nat seq @ '','' @ dquoted ''from'' @ '':'' @
        dquoted from @ ''}}'')"

definition render_ping :: "nat \<Rightarrow> nat \<Rightarrow> string" where
  "render_ping seq min_bytes =
     (let t = ping_json seq []
      in if length t < min_bytes then ping_json seq (replicate (min_bytes - length t) CHR ''x'') else t)"

text \<open>\<open>value[k1][k2]... = x\<close>: a missing member and a null are filled in, anything else that is not an object
  panics.\<close>

fun json_assign :: "string list \<Rightarrow> Value \<Rightarrow> Value \<Rightarrow> Value option" where
  "json_assign [] x v = Some x"
| "json_assign (k # ks) x v =
     (case v of
        JNull \<Rightarrow> map_option (\<lambda>y. JObject [(k, y)]) (json_assign ks x JNull)
      | JObject m \<Rightarrow>
          map_option (\<lambda>y. JObject (bt_insert k y m)) (json_assign ks x (case bt_get m k of None \<Rightarrow> JNull | Some w \<Rightarrow> w))
      | _ \<Rightarrow> None)"

text \<open>The fixture is an argument, already parsed; a panic is \<open>None\<close>.\<close>

definition render :: "Value \<Rightarrow> (Value \<Rightarrow> string + string) \<Rightarrow> PayloadKind \<Rightarrow> nat \<Rightarrow> nat \<Rightarrow> string option" where
  "render fixture json_print k seq min_bytes =
     (case k of
        PingKind \<Rightarrow> Some (render_ping seq min_bytes)
      | PositionReportKind \<Rightarrow>
          Option.bind (json_assign [''PositionReport'', ''MessageData'', ''n''] (JNumber (PosInt seq)) fixture) (\<lambda>v.
          case json_print v of
            Inl _ \<Rightarrow> None
          | Inr t \<Rightarrow>
              if length t < min_bytes then
                Option.bind (json_assign [''PositionReport'', ''MessageData'', ''pad'']
                    (JString (replicate (min_bytes - length t) CHR ''x'')) v) (\<lambda>v'.
                case json_print v' of Inl _ \<Rightarrow> None | Inr t' \<Rightarrow> Some t')
              else Some t))"

definition as_u64 :: "Value \<Rightarrow> nat option" where
  "as_u64 v = (case v of JNumber (PosInt n) \<Rightarrow> Some n | _ \<Rightarrow> None)"

definition parse_seq :: "(string \<Rightarrow> string + Value) \<Rightarrow> string \<Rightarrow> nat option" where
  "parse_seq json_parse p =
     (case json_parse p of
        Inl _ \<Rightarrow> None
      | Inr v \<Rightarrow>
          Option.bind
            (case json_pointer2 v ''Ping'' ''n'' of
               Some n \<Rightarrow> Some n
             | None \<Rightarrow> Option.bind (json_pointer2 v ''PositionReport'' ''MessageData'') (\<lambda>d. json_get d ''n''))
            as_u64)"

section \<open>Send times\<close>

text \<open>A clock is the offset each sequence number was stamped with; \<open>elapsed\<close> is the time since its origin,
  in nanoseconds, cut to 64 bits.\<close>

type_synonym SeqClock = "nat \<rightharpoonup> 64 word"

definition clock_stamp :: "nat \<Rightarrow> nat \<Rightarrow> SeqClock \<Rightarrow> SeqClock" where
  "clock_stamp elapsed seq c = c(seq \<mapsto> of_nat elapsed)"

definition clock_latency_ns :: "nat \<Rightarrow> nat \<Rightarrow> SeqClock \<Rightarrow> 64 word option" where
  "clock_latency_ns elapsed seq c = map_option (\<lambda>sent. of_nat elapsed - sent) (c seq)"

section \<open>Reports\<close>

record Latency =
  p50 :: "64 word"
  p90 :: "64 word"
  p99 :: "64 word"
  lat_max :: "64 word"
  lat_mean :: "64 word"
  lat_count :: "64 word"

definition percentile_index :: "nat \<Rightarrow> f64 \<Rightarrow> nat" where
  "percentile_index len p =
     f64_as_usize (f64_round (f64_mul (f64_div p (Fin False 100)) (f64_sub (f64_nat len) (Fin False 1))))"

definition percentile :: "64 word list \<Rightarrow> f64 \<Rightarrow> 64 word" where
  "percentile ordered p = ordered ! min (percentile_index (length ordered) p) (length ordered - 1)"

definition mean_of :: "64 word list \<Rightarrow> 64 word" where
  "mean_of xs =
     (let total = sum_list (map ucast xs) :: 128 word;
          q = total div ucast (of_nat (length xs) :: 64 word)
      in if unat q < 2 ^ 64 then ucast q else -1)"

definition summarize_samples :: "64 word list \<Rightarrow> Latency option" where
  "summarize_samples samples =
     (if samples = [] then None
      else let xs = sort samples
        in Some \<lparr>p50 = percentile xs (Fin False 50), p90 = percentile xs (Fin False 90),
             p99 = percentile xs (Fin False 99), lat_max = last xs, lat_mean = mean_of xs,
             lat_count = of_nat (length xs)\<rparr>)"

record EngineSnapshot =
  snap_published :: "64 word"
  snap_delivered :: "64 word"
  snap_dropped :: "64 word"

definition engine_snapshot :: "Engine \<Rightarrow> EngineSnapshot" where
  "engine_snapshot eng =
     \<lparr>snap_published = stat_published (stats eng), snap_delivered = stat_delivered (stats eng),
      snap_dropped = stat_dropped (stats eng)\<rparr>"

text \<open>A report. The fields that only describe the build, the start time and the flags are a record of their
  own in \<open>Bench_Scenarios\<close>.\<close>

record BenchReport =
  rp_scenario :: string
  rp_sent :: "64 word"
  rp_received :: "64 word"
  rp_dropped :: "64 word"
  rp_errors :: "64 word"
  rp_unmatched :: "64 word"
  rp_duration_secs :: f64
  rp_sent_per_sec :: f64
  rp_received_per_sec :: f64
  rp_bytes_per_sec :: f64
  rp_latency_ns :: "Latency option"
  rp_ack_latency_ns :: "Latency option"
  rp_engine :: "EngineSnapshot option"

definition f64_word :: "64 word \<Rightarrow> f64" where
  "f64_word w = f64_nat (unat w)"

definition finish_report :: "64 word list \<Rightarrow> 64 word list option \<Rightarrow> 64 word \<Rightarrow> BenchReport \<Rightarrow> BenchReport" where
  "finish_report samples acks payload_bytes r =
     (let wall = f64_max (rp_duration_secs r) (Fin False (1 / 2 ^ 52))
      in r\<lparr>rp_sent_per_sec := f64_div (f64_word (rp_sent r)) wall,
           rp_received_per_sec := f64_div (f64_word (rp_received r)) wall,
           rp_bytes_per_sec := f64_div (f64_mul (f64_word (rp_received r)) (f64_word payload_bytes)) wall,
           rp_latency_ns := summarize_samples samples,
           rp_ack_latency_ns := Option.bind acks summarize_samples\<rparr>)"

section \<open>Percentiles\<close>

definition share_of :: "nat \<Rightarrow> rat" where
  "share_of k = f64_mag (of_nat k / 100)"

lemma share_of_bounds:
  assumes "0 < k" "k \<le> 100"
  shows "0 < share_of k" "share_of k \<le> 1" "f64_div (Fin False (of_nat k)) (Fin False 100) = Fin False (share_of k)"
proof -
  have "1 / 2 ^ 7 \<le> share_of k"
    using f64_mag_mono [of "1 / 2 ^ 7" "of_nat k / 100"] f64_mag_dyadic [of 1 7] assms by (simp add: share_of_def)
  then show "0 < share_of k" by simp
  show le: "share_of k \<le> 1"
    using f64_mag_mono [of "of_nat k / 100" 1] f64_mag_nat [of 1] assms by (simp add: share_of_def)
  have "share_of k < 2 powi 1024" using le by (rule order_le_less_trans) simp
  then show "f64_div (Fin False (of_nat k)) (Fin False 100) = Fin False (share_of k)"
    using assms by (simp add: f64_div_def f64_of_mag share_of_def)
qed

lemma share_of_mono: "0 < j \<Longrightarrow> j \<le> k \<Longrightarrow> share_of j \<le> share_of k"
  unfolding share_of_def by (rule f64_mag_mono) (simp_all add: divide_right_mono)

text \<open>The rounded product of a share and the last position.\<close>

definition rank :: "nat \<Rightarrow> nat \<Rightarrow> rat" where
  "rank n k = (if n = 1 then 0 else f64_mag (share_of k * of_nat (n - 1)))"

lemma rank_bounds:
  assumes "0 < n" "n < 2 ^ 53" "0 < k" "k \<le> 100"
  shows "0 \<le> rank n k" "rank n k \<le> of_nat (n - 1)"
  using f64_mag_mono [of "share_of k * of_nat (n - 1)" "of_nat (n - 1)"] f64_mag_nat [of "n - 1"]
    share_of_bounds [OF assms(3,4)] assms(1,2)
  by (auto simp: rank_def mult_left_le_one_le intro!: f64_mag_nonneg)

lemma percentile_index_rank:
  assumes "0 < n" "n < 2 ^ 53" "0 < k" "k \<le> 100"
  shows "percentile_index n (Fin False (of_nat k)) = nat \<lfloor>rank n k + 1 / 2\<rfloor>"
proof -
  let ?y = "of_nat (n - 1) :: rat"
  note c = share_of_bounds [OF assms(3,4)] and r = rank_bounds [OF assms]
  have "f64_nat n = Fin False (of_nat n)" using assms(2) by (simp add: f64_nat_def f64_of_nat)
  moreover have "(of_nat n :: rat) - 1 = ?y" using assms(1) by (simp add: of_nat_diff)
  ultimately have "f64_sub (f64_nat n) (Fin False 1) = (if n = 1 then Fin False 0 else f64_of False ?y)"
    using assms(1) by (auto simp: f64_sub_def Let_def)
  also have "\<dots> = Fin False ?y" using f64_of_nat [of "n - 1" False] assms by auto
  finally have sub: "f64_sub (f64_nat n) (Fin False 1) = Fin False ?y" .
  have y: "?y < 2 ^ 53" using assms(2) of_nat_less_iff [of "n - 1" "2 ^ 53", where 'a = rat] by simp
  then have "rank n k < 2 powi 1024" using r(2) by (intro order_le_less_trans [of "rank n k" ?y] order_less_trans [OF y]) simp_all
  then have "f64_mul (Fin False (share_of k)) (Fin False ?y) = Fin False (rank n k)"
    using c assms(1) by (cases n) (simp_all add: f64_mul_def f64_of_mag rank_def split: if_splits)
  moreover have "\<lfloor>rank n k + 1 / 2\<rfloor> \<le> 2 ^ 64 - 1"
    using r(2) y by (simp add: floor_le_iff)
  ultimately show ?thesis
    using r(1) by (simp add: percentile_index_def c(3) sub f64_round_def f64_as_usize_def nat_le_iff min_absorb1)
qed

text \<open>The positions grow with the share and stay inside the samples; the median is the upper one.\<close>

lemma percentile_index_mono:
  assumes "0 < n" "n < 2 ^ 53" "0 < j" "j \<le> k" "k \<le> 100"
  shows "percentile_index n (Fin False (of_nat j)) \<le> percentile_index n (Fin False (of_nat k))"
proof -
  have "rank n j \<le> rank n k"
    using assms share_of_bounds [of j] share_of_mono [of j k]
    by (auto simp: rank_def intro!: f64_mag_mono mult_right_mono)
  then show ?thesis using assms by (simp add: percentile_index_rank nat_mono floor_mono)
qed

lemma percentile_index_median:
  assumes "0 < n" "n < 2 ^ 53"
  shows "percentile_index n (Fin False 50) = n div 2"
proof -
  have half: "share_of 50 = 1 / 2" using f64_mag_dyadic [of 1 1] by (simp add: share_of_def)
  have "rank n 50 = of_nat (n - 1) / 2"
    using f64_mag_dyadic [of "n - 1" 1] assms by (cases n) (auto simp: rank_def half)
  then have "rank n 50 + 1 / 2 = of_nat n / of_nat 2" using assms(1) by (simp add: of_nat_diff field_simps)
  then have "\<lfloor>rank n 50 + 1 / 2\<rfloor> = int (n div 2)" by (simp only: floor_divide_of_nat_eq)
  then show ?thesis using percentile_index_rank [of n 50] assms by simp
qed

section \<open>Summaries\<close>

lemma percentile_le:
  assumes "sorted xs" "xs \<noteq> []" "length xs < 2 ^ 53" "0 < j" "j \<le> k" "k \<le> 100"
  shows "percentile xs (Fin False (of_nat j)) \<le> percentile xs (Fin False (of_nat k))"
  unfolding percentile_def
  using percentile_index_mono [of "length xs" j k] assms by (cases xs) (auto intro!: sorted_nth_mono)

lemma sorted_ends:
  fixes xs :: "64 word list"
  assumes "sorted xs" "xs \<noteq> []"
  shows "xs ! 0 = Min (set xs)" "last xs = Max (set xs)" "i < length xs \<Longrightarrow> xs ! 0 \<le> xs ! i" "i < length xs \<Longrightarrow> xs ! i \<le> last xs"
proof -
  have lo: "xs ! 0 \<le> xs ! i" and hi: "xs ! i \<le> last xs" if "i < length xs" for i
    using sorted_nth_mono [OF assms(1), of 0 i] sorted_nth_mono [OF assms(1), of i "length xs - 1"] that assms(2)
    by (simp_all add: last_conv_nth)
  then show "xs ! 0 \<le> xs ! i" "xs ! i \<le> last xs" if "i < length xs" using that by blast+
  show "xs ! 0 = Min (set xs)" "last xs = Max (set xs)"
    using lo hi assms(2) nth_mem [of 0 xs]
    by (auto simp: set_conv_nth intro!: Min_eqI [symmetric] Max_eqI [symmetric]) (metis last_conv_nth diff_less length_greater_0_conv zero_less_one)
qed

lemma unat_widen: "unat (ucast (w :: 64 word) :: 128 word) = unat w"
  using unsigned_less [of w, where 'a = nat] by (simp add: unsigned_ucast_eq take_bit_nat_eq_self)

lemma unat_narrow: "unat (w :: 128 word) < 2 ^ 64 \<Longrightarrow> unat (ucast w :: 64 word) = unat w"
  by (simp add: unsigned_ucast_eq take_bit_nat_eq_self)

lemma sum_list_unat:
  assumes "length xs < 2 ^ 64"
  shows "unat (sum_list (map ucast xs) :: 128 word) = sum_list (map unat (xs :: 64 word list))"
    and "sum_list (map unat xs) \<le> length xs * (2 ^ 64 - 1)"
proof -
  show le: "sum_list (map unat ys) \<le> length ys * (2 ^ 64 - 1)" for ys :: "64 word list"
  proof (induction ys)
    case (Cons y ys)
    have "unat y \<le> 2 ^ 64 - 1" using unsigned_less [of y, where 'a = nat] by simp
    then show ?case using Cons by simp
  qed simp
  show "unat (sum_list (map ucast xs) :: 128 word) = sum_list (map unat xs)"
    using assms
  proof (induction xs)
    case (Cons y ys)
    have "length (y # ys) * (2 ^ 64 - 1) \<le> 2 ^ 64 * (2 ^ 64 - 1 :: nat)"
      using Cons.prems by (intro mult_le_mono) simp_all
    then have "sum_list (map unat (y # ys)) < 2 ^ 128" using le [of "y # ys"] by simp
    then show ?case
      using Cons by (simp add: unat_add_lem [THEN iffD1] unat_widen)
  qed simp
qed

lemma mean_of_exact:
  assumes "xs \<noteq> []" "length xs < 2 ^ 64"
  shows "unat (mean_of xs) = sum_list (map unat xs) div length xs"
proof -
  have len: "unat (ucast (of_nat (length xs) :: 64 word) :: 128 word) = length xs"
    using assms(2) by (simp add: unat_widen unat_of_nat)
  have "sum_list (map unat xs) div length xs \<le> 2 ^ 64 - 1"
    using sum_list_unat(2) [OF assms(2)] assms(1) div_le_mono [of _ "length xs * (2 ^ 64 - 1)" "length xs"] by simp
  then have "sum_list (map unat xs) div length xs < 2 ^ 64" by simp
  then show ?thesis
    using sum_list_unat(1) [OF assms(2)] len by (simp add: mean_of_def Let_def unat_div unat_narrow)
qed

text \<open>A latency summary is what its names say, for any number of samples below \<open>2 ^ 53\<close>: the percentiles
  are samples, in order and between the least and the greatest; the median is the sample with half of the
  others below it; the mean is the average, rounded down, with no overflow on the way; and the order in
  which the samples were taken does not matter.\<close>

theorem summarize_exact:
  assumes "samples \<noteq> []" "length samples < 2 ^ 53"
  shows "\<exists>l. summarize_samples samples = Some l \<and>
    {p50 l, p90 l, p99 l, lat_max l} \<subseteq> set samples \<and>
    Min (set samples) \<le> p50 l \<and> p50 l \<le> p90 l \<and> p90 l \<le> p99 l \<and> p99 l \<le> lat_max l \<and>
    lat_max l = Max (set samples) \<and>
    p50 l = sort samples ! (length samples div 2) \<and>
    unat (lat_mean l) = sum_list (map unat samples) div length samples \<and>
    unat (lat_count l) = length samples \<and>
    (\<forall>other. mset other = mset samples \<longrightarrow> summarize_samples other = Some l)"
proof -
  let ?xs = "sort samples" and ?at = "\<lambda>k. percentile (sort samples) (Fin False (of_nat k))"
  have xs: "sorted ?xs" "?xs \<noteq> []" "length ?xs < 2 ^ 53" "set ?xs = set samples" "0 < length samples"
    using assms by (simp_all, metis length_0_conv length_sort)
  have at: "?at k \<in> set samples" "?xs ! 0 \<le> ?at k" "?at k \<le> last ?xs" for k
  proof -
    let ?i = "min (percentile_index (length ?xs) (Fin False (of_nat k))) (length ?xs - 1)"
    have i: "?i < length ?xs" using xs(5) by (simp add: min_less_iff_disj)
    show "?at k \<in> set samples" using nth_mem [OF i] xs(4) by (simp add: percentile_def)
    show "?xs ! 0 \<le> ?at k" "?at k \<le> last ?xs"
      using sorted_ends(3,4) [OF xs(1,2) i] by (simp_all add: percentile_def)
  qed
  have order: "?at 50 \<le> ?at 90" "?at 90 \<le> ?at 99" by (rule percentile_le [OF xs(1-3)]; simp)+
  have median: "?at 50 = ?xs ! (length samples div 2)"
    using percentile_index_median [of "length samples"] xs(3,5) by (simp add: percentile_def min_def)
  have mean: "unat (mean_of ?xs) = sum_list (map unat samples) div length samples"
  proof -
    have "sum_list (map unat ?xs) = sum_list (map unat samples)"
      by (metis mset_map mset_sort sum_mset_sum_list)
    then show ?thesis using mean_of_exact [of ?xs] xs(2,3) by simp
  qed
  have perm: "summarize_samples other = summarize_samples samples" if "mset other = mset samples" for other
    using that properties_for_sort [of ?xs other] assms(1) by (auto simp: summarize_samples_def)
  have last: "last ?xs \<in> set samples" using xs(2,4) last_in_set by metis
  let ?l = "\<lparr>p50 = ?at 50, p90 = ?at 90, p99 = ?at 99, lat_max = last ?xs, lat_mean = mean_of ?xs,
      lat_count = of_nat (length ?xs)\<rparr>"
  have l: "summarize_samples samples = Some ?l" using assms(1) by (simp add: summarize_samples_def Let_def)
  have every: "\<forall>other. mset other = mset samples \<longrightarrow> summarize_samples other = Some ?l" using perm l by metis
  show ?thesis
    using at [of 50] at [of 90] at [of 99] order median mean last sorted_ends(1,2) [OF xs(1,2)] xs(3,4) l every
    by (intro exI [of _ ?l]) (simp add: unat_of_nat)
qed

theorem summarize_exact_witness:
  "\<exists>l. summarize_samples [5, 1, 4, 2, 3] = Some l \<and> p50 l = 3 \<and> unat (lat_mean l) = 3 \<and> unat (lat_count l) = 5"
proof -
  let ?s = "[5, 1, 4, 2, 3] :: 64 word list"
  have "?s \<noteq> []" "length ?s < 2 ^ 53" by simp_all
  from summarize_exact [OF this] obtain l where "summarize_samples ?s = Some l" "p50 l = sort ?s ! (length ?s div 2)"
      "unat (lat_mean l) = sum_list (map unat ?s) div length ?s" "unat (lat_count l) = length ?s"
    by blast
  moreover have "sort ?s ! (length ?s div 2) = 3" by code_simp
  ultimately show ?thesis by simp
qed

section \<open>Sequence numbers\<close>

text \<open>A rendered ping is at least as long as asked for.\<close>

lemma render_ping_length: "\<exists>t. render fixture pr PingKind seq m = Some t \<and> m \<le> length t"
  by (auto simp: render_def render_ping_def Let_def ping_json_def dquoted_def)

lemma json_get_assign:
  assumes "json_assign (k # ks) x v = Some w"
  shows "\<exists>y. json_get w k = Some y \<and> json_assign ks x (case json_get v k of None \<Rightarrow> JNull | Some u \<Rightarrow> u) = Some y"
  using assms by (auto simp: json_get_def as_object_def split: Value.splits)

lemma json_assign_keeps:
  assumes "json_assign (k # ks) x v = Some w" "j \<noteq> k"
  shows "json_get w j = json_get v j"
  using assms by (auto simp: json_get_def as_object_def bt.get_insert split: Value.splits)

lemma json_assign_object: "json_assign (k # ks) x v = Some w \<Longrightarrow> is_object w"
  by (auto simp: is_object_def as_object_def split: Value.splits)

lemma json_assign_exact:
  "json_assign ks x v = Some w \<Longrightarrow> json_exact k v \<Longrightarrow> json_exact (k - length ks) x \<Longrightarrow> length ks \<le> k \<Longrightarrow> json_exact k w"
proof (induction ks x v arbitrary: w k rule: json_assign.induct)
  case (2 key ks x v)
  show ?case
  proof (cases v)
    case (JObject m)
    have "json_exact (k - 1) (case bt_get m key of None \<Rightarrow> JNull | Some u \<Rightarrow> u)"
      using 2(4) JObject by (fastforce simp: list_all_iff bt_get_def dest: map_of_SomeD split: option.splits)
    then show ?thesis
      using 2(2) [OF JObject, of _ "k - 1"] 2(3-6) JObject by (auto simp: list_all_iff dest!: set_bt_insert)
  qed (use 2(1) [of _ "k - 1"] 2(3-6) in auto)
qed simp

declare json_assign.simps(2) [simp del]

lemma result_ok: "(case r of Inl _ \<Rightarrow> None | Inr x \<Rightarrow> Some x) = Some t \<longleftrightarrow> r = Inr t"
  by (cases r) simp_all

text \<open>The number of a position report is read back from what was written, padded or not.\<close>

lemma position_report_seq:
  assumes "render fixture pr PositionReportKind seq m = Some t" "\<And>v. serde_reproduces ps pr v"
    and "json_get fixture ''Ping'' = None" "json_exact SERDE_DEPTH fixture" "seq < 2 ^ 64"
  shows "parse_seq ps t = Some seq"
proof -
  let ?n = "[''PositionReport'', ''MessageData'', ''n'']" and ?pad = "[''PositionReport'', ''MessageData'', ''pad'']"
  obtain v where v: "json_assign ?n (JNumber (PosInt seq)) fixture = Some v"
      "(case pr v of Inl _ \<Rightarrow> None
        | Inr s \<Rightarrow> if length s < m then Option.bind (json_assign ?pad (JString (replicate (m - length s) CHR ''x'')) v)
                (\<lambda>v'. case pr v' of Inl _ \<Rightarrow> None | Inr t' \<Rightarrow> Some t')
              else Some s) = Some t"
    using assms(1) unfolding render_def PayloadKind.case bind_eq_Some_conv by blast
  have ex: "json_exact SERDE_DEPTH v"
    using json_assign_exact [OF v(1) assms(4)] assms(5) by (simp add: SERDE_DEPTH_def number_exact_def)
  have or: "pr v = Inr t \<or> (\<exists>x v'. json_assign ?pad (JString x) v = Some v' \<and> pr v' = Inr t)"
    using v(2) by (cases "pr v") (auto simp: bind_eq_Some_conv result_ok split: if_splits)
  obtain a where a: "json_get v ''PositionReport'' = Some a"
      "\<exists>u. json_assign [''MessageData'', ''n''] (JNumber (PosInt seq)) u = Some a"
    using json_get_assign [OF v(1)] by blast
  obtain d where d: "json_get a ''MessageData'' = Some d" "\<exists>u. json_assign [''n''] (JNumber (PosInt seq)) u = Some d"
    using a(2) json_get_assign by blast
  have n: "json_get d ''n'' = Some (JNumber (PosInt seq))" using d(2) json_get_assign by fastforce
  have read: "parse_seq ps u = Some seq"
    if "pr w = Inr u" "is_object w" "json_exact SERDE_DEPTH w" "json_get w ''Ping'' = None"
      "json_get w ''PositionReport'' = Some y" "json_get y ''MessageData'' = Some z" "json_get z ''n'' = Some (JNumber (PosInt seq))"
    for w u y z
    using that assms(2) [of w] by (auto simp: serde_reproduces_def json_faithful_def parse_seq_def json_pointer2_def as_u64_def)
  have ping: "json_get v ''Ping'' = None" using json_assign_keeps [OF v(1), of "''Ping''"] assms(3) by simp
  from or show ?thesis
  proof
    assume "pr v = Inr t"
    then show ?thesis using read [OF _ json_assign_object [OF v(1)] ex ping a(1) d(1) n] by blast
  next
    assume "\<exists>x v'. json_assign ?pad (JString x) v = Some v' \<and> pr v' = Inr t"
    then obtain x v' where p: "json_assign ?pad x v = Some v'" "pr v' = Inr t" "json_exact SERDE_DEPTH v'"
      using json_assign_exact [OF _ ex] by (fastforce simp: SERDE_DEPTH_def)
    obtain a' where a': "json_get v' ''PositionReport'' = Some a'" "json_assign [''MessageData'', ''pad''] x a = Some a'"
      using json_get_assign [OF p(1)] a(1) by auto
    obtain d' where d': "json_get a' ''MessageData'' = Some d'" "json_assign [''pad''] x d = Some d'"
      using json_get_assign [OF a'(2)] d(1) by auto
    have "json_get d' ''n'' = Some (JNumber (PosInt seq))" using json_assign_keeps [OF d'(2), of "''n''"] n by simp
    moreover have "json_get v' ''Ping'' = None" using json_assign_keeps [OF p(1), of "''Ping''"] ping by simp
    ultimately show ?thesis using read [OF p(2) json_assign_object [OF p(1)] p(3) _ a'(1) d'(1)] by blast
  qed
qed

section \<open>The engine scenario\<close>

fun engine_subscribe :: "(nat \<Rightarrow> chan) \<Rightarrow> nat list \<Rightarrow> Engine \<Rightarrow> string + Engine" where
  "engine_subscribe ch [] eng = Inr eng"
| "engine_subscribe ch (i # is) eng =
     res_bind (map_err show_engine_error
         (subscribe eng (AdapterId ''bench'') (SubId (''s'' @ show_nat i))
           (route_typed (kind_topic PingKind) (kind_type_hint PingKind)) (ch i)))
       (\<lambda>(eng', _). engine_subscribe ch is eng')"

text \<open>The counters of a subscriber's task, and what one delivery does to them.\<close>

record Tally =
  ty_received :: "64 word"
  ty_unmatched :: "64 word"
  ty_samples :: "64 word list"

definition take_delivery ::
  "(string \<Rightarrow> string + Value) \<Rightarrow> 64 word \<Rightarrow> SeqClock \<Rightarrow> nat \<Rightarrow> Delivery \<Rightarrow> Tally \<Rightarrow> Tally" where
  "take_delivery json_parse warmup_ns c elapsed d t =
     (let t' = t\<lparr>ty_received := ty_received t + 1\<rparr>;
          lost = t'\<lparr>ty_unmatched := ty_unmatched t' + 1\<rparr>
      in case parse_seq json_parse (payload (del_envelope d)) of
           None \<Rightarrow> lost
         | Some seq \<Rightarrow>
             (case c seq of
                None \<Rightarrow> lost
              | Some sent_ns \<Rightarrow>
                  if sent_ns < warmup_ns then t'
                  else case clock_latency_ns elapsed seq c of
                    None \<Rightarrow> t'
                  | Some ns \<Rightarrow> t'\<lparr>ty_samples := ty_samples t' @ [ns]\<rparr>))"

text \<open>One pass of the publishing loop: the tasks that ran before it have left the channels as \<open>others\<close>
  says.\<close>

record 'w EngineRun =
  er_engine :: Engine
  er_chans :: 'w
  er_clock :: SeqClock
  er_sent :: "64 word"
  er_dropped :: "64 word"
  er_seq :: "64 word"

type_synonym 'w turn = "nat \<times> ('w \<Rightarrow> 'w)"

definition engine_turn ::
  "('w \<Rightarrow> chan \<Rightarrow> Delivery \<Rightarrow> try_send_result \<times> 'w) \<Rightarrow> (SubscriberKey fset \<Rightarrow> SubscriberKey list) \<Rightarrow>
     (nat \<Rightarrow> MessageId) \<Rightarrow> nat \<Rightarrow> 'w turn \<Rightarrow> 'w EngineRun \<Rightarrow> 'w EngineRun" where
  "engine_turn try_send order fresh payload_bytes turn S =
     (case turn of (elapsed, others) \<Rightarrow>
       let seq = unat (er_seq S);
           env = with_content_type ct_json
             (new_envelope (fresh seq) (route_typed (kind_topic PingKind) (kind_type_hint PingKind)) (render_ping seq payload_bytes))
       in case publish try_send order (er_engine S) (others (er_chans S)) env of
            (eng, w, outcome) \<Rightarrow>
              \<lparr>er_engine = eng, er_chans = w, er_clock = clock_stamp elapsed seq (er_clock S),
               er_sent = er_sent S + 1, er_dropped = er_dropped S + of_nat (dropped outcome), er_seq = er_seq S + 1\<rparr>)"

definition engine_loop ::
  "('w \<Rightarrow> chan \<Rightarrow> Delivery \<Rightarrow> try_send_result \<times> 'w) \<Rightarrow> (SubscriberKey fset \<Rightarrow> SubscriberKey list) \<Rightarrow>
     (nat \<Rightarrow> MessageId) \<Rightarrow> nat \<Rightarrow> 'w turn list \<Rightarrow> 'w EngineRun \<Rightarrow> 'w EngineRun" where
  "engine_loop try_send order fresh payload_bytes turns S = fold (engine_turn try_send order fresh payload_bytes) turns S"

text \<open>The whole scenario: \<open>ch i\<close> is the channel of subscriber \<open>i\<close>, \<open>tally\<close> what the subscriber tasks have
  counted when the channels are quiet, and \<open>secs\<close> the time the run took.\<close>

definition engine_scenario ::
  "('w \<Rightarrow> chan \<Rightarrow> Delivery \<Rightarrow> try_send_result \<times> 'w) \<Rightarrow> (SubscriberKey fset \<Rightarrow> SubscriberKey list) \<Rightarrow>
     (nat \<Rightarrow> MessageId) \<Rightarrow> (nat \<Rightarrow> chan) \<Rightarrow> EngineArgs \<Rightarrow> 'w turn list \<Rightarrow> 'w \<Rightarrow> Tally \<Rightarrow> f64 \<Rightarrow> string + BenchReport" where
  "engine_scenario try_send order fresh ch args turns w tally secs =
     res_bind (engine_subscribe ch [0 ..< en_subscribers args] new_engine) (\<lambda>eng.
     let S = engine_loop try_send order fresh (sh_payload_bytes (en_shared args)) turns
               \<lparr>er_engine = eng, er_chans = w, er_clock = Map.empty, er_sent = 0, er_dropped = 0, er_seq = 0\<rparr>
     in if ty_received tally = 0 then Inl ''engine received 0 deliveries''
        else Inr (finish_report (ty_samples tally) None (of_nat (sh_payload_bytes (en_shared args)))
          \<lparr>rp_scenario = ''engine'', rp_sent = er_sent S, rp_received = ty_received tally, rp_dropped = er_dropped S, rp_errors = 0,
           rp_unmatched = ty_unmatched tally, rp_duration_secs = secs, rp_sent_per_sec = Fin False 0,
           rp_received_per_sec = Fin False 0, rp_bytes_per_sec = Fin False 0, rp_latency_ns = None,
           rp_ack_latency_ns = None, rp_engine = Some (engine_snapshot (er_engine S))\<rparr>))"

section \<open>What the scenario counts\<close>

lemma fan_out_total: "fst (snd (fan_out try_send e ts w)) + snd (snd (fan_out try_send e ts w)) = length ts"
  by (induction try_send e ts w rule: fan_out.induct) (auto simp: Let_def split: prod.splits try_send_result.splits)

definition bench_key :: "nat \<Rightarrow> SubscriberKey" where
  "bench_key i = SubscriberKey (AdapterId ''bench'') (SubId (''s'' @ show_nat i))"

text \<open>Every subscriber is accepted, and every publish of the scenario matches all of them.\<close>

lemma engine_subscribe_all:
  assumes "distinct is" "\<forall>i \<in> set is. bench_key i |\<notin>| fmdom (by_key (engine_state eng))" "engine_inv (engine_state eng)"
    and "\<And>k s. fmlookup (by_key (engine_state eng)) k = Some s \<Longrightarrow> sub_route s = route_typed ''demo'' ''Ping''"
  shows "\<exists>eng'. engine_subscribe ch is eng = Inr eng' \<and> engine_inv (engine_state eng') \<and> stats eng' = stats eng \<and>
    fset (fmdom (by_key (engine_state eng'))) = fset (fmdom (by_key (engine_state eng))) \<union> bench_key ` set is \<and>
    (\<forall>k s. fmlookup (by_key (engine_state eng')) k = Some s \<longrightarrow> sub_route s = route_typed ''demo'' ''Ping'')"
  using assms
proof (induction "is" arbitrary: eng)
  case (Cons i "is")
  let ?r = "route_typed ''demo'' ''Ping''"
  have free: "SubscriberKey (AdapterId ''bench'') (SubId (''s'' @ show_nat i)) |\<notin>| fmdom (by_key (engine_state eng))"
    using Cons.prems(2) by (simp add: bench_key_def)
  obtain e k where sub: "subscribe eng (AdapterId ''bench'') (SubId (''s'' @ show_nat i)) ?r (ch i) = Inr (e, k)"
    using eng.sub_succeeds [OF free] by blast
  have tbl: "by_key (engine_state e) = fmupd (bench_key i) \<lparr>sub_route = ?r, tx = ch i\<rparr> (by_key (engine_state eng))"
    using eng.sub_Inr [OF sub] by (simp add: bench_key_def)
  have st: "stats e = stats eng" using sub by (auto simp: subscribe_def res_bind_Inr)
  have inv: "engine_inv (engine_state e)" using eng.sub_inv [OF Cons.prems(3) sub] .
  have "bench_key j \<noteq> bench_key i" if "j \<in> set is" for j
    using that Cons.prems(1) by (auto simp: bench_key_def show_nat_inj)
  then have "\<forall>j \<in> set is. bench_key j |\<notin>| fmdom (by_key (engine_state e))"
    using Cons.prems(2) by (simp add: tbl)
  moreover have "\<And>k s. fmlookup (by_key (engine_state e)) k = Some s \<Longrightarrow> sub_route s = ?r"
    using Cons.prems(4) by (auto simp: tbl split: if_splits)
  ultimately obtain eng' where "engine_subscribe ch is e = Inr eng'" "engine_inv (engine_state eng')" "stats eng' = stats e"
      "fset (fmdom (by_key (engine_state eng'))) = fset (fmdom (by_key (engine_state e))) \<union> bench_key ` set is"
      "\<forall>k s. fmlookup (by_key (engine_state eng')) k = Some s \<longrightarrow> sub_route s = ?r"
    using Cons.IH [of e] Cons.prems(1) inv by fastforce
  then show ?case using sub st by (auto simp: tbl kind_topic_def kind_type_hint_def)
qed auto

definition run_ok :: "nat \<Rightarrow> nat \<Rightarrow> 'w EngineRun \<Rightarrow> bool" where
  "run_ok subscribers turns S \<longleftrightarrow>
     engine_inv (engine_state (er_engine S)) \<and>
     fcard (spec_targets (by_key (engine_state (er_engine S))) (route_typed ''demo'' ''Ping'')) = subscribers \<and>
     er_sent S = of_nat turns \<and> stat_published (stats (er_engine S)) = er_sent S \<and>
     stat_dropped (stats (er_engine S)) = er_dropped S \<and>
     stat_delivered (stats (er_engine S)) + er_dropped S = er_sent S * of_nat subscribers"

lemma engine_turn_ok:
  assumes "run_ok n k S" "hash_order order"
  shows "run_ok n (Suc k) (engine_turn ts order fresh pb turn S)"
proof -
  obtain elapsed others where t: "turn = (elapsed, others)" by force
  define e where "e = with_content_type ct_json (new_envelope (fresh (unat (er_seq S)))
      (route_typed ''demo'' ''Ping'') (render_ping (unat (er_seq S)) pb))"
  let ?st = "engine_state (er_engine S)"
  have re: "route e = route_typed ''demo'' ''Ping''" by (simp add: e_def)
  let ?targets = "collect_targets order ?st (route e)"
  let ?fan = "fan_out ts e ?targets (others (er_chans S))"
  have len: "length ?targets = n"
    using assms by (simp add: collect_targets_spec re run_ok_def hash_order_length)
  let ?a = "of_nat (fst (snd ?fan)) :: 64 word" and ?b = "of_nat (snd (snd ?fan)) :: 64 word"
  let ?d = "stat_delivered (stats (er_engine S))"
  have ab: "?a + ?b = of_nat n"
    using fan_out_total [of ts e ?targets "others (er_chans S)"] len by (metis of_nat_add)
  have old: "?d + er_dropped S = er_sent S * of_nat n" using assms(1) by (simp add: run_ok_def)
  have "(?d + ?a) + (er_dropped S + ?b) = (?d + er_dropped S) + (?a + ?b)" by (simp only: ac_simps)
  also have "\<dots> = er_sent S * of_nat n + of_nat n" by (simp only: old ab)
  finally have sum: "(?d + ?a) + (er_dropped S + ?b) = (er_sent S + 1) * of_nat n" by (simp add: distrib_right)
  show ?thesis
    using assms(1) sum
    by (simp add: engine_turn_def t run_ok_def publish_def Let_def case_prod_unfold kind_topic_def kind_type_hint_def
        e_def [symmetric] re)
qed

lemma engine_loop_ok:
  "run_ok n k S \<Longrightarrow> hash_order order \<Longrightarrow> run_ok n (k + length turns) (engine_loop ts order fresh pb turns S)"
  unfolding engine_loop_def
proof (induction turns arbitrary: k S)
  case (Cons t turns)
  from Cons.IH [OF engine_turn_ok [OF Cons.prems, of ts fresh pb t] Cons.prems(2)] show ?case by simp
qed simp

text \<open>The engine scenario accounts for every message. Whatever the channels do and whatever the
  subscriber tasks take from them, the report's sent count is the number of passes and the engine's own
  count, its drop count is the engine's, and what was delivered and what was dropped add up to one
  delivery per message and subscriber. A run in which something was received always gives a report.\<close>

theorem bench_engine_accounts:
  assumes "hash_order order" "ty_received tally \<noteq> 0"
  shows "\<exists>r snap. engine_scenario ts order fresh ch args turns w tally secs = Inr r \<and> rp_engine r = Some snap \<and>
    rp_sent r = of_nat (length turns) \<and> snap_published snap = rp_sent r \<and> snap_dropped snap = rp_dropped r \<and>
    snap_delivered snap + snap_dropped snap = rp_sent r * of_nat (en_subscribers args) \<and>
    rp_latency_ns r = summarize_samples (ty_samples tally)"
proof -
  let ?n = "en_subscribers args"
  obtain eng where eng: "engine_subscribe ch [0 ..< ?n] new_engine = Inr eng" "engine_inv (engine_state eng)"
      "stats eng = stats new_engine" "fset (fmdom (by_key (engine_state eng))) = bench_key ` {0 ..< ?n}"
      "\<forall>k s. fmlookup (by_key (engine_state eng)) k = Some s \<longrightarrow> sub_route s = route_typed ''demo'' ''Ping''"
    using engine_subscribe_all [of "[0 ..< ?n]" new_engine ch] new_engine_inv by (auto simp: new_engine_def empty_state_def)
  have "spec_targets (by_key (engine_state eng)) (route_typed ''demo'' ''Ping'') = fmdom (by_key (engine_state eng))"
    using eng(5) by (auto simp: spec_targets_def spec_matches_def fmdom_filter fset_eq_iff fmlookup_dom_iff split: option.splits)
  moreover have "card (bench_key ` {0 ..< ?n}) = ?n"
    by (simp add: card_image inj_on_def bench_key_def show_nat_inj)
  ultimately have targets: "fcard (spec_targets (by_key (engine_state eng)) (route_typed ''demo'' ''Ping'')) = ?n"
    using eng(4) by (simp add: fcard.rep_eq)
  let ?S = "\<lparr>er_engine = eng, er_chans = w, er_clock = Map.empty, er_sent = 0, er_dropped = 0, er_seq = 0\<rparr>"
  have "run_ok ?n 0 ?S" using eng(2,3) targets by (simp add: run_ok_def new_engine_def)
  from engine_loop_ok [OF this assms(1), of turns ts fresh "sh_payload_bytes (en_shared args)"] show ?thesis
    using eng(1) assms(2)
    by (simp add: engine_scenario_def Let_def finish_report_def run_ok_def engine_snapshot_def)
qed

theorem bench_engine_accounts_witness:
  "\<exists>r snap. engine_scenario bq_send sorted_list_of_fset MessageId id
      (default_engine_args\<lparr>en_subscribers := 2\<rparr>) [(0, id), (7, id)] (\<lambda>c. (1, False, []))
      \<lparr>ty_received = 2, ty_unmatched = 0, ty_samples = [3, 4]\<rparr> (Fin False 1) = Inr r \<and>
    rp_engine r = Some snap \<and> rp_sent r = 2 \<and> snap_delivered snap + snap_dropped snap = 4"
proof -
  have "hash_order (sorted_list_of_fset :: SubscriberKey fset \<Rightarrow> _)" by (rule hash_order_sorted)
  moreover have "ty_received \<lparr>ty_received = 2, ty_unmatched = 0, ty_samples = [3, 4]\<rparr> \<noteq> 0" by simp
  ultimately show ?thesis
    using bench_engine_accounts [of sorted_list_of_fset "\<lparr>ty_received = 2, ty_unmatched = 0, ty_samples = [3, 4]\<rparr>" bq_send
        MessageId id "default_engine_args\<lparr>en_subscribers := 2\<rparr>" "[(0, id), (7, id)]" "\<lambda>c. (1, False, [])" "Fin False 1"]
    by fastforce
qed

end
