(* ===== verification/Bench_Client.thy ===== *)
theory Bench_Client
  imports Bench_Cli Owp_Codec
begin

text \<open>
  The load generator's OWP client, \<open>oa-gateway-bench/src/owp_client.rs\<close>, and the \<open>ping\<close> scenario,
  \<open>scenarios/ping.rs\<close>. A socket is the list of what its stream will yield and the frames written to it;
  a stream with nothing left times out. The argument \<open>tx\<close> says of the frames written so far whether the
  next write fails.
\<close>

datatype ws_item = WsTimeout | WsClosed | WsFailed string | WsText string | WsPing string | WsPong string | WsOther string

datatype ws_out = TextOut string | PongOut string

record Sock =
  incoming :: "ws_item list"
  written :: "ws_out list"

type_synonym writer = "ws_out list \<Rightarrow> string option"

definition ws_bind :: "(Failure + 'a) \<times> Sock \<Rightarrow> ('a \<Rightarrow> Sock \<Rightarrow> (Failure + 'b) \<times> Sock) \<Rightarrow> (Failure + 'b) \<times> Sock" where
  "ws_bind r f = (case r of (Inl e, s) \<Rightarrow> (Inl e, s) | (Inr a, s) \<Rightarrow> f a s)"

definition send_text :: "writer \<Rightarrow> string \<Rightarrow> Sock \<Rightarrow> (Failure + unit) \<times> Sock" where
  "send_text tx frame s =
     (case tx (written s) of
        Some err \<Rightarrow> (Inl (Err (''owp send: '' @ err)), s)
      | None \<Rightarrow> (Inr (), s\<lparr>written := written s @ [TextOut frame]\<rparr>))"

fun recv_text :: "writer \<Rightarrow> ws_item list \<Rightarrow> ws_out list \<Rightarrow> (Failure + string) \<times> Sock" where
  "recv_text tx [] out = (Inl (Err ''owp recv timeout''), \<lparr>incoming = [], written = out\<rparr>)"
| "recv_text tx (i # inc) out =
     (case i of
        WsTimeout \<Rightarrow> (Inl (Err ''owp recv timeout''), \<lparr>incoming = inc, written = out\<rparr>)
      | WsClosed \<Rightarrow> (Inl (Err ''owp socket closed''), \<lparr>incoming = inc, written = out\<rparr>)
      | WsFailed err \<Rightarrow> (Inl (Err (''owp recv: '' @ err)), \<lparr>incoming = inc, written = out\<rparr>)
      | WsText t \<Rightarrow> (Inr t, \<lparr>incoming = inc, written = out\<rparr>)
      | WsPing p \<Rightarrow>
          (case tx out of
             Some err \<Rightarrow> (Inl (Err (''owp pong: '' @ err)), \<lparr>incoming = inc, written = out\<rparr>)
           | None \<Rightarrow> recv_text tx inc (out @ [PongOut p]))
      | WsPong _ \<Rightarrow> recv_text tx inc out
      | WsOther d \<Rightarrow> (Inl (Err (''unexpected websocket frame '' @ d)), \<lparr>incoming = inc, written = out\<rparr>))"

definition recv_op :: "OwpSerde \<Rightarrow> writer \<Rightarrow> Sock \<Rightarrow> (Failure + ServerOp) \<times> Sock" where
  "recv_op sd tx s =
     ws_bind (recv_text tx (incoming s) (written s)) (\<lambda>t s'.
     (map_err (\<lambda>e. Err (''owp parse: '' @ show_parse_error e)) (parse_server sd t), s'))"

text \<open>\<open>format!\<close> of an operation panics where its \<open>Display\<close> fails.\<close>

definition unexpected :: "OwpSerde \<Rightarrow> string \<Rightarrow> ServerOp \<Rightarrow> Failure" where
  "unexpected sd what x = (case show_server_op sd x of None \<Rightarrow> Panic | Some t \<Rightarrow> Err (what @ '', got '' @ t))"

definition expect_ok :: "OwpSerde \<Rightarrow> writer \<Rightarrow> string \<Rightarrow> Sock \<Rightarrow> (Failure + unit) \<times> Sock" where
  "expect_ok sd tx after s =
     ws_bind (recv_op sd tx s) (\<lambda>x s'.
     (if x = OkOp then Inr () else Inl (unexpected sd (''expected +OK after '' @ after) x), s'))"

definition init_frame :: "bool \<Rightarrow> string" where
  "init_frame verbose =
     (let q = (\<lambda>s. [CHR 0x22] @ s @ [CHR 0x22])
      in ''INIT {'' @ q ''versions'' @ '':['' @ q ''1.0'' @ ''],'' @ q ''schema'' @ '':'' @ q ''002.5.0'' @ '','' @
         q ''service_id'' @ '':'' @ q ''bench'' @ '','' @ q ''verbose'' @ '':'' @ (if verbose then ''true'' else ''false'') @ ''}'')"

definition bench_handshake :: "OwpSerde \<Rightarrow> writer \<Rightarrow> bool \<Rightarrow> Sock \<Rightarrow> (Failure + unit) \<times> Sock" where
  "bench_handshake sd tx verbose s =
     ws_bind (send_text tx (init_frame verbose) s) (\<lambda>_ s1.
     ws_bind (if verbose then expect_ok sd tx ''INIT'' s1 else (Inr (), s1)) (\<lambda>_ s2.
     ws_bind (recv_op sd tx s2) (\<lambda>x s3.
     (case x of InfoOp _ \<Rightarrow> Inr () | other \<Rightarrow> Inl (unexpected sd ''expected INFO after INIT'' other), s3))))"

definition bench_subscribe ::
  "OwpSerde \<Rightarrow> writer \<Rightarrow> string \<Rightarrow> string \<Rightarrow> string \<Rightarrow> bool \<Rightarrow> Sock \<Rightarrow> (Failure + unit) \<times> Sock" where
  "bench_subscribe sd tx sid name t verbose s =
     ws_bind (send_text tx (''SUB '' @ sid @ '' '' @ name @ '' '' @ t) s) (\<lambda>_ s1.
     if verbose then expect_ok sd tx ''SUB'' s1 else (Inr (), s1))"

section \<open>One message there and back\<close>

definition PING_SID :: string where "PING_SID = ''ping-1''"

definition PING_PUB :: string where
  "PING_PUB = ''PUB demo {'' @ [CHR 0x22] @ ''Ping'' @ [CHR 0x22] @ '':{'' @ [CHR 0x22] @ ''n'' @ [CHR 0x22] @ '':1}}''"

text \<open>The loop that waits for the message; every round takes something from the stream.\<close>

lemma recv_text_shrinks: "recv_text tx inc out = (Inr t, s) \<Longrightarrow> length (incoming s) < length inc"
  by (induction tx inc out rule: recv_text.induct) (auto split: ws_item.splits option.splits)

function ping_wait :: "OwpSerde \<Rightarrow> writer \<Rightarrow> Sock \<Rightarrow> (Failure + string) \<times> Sock" where
  "ping_wait sd tx s =
     (case recv_op sd tx s of
        (Inl e, s') \<Rightarrow> (Inl e, s')
      | (Inr (MsgOp sid p), s') \<Rightarrow>
          (if sid \<noteq> PING_SID then Inl (Err (''expected MSG '' @ PING_SID @ '', got sid '' @ sid)) else Inr p, s')
      | (Inr OkOp, s') \<Rightarrow> ping_wait sd tx s'
      | (Inr (ErrOp err details), s') \<Rightarrow>
          (Inl (Err (''owp -ERR '' @ show_owp_error err @ (case details of Some d \<Rightarrow> '' '' @ d | None \<Rightarrow> []))), s')
      | (Inr (InfoOp i), s') \<Rightarrow> (Inl (unexpected sd ''expected MSG after PUB'' (InfoOp i)), s'))"
  by pat_completeness auto
termination
  by (relation "measure (\<lambda>(sd, tx, s). length (incoming s))")
    (auto simp: recv_op_def ws_bind_def split: prod.splits sum.splits dest: recv_text_shrinks)

definition ping_run :: "OwpSerde \<Rightarrow> writer \<Rightarrow> Sock \<Rightarrow> (Failure + string) \<times> Sock" where
  "ping_run sd tx s =
     ws_bind (bench_handshake sd tx True s) (\<lambda>_ s1.
     ws_bind (bench_subscribe sd tx PING_SID ''Ping'' ''demo'' True s1) (\<lambda>_ s2.
     ws_bind (send_text tx PING_PUB s2) (\<lambda>_ s3. ping_wait sd tx s3)))"

section \<open>When a ping succeeds\<close>

declare ping_wait.simps [simp del]

text \<open>The texts a socket that can be written to will hand out, up to the first thing that is neither a
  text nor a ping or pong.\<close>

fun texts :: "ws_item list \<Rightarrow> string list" where
  "texts (WsText t # inc) = t # texts inc"
| "texts (WsPing _ # inc) = texts inc"
| "texts (WsPong _ # inc) = texts inc"
| "texts _ = []"

definition always :: writer where "always = (\<lambda>_. None)"

lemma recv_text_iff:
  "(\<exists>s. recv_text always inc out = (Inr t, s) \<and> texts (incoming s) = rest) \<longleftrightarrow> texts inc = t # rest"
proof (induction inc arbitrary: out)
  case (Cons i inc)
  then show ?case by (cases i) (auto simp: always_def)
qed simp

lemma recv_op_iff:
  "(\<exists>s'. recv_op sd always s = (Inr x, s') \<and> texts (incoming s') = rest) \<longleftrightarrow>
     (\<exists>t. texts (incoming s) = t # rest \<and> parse_server sd t = Inr x)"
proof -
  have "(\<exists>s'. recv_op sd always s = (Inr x, s') \<and> texts (incoming s') = rest) \<longleftrightarrow>
      (\<exists>t. (\<exists>s'. recv_text always (incoming s) (written s) = (Inr t, s') \<and> texts (incoming s') = rest) \<and>
        parse_server sd t = Inr x)"
    by (auto simp: recv_op_def ws_bind_def map_err_Inr split: prod.splits sum.splits)
  then show ?thesis by (simp add: recv_text_iff)
qed

definition awaited :: "OwpSerde \<Rightarrow> string \<Rightarrow> string list \<Rightarrow> bool" where
  "awaited sd p ts \<longleftrightarrow>
     (\<exists>oks m rest. ts = oks @ m # rest \<and> (\<forall>t \<in> set oks. parse_server sd t = Inr OkOp) \<and>
       parse_server sd m = Inr (MsgOp PING_SID p))"

lemma awaited_Cons:
  "awaited sd p (t # ts) \<longleftrightarrow> parse_server sd t = Inr (MsgOp PING_SID p) \<or> parse_server sd t = Inr OkOp \<and> awaited sd p ts"
proof
  assume "awaited sd p (t # ts)"
  then obtain oks m rest where o': "t # ts = oks @ m # rest" "\<forall>t \<in> set oks. parse_server sd t = Inr OkOp"
      "parse_server sd m = Inr (MsgOp PING_SID p)" unfolding awaited_def by blast
  then show "parse_server sd t = Inr (MsgOp PING_SID p) \<or> parse_server sd t = Inr OkOp \<and> awaited sd p ts"
    by (cases oks) (auto simp: awaited_def)
next
  assume or: "parse_server sd t = Inr (MsgOp PING_SID p) \<or> parse_server sd t = Inr OkOp \<and> awaited sd p ts"
  show "awaited sd p (t # ts)"
  proof (cases "parse_server sd t = Inr OkOp")
    case True
    then obtain oks m rest where "ts = oks @ m # rest" "\<forall>t \<in> set oks. parse_server sd t = Inr OkOp"
        "parse_server sd m = Inr (MsgOp PING_SID p)" using or by (auto simp: awaited_def)
    then show ?thesis using True unfolding awaited_def by (intro exI [of _ "t # oks"]) auto
  next
    case False
    then show ?thesis using or unfolding awaited_def by (intro exI [of _ "[]"] exI [of _ t] exI [of _ ts]) simp
  qed
qed

lemma awaited_Nil: "\<not> awaited sd p []" by (simp add: awaited_def)

lemma ping_wait_iff: "(\<exists>s'. ping_wait sd always s = (Inr p, s')) \<longleftrightarrow> awaited sd p (texts (incoming s))"
proof (induction "texts (incoming s)" arbitrary: s)
  case Nil
  have "\<not> (\<exists>x s'. recv_op sd always s = (Inr x, s'))" using Nil recv_op_iff [of sd s] by auto
  then show ?case using Nil [symmetric] by (subst ping_wait.simps) (auto simp: awaited_Nil split: prod.splits sum.splits)
next
  case (Cons t ts)
  show ?case
  proof (cases "parse_server sd t")
    case (Inl e)
    have "\<not> (\<exists>x s'. recv_op sd always s = (Inr x, s'))"
      using Inl Cons(2) [symmetric] recv_op_iff [of sd s] by auto
    then show ?thesis
      using Inl Cons(2) [symmetric] by (subst ping_wait.simps) (auto simp: awaited_Cons split: prod.splits sum.splits)
  next
    case (Inr x)
    obtain s' where s': "recv_op sd always s = (Inr x, s')" "texts (incoming s') = ts"
      using recv_op_iff [of sd s x ts] Inr Cons(2) by auto
    then show ?thesis
      using Inr Cons(1) [of s'] Cons(2) [symmetric] by (subst ping_wait.simps) (cases x, auto simp: awaited_Cons)
  qed
qed

lemma ws_bind_iff:
  "(\<exists>s'. ws_bind r f = (Inr b, s') \<and> P s') \<longleftrightarrow> (\<exists>a s. r = (Inr a, s) \<and> (\<exists>s'. f a s = (Inr b, s') \<and> P s'))"
  by (cases r; cases "fst r") (auto simp: ws_bind_def)

lemma ws_bind_ok: "(\<exists>s'. ws_bind r f = (Inr b, s')) \<longleftrightarrow> (\<exists>a s. r = (Inr a, s) \<and> (\<exists>s'. f a s = (Inr b, s')))"
  using ws_bind_iff [of r f b "\<lambda>_. True"] by simp

lemma send_always: "send_text always t s = (Inr (), s\<lparr>written := written s @ [TextOut t]\<rparr>)"
  by (simp add: send_text_def always_def)

lemma expect_ok_iff:
  "(\<exists>s'. expect_ok sd always what s = (Inr (), s') \<and> texts (incoming s') = rest) \<longleftrightarrow>
     (\<exists>t. texts (incoming s) = t # rest \<and> parse_server sd t = Inr OkOp)"
  unfolding expect_ok_def ws_bind_iff recv_op_iff [symmetric] by (auto split: if_splits)

lemma handshake_iff:
  "(\<exists>s'. bench_handshake sd always True s = (Inr (), s') \<and> texts (incoming s') = rest) \<longleftrightarrow>
     (\<exists>a b i. texts (incoming s) = a # b # rest \<and> parse_server sd a = Inr OkOp \<and> parse_server sd b = Inr (InfoOp i))"
proof -
  let ?u = "s\<lparr>written := written s @ [TextOut (init_frame True)]\<rparr>"
  have info: "(case x of InfoOp _ \<Rightarrow> Inr () | other \<Rightarrow> Inl (unexpected sd w other)) = Inr () \<longleftrightarrow> (\<exists>i. x = InfoOp i)" for x w
    by (cases x) simp_all
  have "(\<exists>s'. bench_handshake sd always True s = (Inr (), s') \<and> texts (incoming s') = rest) \<longleftrightarrow>
      (\<exists>s1. expect_ok sd always ''INIT'' ?u = (Inr (), s1) \<and>
        (\<exists>i s2. recv_op sd always s1 = (Inr (InfoOp i), s2) \<and> texts (incoming s2) = rest))"
    unfolding bench_handshake_def ws_bind_iff by (auto simp: send_always info)
  also have "\<dots> \<longleftrightarrow> (\<exists>s1. expect_ok sd always ''INIT'' ?u = (Inr (), s1) \<and>
      (\<exists>b i. texts (incoming s1) = b # rest \<and> parse_server sd b = Inr (InfoOp i)))"
    using recv_op_iff by blast
  finally show ?thesis using expect_ok_iff [of sd "''INIT''" ?u] by (simp, blast)
qed

lemma subscribe_iff:
  "(\<exists>s'. bench_subscribe sd always sid name t True s = (Inr (), s') \<and> texts (incoming s') = rest) \<longleftrightarrow>
     (\<exists>c. texts (incoming s) = c # rest \<and> parse_server sd c = Inr OkOp)"
  using expect_ok_iff [of sd "''SUB''" _ rest] unfolding bench_subscribe_def ws_bind_iff by (auto simp: send_always)

text \<open>A ping succeeds exactly when the server answers as the protocol says: an OK and an INFO to the INIT,
  an OK to the SUB, and then any number of OKs before the message of this subscription, which is what
  the ping reports.\<close>

lemma ping_exact:
  "(\<exists>s'. ping_run sd always s = (Inr p, s')) \<longleftrightarrow>
     (\<exists>a b c rest i. texts (incoming s) = a # b # c # rest \<and> parse_server sd a = Inr OkOp \<and>
       parse_server sd b = Inr (InfoOp i) \<and> parse_server sd c = Inr OkOp \<and> awaited sd p rest)"
proof -
  have "(\<exists>s'. ping_run sd always s = (Inr p, s')) \<longleftrightarrow>
    (\<exists>s1. bench_handshake sd always True s = (Inr (), s1) \<and>
      (\<exists>s2. bench_subscribe sd always PING_SID ''Ping'' ''demo'' True s1 = (Inr (), s2) \<and> awaited sd p (texts (incoming s2))))"
    unfolding ping_run_def ws_bind_ok send_always using ping_wait_iff [of sd _ p] by simp
  also have "\<dots> \<longleftrightarrow> (\<exists>s1. bench_handshake sd always True s = (Inr (), s1) \<and>
      (\<exists>c rest. texts (incoming s1) = c # rest \<and> parse_server sd c = Inr OkOp \<and> awaited sd p rest))"
  proof -
    have "(\<exists>s2. bench_subscribe sd always PING_SID ''Ping'' ''demo'' True u = (Inr (), s2) \<and> awaited sd p (texts (incoming s2))) \<longleftrightarrow>
        (\<exists>rest. (\<exists>s2. bench_subscribe sd always PING_SID ''Ping'' ''demo'' True u = (Inr (), s2) \<and> texts (incoming s2) = rest) \<and>
          awaited sd p rest)" for u
      by blast
    then show ?thesis unfolding subscribe_iff by (simp, blast)
  qed
  also have "\<dots> \<longleftrightarrow> (\<exists>a b c rest i. texts (incoming s) = a # b # c # rest \<and> parse_server sd a = Inr OkOp \<and>
       parse_server sd b = Inr (InfoOp i) \<and> parse_server sd c = Inr OkOp \<and> awaited sd p rest)"
    using handshake_iff [of sd s] by blast
  finally show ?thesis .
qed

end
