(* ===== verification/Bench_Scenarios.thy ===== *)
theory Bench_Scenarios
  imports Bench_Report Bench_Client Loopback Uci_Xml
begin

text \<open>
  The rest of the load generator, \<open>oa-gateway-bench/src\<close>: the whole report with its text and its file
  (\<open>report.rs\<close>), the pacing and draining the scenarios share (\<open>scenarios/mod.rs\<close>, \<open>rate_ticker\<close>), and the
  \<open>loopback\<close>, \<open>uci\<close> and \<open>owp\<close> scenarios. The runtime's choices are arguments, as in \<open>Bench_Report\<close>: the
  passes of a loop with the times the clock shows, and in the \<open>owp\<close> scenario the order in which the
  publishers and subscribers take their turns on the shared counters. Number formatting, the file system
  and the commands that print versions are the record \<open>ReportLib\<close>.
\<close>

section \<open>The whole report\<close>

record ReportLib =
  rl_fixed :: "nat \<Rightarrow> f64 \<Rightarrow> string"
  rl_parent :: "string \<Rightarrow> string option"
  rl_create_dir_all :: "string \<Rightarrow> string + unit"
  rl_write :: "string \<Rightarrow> string \<Rightarrow> string + unit"

text \<open>The fields of a report that describe the build and the run.\<close>

record ReportMeta =
  rm_git_sha :: string
  rm_rustc :: string
  rm_profile :: string
  rm_started_unix :: "64 word"
  rm_flags :: "(string \<times> Value) list"

definition git_sha :: "string option \<Rightarrow> string option \<Rightarrow> bytes option \<Rightarrow> string" where
  "git_sha github ci stdout =
     (case github of
        Some sha \<Rightarrow> sha
      | None \<Rightarrow>
          (case ci of
             Some sha \<Rightarrow> sha
           | None \<Rightarrow>
               (case stdout of
                  None \<Rightarrow> ''unknown''
                | Some s \<Rightarrow> if utf8_valid s \<and> trim s \<noteq> [] then trim s else ''unknown'')))"

definition rustc_version :: "bytes option \<Rightarrow> string" where
  "rustc_version stdout =
     (case stdout of
        None \<Rightarrow> ''unknown''
      | Some s \<Rightarrow> if utf8_valid s then trim s else ''unknown'')"

text \<open>\<open>started\<close> is the clock's time since the epoch, \<open>None\<close> when it is before it.\<close>

definition blank_meta ::
  "string option \<Rightarrow> string option \<Rightarrow> bytes option \<Rightarrow> bytes option \<Rightarrow> bool \<Rightarrow> nat option \<Rightarrow> (string \<times> Value) list \<Rightarrow> ReportMeta" where
  "blank_meta github ci git rustc debug started flags =
     \<lparr>rm_git_sha = git_sha github ci git, rm_rustc = rustc_version rustc,
      rm_profile = (if debug then ''debug'' else ''release''),
      rm_started_unix = (case started of None \<Rightarrow> 0 | Some d \<Rightarrow> of_nat (d div 10 ^ 9)), rm_flags = flags\<rparr>"

definition blank :: "string \<Rightarrow> BenchReport" where
  "blank scenario =
     \<lparr>rp_scenario = scenario, rp_sent = 0, rp_received = 0, rp_dropped = 0, rp_errors = 0, rp_unmatched = 0,
      rp_duration_secs = Fin False 0, rp_sent_per_sec = Fin False 0, rp_received_per_sec = Fin False 0,
      rp_bytes_per_sec = Fin False 0, rp_latency_ns = None, rp_ack_latency_ns = None, rp_engine = None\<rparr>"

definition show_word :: "64 word \<Rightarrow> string" where
  "show_word w = show_nat (unat w)"

text \<open>The micro sign is the two bytes of its UTF-8 form.\<close>

definition fmt_ns :: "ReportLib \<Rightarrow> 64 word \<Rightarrow> string" where
  "fmt_ns L ns =
     (if ns \<ge> 1000000 then rl_fixed L 2 (f64_div (f64_word ns) (Fin False 1000000)) @ ''ms''
      else if ns \<ge> 1000 then rl_fixed L 1 (f64_div (f64_word ns) (Fin False 1000)) @ [CHR 0xC2, CHR 0xB5] @ ''s''
      else show_word ns @ ''ns'')"

definition latency_line :: "ReportLib \<Rightarrow> string \<Rightarrow> Latency \<Rightarrow> string" where
  "latency_line L what l =
     what @ '': p50='' @ fmt_ns L (p50 l) @ '' p90='' @ fmt_ns L (p90 l) @ '' p99='' @ fmt_ns L (p99 l) @
     '' max='' @ fmt_ns L (lat_max l) @ '' mean='' @ fmt_ns L (lat_mean l) @ '' (n='' @ show_word (lat_count l) @ '')''"

fun join_lines :: "string list \<Rightarrow> string" where
  "join_lines [] = []"
| "join_lines [l] = l"
| "join_lines (l # ls) = l @ LF # join_lines ls"

definition summary :: "ReportLib \<Rightarrow> BenchReport \<Rightarrow> string" where
  "summary L r = join_lines (
     [''scenario: '' @ rp_scenario r,
      ''duration: '' @ rl_fixed L 2 (rp_duration_secs r) @ ''s  sent: '' @ show_word (rp_sent r) @
        ''  received: '' @ show_word (rp_received r) @ ''  dropped: '' @ show_word (rp_dropped r) @
        ''  errors: '' @ show_word (rp_errors r) @ ''  unmatched: '' @ show_word (rp_unmatched r),
      ''throughput: '' @ rl_fixed L 0 (rp_sent_per_sec r) @ '' sent/s  '' @ rl_fixed L 0 (rp_received_per_sec r) @
        '' recv/s  '' @ rl_fixed L 0 (rp_bytes_per_sec r) @ '' B/s''] @
     (case rp_latency_ns r of None \<Rightarrow> [''latency: no samples''] | Some l \<Rightarrow> [latency_line L ''latency'' l]) @
     (case rp_ack_latency_ns r of None \<Rightarrow> [] | Some l \<Rightarrow> [latency_line L ''ack latency'' l]) @
     (case rp_engine r of
        None \<Rightarrow> []
      | Some e \<Rightarrow> [''engine: published='' @ show_word (snap_published e) @ '' delivered='' @ show_word (snap_delivered e) @
          '' dropped='' @ show_word (snap_dropped e)]))"

text \<open>What is printed, and whether the file was written. \<open>pretty\<close> is the serialized report.\<close>

definition emit :: "ReportLib \<Rightarrow> (string + string) \<Rightarrow> string option \<Rightarrow> BenchReport \<Rightarrow> string \<times> (string + unit)" where
  "emit L pretty json_path r =
     (summary L r @ [LF],
      case json_path of
        None \<Rightarrow> Inr ()
      | Some path \<Rightarrow>
          res_bind (map_err (\<lambda>err. ''cannot serialize report: '' @ err) pretty) (\<lambda>text.
          res_bind (case rl_parent L path of
              None \<Rightarrow> Inr ()
            | Some parent \<Rightarrow>
                if parent = [] then Inr ()
                else map_err (\<lambda>err. ''cannot create '' @ parent @ '': '' @ err) (rl_create_dir_all L parent)) (\<lambda>_.
          map_err (\<lambda>err. ''cannot write '' @ path @ '': '' @ err) (rl_write L path text))))"

section \<open>Pacing and draining\<close>

text \<open>\<open>Duration::as_secs_f64\<close> and \<open>json!\<close> of an \<open>f64\<close>.\<close>

definition as_secs_f64 :: "nat \<Rightarrow> f64" where
  "as_secs_f64 d =
     (let nanos = f64_div (f64_nat (d mod 10 ^ 9)) (Fin False (10 ^ 9))
      in f64_sub (f64_nat (d div 10 ^ 9)) (case nanos of Fin s x \<Rightarrow> Fin (\<not> s) x | x \<Rightarrow> x))"

definition json_f64 :: "f64 \<Rightarrow> Value" where
  "json_f64 x = (case x of Fin _ _ \<Rightarrow> JNumber (Float x) | _ \<Rightarrow> JNull)"

definition json_nat :: "nat \<Rightarrow> Value" where
  "json_nat n = JNumber (PosInt n)"

text \<open>The flags every scenario with a timed loop reports.\<close>

definition shared_flags :: "SharedArgs \<Rightarrow> (string \<times> Value) list" where
  "shared_flags a =
     bt_insert ''payload_bytes'' (json_nat (sh_payload_bytes a)) (bt_insert ''rate'' (json_nat (sh_rate a))
       (bt_insert ''warmup_secs'' (json_f64 (as_secs_f64 (sh_warmup a)))
         (bt_insert ''duration_secs'' (json_f64 (as_secs_f64 (sh_duration a))) [])))"

definition engine_flags :: "EngineArgs \<Rightarrow> (string \<times> Value) list" where
  "engine_flags a =
     bt_insert ''capacity'' (json_nat (en_capacity a)) (bt_insert ''subscribers'' (json_nat (en_subscribers a))
       (shared_flags (en_shared a)))"

text \<open>\<open>tokio::time::interval\<close> panics on a period of zero, as \<open>Duration::from_secs_f64\<close> does on what it cannot
  hold. The period is in nanoseconds.\<close>

definition rate_ticker :: "nat \<Rightarrow> Failure + nat option" where
  "rate_ticker rate =
     (if rate = 0 then Inr None
      else case from_secs_f64 (f64_div (Fin False 1) (f64_nat rate)) of
        None \<Rightarrow> Inl Panic
      | Some period \<Rightarrow> if period = 0 then Inl Panic else Inr (Some period))"

text \<open>The reads of the counter after each sleep, as many as fit before the deadline: how many of them
  the loop makes.\<close>

fun quiet_loop :: "nat \<Rightarrow> 64 word \<Rightarrow> 64 word list \<Rightarrow> nat" where
  "quiet_loop quiet prev [] = 0"
| "quiet_loop quiet prev (now # reads) =
     (if now = prev then (if quiet + 1 \<ge> 3 then 1 else Suc (quiet_loop (quiet + 1) prev reads))
      else Suc (quiet_loop 0 now reads))"

definition drain_until_quiet :: "64 word \<Rightarrow> 64 word list \<Rightarrow> nat" where
  "drain_until_quiet received reads = quiet_loop 0 received reads"

section \<open>The loopback scenario\<close>

record 'w LoopRun =
  lr_world :: "'w World"
  lr_clock :: SeqClock
  lr_sent :: "64 word"
  lr_dropped :: "64 word"
  lr_seq :: "64 word"

definition loopback_turn :: "'w Host \<Rightarrow> nat \<Rightarrow> 'w Bench_Report.turn \<Rightarrow> 'w LoopRun \<Rightarrow> 'w LoopRun" where
  "loopback_turn h payload_bytes t S =
     (case t of (elapsed, others) \<Rightarrow>
       let seq = unat (lr_seq S);
           W = lr_world S;
           env = with_content_type ct_json
             (new_envelope (fresh_id h W 0) (route_typed (kind_topic PingKind) (kind_type_hint PingKind)) (render_ping seq payload_bytes))
       in case lb_publish h env (W\<lparr>chans := others (chans W), drawn := drawn W + 1\<rparr>) of
            (W', outcome) \<Rightarrow>
              \<lparr>lr_world = W', lr_clock = clock_stamp elapsed seq (lr_clock S), lr_sent = lr_sent S + 1,
               lr_dropped = lr_dropped S + of_nat (dropped outcome), lr_seq = lr_seq S + 1\<rparr>)"

definition loopback_scenario ::
  "'w Host \<Rightarrow> chan \<Rightarrow> LoopbackArgs \<Rightarrow> 'w Bench_Report.turn list \<Rightarrow> 'w World \<Rightarrow> Tally \<Rightarrow> f64 \<Rightarrow> (string + BenchReport) \<times> 'w World" where
  "loopback_scenario h ch args turns W0 tally secs =
     (let a = new_loopback (AdapterId ''loop-a'');
          b = new_loopback (AdapterId ''loop-b'')
      in case lb_subscribe (route_typed (kind_topic PingKind) (kind_type_hint PingKind)) ch b (W0\<lparr>engine := new_engine\<rparr>) of
           (Inl e, b', W1) \<Rightarrow> (Inl (show_engine_error e), W1)
         | (Inr _, b', W1) \<Rightarrow>
             (let S = fold (loopback_turn h (sh_payload_bytes (lp_shared args))) turns
                        \<lparr>lr_world = W1, lr_clock = Map.empty, lr_sent = 0, lr_dropped = 0, lr_seq = 0\<rparr>;
                  W2 = fst (lb_shutdown h a (fst (lb_shutdown h b' (lr_world S))))
              in if ty_received tally = 0 then (Inl ''loopback received 0 envelopes'', W2)
                 else (Inr (finish_report (ty_samples tally) None (of_nat (sh_payload_bytes (lp_shared args)))
                   ((blank ''loopback'')\<lparr>rp_sent := lr_sent S, rp_received := ty_received tally, rp_dropped := lr_dropped S,
                      rp_unmatched := ty_unmatched tally, rp_duration_secs := secs,
                      rp_engine := Some (engine_snapshot (engine W2))\<rparr>)), W2)))"

section \<open>The conversion scenario\<close>

definition uci_convert :: "Codecs \<Rightarrow> Schema \<Rightarrow> string \<Rightarrow> string \<Rightarrow> UciDirection \<Rightarrow> string + string" where
  "uci_convert cd sch json_fixture xml_fixture d =
     (case d of
        JsonToXml \<Rightarrow>
          res_bind (map_err (\<lambda>err. ''from_json: '' @ show_uci_error err) (from_json cd sch json_fixture)) (\<lambda>msg.
          map_err (\<lambda>err. ''to_xml: '' @ show_uci_error err) (to_xml cd sch msg))
      | XmlToJson \<Rightarrow>
          res_bind (map_err (\<lambda>err. ''from_xml: '' @ show_uci_error err) (from_xml cd sch xml_fixture)) (\<lambda>msg.
          map_err (\<lambda>err. ''to_json: '' @ show_uci_error err) (to_json cd sch msg)))"

text \<open>The loop over the time each pass takes: the samples, or the first error.\<close>

fun uci_loop :: "(unit \<Rightarrow> string + string) \<Rightarrow> nat list \<Rightarrow> 64 word list \<Rightarrow> string + 64 word list" where
  "uci_loop convert [] samples = Inr samples"
| "uci_loop convert (ns # rest) samples =
     res_bind (convert ()) (\<lambda>_. uci_loop convert rest (samples @ [of_nat ns]))"

definition uci_flags :: "UciArgs \<Rightarrow> (string \<times> Value) list" where
  "uci_flags args =
     bt_insert ''direction'' (JString (case ub_direction args of JsonToXml \<Rightarrow> ''json-to-xml'' | XmlToJson \<Rightarrow> ''xml-to-json''))
       (bt_insert ''iterations'' (json_nat (ub_iterations args)) [])"

definition uci_scenario ::
  "Codecs \<Rightarrow> Schema \<Rightarrow> string \<Rightarrow> string \<Rightarrow> UciArgs \<Rightarrow> (nat \<Rightarrow> nat) \<Rightarrow> f64 \<Rightarrow> string + BenchReport" where
  "uci_scenario cd sch json_fixture xml_fixture args time secs =
     res_bind (uci_loop (\<lambda>_. uci_convert cd sch json_fixture xml_fixture (ub_direction args))
         (map time [0 ..< ub_iterations args]) []) (\<lambda>samples.
     if samples = [] then Inl ''uci ran 0 iterations''
     else let payload_bytes = (case ub_direction args of JsonToXml \<Rightarrow> length json_fixture | XmlToJson \<Rightarrow> length xml_fixture)
       in Inr (finish_report samples None (of_nat payload_bytes)
            ((blank ''uci'')\<lparr>rp_sent := of_nat (ub_iterations args), rp_received := of_nat (ub_iterations args),
               rp_duration_secs := secs\<rparr>)))"

section \<open>The OWP scenario\<close>

text \<open>What the publisher and subscriber tasks share.\<close>

record OwpRun =
  ow_clock :: SeqClock
  ow_acks :: "64 word list"
  ow_errors :: "64 word"
  ow_next_seq :: "64 word"
  ow_sent :: "64 word"
  ow_tally :: Tally

definition ws_sid :: "nat \<Rightarrow> string" where
  "ws_sid i = ''sub-'' @ show_nat i"

text \<open>\<open>drain_pending\<close>: what the socket has ready, up to the first thing that is neither a text nor a ping.\<close>

fun drain_pending :: "OwpSerde \<Rightarrow> writer \<Rightarrow> ws_item list \<Rightarrow> ws_out list \<Rightarrow> 64 word \<Rightarrow> 64 word \<times> Sock" where
  "drain_pending sd wr [] out errors = (errors, \<lparr>incoming = [], written = out\<rparr>)"
| "drain_pending sd wr (i # inc) out errors =
     (case i of
        WsPing p \<Rightarrow> drain_pending sd wr inc (case wr out of Some _ \<Rightarrow> out | None \<Rightarrow> out @ [PongOut p]) errors
      | WsText t \<Rightarrow>
          drain_pending sd wr inc out (case parse_server sd t of Inr (ErrOp _ _) \<Rightarrow> errors + 1 | _ \<Rightarrow> errors)
      | _ \<Rightarrow> (errors, \<lparr>incoming = inc, written = out\<rparr>))"

text \<open>One pass of \<open>publish_loop\<close>: whether the loop goes on, and what it leaves. \<open>elapsed\<close> is the clock at
  the stamp and \<open>ack_ns\<close> the time to the answer. A panic of \<open>render\<close> ends the task.\<close>

definition publish_pass ::
  "OwpSerde \<Rightarrow> writer \<Rightarrow> Value \<Rightarrow> (Value \<Rightarrow> string + string) \<Rightarrow> PayloadKind \<Rightarrow> nat \<Rightarrow> bool \<Rightarrow> 64 word \<Rightarrow>
     nat \<Rightarrow> nat \<Rightarrow> Sock \<Rightarrow> OwpRun \<Rightarrow> bool \<times> Sock \<times> OwpRun" where
  "publish_pass sd wr fixture pr pk payload_bytes ack_latency warmup_ns elapsed ack_ns s R =
     (let seq = unat (ow_next_seq R);
          R1 = R\<lparr>ow_next_seq := ow_next_seq R + 1\<rparr>
      in case render fixture pr pk seq payload_bytes of
           None \<Rightarrow> (False, s, R1)
         | Some text \<Rightarrow>
             (let R2 = R1\<lparr>ow_clock := clock_stamp elapsed seq (ow_clock R1)\<rparr>
              in case send_text wr (''PUB '' @ kind_topic pk @ '' '' @ text) s of
                   (Inl _, s1) \<Rightarrow> (False, s1, R2\<lparr>ow_errors := ow_errors R2 + 1\<rparr>)
                 | (Inr _, s1) \<Rightarrow>
                     (let R3 = R2\<lparr>ow_sent := ow_sent R2 + 1\<rparr>
                      in if ack_latency then
                           (case recv_op sd wr s1 of
                              (Inr OkOp, s2) \<Rightarrow>
                                (True, s2, if (case ow_clock R3 seq of None \<Rightarrow> 0 | Some ns \<Rightarrow> ns) \<ge> warmup_ns
                                   then R3\<lparr>ow_acks := ow_acks R3 @ [of_nat ack_ns]\<rparr> else R3)
                            | (Inr (ErrOp _ _), s2) \<Rightarrow> (True, s2, R3\<lparr>ow_errors := ow_errors R3 + 1\<rparr>)
                            | (Inr _, s2) \<Rightarrow> (True, s2, R3)
                            | (Inl _, s2) \<Rightarrow> (False, s2, R3\<lparr>ow_errors := ow_errors R3 + 1\<rparr>))
                         else
                           (case drain_pending sd wr (incoming s1) (written s1) (ow_errors R3) of
                              (errs, s2) \<Rightarrow> (True, s2, R3\<lparr>ow_errors := errs\<rparr>)))))"

definition take_payload :: "(string \<Rightarrow> string + Value) \<Rightarrow> 64 word \<Rightarrow> SeqClock \<Rightarrow> nat \<Rightarrow> string \<Rightarrow> Tally \<Rightarrow> Tally" where
  "take_payload ps warmup_ns c elapsed p t =
     (let t' = t\<lparr>ty_received := ty_received t + 1\<rparr>;
          lost = t'\<lparr>ty_unmatched := ty_unmatched t' + 1\<rparr>
      in case parse_seq ps p of
           None \<Rightarrow> lost
         | Some seq \<Rightarrow>
             (case c seq of
                None \<Rightarrow> lost
              | Some sent_ns \<Rightarrow>
                  if sent_ns < warmup_ns then t'
                  else case clock_latency_ns elapsed seq c of
                    None \<Rightarrow> t'
                  | Some ns \<Rightarrow> t'\<lparr>ty_samples := ty_samples t' @ [ns]\<rparr>))"

text \<open>One round of \<open>drain_subscriber\<close>, on what \<open>recv_op\<close> answered; \<open>None\<close> when the wait timed out.\<close>

definition subscriber_pass ::
  "(string \<Rightarrow> string + Value) \<Rightarrow> 64 word \<Rightarrow> nat \<Rightarrow> (Failure + ServerOp) option \<Rightarrow> OwpRun \<Rightarrow> bool \<times> OwpRun" where
  "subscriber_pass ps warmup_ns elapsed r R =
     (case r of
        None \<Rightarrow> (True, R)
      | Some (Inl _) \<Rightarrow> (False, R)
      | Some (Inr (MsgOp sid p)) \<Rightarrow>
          (True, R\<lparr>ow_tally := take_payload ps warmup_ns (ow_clock R) elapsed p (ow_tally R)\<rparr>)
      | Some (Inr (ErrOp _ _)) \<Rightarrow> (True, R\<lparr>ow_errors := ow_errors R + 1\<rparr>)
      | Some (Inr _) \<Rightarrow> (True, R))"

text \<open>The tasks of a run: the sockets of the publishers, who of them is still publishing, and which
  subscribers are still reading. A turn of a task that has ended is not one the runtime can pick, and
  changes nothing.\<close>

record OwpTasks =
  ot_run :: OwpRun
  ot_socks :: "nat \<Rightarrow> Sock"
  ot_publishing :: "nat \<Rightarrow> bool"
  ot_reading :: "nat \<Rightarrow> bool"

datatype owp_turn = PubTurn nat nat nat | SubTurn nat nat "(Failure + ServerOp) option"

definition take_turn ::
  "OwpSerde \<Rightarrow> (nat \<Rightarrow> writer) \<Rightarrow> (string \<Rightarrow> string + Value) \<Rightarrow> (Value \<Rightarrow> string + string) \<Rightarrow> Value \<Rightarrow> OwpArgs \<Rightarrow>
     owp_turn \<Rightarrow> OwpTasks \<Rightarrow> OwpTasks" where
  "take_turn sd wr ps pr fixture args t T =
     (let pk = (if ob_xml_baseline args then PositionReportKind else PingKind);
          warmup_ns = of_nat (sh_warmup (ob_shared args))
      in case t of
           PubTurn j elapsed ack_ns \<Rightarrow>
             if ot_publishing T j then
               (case publish_pass sd (wr j) fixture pr pk (sh_payload_bytes (ob_shared args)) (ob_ack_latency args)
                       warmup_ns elapsed ack_ns (ot_socks T j) (ot_run T) of
                  (goes_on, s, R) \<Rightarrow> T\<lparr>ot_run := R, ot_socks := (ot_socks T)(j := s),
                     ot_publishing := (ot_publishing T)(j := goes_on)\<rparr>)
             else T
         | SubTurn i elapsed r \<Rightarrow>
             if ot_reading T i then
               (case subscriber_pass ps warmup_ns elapsed r (ot_run T) of
                  (goes_on, R) \<Rightarrow> T\<lparr>ot_run := R, ot_reading := (ot_reading T)(i := goes_on)\<rparr>)
             else T)"

text \<open>Setting up: a subscriber's socket is connected, greeted and subscribed, a publisher's connected and
  greeted, and the first failure ends the scenario.\<close>

definition start_subscriber :: "OwpSerde \<Rightarrow> writer \<Rightarrow> PayloadKind \<Rightarrow> nat \<Rightarrow> string + Sock \<Rightarrow> Failure + Sock" where
  "start_subscriber sd wr pk i conn =
     (case conn of
        Inl err \<Rightarrow> Inl (Err err)
      | Inr s \<Rightarrow>
          (case ws_bind (bench_handshake sd wr True s) (\<lambda>_. bench_subscribe sd wr (ws_sid i) (kind_type_hint pk) (kind_topic pk) True) of
             (Inl err, s') \<Rightarrow> Inl err
           | (Inr _, s') \<Rightarrow> Inr s'))"

definition start_publisher :: "OwpSerde \<Rightarrow> writer \<Rightarrow> bool \<Rightarrow> string + Sock \<Rightarrow> Failure + Sock" where
  "start_publisher sd wr ack_latency conn =
     (case conn of
        Inl err \<Rightarrow> Inl (Err err)
      | Inr s \<Rightarrow>
          (case bench_handshake sd wr ack_latency s of
             (Inl err, s') \<Rightarrow> Inl err
           | (Inr _, s') \<Rightarrow> Inr s'))"

fun start_all :: "(nat \<Rightarrow> Failure + Sock) \<Rightarrow> nat list \<Rightarrow> Failure + Sock list" where
  "start_all start [] = Inr []"
| "start_all start (i # is) = res_bind (start i) (\<lambda>s. res_bind (start_all start is) (\<lambda>ss. Inr (s # ss)))"

definition new_owp_run :: OwpRun where
  "new_owp_run = \<lparr>ow_clock = Map.empty, ow_acks = [], ow_errors = 0, ow_next_seq = 0, ow_sent = 0,
     ow_tally = \<lparr>ty_received = 0, ty_unmatched = 0, ty_samples = []\<rparr>\<rparr>"

definition owp_flags :: "OwpArgs \<Rightarrow> (string \<times> Value) list" where
  "owp_flags args =
     (let fl = bt_insert ''ack_latency'' (JBool (ob_ack_latency args)) (bt_insert ''xml_baseline'' (JBool (ob_xml_baseline args))
            (bt_insert ''subscribers'' (json_nat (ob_subscribers args)) (bt_insert ''publishers'' (json_nat (ob_publishers args))
              (shared_flags (ob_shared args)))))
      in case ob_url args of None \<Rightarrow> fl | Some url \<Rightarrow> bt_insert ''url'' (JString url) fl)"

text \<open>\<open>sub_conn\<close> and \<open>pub_conn\<close> are what the connects give, \<open>swr\<close> and \<open>wr\<close> their writers, \<open>turns\<close> the turns the
  tasks take until all is quiet, and \<open>eng\<close> the engine of an embedded server at the end.\<close>

definition owp_scenario ::
  "OwpSerde \<Rightarrow> (nat \<Rightarrow> writer) \<Rightarrow> (nat \<Rightarrow> writer) \<Rightarrow> (string \<Rightarrow> string + Value) \<Rightarrow> (Value \<Rightarrow> string + string) \<Rightarrow> Value \<Rightarrow>
     (nat \<Rightarrow> string + Sock) \<Rightarrow> (nat \<Rightarrow> string + Sock) \<Rightarrow> OwpArgs \<Rightarrow> owp_turn list \<Rightarrow> Engine \<Rightarrow> f64 \<Rightarrow> Failure + BenchReport" where
  "owp_scenario sd swr wr ps pr fixture sub_conn pub_conn args turns eng secs =
     (let pk = (if ob_xml_baseline args then PositionReportKind else PingKind) in
      res_bind (start_all (\<lambda>i. start_subscriber sd (swr i) pk i (sub_conn i)) [0 ..< ob_subscribers args]) (\<lambda>subs.
      res_bind (start_all (\<lambda>j. start_publisher sd (wr j) (ob_ack_latency args) (pub_conn j)) [0 ..< ob_publishers args]) (\<lambda>pubs.
      let T = fold (take_turn sd wr ps pr fixture args) turns
                \<lparr>ot_run = new_owp_run, ot_socks = (\<lambda>j. pubs ! j), ot_publishing = (\<lambda>j. j < length pubs),
                 ot_reading = (\<lambda>i. i < length subs)\<rparr>;
          R = ot_run T
      in if ty_received (ow_tally R) = 0 then Inl (Err ''owp received 0 MSG frames'')
         else Inr (finish_report (ty_samples (ow_tally R)) (if ob_ack_latency args then Some (ow_acks R) else None)
           (of_nat (sh_payload_bytes (ob_shared args)))
           ((blank (if ob_xml_baseline args then ''owp-xml-baseline'' else ''owp''))\<lparr>rp_sent := ow_sent R,
              rp_received := ty_received (ow_tally R), rp_errors := ow_errors R, rp_unmatched := ty_unmatched (ow_tally R),
              rp_duration_secs := secs, rp_engine := (if ob_url args = None then Some (engine_snapshot eng) else None)\<rparr>)))))"

section \<open>Pacing\<close>

text \<open>A rate of \<open>2 ^ 31\<close> messages a second or more, which the command line accepts, gives a period of zero
  nanoseconds, and the process panics.\<close>

lemma rate_ticker_panics:
  assumes "2 ^ 31 \<le> rate" "rate < 2 ^ 53"
  shows "rate_ticker rate = Inl Panic"
proof -
  have rate: "f64_nat rate = Fin False (of_nat rate)" using assms(2) by (simp add: f64_nat_def f64_of_nat)
  have big: "(2 :: rat) ^ 31 \<le> of_nat rate" using assms(1) of_nat_le_iff [of "2 ^ 31" rate, where 'a = rat] by simp
  let ?q = "1 / of_nat rate :: rat"
  have q: "0 < ?q" "?q \<le> 1 / 2 ^ 31" using big assms(1) by (auto simp: field_simps intro: order_less_le_trans)
  have le: "f64_mag ?q \<le> 1 / 2 ^ 31" using f64_mag_mono [of ?q "1 / 2 ^ 31"] f64_mag_dyadic [of 1 31] q by simp
  have lt: "f64_mag ?q < 2 powi 1024" using le by (rule order_le_less_trans) simp
  have "f64_div (Fin False 1) (f64_nat rate) = Fin False (f64_mag ?q)"
    using q lt assms(1) by (auto simp: f64_div_def rate f64_of_mag)
  moreover have "0 \<le> f64_mag ?q" using q by (simp add: f64_mag_nonneg)
  moreover have "round_half_even (f64_mag ?q * 10 ^ 9) = 0"
  proof -
    have "0 \<le> f64_mag ?q * 10 ^ 9" "f64_mag ?q * 10 ^ 9 < 1 / 2" using le calculation(2) by (simp_all add: field_simps)
    then have "\<lfloor>f64_mag ?q * 10 ^ 9\<rfloor> = 0" by (simp add: floor_eq_iff)
    then show ?thesis using \<open>f64_mag ?q * 10 ^ 9 < 1 / 2\<close> by (simp add: round_half_even_def Let_def)
  qed
  ultimately show ?thesis using assms(1)
    by (simp add: rate_ticker_def from_secs_f64_def)
qed

text \<open>The wait stops early only after three reads in a row have shown no change, and otherwise makes every
  read there is.\<close>

lemma quiet_loop_le: "quiet_loop q v reads \<le> length reads"
  by (induction q v reads rule: quiet_loop.induct) auto

lemma quiet_loop_early:
  "q < 3 \<Longrightarrow> quiet_loop q v reads < length reads \<Longrightarrow>
     \<exists>pre w rest. reads = pre @ rest \<and> length pre = quiet_loop q v reads \<and>
       (\<exists>base. replicate q v @ pre = base @ replicate 3 w)"
proof (induction q v reads rule: quiet_loop.induct)
  case (2 q v now reads)
  show ?case
  proof (cases "now = v")
    case True
    show ?thesis
    proof (cases "q + 1 \<ge> 3")
      case last: True
      then have "q = 2" using "2.prems"(1) by simp
      then show ?thesis using True
        by (intro exI [where x = "[now]"] exI [where x = now] exI [where x = reads]) (simp add: numeral_eq_Suc)
    next
      case False
      then obtain pre w rest base where IH: "reads = pre @ rest" "length pre = quiet_loop (q + 1) v reads"
          "replicate (q + 1) v @ pre = base @ replicate 3 w"
        using "2.IH"(1) True "2.prems" by auto
      have "replicate q v @ now # pre = base @ replicate 3 w" "now # reads = (now # pre) @ rest"
          "length (now # pre) = quiet_loop q v (now # reads)"
        using IH True False by (simp_all add: replicate_app_Cons_same)
      then show ?thesis by blast
    qed
  next
    case False
    then obtain pre w rest base where IH: "reads = pre @ rest" "length pre = quiet_loop 0 now reads"
        "replicate 0 now @ pre = base @ replicate 3 w"
      using "2.IH"(2) "2.prems" by auto
    then have "replicate q v @ now # pre = (replicate q v @ now # base) @ replicate 3 w" "now # reads = (now # pre) @ rest"
        "length (now # pre) = quiet_loop q v (now # reads)"
      using False by simp_all
    then show ?thesis by blast
  qed
qed simp

section \<open>What the conversion scenario reports\<close>

lemma uci_loop_eq:
  "uci_loop conv ts samples = (if ts = [] then Inr samples else res_bind (conv ()) (\<lambda>_. Inr (samples @ map of_nat ts)))"
  by (induction ts arbitrary: samples) (auto simp: res_bind_def split: sum.splits)

lemma uci_scenario_iff:
  "(\<exists>r. uci_scenario cd sch jf xf args time secs = Inr r) \<longleftrightarrow>
     0 < ub_iterations args \<and> (\<exists>out. uci_convert cd sch jf xf (ub_direction args) = Inr out)"
  "uci_scenario cd sch jf xf args time secs = Inr r \<Longrightarrow>
     rp_sent r = of_nat (ub_iterations args) \<and> rp_received r = rp_sent r \<and>
     rp_latency_ns r = summarize_samples (map (\<lambda>i. of_nat (time i)) [0 ..< ub_iterations args])"
  by (auto simp: uci_scenario_def uci_loop_eq res_elims Let_def finish_report_def o_def split: if_splits)

section \<open>What the loopback scenario counts\<close>

definition loop_view :: "'w LoopRun \<Rightarrow> 'w EngineRun" where
  "loop_view S = \<lparr>er_engine = engine (lr_world S), er_chans = chans (lr_world S), er_clock = lr_clock S,
     er_sent = lr_sent S, er_dropped = lr_dropped S, er_seq = lr_seq S\<rparr>"

text \<open>A pass of the loopback scenario is a pass of the engine scenario.\<close>

lemma loopback_turn_view:
  "loop_view (loopback_turn h pb t S) =
     engine_turn (try_send h) (key_order h) (\<lambda>_. fresh_id h (lr_world S) 0) pb t (loop_view S)"
  by (simp add: loop_view_def loopback_turn_def engine_turn_def lb_publish_def Let_def case_prod_unfold)

lemma loopback_turns_ok:
  "run_ok n k (loop_view S) \<Longrightarrow> hash_order (key_order h) \<Longrightarrow>
     run_ok n (k + length turns) (loop_view (fold (loopback_turn h pb) turns S))"
proof (induction turns arbitrary: k S)
  case (Cons t turns)
  have "run_ok n (Suc k) (loop_view (loopback_turn h pb t S))"
    unfolding loopback_turn_view by (rule engine_turn_ok [OF Cons.prems])
  from Cons.IH [OF this Cons.prems(2)] show ?case by simp
qed simp

lemma lb_shutdown_stats: "stats (engine (fst (lb_shutdown h L W))) = stats (engine W)"
  by (simp add: lb_shutdown_def drop_adapter_def case_prod_unfold Let_def)

text \<open>The loopback scenario accounts for every message, and leaves no subscription in its engine.\<close>

lemma loopback_accounts:
  assumes "host_ok h" "ty_received tally \<noteq> 0"
  shows "\<exists>r snap W'. loopback_scenario h ch args turns W0 tally secs = (Inr r, W') \<and> rp_engine r = Some snap \<and>
    rp_sent r = of_nat (length turns) \<and> snap_published snap = rp_sent r \<and> snap_dropped snap = rp_dropped r \<and>
    snap_delivered snap + snap_dropped snap = rp_sent r \<and>
    subs_of W' (AdapterId ''loop-a'') = {} \<and> subs_of W' (AdapterId ''loop-b'') = {}"
proof -
  let ?b = "new_loopback (AdapterId ''loop-b'')" and ?r = "route_typed ''demo'' ''Ping''"
  let ?W = "W0\<lparr>engine := new_engine\<rparr>" and ?i = "SubId (''lb-'' @ show_nat (unat (1 :: 64 word)))"
  let ?k = "SubscriberKey (AdapterId ''loop-b'') ?i"
  have free: "?k |\<notin>| fmdom (by_key (engine_state new_engine))" by (simp add: new_engine_def empty_state_def)
  obtain eng key where sub: "subscribe new_engine (AdapterId ''loop-b'') ?i ?r ch = Inr (eng, key)"
    using eng.sub_succeeds [OF free] by blast
  have tbl: "by_key (engine_state eng) = fmupd ?k \<lparr>sub_route = ?r, tx = ch\<rparr> fmempty"
    using eng.sub_Inr [OF sub] by (simp add: new_engine_def empty_state_def)
  have inv: "engine_inv (engine_state eng)" using eng.sub_inv [OF new_engine_inv sub] .
  have st: "stats eng = stats new_engine" using sub by (auto simp: subscribe_def res_bind_Inr)
  have lb: "lb_subscribe ?r ch ?b ?W = (Inr (), ?b\<lparr>next_sub := 2\<rparr>, W0\<lparr>engine := eng\<rparr>)"
    using sub by (simp add: lb_subscribe_def new_loopback_def Let_def)
  have "spec_targets (by_key (engine_state eng)) ?r = {|?k|}"
    by (auto simp: tbl spec_targets_def spec_matches_def fmdom_filter fset_eq_iff fmlookup_dom_iff split: option.splits)
  then have card: "fcard (spec_targets (by_key (engine_state eng)) ?r) = 1" by (simp add: fcard.rep_eq)
  let ?S = "\<lparr>lr_world = W0\<lparr>engine := eng\<rparr>, lr_clock = Map.empty, lr_sent = 0, lr_dropped = 0, lr_seq = 0\<rparr>"
  let ?F = "fold (loopback_turn h (sh_payload_bytes (lp_shared args))) turns ?S"
  have "run_ok 1 0 (loop_view ?S)" using inv card st by (simp add: run_ok_def loop_view_def new_engine_def)
  from loopback_turns_ok [OF this, of h turns] assms(1)
  have F: "run_ok 1 (length turns) (loop_view ?F)" by (simp add: host_ok_def)
  have ok: "world_ok (lr_world ?F)" using F by (simp add: run_ok_def loop_view_def world_ok_def)
  let ?W1 = "fst (lb_shutdown h (?b\<lparr>next_sub := 2\<rparr>) (lr_world ?F))"
  let ?W2 = "fst (lb_shutdown h (new_loopback (AdapterId ''loop-a'')) ?W1)"
  have W1: "world_ok ?W1" "subs_of ?W1 (AdapterId ''loop-b'') = {}"
    using lb_shutdown_ok [OF ok assms(1) prod.collapse [symmetric], of "?b\<lparr>next_sub := 2\<rparr>"] by (simp_all add: new_loopback_def)
  have W2: "subs_of ?W2 (AdapterId ''loop-a'') = {}" "subs_of ?W2 (AdapterId ''loop-b'') = {}"
    using lb_shutdown_ok [OF W1(1) assms(1) prod.collapse [symmetric], of "new_loopback (AdapterId ''loop-a'')"] W1(2)
    by (simp_all add: new_loopback_def)
  have "loopback_scenario h ch args turns W0 tally secs = (Inr (finish_report (ty_samples tally) None (of_nat (sh_payload_bytes (lp_shared args)))
      ((blank ''loopback'')\<lparr>rp_sent := lr_sent ?F, rp_received := ty_received tally, rp_dropped := lr_dropped ?F,
         rp_unmatched := ty_unmatched tally, rp_duration_secs := secs,
         rp_engine := Some (engine_snapshot (engine ?W2))\<rparr>)), ?W2)"
    using assms(2) lb by (simp add: loopback_scenario_def Let_def kind_topic_def kind_type_hint_def)
  then show ?thesis
    using F W2 by (simp add: finish_report_def Let_def engine_snapshot_def lb_shutdown_stats run_ok_def loop_view_def)
qed

section \<open>What the OWP scenario counts\<close>

fun is_text :: "ws_out \<Rightarrow> bool" where
  "is_text (TextOut _) = True"
| "is_text (PongOut _) = False"

definition texts_written :: "Sock \<Rightarrow> string list" where
  "texts_written s = map (\<lambda>m. case m of TextOut t \<Rightarrow> t | PongOut p \<Rightarrow> p) (filter is_text (written s))"

lemma texts_written_send:
  "send_text wr t s = (r, s') \<Longrightarrow> texts_written s' = texts_written s @ (case r of Inl _ \<Rightarrow> [] | Inr _ \<Rightarrow> [t])"
  by (auto simp: send_text_def texts_written_def split: option.splits)

lemma texts_written_recv:
  "recv_text wr inc out = (r, s) \<Longrightarrow> filter is_text (written s) = filter is_text out"
  by (induction wr inc out rule: recv_text.induct) (auto split: ws_item.splits option.splits)

lemma texts_written_recv_op: "recv_op sd wr s = (r, s') \<Longrightarrow> texts_written s' = texts_written s"
  by (auto simp: recv_op_def ws_bind_def texts_written_def dest: texts_written_recv split: prod.splits sum.splits)

lemma texts_written_pending:
  "drain_pending sd wr inc out e = (e', s) \<Longrightarrow> filter is_text (written s) = filter is_text out"
  by (induction sd wr inc out e rule: drain_pending.induct) (auto split: ws_item.splits option.splits)

text \<open>One pass writes one frame and counts it, or writes none and counts none. The frame it writes carries
  a number the clock knows, and no number is ever forgotten.\<close>

lemma publish_pass_writes:
  assumes "publish_pass sd wr fixture pr pk pb ack warm t0 an s R = (go, s', R')"
  shows "(texts_written s' = texts_written s \<and> ow_sent R' = ow_sent R \<or>
      (\<exists>seq text. texts_written s' = texts_written s @ [''PUB '' @ kind_topic pk @ '' '' @ text] \<and>
         render fixture pr pk seq pb = Some text \<and> seq \<in> dom (ow_clock R') \<and> ow_sent R' = ow_sent R + 1)) \<and>
    dom (ow_clock R) \<subseteq> dom (ow_clock R')"
proof (cases "render fixture pr pk (unat (ow_next_seq R)) pb")
  case None
  then show ?thesis using assms by (auto simp: publish_pass_def)
next
  case (Some json)
  let ?t = "''PUB '' @ kind_topic pk @ '' '' @ json"
  obtain q s1 where q: "send_text wr ?t s = (q, s1)" by (cases "send_text wr ?t s")
  note w = texts_written_send [OF q]
  show ?thesis
  proof (cases q)
    case (Inl e)
    then show ?thesis using assms Some q w by (auto simp: publish_pass_def clock_stamp_def)
  next
    case (Inr u)
    have same: "texts_written s' = texts_written s1"
      using assms Some q Inr texts_written_recv_op [of sd wr s1] texts_written_pending [of sd wr "incoming s1" "written s1"]
      by (auto simp: publish_pass_def Let_def texts_written_def split: if_splits prod.splits sum.splits ServerOp.splits)
    have "ow_sent R' = ow_sent R + 1 \<and> ow_clock R' = clock_stamp t0 (unat (ow_next_seq R)) (ow_clock R)"
      using assms Some q Inr
      by (auto simp: publish_pass_def Let_def split: if_splits prod.splits sum.splits ServerOp.splits)
    then show ?thesis using same w Inr Some by (auto simp: clock_stamp_def)
  qed
qed

lemma subscriber_pass_keeps:
  "subscriber_pass ps warm t0 r R = (go, R') \<Longrightarrow> ow_sent R' = ow_sent R \<and> ow_clock R' = ow_clock R"
  by (auto simp: subscriber_pass_def split: option.splits sum.splits ServerOp.splits)

text \<open>What the publishers have written since a run began: for each its own new frames, all of them PUBs with
  a rendered payload whose number the clock knows, and as many in all as the run has counted.\<close>

definition pub_of :: "OwpArgs \<Rightarrow> Value \<Rightarrow> (Value \<Rightarrow> string + string) \<Rightarrow> nat \<Rightarrow> string \<Rightarrow> bool" where
  "pub_of args fixture pr seq t \<longleftrightarrow>
     (let pk = (if ob_xml_baseline args then PositionReportKind else PingKind)
      in \<exists>json. render fixture pr pk seq (sh_payload_bytes (ob_shared args)) = Some json \<and>
           t = ''PUB '' @ kind_topic pk @ '' '' @ json)"

definition run_written :: "OwpArgs \<Rightarrow> Value \<Rightarrow> (Value \<Rightarrow> string + string) \<Rightarrow> nat \<Rightarrow> OwpTasks \<Rightarrow> OwpTasks \<Rightarrow> (nat \<Rightarrow> string list) \<Rightarrow> bool" where
  "run_written args fixture pr n T T' new \<longleftrightarrow>
     (\<forall>j. texts_written (ot_socks T' j) = texts_written (ot_socks T j) @ new j) \<and>
     ow_sent (ot_run T') = ow_sent (ot_run T) + of_nat (\<Sum>j < n. length (new j)) \<and>
     (\<forall>j. \<forall>t \<in> set (new j). \<exists>seq \<in> dom (ow_clock (ot_run T')). pub_of args fixture pr seq t) \<and>
     dom (ow_clock (ot_run T)) \<subseteq> dom (ow_clock (ot_run T')) \<and>
     (\<forall>j. ot_publishing T' j \<longrightarrow> ot_publishing T j)"

lemma run_written_refl: "run_written args fixture pr n T T (\<lambda>_. [])"
  by (simp add: run_written_def)

lemma run_written_trans:
  assumes "run_written args fixture pr n T T1 new1" "run_written args fixture pr n T1 T2 new2"
  shows "run_written args fixture pr n T T2 (\<lambda>j. new1 j @ new2 j)"
proof -
  have "\<exists>seq \<in> dom (ow_clock (ot_run T2)). pub_of args fixture pr seq t" if "t \<in> set (new1 j @ new2 j)" for j t
    using assms that unfolding run_written_def set_append Un_iff by (meson subsetD)
  moreover have "dom (ow_clock (ot_run T)) \<subseteq> dom (ow_clock (ot_run T2))"
    using assms unfolding run_written_def by (meson subset_trans)
  ultimately show ?thesis
    using assms unfolding run_written_def by (simp add: sum.distrib add.assoc)
qed

lemma take_turn_written:
  assumes "\<And>j. ot_publishing T j \<Longrightarrow> j < n"
  shows "\<exists>new. run_written args fixture pr n T (take_turn sd wr ps pr fixture args t T) new"
proof (cases "\<exists>j t0 an. t = PubTurn j t0 an \<and> ot_publishing T j")
  case True
  then obtain j t0 an where j: "t = PubTurn j t0 an" "ot_publishing T j" by blast
  let ?pk = "if ob_xml_baseline args then PositionReportKind else PingKind" and ?pb = "sh_payload_bytes (ob_shared args)"
  obtain go s R where p: "publish_pass sd (wr j) fixture pr ?pk ?pb (ob_ack_latency args) (of_nat (sh_warmup (ob_shared args))) t0 an
      (ot_socks T j) (ot_run T) = (go, s, R)" by (metis prod_cases3)
  have T': "take_turn sd wr ps pr fixture args t T =
      T\<lparr>ot_run := R, ot_socks := (ot_socks T)(j := s), ot_publishing := (ot_publishing T)(j := go)\<rparr>"
    using j p by (simp add: take_turn_def Let_def)
  show ?thesis
  proof (cases "texts_written s = texts_written (ot_socks T j) \<and> ow_sent R = ow_sent (ot_run T)")
    case True
    then show ?thesis
      using publish_pass_writes [OF p] j(2) unfolding T' by (intro exI [where x = "\<lambda>_. []"]) (simp add: run_written_def)
  next
    case False
    then obtain seq json where w: "texts_written s = texts_written (ot_socks T j) @ [''PUB '' @ kind_topic ?pk @ '' '' @ json]"
        "render fixture pr ?pk seq ?pb = Some json" "seq \<in> dom (ow_clock R)" "ow_sent R = ow_sent (ot_run T) + 1"
        "dom (ow_clock (ot_run T)) \<subseteq> dom (ow_clock R)"
      using publish_pass_writes [OF p] by blast
    let ?new = "\<lambda>i. if i = j then [''PUB '' @ kind_topic ?pk @ '' '' @ json] else []"
    have "(\<Sum>i < n. length (?new i)) = (\<Sum>i < n. if i = j then 1 else 0)" by (rule sum.cong) auto
    also have "\<dots> = 1" using assms [OF j(2)] by (simp add: sum.delta)
    finally have sum: "(\<Sum>i < n. length (?new i)) = 1" .
    have "pub_of args fixture pr seq (''PUB '' @ kind_topic ?pk @ '' '' @ json)"
      unfolding pub_of_def Let_def using w(2) by blast
    then have "run_written args fixture pr n T (T\<lparr>ot_run := R, ot_socks := (ot_socks T)(j := s), ot_publishing := (ot_publishing T)(j := go)\<rparr>) ?new"
      using w(1,3-5) j(2) unfolding run_written_def sum by auto
    then show ?thesis unfolding T' by blast
  qed
next
  case False
  then show ?thesis
    by (intro exI [where x = "\<lambda>_. []"], cases t)
      (auto simp: take_turn_def run_written_def Let_def dest: subscriber_pass_keeps split: prod.splits)
qed

lemma turns_written:
  assumes "\<And>j. ot_publishing T j \<Longrightarrow> j < n"
  shows "\<exists>new. run_written args fixture pr n T (fold (take_turn sd wr ps pr fixture args) turns T) new"
  using assms
proof (induction turns arbitrary: T)
  case Nil
  show ?case using run_written_refl [of args fixture pr n T] by (auto intro: exI [where x = "\<lambda>_. []"])
next
  case (Cons t turns)
  let ?T = "take_turn sd wr ps pr fixture args t T"
  obtain new1 where n1: "run_written args fixture pr n T ?T new1" using take_turn_written [OF Cons.prems] by blast
  have "ot_publishing ?T j \<Longrightarrow> j < n" for j using n1 Cons.prems by (auto simp: run_written_def)
  from Cons.IH [OF this] obtain new2 where
    n2: "run_written args fixture pr n ?T (fold (take_turn sd wr ps pr fixture args) turns ?T) new2" by blast
  show ?case using run_written_trans [OF n1 n2] by auto
qed

text \<open>The clock is stamped before the frame is written, so no message of the run itself is ever counted as
  unmatched, however early it comes back: a payload whose number the clock knows adds to the received
  messages only.\<close>

lemma take_payload_matched:
  assumes "parse_seq ps p = Some seq" "seq \<in> dom c"
  shows "ty_unmatched (take_payload ps warm c t0 p t) = ty_unmatched t \<and> ty_received (take_payload ps warm c t0 p t) = ty_received t + 1"
  using assms by (auto simp: take_payload_def Let_def split: option.splits)

lemma owp_baseline_matched:
  assumes "run_written args fixture pr n T T' new" "m \<in> set (new j)" "ob_xml_baseline args"
    and "\<And>v. serde_reproduces ps pr v" "json_get fixture ''Ping'' = None" "json_exact SERDE_DEPTH fixture"
    and "\<And>k. k \<in> dom (ow_clock (ot_run T')) \<Longrightarrow> k < 2 ^ 64"
  shows "\<exists>p. m = ''PUB PositionReport '' @ p \<and> ty_unmatched (take_payload ps warm (ow_clock (ot_run T')) t0 p t) = ty_unmatched t"
proof -
  obtain seq where seq: "seq \<in> dom (ow_clock (ot_run T'))" "pub_of args fixture pr seq m"
    using assms(1,2) unfolding run_written_def by meson
  then obtain json where w: "m = ''PUB PositionReport '' @ json"
      "render fixture pr PositionReportKind seq (sh_payload_bytes (ob_shared args)) = Some json"
    using assms(3) by (auto simp: pub_of_def kind_topic_def)
  show ?thesis using take_payload_matched [OF position_report_seq [OF w(2) assms(4-6) assms(7) [OF seq(1)]] seq(1)] w(1) by blast
qed

text \<open>The report's sent count is the number of PUB frames the publishers wrote.\<close>

lemma owp_scenario_counts:
  assumes "owp_scenario sd swr wr ps pr fixture sub_conn pub_conn args turns eng secs = Inr r"
  shows "\<exists>T T' new. T' = fold (take_turn sd wr ps pr fixture args) turns T \<and> ot_run T = new_owp_run \<and>
    run_written args fixture pr (ob_publishers args) T T' new \<and>
    rp_sent r = of_nat (\<Sum>j < ob_publishers args. length (new j)) \<and> rp_errors r = ow_errors (ot_run T') \<and>
    rp_received r = ty_received (ow_tally (ot_run T')) \<and> rp_received r \<noteq> 0"
proof -
  have len: "start_all f is = Inr ss \<Longrightarrow> length ss = length is" for f "is" ss
    by (induction "is" arbitrary: ss) (auto simp: res_elims)
  obtain subs pubs where pubs: "start_all (\<lambda>j. start_publisher sd (wr j) (ob_ack_latency args) (pub_conn j)) [0 ..< ob_publishers args] = Inr pubs"
    and r: "let T' = fold (take_turn sd wr ps pr fixture args) turns
        \<lparr>ot_run = new_owp_run, ot_socks = (\<lambda>j. pubs ! j), ot_publishing = (\<lambda>j. j < length pubs), ot_reading = (\<lambda>i. i < length (subs :: Sock list))\<rparr>
      in rp_sent r = ow_sent (ot_run T') \<and> rp_errors r = ow_errors (ot_run T') \<and>
        rp_received r = ty_received (ow_tally (ot_run T')) \<and> rp_received r \<noteq> 0"
    using assms by (auto simp: owp_scenario_def Let_def res_elims finish_report_def split: if_splits)
  let ?T = "\<lparr>ot_run = new_owp_run, ot_socks = (\<lambda>j. pubs ! j), ot_publishing = (\<lambda>j. j < length pubs), ot_reading = (\<lambda>i. i < length subs)\<rparr>"
  have "ot_publishing ?T j \<Longrightarrow> j < ob_publishers args" for j using len [OF pubs] by simp
  from turns_written [OF this] obtain new where
    "run_written args fixture pr (ob_publishers args) ?T (fold (take_turn sd wr ps pr fixture args) turns ?T) new" by blast
  moreover from this have "ow_sent (ot_run (fold (take_turn sd wr ps pr fixture args) turns ?T)) = of_nat (\<Sum>j < ob_publishers args. length (new j))"
    unfolding run_written_def by (simp add: new_owp_run_def)
  moreover have "ot_run ?T = new_owp_run" by simp
  ultimately show ?thesis using r unfolding Let_def by metis
qed

section \<open>Output\<close>

text \<open>The engine and the loopback scenario count a delivery as the OWP scenario counts its payload.\<close>

lemma take_delivery_payload: "take_delivery ps warm c t0 d t = take_payload ps warm c t0 (payload (del_envelope d)) t"
  by (simp add: take_delivery_def take_payload_def Let_def)

text \<open>The run fails after its summary is printed exactly when a file is asked for and cannot be serialized,
  given a directory, or written.\<close>

lemma emit_ok_iff:
  "snd (emit L pretty path r) = Inr () \<longleftrightarrow>
     (\<forall>p. path = Some p \<longrightarrow> (\<exists>j. pretty = Inr j \<and> rl_write L p j = Inr () \<and>
        (\<forall>d. rl_parent L p = Some d \<longrightarrow> d \<noteq> [] \<longrightarrow> rl_create_dir_all L d = Inr ())))"
  by (auto simp: emit_def res_elims split: option.splits)

end
