(* ===== verification/Test_Support.thy ===== *)
theory Test_Support
  imports Dds_Adapter Adapter_Tls Bench_Client Owp_Session_Laws
begin

text \<open>
  The servers and clients of \<open>oa-gateway-testing/src\<close> besides the broker: the OWP server that the tests
  and the load generator embed (\<open>owp.rs\<close>) with its panicking client, the DDS adapter's test configuration
  (\<open>dds.rs\<close>), the certificates (\<open>tls.rs\<close>) and the message marker (\<open>util.rs\<close>). A panic is \<open>None\<close>. The last
  section runs the load generator's ping against a session of the embedded server.
\<close>

section \<open>The embedded OWP server\<close>

definition start_owp_config :: "string \<Rightarrow> string \<Rightarrow> (OwpConfig \<Rightarrow> OwpConfig) \<Rightarrow> OwpConfig" where
  "start_owp_config uuid addr edit =
     edit ((default_owp_config uuid)\<lparr>owp_bind := addr, server_id := ''oa-gateway-test'', system_label := ''test'',
       init_schema_required := Some ''002.5.0'', system_uuid := ''11111111-1111-4111-8111-111111111111''\<rparr>)"

definition start_owp_session :: "Schema \<Rightarrow> nat \<Rightarrow> OwpConfig \<Rightarrow> Session" where
  "start_owp_session schema n cfg =
     \<lparr>session_adapter = AdapterId ''owp-test'', session_config = cfg, session_schema = Some schema, conn_id = n\<rparr>"

definition start_owp_url :: "bool \<Rightarrow> string \<Rightarrow> string" where
  "start_owp_url tls addr = (if tls then ''wss://'' else ''ws://'') @ addr @ ''/''"

section \<open>Its client\<close>

definition test_send_text :: "writer \<Rightarrow> string \<Rightarrow> Sock \<Rightarrow> Sock option" where
  "test_send_text wr frame s =
     (case wr (written s) of Some _ \<Rightarrow> None | None \<Rightarrow> Some (s\<lparr>written := written s @ [TextOut frame]\<rparr>))"

fun test_recv_text :: "writer \<Rightarrow> ws_item list \<Rightarrow> ws_out list \<Rightarrow> (string \<times> Sock) option" where
  "test_recv_text wr [] out = None"
| "test_recv_text wr (i # inc) out =
     (case i of
        ws_item.WsText t \<Rightarrow> Some (t, \<lparr>incoming = inc, written = out\<rparr>)
      | WsPing p \<Rightarrow> (case wr out of Some _ \<Rightarrow> None | None \<Rightarrow> test_recv_text wr inc (out @ [PongOut p]))
      | _ \<Rightarrow> None)"

definition test_init_frame :: string where
  "test_init_frame =
     (let q = (\<lambda>s. [CHR 0x22] @ s @ [CHR 0x22])
      in ''INIT {'' @ q ''versions'' @ '':['' @ q ''1.0'' @ ''],'' @ q ''schema'' @ '':'' @ q ''002.5.0'' @ '','' @
         q ''service_id'' @ '':'' @ q ''web-app'' @ '','' @ q ''verbose'' @ '':true}'')"

definition test_handshake :: "OwpSerde \<Rightarrow> writer \<Rightarrow> Sock \<Rightarrow> Sock option" where
  "test_handshake sd wr s =
     Option.bind (test_send_text wr test_init_frame s) (\<lambda>s1.
     Option.bind (test_recv_text wr (incoming s1) (written s1)) (\<lambda>(a, s2).
     if parse_server sd a \<noteq> Inr OkOp then None
     else Option.bind (test_recv_text wr (incoming s2) (written s2)) (\<lambda>(b, s3).
       case parse_server sd b of Inr (InfoOp _) \<Rightarrow> Some s3 | _ \<Rightarrow> None)))"

section \<open>Certificates\<close>

record TestCerts =
  cert_pem :: bytes
  key_pem :: bytes

definition result_or_panic :: "string + 'a \<Rightarrow> 'a option" where
  "result_or_panic r = (case r of Inl _ \<Rightarrow> None | Inr x \<Rightarrow> Some x)"

definition test_server_tls :: "TlsLib \<Rightarrow> TestCerts \<Rightarrow> ServerTls option" where
  "test_server_tls L c = result_or_panic (server_tls_from_pem L ''test'' (cert_pem c) (key_pem c) None)"

definition test_client_tls :: "TlsLib \<Rightarrow> TestCerts \<Rightarrow> string \<Rightarrow> ClientTls option" where
  "test_client_tls L c server_name =
     result_or_panic (client_tls_from_pem L ''test'' (Some (cert_pem c)) server_name None None)"

definition server_tls_with_client_ca :: "TlsLib \<Rightarrow> TestCerts \<Rightarrow> bytes \<Rightarrow> ServerTls option" where
  "server_tls_with_client_ca L c ca_cert_pem =
     result_or_panic (server_tls_from_pem L ''test'' (cert_pem c) (key_pem c) (Some ca_cert_pem))"

definition client_tls_with_client_cert :: "TlsLib \<Rightarrow> TestCerts \<Rightarrow> string \<Rightarrow> TestCerts \<Rightarrow> ClientTls option" where
  "client_tls_with_client_cert L c server_name client_certs =
     result_or_panic (client_tls_from_pem L ''test'' (Some (cert_pem c)) server_name
       (Some (cert_pem client_certs)) (Some (key_pem client_certs)))"

section \<open>The DDS adapter\<close>

definition start_dds_config :: "string \<Rightarrow> Schema \<Rightarrow> nat \<Rightarrow> string list \<Rightarrow> (DdsConfig \<Rightarrow> DdsConfig) \<Rightarrow> DdsConfig" where
  "start_dds_config shipped_qos_path fixture_schema d ts edit =
     edit (default_dds_config\<lparr>dds_provider := Rustdds, domain_id := d, qos := shipped_qos_path, dds_topics := ts,
       dds_unwrap_ma_payloads := True, dds_suppress_echo := True, dds_schema := Some fixture_schema\<rparr>)"

section \<open>Marked messages\<close>

text \<open>\<open>str::replace\<close> for a pattern that is not empty.\<close>

fun str_replace :: "char \<Rightarrow> string \<Rightarrow> string \<Rightarrow> string \<Rightarrow> string" where
  "str_replace p ps new [] = []"
| "str_replace p ps new (c # s) =
     (if prefix (p # ps) (c # s) then new @ str_replace p ps new (drop (length ps) s)
      else c # str_replace p ps new s)"

definition xml_marked :: "string \<Rightarrow> string \<Rightarrow> string" where
  "xml_marked template tok = str_replace (CHR ''<'') ''n>1</n>'' (''<n>'' @ tok @ ''</n>'') template"

section \<open>What the helpers give\<close>

text \<open>A listener built with a client authority always asks for a client certificate.\<close>

lemma client_ca_is_asked_for:
  assumes "server_tls_with_client_ca L c ca = Some t"
  shows "presented t \<noteq> [] \<and> (\<exists>r rs. client_roots t = Some (r # rs))"
  using assms
  by (auto simp: server_tls_with_client_ca_def result_or_panic_def server_tls_from_pem_def res_elims neq_Nil_conv
      split: sum.splits if_splits dest!: root_store_nonempty)

lemma str_replace_absent:
  assumes "\<And>pre post. s \<noteq> pre @ (p # ps) @ post"
  shows "str_replace p ps new s = s"
  using assms
proof (induction s)
  case (Cons c s)
  have "\<not> prefix (p # ps) (c # s)" using Cons.prems [of "[]"] by (auto simp: prefix_def)
  moreover have "s \<noteq> pre @ (p # ps) @ post" for pre post using Cons.prems [of "c # pre" post] by simp
  ultimately show ?case using Cons.IH by auto
qed simp

text \<open>The panicking client gets through its handshake when it is answered with an OK and an INFO.\<close>

lemma test_handshake_ok:
  assumes "parse_server sd a = Inr OkOp" "parse_server sd b = Inr (InfoOp i)"
  shows "test_handshake sd always \<lparr>incoming = [ws_item.WsText a, ws_item.WsText b], written = []\<rparr> =
    Some \<lparr>incoming = [], written = [TextOut test_init_frame]\<rparr>"
  using assms by (simp add: test_handshake_def test_send_text_def always_def)

section \<open>A ping through the embedded server\<close>

definition PING_JSON :: string where
  "PING_JSON = ''{'' @ [CHR 0x22] @ ''Ping'' @ [CHR 0x22] @ '':{'' @ [CHR 0x22] @ ''n'' @ [CHR 0x22] @ '':1}}''"

definition PING_SUB :: string where
  "PING_SUB = ''SUB '' @ PING_SID @ '' '' @ ''Ping'' @ '' '' @ ''demo''"

lemma ping_json_text: "line PING_JSON" "utf8_valid PING_JSON" "\<not> looks_like_xml PING_JSON" "trim_start PING_JSON = PING_JSON"
  "prefix ''{'' PING_JSON"
  by (simp_all add: PING_JSON_def line_def is_delim_def byte_def looks_like_xml_def trim_start_def strip_any.simps unicode_ws_def)

text \<open>What is relied on of \<open>serde\<close>: it reads the INIT of the load generator and the payload of a ping, and
  an INFO it prints is read back.\<close>

definition bench_init :: InitPayload where
  "bench_init = \<lparr>versions = [''1.0''], init_schema = ''002.5.0'', init_verbose = Some True, init_service_id = ''bench''\<rparr>"

definition serves_ping :: "'w OwpLib \<Rightarrow> OwpConfig \<Rightarrow> bool" where
  "serves_ping L cfg \<longleftrightarrow>
     init_from_str (serde L) (drop 5 (init_frame True)) = Inr bench_init \<and>
     (\<exists>j. info_to_string (serde L) (info_payload L cfg bench_init) = Inr j \<and> line j \<and>
        info_from_str (serde L) j = Inr (info_payload L cfg bench_init)) \<and>
     (\<exists>v. json_parse (host L) PING_JSON = Inr (JObject [(''Ping'', v)]))"

text \<open>What is relied on of \<open>tokio\<close>: a new channel is empty, open and nobody else's, and what is received from
  a channel is what is queued on it, in order.\<close>

definition opens_channels ::
  "'w OwpLib \<Rightarrow> ('w \<Rightarrow> chan \<Rightarrow> Delivery list) \<Rightarrow> ('w \<Rightarrow> chan \<Rightarrow> nat) \<Rightarrow> ('w \<Rightarrow> chan \<Rightarrow> bool) \<Rightarrow> 'w World \<Rightarrow> bool" where
  "opens_channels L queue capacity shut W \<longleftrightarrow>
     (\<forall>c w. open_chan L (chans W) = (c, w) \<longrightarrow> queue w c = [] \<and> 0 < chan_room queue capacity shut w c \<and>
        (\<forall>k s. fmlookup (by_key (engine_state (engine W))) k = Some s \<longrightarrow> tx s \<noteq> c)) \<and>
     (\<forall>w c. recv_chan L w c = None \<longleftrightarrow> queue w c = []) \<and>
     (\<forall>w c d w'. recv_chan L w c = Some (d, w') \<longrightarrow> queue w c = d # queue w' c)"

definition conn_at :: "SessionState \<Rightarrow> (string, LiveSub) fmap \<Rightarrow> ServerOp list \<Rightarrow> WsMessage list \<Rightarrow> Conn \<Rightarrow> bool" where
  "conn_at st sm q ws C \<longleftrightarrow> phase C = Running \<and> sess_state C = st \<and> subs C = sm \<and> outq C = q \<and> wire C = ws"

lemma parse_init_frame:
  assumes "serves_ping L cfg"
  shows "parse_client (serde L) (init_frame True) = Inr (Init bench_init)"
proof -
  let ?j = "drop 5 (init_frame True)"
  have eq: "init_frame True = ''INIT'' @ SPACE # ?j" by (simp add: init_frame_def Let_def)
  have "line ?j" by (simp add: init_frame_def Let_def line_def is_delim_def)
  moreover have "?j \<noteq> []" by (simp add: init_frame_def Let_def)
  moreover have "is_identifier ''bench''" by code_simp
  ultimately have "parse_client (serde L) (''INIT'' @ SPACE # ?j) = Inr (Init bench_init)"
    using parse_client_frame [OF keyword_tokens(8), of ?j "serde L"] assms
    by (simp add: parse_init_def serves_ping_def) (simp add: bench_init_def)
  then show ?thesis using eq by metis
qed

lemma parse_ping_frames:
  "parse_client sd PING_SUB = Inr (Sub PING_SID ''Ping'' ''demo'' None)" "parse_client sd PING_PUB = Inr (Pub ''demo'' PING_JSON)"
proof -
  have id: "is_identifier PING_SID" "is_identifier ''demo''" "token ''Ping''" by code_simp+
  show "parse_client sd PING_SUB = Inr (Sub PING_SID ''Ping'' ''demo'' None)"
    by (rule parse_client_text) (simp_all add: client_op_ok_def client_text_def PING_SUB_def id)
  show "parse_client sd PING_PUB = Inr (Pub ''demo'' PING_JSON)"
    by (rule parse_client_text) (simp_all add: client_op_ok_def client_text_def id ping_json_text, simp add: PING_PUB_def PING_JSON_def)
qed

lemma step_init:
  assumes "serves_ping L cfg" "conn_at AwaitingInit fmempty [] [] C" "init_schema_required (session_config S) = Some ''002.5.0''"
  shows "\<exists>C'. sess_step L S now (Incoming (Some (TextFrame (init_frame True)))) (C, W) = Some (C', W) \<and>
    conn_at (Active True ''bench'') fmempty [OkOp, InfoOp (info_payload L (session_config S) bench_init)] [] C'"
  using assms(2,3) parse_init_frame [OF assms(1)]
  by (simp add: bench_init_def conn_at_def sess_step_def handle_frame_ws_def handle_text_def handle_init_def negotiate_def OWP_VERSION_def
      send_ok_def send_def settle_def DEFAULT_CHANNEL_CAPACITY_def Let_def)

lemma filter_only:
  "distinct xs \<Longrightarrow> x \<in> set xs \<Longrightarrow> (\<And>y. y \<in> set xs \<Longrightarrow> P y \<longleftrightarrow> y = x) \<Longrightarrow> filter P xs = [x]"
proof (induction xs)
  case (Cons a xs)
  show ?case
  proof (cases "a = x")
    case True
    then have "filter P xs = []" using Cons.prems by (auto simp: filter_empty_conv)
    then show ?thesis using Cons.prems True by simp
  next
    case False
    then show ?thesis using Cons by auto
  qed
qed simp

lemma spec_targets_iff: "k |\<in>| spec_targets tb r \<longleftrightarrow> (\<exists>s. fmlookup tb k = Some s \<and> spec_matches (sub_route s) r)"
  by (auto simp: spec_targets_def fmlookup_dom_iff split: option.splits if_splits)

text \<open>The subscription of the ping: one more in the table, alone on its channel.\<close>

lemma step_sub:
  assumes "conn_at (Active True ''bench'') fmempty q ws C" "length q < DEFAULT_CHANNEL_CAPACITY"
    and "0 < max_subscriptions (session_config S)" "subs_of W (session_adapter S) = {}" "world_ok W" "host_ok (host L)"
    and "opens_channels L queue capacity shut W"
  shows "\<exists>C' W' l c. sess_step L S now (Incoming (Some (TextFrame PING_SUB))) (C, W) = Some (C', W') \<and>
    conn_at (Active True ''bench'') (fmupd PING_SID l fmempty) (q @ [OkOp]) ws C' \<and>
    local_sid (forwarder l) = PING_SID \<and> held (forwarder l) = [] \<and> rx (forwarder l) = c \<and> world_ok W' \<and>
    spec_share (key_order (host L)) (by_key (engine_state (engine W'))) (route_typed ''demo'' ''Ping'') c =
      [SubscriberKey (session_adapter S) (engine_sub_id S PING_SID)] \<and>
    queue (chans W') c = [] \<and> 0 < chan_room queue capacity shut (chans W') c"
proof -
  obtain c w where oc: "open_chan L (chans W) = (c, w)" by (cases "open_chan L (chans W)")
  have fresh: "queue w c = []" "0 < chan_room queue capacity shut w c"
    "\<And>k s. fmlookup (by_key (engine_state (engine W))) k = Some s \<Longrightarrow> tx s \<noteq> c"
    using assms(7) oc by (auto simp: opens_channels_def)
  let ?k = "SubscriberKey (session_adapter S) (engine_sub_id S PING_SID)" and ?r = "route_typed ''demo'' ''Ping''"
  have free: "?k |\<notin>| fmdom (by_key (engine_state (engine W)))" using assms(4) by (auto simp: subs_of_def)
  obtain eng key where sub: "subscribe (engine W) (session_adapter S) (engine_sub_id S PING_SID) ?r c = Inr (eng, key)"
    using eng.sub_succeeds [OF free] by blast
  have tbl: "by_key (engine_state eng) = fmupd ?k \<lparr>sub_route = ?r, tx = c\<rparr> (by_key (engine_state (engine W)))"
    using eng.sub_Inr [OF sub] by blast
  let ?W = "W\<lparr>engine := eng, chans := w\<rparr>"
  have ok: "world_ok ?W" using eng.sub_inv [OF _ sub] assms(5) by (simp add: world_ok_def)
  have ord: "set (key_order (host L) X) = fset X" "distinct (key_order (host L) X)" for X
    using assms(6) by (auto simp: host_ok_def hash_order_def) (metis fset_of_list.rep_eq)+
  have share: "spec_share (key_order (host L)) (by_key (engine_state eng)) ?r c = [?k]"
    unfolding spec_share_def
  proof (rule filter_only [OF ord(2)])
    show "?k \<in> set (key_order (host L) (spec_targets (by_key (engine_state eng)) ?r))"
      by (simp add: ord spec_targets_iff tbl spec_matches_def)
    show "tx (the (fmlookup (by_key (engine_state eng)) k)) = c \<longleftrightarrow> k = ?k"
      if "k \<in> set (key_order (host L) (spec_targets (by_key (engine_state eng)) ?r))" for k
      using that fresh(3) [of k] by (auto simp: ord spec_targets_iff tbl split: if_splits)
  qed
  let ?l = "\<lparr>engine_sub = engine_sub_id S PING_SID, forwarder = \<lparr>local_sid = PING_SID, rx = c, logged = False, logged_invalid = False,
      logged_conversion_invalid = False, held = []\<rparr>\<rparr>"
  let ?C = "C\<lparr>last_frame := now, subs := fmupd PING_SID ?l fmempty, outq := q @ [OkOp]\<rparr>"
  have "sess_step L S now (Incoming (Some (TextFrame PING_SUB))) (C, W) = Some (?C, ?W)"
    using assms(1-3) parse_ping_frames(1) [of "serde L"] oc sub
    by (simp add: conn_at_def sess_step_def handle_frame_ws_def handle_text_def handle_sub_def send_ok_def send_def settle_def fcard_fempty)
  moreover have "conn_at (Active True ''bench'') (fmupd PING_SID ?l fmempty) (q @ [OkOp]) ws ?C"
    using assms(1) by (simp add: conn_at_def)
  ultimately show ?thesis
    using ok share fresh(1,2)
    by (intro exI [where x = ?C] exI [where x = ?W] exI [where x = ?l] exI [where x = c]) simp
qed

text \<open>The PUB of the ping is published as it is, whatever the validator says of it in its warning mode.\<close>

lemma ping_published:
  assumes "serves_ping L cfg" "xml_baseline (session_config S) = False" "validate_mode (session_config S) = Warn"
  shows "\<exists>C' e. publish_owp L S ''bench'' ''demo'' PING_JSON (C, W) = (Inr (), C', publish_one (host L) e (W\<lparr>drawn := drawn W + 1\<rparr>)) \<and>
    payload e = PING_JSON \<and> route e = route_typed ''demo'' ''Ping'' \<and>
    (\<forall>st sm q ws. conn_at st sm q ws C \<longrightarrow> conn_at st sm q ws C')"
proof -
  obtain v where v: "json_parse (host L) PING_JSON = Inr (JObject [(''Ping'', v)])" using assms(1) by (auto simp: serves_ping_def)
  have "wrapper_kind (json_parse (host L)) (xml_parse (host L)) PING_JSON = None"
    using v ping_json_text
    by (simp add: wrapper_kind_def single_key_def as_object_def from_element_def RX_ELEMENT_def TX_ELEMENT_def)
  then have out: "outgoing_envelopes L S W ''demo'' PING_JSON =
      Inr ([with_content_type ct_json (new_envelope (fresh_id (host L) W 0) (route_typed ''demo'' ''Ping'') PING_JSON)], 1)"
    using v ping_json_text(3) by (simp add: outgoing_envelopes_def Let_def type_hint_from_json_def as_object_def)
  let ?e = "owp_stamp S ''bench'' (with_content_type ct_json (new_envelope (fresh_id (host L) W 0) (route_typed ''demo'' ''Ping'') PING_JSON))"
  obtain wn lg where prep: "prepare L S ''bench'' [with_content_type ct_json (new_envelope (fresh_id (host L) W 0) (route_typed ''demo'' ''Ping'') PING_JSON)]
      (route_warnings C, olog C) = (Inr [?e], wn, lg)"
    using assms(2,3) by (simp add: to_baseline_def Let_def) (metis surj_pair)
  obtain wn' lg' W' where pub: "publish_ready L [?e] (wn, lg) (W\<lparr>drawn := drawn W + 1\<rparr>) = ((wn', lg'), W')"
    by (metis prod.collapse)
  have "W' = publish_one (host L) ?e (W\<lparr>drawn := drawn W + 1\<rparr>)"
    using publish_ready_world [OF pub] by (simp add: publish_all_def)
  then have "publish_owp L S ''bench'' ''demo'' PING_JSON (C, W) =
      (Inr (), C\<lparr>route_warnings := wn', olog := lg'\<rparr>, publish_one (host L) ?e (W\<lparr>drawn := drawn W + 1\<rparr>))"
    using out prep pub by (simp add: publish_owp_def)
  then show ?thesis
    by (intro exI [where x = "C\<lparr>route_warnings := wn', olog := lg'\<rparr>"] exI [where x = ?e])
      (simp add: conn_at_def owp_stamp_def)
qed

lemma step_pub:
  assumes "serves_ping L cfg" "xml_baseline (session_config S) = False" "validate_mode (session_config S) = Warn"
    and "conn_at (Active True ''bench'') sm q ws C" "length q < DEFAULT_CHANNEL_CAPACITY"
  shows "\<exists>C' e. sess_step L S now (Incoming (Some (TextFrame PING_PUB))) (C, W) =
      Some (C', publish_one (host L) e (W\<lparr>drawn := drawn W + 1\<rparr>)) \<and>
    payload e = PING_JSON \<and> route e = route_typed ''demo'' ''Ping'' \<and> conn_at (Active True ''bench'') sm (q @ [OkOp]) ws C'"
proof -
  obtain C1 e where p: "publish_owp L S ''bench'' ''demo'' PING_JSON (C\<lparr>last_frame := now\<rparr>, W) =
      (Inr (), C1, publish_one (host L) e (W\<lparr>drawn := drawn W + 1\<rparr>))" "payload e = PING_JSON" "route e = route_typed ''demo'' ''Ping''"
      "\<forall>st sm q ws. conn_at st sm q ws (C\<lparr>last_frame := now\<rparr>) \<longrightarrow> conn_at st sm q ws C1"
    using ping_published [OF assms(1-3)] by blast
  have C1: "conn_at (Active True ''bench'') sm q ws C1" using assms(4) p(4) by (simp add: conn_at_def)
  then have "sess_step L S now (Incoming (Some (TextFrame PING_PUB))) (C, W) =
      Some (C1\<lparr>outq := q @ [OkOp]\<rparr>, publish_one (host L) e (W\<lparr>drawn := drawn W + 1\<rparr>))"
    using assms(4,5) p(1) parse_ping_frames(2) [of "serde L"]
    by (simp add: conn_at_def sess_step_def handle_frame_ws_def handle_text_def handle_pub_def send_ok_def send_def settle_def)
  then show ?thesis
    using C1 p(2,3) by (intro exI [where x = "C1\<lparr>outq := q @ [OkOp]\<rparr>"] exI [where x = e]) (simp add: conn_at_def)
qed

lemma fmupd_again: "fmupd k v (fmupd k w m) = fmupd k v m"
  by (rule fmap_ext) simp

lemma deliver_take:
  assumes "conn_at st (fmupd PING_SID l fmempty) q ws C" "held (forwarder l) = []"
    and "recv_chan L (chans W) (rx (forwarder l)) = Some (d, w)" "payload (del_envelope d) = PING_JSON"
    and "local_sid (forwarder l) = PING_SID"
    and "xml_baseline (session_config S) = False" "validate_mode (session_config S) = Warn"
  shows "\<exists>C' l'. sess_step L S now (Deliver PING_SID) (C, W) = Some (C', W\<lparr>chans := w\<rparr>) \<and>
    conn_at st (fmupd PING_SID l' fmempty) q ws C' \<and> local_sid (forwarder l') = PING_SID \<and>
    rx (forwarder l') = rx (forwarder l) \<and> held (forwarder l') = [MsgOp PING_SID PING_JSON]"
proof -
  have "\<exists>F lg. forward_one (codecs L) S True d (forwarder l) = (F, [MsgOp PING_SID PING_JSON], lg, True)"
    using assms(4-7) ping_json_text(2)
    by (simp add: forward_one_def handle_violations_def forward_msg_def Let_def split: prod.splits)
  then obtain F lg where F: "forward_one (codecs L) S True d (forwarder l) = (F, [MsgOp PING_SID PING_JSON], lg, True)" by blast
  then show ?thesis
    using assms(1-3,5) forward_one_sid [OF F]
    by (intro exI [where x = "C\<lparr>subs := fmupd PING_SID (l\<lparr>forwarder := F\<lparr>held := [MsgOp PING_SID PING_JSON]\<rparr>\<rparr>) fmempty, olog := olog C @ lg\<rparr>"]
        exI [where x = "l\<lparr>forwarder := F\<lparr>held := [MsgOp PING_SID PING_JSON]\<rparr>\<rparr>"])
      (simp add: conn_at_def sess_step_def forward_turn_def fmupd_again)
qed

lemma deliver_push:
  assumes "conn_at st (fmupd PING_SID l fmempty) q ws C" "held (forwarder l) = [x]" "length q < DEFAULT_CHANNEL_CAPACITY"
  shows "\<exists>C'. sess_step L S now (Deliver PING_SID) (C, W) = Some (C', W) \<and>
    conn_at st (fmupd PING_SID (l\<lparr>forwarder := (forwarder l)\<lparr>held := []\<rparr>\<rparr>) fmempty) (q @ [x]) ws C'"
  using assms by (simp add: conn_at_def sess_step_def forward_turn_def fmupd_again)

lemma deliver_none:
  assumes "conn_at st sm q ws C"
    and "\<And>l. fmlookup sm sid = Some l \<Longrightarrow> held (forwarder l) = [] \<and> recv_chan L (chans W) (rx (forwarder l)) = None"
  shows "sess_step L S now (Deliver sid) (C, W) = None"
  using assms by (auto simp: conn_at_def sess_step_def forward_turn_def split: option.splits)

lemma step_write:
  assumes "conn_at st sm q ws C" "\<And>x. x \<in> set q \<Longrightarrow> show_server_op (serde L) x = Some (f x)"
  shows "case q of
      [] \<Rightarrow> sess_step L S now (Outgoing True) (C, W) = None
    | x # r \<Rightarrow> \<exists>C'. sess_step L S now (Outgoing True) (C, W) = Some (C', W) \<and> conn_at st sm r (ws @ [WsMessage.WsText (f x)]) C'"
  using assms by (auto simp: conn_at_def sess_step_def write_outgoing_def Let_def split: list.split)

section \<open>The ping and the session together\<close>

definition client_sees :: "WsMessage list \<Rightarrow> ws_item list" where
  "client_sees ws = map (\<lambda>m. case m of WsMessage.WsText t \<Rightarrow> ws_item.WsText t | WsMessage.WsPong p \<Rightarrow> ws_item.WsPong p
     | WsClosing r \<Rightarrow> WsClosed) ws"

lemma texts_client_sees: "texts (client_sees (map WsMessage.WsText ts)) = ts"
  by (induction ts) (simp_all add: client_sees_def)

text \<open>The frames the ping has written once it has seen these messages, and is waiting for the next.\<close>

definition ping_wrote :: "OwpSerde \<Rightarrow> WsMessage list \<Rightarrow> string list" where
  "ping_wrote sd ws =
     concat (map (\<lambda>x. case x of TextOut t \<Rightarrow> [t] | PongOut _ \<Rightarrow> [])
       (written (snd (ping_run sd always \<lparr>incoming = client_sees ws, written = []\<rparr>))))"

text \<open>A step of the two: the session reads the next frame that the ping has written by now, writes one, or
  lets a forwarder go on. The first component counts the frames read.\<close>

inductive ping_move :: "'w OwpLib \<Rightarrow> Session \<Rightarrow> nat \<times> Conn \<times> 'w World \<Rightarrow> nat \<times> Conn \<times> 'w World \<Rightarrow> bool" for L S where
  reads: "k < length (ping_wrote (serde L) (wire C)) \<Longrightarrow>
    sess_step L S now (Incoming (Some (TextFrame (ping_wrote (serde L) (wire C) ! k)))) (C, W) = Some (C', W') \<Longrightarrow>
    ping_move L S (k, C, W) (Suc k, C', W')"
| writes: "sess_step L S now (Outgoing True) (C, W) = Some (C', W') \<Longrightarrow> ping_move L S (k, C, W) (k, C', W')"
| forwards: "sess_step L S now (Deliver sid) (C, W) = Some (C', W') \<Longrightarrow> ping_move L S (k, C, W) (k, C', W')"

text \<open>The run in stages: nothing, the INIT, the SUB and the PUB handled, the message taken by the forwarder,
  and the message queued. A stage has so many replies, of which \<open>w\<close> are written.\<close>

definition ping_replies :: "InfoPayload \<Rightarrow> ServerOp list" where
  "ping_replies i = [OkOp, InfoOp i, OkOp, OkOp, MsgOp PING_SID PING_JSON]"

fun reply_count :: "nat \<Rightarrow> nat" where
  "reply_count j = (if j = 0 then 0 else if j \<le> 3 then j + 1 else j)"

definition ping_info :: "'w OwpLib \<Rightarrow> Session \<Rightarrow> InfoPayload" where
  "ping_info L S = info_payload L (session_config S) bench_init"

definition reply_text :: "'w OwpLib \<Rightarrow> ServerOp \<Rightarrow> string" where
  "reply_text L x = the (show_server_op (serde L) x)"

definition ping_server ::
  "'w OwpLib \<Rightarrow> Session \<Rightarrow> ('w \<Rightarrow> chan \<Rightarrow> Delivery list) \<Rightarrow> ('w \<Rightarrow> chan \<Rightarrow> nat) \<Rightarrow> ('w \<Rightarrow> chan \<Rightarrow> bool) \<Rightarrow> 'w World \<Rightarrow> bool" where
  "ping_server L S queue capacity shut W \<longleftrightarrow>
     serves_ping L (session_config S) \<and> mpsc (try_send (host L)) queue capacity shut \<and> host_ok (host L) \<and> world_ok W \<and>
     subs_of W (session_adapter S) = {} \<and> opens_channels L queue capacity shut W \<and>
     init_schema_required (session_config S) = Some ''002.5.0'' \<and> 0 < max_subscriptions (session_config S) \<and>
     xml_baseline (session_config S) = False \<and> validate_mode (session_config S) = Warn"

definition ping_subscribed ::
  "'w OwpLib \<Rightarrow> Session \<Rightarrow> ('w \<Rightarrow> chan \<Rightarrow> Delivery list) \<Rightarrow> ('w \<Rightarrow> chan \<Rightarrow> nat) \<Rightarrow> ('w \<Rightarrow> chan \<Rightarrow> bool) \<Rightarrow> nat \<Rightarrow>
   (string, LiveSub) fmap \<Rightarrow> 'w World \<Rightarrow> bool" where
  "ping_subscribed L S queue capacity shut j sm W \<longleftrightarrow>
     (\<exists>l. sm = fmupd PING_SID l fmempty \<and> local_sid (forwarder l) = PING_SID \<and>
        held (forwarder l) = (if j = 4 then [MsgOp PING_SID PING_JSON] else []) \<and>
        map (\<lambda>d. payload (del_envelope d)) (queue (chans W) (rx (forwarder l))) = (if j = 3 then [PING_JSON] else []) \<and>
        (j = 2 \<longrightarrow> world_ok W \<and> 0 < chan_room queue capacity shut (chans W) (rx (forwarder l)) \<and>
           spec_share (key_order (host L)) (by_key (engine_state (engine W))) (route_typed ''demo'' ''Ping'') (rx (forwarder l)) =
             [SubscriberKey (session_adapter S) (engine_sub_id S PING_SID)]))"

definition ping_stage ::
  "'w OwpLib \<Rightarrow> Session \<Rightarrow> ('w \<Rightarrow> chan \<Rightarrow> Delivery list) \<Rightarrow> ('w \<Rightarrow> chan \<Rightarrow> nat) \<Rightarrow> ('w \<Rightarrow> chan \<Rightarrow> bool) \<Rightarrow> 'w World \<Rightarrow>
   nat \<Rightarrow> nat \<Rightarrow> nat \<times> Conn \<times> 'w World \<Rightarrow> bool" where
  "ping_stage L S queue capacity shut W0 j w X \<longleftrightarrow>
     (case X of (k, C, W) \<Rightarrow>
        j \<le> 5 \<and> w \<le> reply_count j \<and> (2 \<le> j \<longrightarrow> 2 \<le> w) \<and> (3 \<le> j \<longrightarrow> 3 \<le> w) \<and> k = min j 3 \<and>
        (\<exists>sm. conn_at (if j = 0 then AwaitingInit else Active True ''bench'') sm
            (drop w (take (reply_count j) (ping_replies (ping_info L S))))
            (map (\<lambda>x. WsMessage.WsText (reply_text L x)) (take w (ping_replies (ping_info L S)))) C \<and>
          (if j < 2 then sm = fmempty \<and> W = W0 else ping_subscribed L S queue capacity shut j sm W)))"

lemma replies_print:
  assumes "serves_ping L (session_config S)" "x \<in> set (ping_replies (ping_info L S))"
  shows "show_server_op (serde L) x = Some (reply_text L x)" "parse_server (serde L) (reply_text L x) = Inr x"
proof -
  obtain j where "info_to_string (serde L) (ping_info L S) = Inr j" "line j" "info_from_str (serde L) j = Inr (ping_info L S)"
    using assms(1) unfolding serves_ping_def ping_info_def by blast
  then have "server_op_ok (serde L) (InfoOp (ping_info L S))" by (simp add: server_op_ok_def)
  moreover have "is_identifier PING_SID" by code_simp
  then have "server_op_ok (serde L) (MsgOp PING_SID PING_JSON)" using ping_json_text(1) by (simp add: server_op_ok_def)
  moreover have "server_op_ok (serde L) OkOp" by (simp add: server_op_ok_def)
  ultimately have "server_op_ok (serde L) x" using assms(2) by (auto simp: ping_replies_def)
  then show "show_server_op (serde L) x = Some (reply_text L x)" "parse_server (serde L) (reply_text L x) = Inr x"
    using server_op_roundtrip [of "serde L" x] by (auto simp: reply_text_def)
qed

text \<open>How far the ping has got on the replies written: it waits for two before the SUB and for one more
  before the PUB.\<close>

lemma ping_wrote_replies:
  assumes "\<And>x. x \<in> set (ping_replies i) \<Longrightarrow> parse_server sd (f x) = Inr x" "w \<le> 5"
  shows "ping_wrote sd (map (\<lambda>x. WsMessage.WsText (f x)) (take w (ping_replies i))) =
    take (if w < 2 then 1 else if w < 3 then 2 else 3) [init_frame True, PING_SUB, PING_PUB]"
proof -
  have parsed: "parse_server sd (f OkOp) = Inr OkOp" "parse_server sd (f (InfoOp i)) = Inr (InfoOp i)"
    "parse_server sd (f (MsgOp PING_SID PING_JSON)) = Inr (MsgOp PING_SID PING_JSON)"
    using assms(1) by (simp_all add: ping_replies_def)
  have "w \<in> {0, 1, 2, 3, 4, 5}" using assms(2) by auto
  then show ?thesis
    by (auto simp: ping_wrote_def ping_replies_def client_sees_def ping_run_def bench_handshake_def bench_subscribe_def send_text_def
        always_def ws_bind_def expect_ok_def recv_op_def parsed map_err_def ping_wait.simps PING_SUB_def numeral_eq_Suc)
qed

lemma stage_start:
  "ping_stage L S queue capacity shut W 0 0 (0, new_conn t0, W)"
  by (simp add: ping_stage_def conn_at_def new_conn_def)

lemma stage_wrote:
  assumes "ping_server L S queue capacity shut W0" "ping_stage L S queue capacity shut W0 j w (k, C, W)"
  shows "ping_wrote (serde L) (wire C) = take (if w < 2 then 1 else if w < 3 then 2 else 3) [init_frame True, PING_SUB, PING_PUB]"
proof -
  have "w \<le> 5" using assms(2) by (auto simp: ping_stage_def split: if_splits)
  then show ?thesis
    using assms ping_wrote_replies [where w = w and i = "ping_info L S" and f = "reply_text L" and sd = "serde L", OF replies_print(2)] by (auto simp: ping_stage_def conn_at_def ping_server_def)
qed

lemma ping_delivered:
  assumes "ping_server L S queue capacity shut W0" "ping_subscribed L S queue capacity shut 2 sm W"
    and "payload e = PING_JSON" "route e = route_typed ''demo'' ''Ping''"
  shows "ping_subscribed L S queue capacity shut 3 sm (publish_one (host L) e (W\<lparr>drawn := n\<rparr>))"
proof -
  obtain l where l: "sm = fmupd PING_SID l fmempty" "local_sid (forwarder l) = PING_SID" "held (forwarder l) = []"
    "queue (chans W) (rx (forwarder l)) = []" "world_ok W" "0 < chan_room queue capacity shut (chans W) (rx (forwarder l))"
    "spec_share (key_order (host L)) (by_key (engine_state (engine W))) (route_typed ''demo'' ''Ping'') (rx (forwarder l)) =
       [SubscriberKey (session_adapter S) (engine_sub_id S PING_SID)]"
    using assms(2) by (auto simp: ping_subscribed_def)
  have "queue (chans (publish_one (host L) e (W\<lparr>drawn := n\<rparr>))) (rx (forwarder l)) =
      [\<lparr>del_sub = engine_sub_id S PING_SID, del_envelope = e\<rparr>]"
    using publish_queue [of "engine W" "key_order (host L)" "try_send (host L)" queue capacity shut "chans W" e "rx (forwarder l)"]
      assms(1,4) l(4-7)
    by (simp add: publish_one_def case_prod_unfold world_ok_def host_ok_def ping_server_def take_Cons')
  then show ?thesis using l(1-3) assms(3) by (auto simp: ping_subscribed_def)
qed

lemma stage_reads:
  assumes "ping_server L S queue capacity shut W0" "ping_stage L S queue capacity shut W0 j w (k, C, W)"
    and "k < length (ping_wrote (serde L) (wire C))"
  shows "\<exists>C' W'. sess_step L S now (Incoming (Some (TextFrame (ping_wrote (serde L) (wire C) ! k)))) (C, W) = Some (C', W') \<and>
    ping_stage L S queue capacity shut W0 (Suc j) w (Suc k, C', W')"
proof -
  note srv = assms(1) [unfolded ping_server_def]
  have k: "k = min j 3" "w \<le> reply_count j" using assms(2) by (simp_all add: ping_stage_def)
  note wrote = stage_wrote [OF assms(1,2)]
  obtain sm where sm: "conn_at (if j = 0 then AwaitingInit else Active True ''bench'') sm
      (drop w (take (reply_count j) (ping_replies (ping_info L S))))
      (map (\<lambda>x. WsMessage.WsText (reply_text L x)) (take w (ping_replies (ping_info L S)))) C"
    "if j < 2 then sm = fmempty \<and> W = W0 else ping_subscribed L S queue capacity shut j sm W"
    using assms(2) by (auto simp: ping_stage_def)
  have cap: "0 < DEFAULT_CHANNEL_CAPACITY" by (simp add: DEFAULT_CHANNEL_CAPACITY_def)
  consider "j = 0" "w = 0" | "j = 1" "w = 2" | "j = 2" "w = 3"
    using assms(3) k unfolding wrote by (fastforce split: if_splits)
  then show ?thesis
  proof cases
    case 1
    have at: "conn_at AwaitingInit fmempty [] [] C" using sm 1 by simp
    have frame: "ping_wrote (serde L) (wire C) ! k = init_frame True" using k 1 by (simp add: wrote)
    show ?thesis
      using step_init [OF _ at, of L "session_config S" S now W] srv 1 sm(2) k(1)
      unfolding frame by (auto simp: ping_stage_def ping_replies_def ping_info_def numeral_2_eq_2)
  next
    case 2
    let ?ws = "map (\<lambda>x. WsMessage.WsText (reply_text L x)) (take 2 (ping_replies (ping_info L S)))"
    have at: "conn_at (Active True ''bench'') fmempty [] ?ws C" "W = W0" using sm 2 by (simp_all add: ping_replies_def)
    have frame: "ping_wrote (serde L) (wire C) ! k = PING_SUB" using k 2 by (simp add: wrote)
    obtain C' W' l where s: "sess_step L S now (Incoming (Some (TextFrame PING_SUB))) (C, W) = Some (C', W')"
        "conn_at (Active True ''bench'') (fmupd PING_SID l fmempty) ([] @ [OkOp]) ?ws C'"
        "ping_subscribed L S queue capacity shut 2 (fmupd PING_SID l fmempty) W'"
      using step_sub [OF at(1), where S = S and W = W0 and L = L and queue = queue and capacity = capacity and shut = shut and now = now] srv cap
      unfolding at(2) ping_subscribed_def by fastforce
    then show ?thesis
      using 2 k(1) unfolding frame ping_stage_def
      by (intro exI [where x = C'] exI [where x = W'] conjI s(1)) (auto simp: ping_replies_def numeral_eq_Suc)
  next
    case 3
    let ?ws = "map (\<lambda>x. WsMessage.WsText (reply_text L x)) (take 3 (ping_replies (ping_info L S)))"
    have at: "conn_at (Active True ''bench'') sm [] ?ws C" "ping_subscribed L S queue capacity shut 2 sm W"
      using sm 3 by (simp_all add: ping_replies_def)
    have frame: "ping_wrote (serde L) (wire C) ! k = PING_PUB" using k 3 by (simp add: wrote)
    obtain C' e where s: "sess_step L S now (Incoming (Some (TextFrame PING_PUB))) (C, W) =
          Some (C', publish_one (host L) e (W\<lparr>drawn := drawn W + 1\<rparr>))"
        "payload e = PING_JSON" "route e = route_typed ''demo'' ''Ping''"
        "conn_at (Active True ''bench'') sm ([] @ [OkOp]) ?ws C'"
      using step_pub [of L "session_config S" S sm "[]" ?ws C now W] at(1) srv cap by auto
    have "ping_subscribed L S queue capacity shut 3 sm (publish_one (host L) e (W\<lparr>drawn := drawn W + 1\<rparr>))"
      using ping_delivered [OF assms(1) at(2) s(2,3)] .
    then show ?thesis
      using 3 k(1) s(4) unfolding frame ping_stage_def s(1)
      by (intro exI conjI refl) (auto simp: ping_replies_def numeral_eq_Suc)
  qed
qed

lemma stage_writes:
  assumes "ping_server L S queue capacity shut W0" "ping_stage L S queue capacity shut W0 j w (k, C, W)"
  shows "if w < reply_count j
    then \<exists>C'. sess_step L S now (Outgoing True) (C, W) = Some (C', W) \<and> ping_stage L S queue capacity shut W0 j (Suc w) (k, C', W)
    else sess_step L S now (Outgoing True) (C, W) = None"
proof -
  let ?r = "ping_replies (ping_info L S)"
  obtain sm where sm: "conn_at (if j = 0 then AwaitingInit else Active True ''bench'') sm (drop w (take (reply_count j) ?r))
      (map (\<lambda>x. WsMessage.WsText (reply_text L x)) (take w ?r)) C"
    "if j < 2 then sm = fmempty \<and> W = W0 else ping_subscribed L S queue capacity shut j sm W"
    and b: "j \<le> 5" "w \<le> reply_count j" "2 \<le> j \<longrightarrow> 2 \<le> w" "3 \<le> j \<longrightarrow> 3 \<le> w" "k = min j 3"
    using assms(2) by (auto simp: ping_stage_def)
  have len: "length ?r = 5" "reply_count j \<le> 5" using b(1) by (simp_all add: ping_replies_def)
  have out: "show_server_op (serde L) x = Some (reply_text L x)" if "x \<in> set (drop w (take (reply_count j) ?r))" for x
    using replies_print(1) [of L S x] assms(1) that by (auto simp: ping_server_def dest: in_set_dropD in_set_takeD)
  show ?thesis
  proof (cases "w < reply_count j")
    case True
    have q: "drop w (take (reply_count j) ?r) = ?r ! w # drop (Suc w) (take (reply_count j) ?r)"
      using True len by (subst Cons_nth_drop_Suc [symmetric]) auto
    obtain C' where s: "sess_step L S now (Outgoing True) (C, W) = Some (C', W)"
        "conn_at (if j = 0 then AwaitingInit else Active True ''bench'') sm (drop (Suc w) (take (reply_count j) ?r))
          (map (\<lambda>x. WsMessage.WsText (reply_text L x)) (take w ?r) @ [WsMessage.WsText (reply_text L (?r ! w))]) C'"
      using step_write [OF sm(1) out, of S now W] unfolding q by auto
    have "map (\<lambda>x. WsMessage.WsText (reply_text L x)) (take w ?r) @ [WsMessage.WsText (reply_text L (?r ! w))] =
        map (\<lambda>x. WsMessage.WsText (reply_text L x)) (take (Suc w) ?r)"
      using True len by (simp add: take_Suc_conv_app_nth)
    then have "ping_stage L S queue capacity shut W0 j (Suc w) (k, C', W)"
      using s(2) sm(2) b True unfolding ping_stage_def by auto
    then show ?thesis using True s(1) by auto
  next
    case False
    then have "drop w (take (reply_count j) ?r) = []" by simp
    then show ?thesis using step_write [OF sm(1) out, of S now W] False by simp
  qed
qed

lemma stage_forwards:
  assumes "ping_server L S queue capacity shut W0" "ping_stage L S queue capacity shut W0 j w (k, C, W)"
  shows "if (j = 3 \<or> j = 4) \<and> sid = PING_SID
    then \<exists>C' W'. sess_step L S now (Deliver sid) (C, W) = Some (C', W') \<and> ping_stage L S queue capacity shut W0 (Suc j) w (k, C', W')
    else sess_step L S now (Deliver sid) (C, W) = None"
proof -
  let ?r = "ping_replies (ping_info L S)" and ?ws = "map (\<lambda>x. WsMessage.WsText (reply_text L x)) (take w (ping_replies (ping_info L S)))"
  obtain sm where sm: "conn_at (if j = 0 then AwaitingInit else Active True ''bench'') sm (drop w (take (reply_count j) ?r)) ?ws C"
    "if j < 2 then sm = fmempty \<and> W = W0 else ping_subscribed L S queue capacity shut j sm W"
    and b: "j \<le> 5" "w \<le> reply_count j" "2 \<le> j \<longrightarrow> 2 \<le> w" "3 \<le> j \<longrightarrow> 3 \<le> w" "k = min j 3"
    using assms(2) by (auto simp: ping_stage_def)
  have recv: "recv_chan L v c = None \<longleftrightarrow> queue v c = []" "recv_chan L v c = Some (d, v') \<Longrightarrow> queue v c = d # queue v' c" for v c d v'
    using assms(1) unfolding ping_server_def opens_channels_def by blast+
  have next_stage: "ping_stage L S queue capacity shut W0 (Suc j) w (k, C', W')"
    if "3 \<le> j" "j \<le> 4" "conn_at (Active True ''bench'') sm' (drop w (take (reply_count (Suc j)) ?r)) ?ws C'"
      "ping_subscribed L S queue capacity shut (Suc j) sm' W'" for C' W' sm'
    using that b unfolding ping_stage_def by (cases "j = 3") auto
  consider "j = 3" "sid = PING_SID" | "j = 4" "sid = PING_SID" | "\<not> ((j = 3 \<or> j = 4) \<and> sid = PING_SID)" by blast
  then show ?thesis
  proof cases
    case 1
    obtain l where l: "sm = fmupd PING_SID l fmempty" "local_sid (forwarder l) = PING_SID" "held (forwarder l) = []"
      "map (\<lambda>d. payload (del_envelope d)) (queue (chans W) (rx (forwarder l))) = [PING_JSON]"
      using sm(2) 1 by (auto simp: ping_subscribed_def)
    obtain d v where d: "recv_chan L (chans W) (rx (forwarder l)) = Some (d, v)" "payload (del_envelope d) = PING_JSON"
        "queue v (rx (forwarder l)) = []"
      using l(4) recv by (cases "recv_chan L (chans W) (rx (forwarder l))") fastforce+
    have at: "conn_at (Active True ''bench'') (fmupd PING_SID l fmempty) (drop w (take 4 ?r)) ?ws C" using sm(1) 1 l(1) by simp
    obtain C' l' where s: "sess_step L S now (Deliver PING_SID) (C, W) = Some (C', W\<lparr>chans := v\<rparr>)"
        "conn_at (Active True ''bench'') (fmupd PING_SID l' fmempty) (drop w (take 4 ?r)) ?ws C'" "local_sid (forwarder l') = PING_SID"
        "rx (forwarder l') = rx (forwarder l)" "held (forwarder l') = [MsgOp PING_SID PING_JSON]"
      using deliver_take [OF at l(3) d(1,2) l(2), of S now] assms(1) unfolding ping_server_def by blast
    have "ping_subscribed L S queue capacity shut 4 (fmupd PING_SID l' fmempty) (W\<lparr>chans := v\<rparr>)"
      using s(3-5) d(3) unfolding ping_subscribed_def by (intro exI [where x = l']) simp
    then show ?thesis using next_stage [of "fmupd PING_SID l' fmempty" C' "W\<lparr>chans := v\<rparr>"] s(1,2) 1 by auto
  next
    case 2
    obtain l where l: "sm = fmupd PING_SID l fmempty" "local_sid (forwarder l) = PING_SID" "held (forwarder l) = [MsgOp PING_SID PING_JSON]"
      "queue (chans W) (rx (forwarder l)) = []"
      using sm(2) 2 by (auto simp: ping_subscribed_def)
    have at: "conn_at (Active True ''bench'') (fmupd PING_SID l fmempty) (drop w (take 4 ?r)) ?ws C" using sm(1) 2 l(1) by simp
    have split: "take 5 ?r = take 4 ?r @ [MsgOp PING_SID PING_JSON]" "length ?r = 5" by (simp_all add: ping_replies_def)
    have q: "drop w (take 4 ?r) @ [MsgOp PING_SID PING_JSON] = drop w (take 5 ?r)" "length (drop w (take 4 ?r)) < DEFAULT_CHANNEL_CAPACITY"
      using b(2) 2 by (simp_all add: split DEFAULT_CHANNEL_CAPACITY_def)
    let ?l = "l\<lparr>forwarder := (forwarder l)\<lparr>held := []\<rparr>\<rparr>"
    obtain C' where s: "sess_step L S now (Deliver PING_SID) (C, W) = Some (C', W)"
        "conn_at (Active True ''bench'') (fmupd PING_SID ?l fmempty) (drop w (take 5 ?r)) ?ws C'"
      using deliver_push [OF at l(3) q(2)] unfolding q(1) by blast
    have "ping_subscribed L S queue capacity shut 5 (fmupd PING_SID ?l fmempty) W"
      using l(2,4) unfolding ping_subscribed_def by (intro exI [where x = ?l]) simp
    then show ?thesis using next_stage [of "fmupd PING_SID ?l fmempty" C' W] s 2 by auto
  next
    case 3
    have "held (forwarder l) = [] \<and> recv_chan L (chans W) (rx (forwarder l)) = None" if "fmlookup sm sid = Some l" for l
      using that sm(2) 3 recv(1) by (auto simp: ping_subscribed_def split: if_splits)
    from deliver_none [OF sm(1), where sid = sid and L = L and W = W and S = S and now = now, OF this] show ?thesis using 3 by auto
  qed
qed

lemma stage_move:
  assumes "ping_server L S queue capacity shut W0" "ping_stage L S queue capacity shut W0 j w X" "ping_move L S X Y"
  shows "\<exists>j' w'. j' + w' = Suc (j + w) \<and> ping_stage L S queue capacity shut W0 j' w' Y"
  using assms(3)
proof cases
  case (reads k C now W C' W')
  show ?thesis
    using stage_reads [OF assms(1) assms(2) [unfolded reads(1)] reads(3), of now] reads(2,4)
    by (intro exI [where x = "Suc j"] exI [where x = w]) auto
next
  case (writes now C W C' W' k)
  show ?thesis
    using stage_writes [OF assms(1) assms(2) [unfolded writes(1)], of now] writes(2,3)
    by (intro exI [where x = j] exI [where x = "Suc w"]) (auto split: if_splits)
next
  case (forwards now sid C W C' W' k)
  show ?thesis
    using stage_forwards [OF assms(1) assms(2) [unfolded forwards(1)], of sid now] forwards(2,3)
    by (intro exI [where x = "Suc j"] exI [where x = w]) (auto split: if_splits)
qed

lemma stage_reached:
  assumes "ping_server L S queue capacity shut W" "(ping_move L S ^^ n) (0, new_conn t0, W) X"
  shows "\<exists>j w. j + w = n \<and> ping_stage L S queue capacity shut W j w X"
  using assms(2)
proof (induction n arbitrary: X)
  case 0
  then show ?case using stage_start by auto
next
  case (Suc n)
  then obtain Y where "(ping_move L S ^^ n) (0, new_conn t0, W) Y" "ping_move L S Y X" by auto
  then show ?case using Suc.IH stage_move [OF assms(1)] by metis
qed

lemma stage_progress:
  assumes "ping_server L S queue capacity shut W" "ping_stage L S queue capacity shut W j w X" "j + w < 10"
  shows "\<exists>Y. ping_move L S X Y"
proof -
  obtain k C V where X: "X = (k, C, V)" by (cases X)
  have b: "j \<le> 5" "w \<le> reply_count j" "k = min j 3" using assms(2) by (auto simp: X ping_stage_def)
  note st = assms(2) [unfolded X]
  have "j < 3 \<or> j = 3 \<or> j = 4" if "w = reply_count j" using that b(1) assms(3) by (auto split: if_splits)
  then consider "w < reply_count j" | "j < 3" "w = reply_count j" | "j = 3 \<or> j = 4"
    using le_neq_implies_less [OF b(2)] by blast
  then show ?thesis
  proof cases
    case 1
    then show ?thesis using stage_writes [OF assms(1) st] ping_move.writes unfolding X by (metis (no_types, lifting))
  next
    case 2
    then have "k < length (ping_wrote (serde L) (wire C))" unfolding stage_wrote [OF assms(1) st] using b(3) by auto
    then show ?thesis using stage_reads [OF assms(1) st] ping_move.reads unfolding X by metis
  next
    case 3
    then show ?thesis using stage_forwards [OF assms(1) st, of PING_SID] ping_move.forwards unfolding X by metis
  qed
qed

lemma ping_run_answered:
  assumes "map Inr [OkOp, InfoOp i, OkOp, OkOp, MsgOp PING_SID p] = map (parse_server sd) ts"
  shows "ping_run sd always \<lparr>incoming = client_sees (map WsMessage.WsText ts), written = []\<rparr> =
    (Inr p, \<lparr>incoming = [], written = map TextOut [init_frame True, PING_SUB, PING_PUB]\<rparr>)"
proof -
  obtain a b c d e where ts: "ts = [a, b, c, d, e]" and parsed: "parse_server sd a = Inr OkOp" "parse_server sd b = Inr (InfoOp i)"
      "parse_server sd c = Inr OkOp" "parse_server sd d = Inr OkOp" "parse_server sd e = Inr (MsgOp PING_SID p)"
    using assms by (auto simp: Cons_eq_map_conv)
  show ?thesis
    by (simp add: ts client_sees_def ping_run_def bench_handshake_def bench_subscribe_def send_text_def always_def ws_bind_def
        expect_ok_def recv_op_def parsed map_err_def ping_wait.simps PING_SUB_def)
qed

text \<open>C40: The load generator's ping gets through the embedded gateway, whatever the schedule. The ping writes
  a frame only when it has read the replies it waits for; the session reads a frame only when the ping
  has written it, and handles it in one step; and reading, writing and forwarding interleave in any order. Every such run is at most
  ten steps long; before the tenth some step is possible; and after the tenth the ping has succeeded with
  the payload it sent: the INIT is answered, the SUB puts the subscription into the engine, the PUB
  reaches it whatever else is subscribed, and the message comes back on the ping's own subscription.\<close>

theorem embedded_ping_succeeds:
  assumes "serves_ping L (start_owp_config uuid addr id)" "mpsc (try_send (host L)) queue capacity shut" "host_ok (host L)" "world_ok W"
    and "subs_of W (AdapterId ''owp-test'') = {}" "opens_channels L queue capacity shut W"
    and "(ping_move L (start_owp_session schema c (start_owp_config uuid addr id)) ^^ n) (0, new_conn t0, W) (k, C, W')"
  shows "n \<le> 10 \<and>
    (if n < 10 then \<exists>Y. ping_move L (start_owp_session schema c (start_owp_config uuid addr id)) (k, C, W') Y
     else \<exists>s. ping_run (serde L) always \<lparr>incoming = client_sees (wire C), written = []\<rparr> = (Inr PING_JSON, s) \<and>
       written s = map TextOut [init_frame True, PING_SUB, PING_PUB])"
proof -
  let ?S = "start_owp_session schema c (start_owp_config uuid addr id)"
  have srv: "ping_server L ?S queue capacity shut W"
    using assms(1-6)
    by (simp add: ping_server_def start_owp_session_def)
      (simp add: start_owp_config_def default_owp_config_def DEFAULT_MAX_SUBSCRIPTIONS_def)
  obtain j w where st: "j + w = n" "ping_stage L ?S queue capacity shut W j w (k, C, W')"
    using stage_reached [OF srv assms(7)] by blast
  have b: "j \<le> 5" "w \<le> reply_count j" using st(2) by (simp_all add: ping_stage_def)
  have "\<exists>s. ping_run (serde L) always \<lparr>incoming = client_sees (wire C), written = []\<rparr> = (Inr PING_JSON, s) \<and>
       written s = map TextOut [init_frame True, PING_SUB, PING_PUB]" if "\<not> n < 10"
  proof -
    have "w = 5" using that b st(1) by (auto split: if_splits)
    then have wire: "wire C = map WsMessage.WsText (map (reply_text L) (ping_replies (ping_info L ?S)))"
      using st(2) by (auto simp: ping_stage_def conn_at_def ping_replies_def numeral_eq_Suc)
    have "map Inr (ping_replies (ping_info L ?S)) =
        map (parse_server (serde L)) (map (reply_text L) (ping_replies (ping_info L ?S)))"
      using replies_print(2) [of L ?S] srv by (simp add: ping_server_def)
    from ping_run_answered [OF this [unfolded ping_replies_def]] show ?thesis unfolding wire ping_replies_def by simp
  qed
  moreover have "n \<le> 10" using b st(1) by (auto split: if_splits)
  ultimately show ?thesis using stage_progress [OF srv st(2)] st(1) by simp
qed

definition ping_demo_info :: InfoPayload where
  "ping_demo_info =
     \<lparr>info_version = ''1.0'', info_server_id = ''oa-gateway-test'',
      uuids = \<lparr>system = ''11111111-1111-4111-8111-111111111111'', service = ''bench'', subsystem = None\<rparr>,
      info_system_label = ''test''\<rparr>"

definition ping_demo_lib :: "Delivery bq OwpLib" where
  "ping_demo_lib =
     \<lparr>host = \<lparr>try_send = bq_send, key_order = sorted_list_of_fset, sub_order = sorted_list_of_fset,
        json_parse = (\<lambda>_. Inr (JObject [(''Ping'', JNull)])), json_print = (\<lambda>v. Inl ''no''), xml_parse = no_xml, new_v4 = id,
        uuid_string = show_nat\<rparr>,
      codecs = wrapper_codecs,
      serde = \<lparr>init_from_str = (\<lambda>_. Inr bench_init), info_from_str = (\<lambda>_. Inr ping_demo_info), info_to_string = (\<lambda>_. Inr ''{}'')\<rparr>,
      new_v5 = (\<lambda>s. s), open_chan = (\<lambda>w. (7, w)),
      recv_chan = (\<lambda>w c. case bq_queue w c of [] \<Rightarrow> None | d # ds \<Rightarrow> Some (d, w(c := (bq_capacity w c, bq_closed w c, ds)))),
      sid_order = sorted_list_of_fset\<rparr>"

lemma ping_demo_serves: "serves_ping ping_demo_lib (start_owp_config uuid addr id)"
  by (simp add: serves_ping_def ping_demo_lib_def line_def is_delim_def info_payload_def start_owp_config_def bench_init_def
      OWP_VERSION_def ping_demo_info_def default_owp_config_def)

definition ping_demo_world :: "Delivery bq World" where
  "ping_demo_world = \<lparr>engine = new_engine, chans = (\<lambda>c. (64, False, [])), drawn = 0\<rparr>"

lemma ping_demo_opens: "opens_channels ping_demo_lib bq_queue bq_capacity bq_closed ping_demo_world"
  by (auto simp: opens_channels_def ping_demo_lib_def ping_demo_world_def bq_queue_def bq_capacity_def bq_closed_def chan_room_def
      new_engine_def empty_state_def split: list.splits)

theorem embedded_ping_succeeds_witness:
  "\<exists>k C W s. (ping_move ping_demo_lib (start_owp_session new_schema 1 (start_owp_config ''u'' ''127.0.0.1:1'' id)) ^^ 10)
      (0, new_conn 3, ping_demo_world) (k, C, W) \<and>
    ping_run (serde ping_demo_lib) always \<lparr>incoming = client_sees (wire C), written = []\<rparr> = (Inr PING_JSON, s)"
proof -
  let ?R = "ping_move ping_demo_lib (start_owp_session new_schema 1 (start_owp_config ''u'' ''127.0.0.1:1'' id))"
  have lib: "mpsc (try_send (host ping_demo_lib)) bq_queue bq_capacity bq_closed" "host_ok (host ping_demo_lib)"
    by (simp_all add: ping_demo_lib_def host_ok_def hash_order_sorted mpsc_bq)
  have world: "world_ok ping_demo_world" "subs_of ping_demo_world (AdapterId ''owp-test'') = {}"
    using new_engine_inv by (auto simp: ping_demo_world_def world_ok_def subs_of_def new_engine_def empty_state_def)
  note ping = embedded_ping_succeeds [OF ping_demo_serves lib world ping_demo_opens]
  have "n \<le> 10 \<Longrightarrow> \<exists>X. (?R ^^ n) (0, new_conn 3, ping_demo_world) X" for n
  proof (induction n)
    case (Suc n)
    then obtain k C W where r: "(?R ^^ n) (0, new_conn 3, ping_demo_world) (k, C, W)" by fastforce
    then obtain Y where "?R (k, C, W) Y" using ping [OF r] Suc.prems by auto
    then show ?case using relpowp_Suc_I [OF r] by blast
  qed simp
  from this [of 10] obtain k C W where r: "(?R ^^ 10) (0, new_conn 3, ping_demo_world) (k, C, W)" by fastforce
  show ?thesis using ping [OF r] r by fastforce
qed

end
