(* ===== verification/Mini_Broker.thy ===== *)
theory Mini_Broker
  imports Stomp_Adapter
begin

text \<open>
  The STOMP broker and the raw client that \<open>oa-gateway-testing/src/stomp.rs\<close> puts on the other side of
  the STOMP adapter. The broker's shared state is a table of subscriptions behind a lock, and each
  connection is a task of its own. A connection is its read buffer, the messages of a SEND it has still to
  put on channels, and whether it is waiting for a read, working through what it has read, or sending;
  one iteration of any of the loops is a step, so any interleaving of
  connections is a list of steps. A frame put on a channel is logged with the connection whose task put it
  there and the channel; the argument \<open>is_open\<close> of a step says which channels have their writer task at
  that moment. Waiting for room on a full channel delays a step and changes nothing else.
\<close>

section \<open>State\<close>

record Sub =
  conn_id :: "64 word"
  sub_name :: string
  sub_tx :: chan

record BrokerState =
  subs :: "(string, Sub list) fmap"
  next_msg :: "64 word"

type_synonym sends = "(chan \<times> Frame) list"

definition empty_broker_state :: BrokerState where
  "empty_broker_state = \<lparr>subs = fmempty, next_msg = 1\<rparr>"

section \<open>One frame\<close>

definition connected_reply :: Frame where
  "connected_reply =
     frame_with_header ''heart-beat'' ''0,0'' (frame_with_header ''server'' ''oa-gateway-mini-stomp/0.1''
       (frame_with_header ''version'' ''1.2'' (new_frame ''CONNECTED'')))"

definition message_frame :: "string \<Rightarrow> Sub \<Rightarrow> 64 word \<Rightarrow> Frame \<Rightarrow> Frame" where
  "message_frame dest s mid f =
     (let msg = frame_with_header ''message-id'' (show_nat (unat mid))
                  (frame_with_header ''subscription'' (sub_name s)
                    (frame_with_header ''destination'' dest (new_frame ''MESSAGE'')))
      in msg\<lparr>fheaders := fheaders msg @ filter (\<lambda>(k, v). k \<noteq> ''destination'') (fheaders f), body := body f\<rparr>)"

text \<open>\<open>Sender::send\<close>: it fails only when the receiver is gone.\<close>

definition send_to :: "(chan \<Rightarrow> bool) \<Rightarrow> chan \<Rightarrow> Frame \<Rightarrow> sends" where
  "send_to is_open c f = (if is_open c then [(c, f)] else [])"

definition add_sub :: "string \<Rightarrow> Sub \<Rightarrow> BrokerState \<Rightarrow> BrokerState" where
  "add_sub dest s S = S\<lparr>subs := fmupd dest (or_default [] (fmlookup (subs S) dest) @ [s]) (subs S)\<rparr>"

text \<open>The result, the table, the frame put on the connection's own channel, and the messages that a SEND
  then sends one after the other, with the lock released.\<close>

definition dispatch ::
  "(chan \<Rightarrow> bool) \<Rightarrow> 64 word \<Rightarrow> chan \<Rightarrow> Frame \<Rightarrow> BrokerState \<Rightarrow> (unit + unit) \<times> BrokerState \<times> sends \<times> sends" where
  "dispatch is_open i out_tx f S =
     (if command f = ''CONNECT'' \<or> command f = ''STOMP'' then
        (if is_open out_tx then Inr () else Inl (), S, send_to is_open out_tx connected_reply, [])
      else if command f = ''SUBSCRIBE'' then
        (case header f ''destination'' of
           None \<Rightarrow> (Inl (), S, [], [])
         | Some dest \<Rightarrow>
             (let name = (case header f ''id'' of None \<Rightarrow> ''0'' | Some n \<Rightarrow> n)
              in (Inr (), add_sub dest \<lparr>conn_id = i, sub_name = name, sub_tx = out_tx\<rparr> S, [], [])))
      else if command f = ''UNSUBSCRIBE'' then
        (case header f ''id'' of
           None \<Rightarrow> (Inl (), S, [], [])
         | Some name \<Rightarrow>
             (Inr (), S\<lparr>subs := fmmap (filter (\<lambda>s. \<not> (conn_id s = i \<and> sub_name s = name))) (subs S)\<rparr>, [], []))
      else if command f = ''SEND'' then
        (case header f ''destination'' of
           None \<Rightarrow> (Inl (), S, [], [])
         | Some dest \<Rightarrow>
             (let mid = next_msg S;
                  targets = or_default [] (fmlookup (subs S) dest)
              in (Inr (), S\<lparr>next_msg := mid + 1\<rparr>, [], map (\<lambda>s. (sub_tx s, message_frame dest s mid f)) targets)))
      else if command f = ''DISCONNECT'' then
        (Inr (), S, send_to is_open out_tx (frame_with_header ''receipt-id'' ''disconnect'' (new_frame ''RECEIPT'')), [])
      else
        (Inr (), S, send_to is_open out_tx (frame_with_header ''message'' (''unknown '' @ command f) (new_frame ''ERROR'')), []))"

section \<open>Connections\<close>

text \<open>A connection waits in \<open>select!\<close>, is in the inner loop over the frames it has buffered, or is in the loop
  of a SEND over its targets.\<close>

datatype phase = Waiting | Draining | Sending

record BrokerConn =
  out_chan :: chan
  rbuf :: bytes
  fanout :: sends
  phase :: phase

record Broker =
  broker_state :: BrokerState
  conn_seq :: "64 word"
  accepting :: bool
  conns :: "(64 word, BrokerConn) fmap"
  log :: "(64 word \<times> chan \<times> Frame) list"

text \<open>What the runtime picks next: a stop of the accept loop, an accepted socket with the channel made
  for it and whether its TLS handshake succeeded, or, on one connection, a shutdown, a read (an empty
  one is the end of the stream), one more iteration of the inner loop, or one more send of a SEND.\<close>

datatype broker_event =
    StopAccept
  | Accept chan bool
  | ConnShutdown "64 word"
  | ConnRead "64 word" "unit + bytes"
  | ConnFrame "64 word"
  | ConnSend "64 word"

definition new_broker :: Broker where
  "new_broker = \<lparr>broker_state = empty_broker_state, conn_seq = 1, accepting = True, conns = fmempty, log = []\<rparr>"

text \<open>The clean-up at the end of \<open>handle_conn\<close>.\<close>

definition drop_conn_subs :: "64 word \<Rightarrow> BrokerState \<Rightarrow> BrokerState" where
  "drop_conn_subs i S =
     (let m = fmmap (filter (\<lambda>s. conn_id s \<noteq> i)) (subs S)
      in S\<lparr>subs := fmfilter (\<lambda>d. fmlookup m d \<noteq> Some []) m\<rparr>)"

definition run_broker :: "chan \<Rightarrow> bool \<Rightarrow> Broker \<Rightarrow> Broker" where
  "run_broker c tls_ok B =
     (let i = conn_seq B;
          B1 = B\<lparr>conn_seq := conn_seq B + 1\<rparr>
      in if tls_ok then B1\<lparr>conns := fmupd i \<lparr>out_chan = c, rbuf = [], fanout = [], phase = Waiting\<rparr> (conns B)\<rparr> else B1)"

definition finish_conn :: "64 word \<Rightarrow> Broker \<Rightarrow> Broker" where
  "finish_conn i B = B\<lparr>broker_state := drop_conn_subs i (broker_state B), conns := fmdrop i (conns B)\<rparr>"

text \<open>The early return of \<open>?\<close>: it leaves the function before the clean-up.\<close>

definition abort_conn :: "64 word \<Rightarrow> Broker \<Rightarrow> Broker" where
  "abort_conn i B = B\<lparr>conns := fmdrop i (conns B)\<rparr>"

definition handle_read :: "64 word \<Rightarrow> unit + bytes \<Rightarrow> BrokerConn \<Rightarrow> Broker \<Rightarrow> Broker" where
  "handle_read i r c B =
     (case r of
        Inl _ \<Rightarrow> abort_conn i B
      | Inr [] \<Rightarrow> finish_conn i B
      | Inr bs \<Rightarrow> B\<lparr>conns := fmupd i (c\<lparr>rbuf := rbuf c @ bs, phase := Draining\<rparr>) (conns B)\<rparr>)"

definition handle_buffered :: "(chan \<Rightarrow> bool) \<Rightarrow> 64 word \<Rightarrow> BrokerConn \<Rightarrow> Broker \<Rightarrow> Broker" where
  "handle_buffered is_open i c B =
     (case decode_one (rbuf c) of
        (Inl _, _) \<Rightarrow> abort_conn i B
      | (Inr None, b) \<Rightarrow> B\<lparr>conns := fmupd i (c\<lparr>rbuf := b, phase := Waiting\<rparr>) (conns B)\<rparr>
      | (Inr (Some f), b) \<Rightarrow>
          (case dispatch is_open i (out_chan c) f (broker_state B) of
             (r, S, out, todo) \<Rightarrow>
               B\<lparr>broker_state := S, log := log B @ map (Pair i) out,
                 conns := fmupd i (c\<lparr>rbuf := b, fanout := todo,
                   phase := (if todo \<noteq> [] then Sending else case r of Inl _ \<Rightarrow> Waiting | Inr _ \<Rightarrow> Draining)\<rparr>) (conns B)\<rparr>))"

definition handle_fanout :: "(chan \<Rightarrow> bool) \<Rightarrow> 64 word \<Rightarrow> BrokerConn \<Rightarrow> Broker \<Rightarrow> Broker" where
  "handle_fanout is_open i c B =
     (case fanout c of
        [] \<Rightarrow> B
      | (t, g) # todo \<Rightarrow>
          B\<lparr>log := log B @ map (Pair i) (send_to is_open t g),
            conns := fmupd i (c\<lparr>fanout := todo, phase := (if todo = [] then Draining else Sending)\<rparr>) (conns B)\<rparr>)"

text \<open>An event that does not fit the phase of its connection is not one the runtime can pick.\<close>

definition broker_step :: "(chan \<Rightarrow> bool) \<Rightarrow> broker_event \<Rightarrow> Broker \<Rightarrow> Broker option" where
  "broker_step is_open ev B =
     (case ev of
        StopAccept \<Rightarrow> (if accepting B then Some (B\<lparr>accepting := False\<rparr>) else None)
      | Accept c tls_ok \<Rightarrow> (if accepting B then Some (run_broker c tls_ok B) else None)
      | ConnShutdown i \<Rightarrow>
          (case fmlookup (conns B) i of
             Some c \<Rightarrow> if phase c = Waiting then Some (finish_conn i B) else None
           | None \<Rightarrow> None)
      | ConnRead i r \<Rightarrow>
          (case fmlookup (conns B) i of
             Some c \<Rightarrow> if phase c = Waiting then Some (handle_read i r c B) else None
           | None \<Rightarrow> None)
      | ConnFrame i \<Rightarrow>
          (case fmlookup (conns B) i of
             Some c \<Rightarrow> if phase c = Draining then Some (handle_buffered is_open i c B) else None
           | None \<Rightarrow> None)
      | ConnSend i \<Rightarrow>
          (case fmlookup (conns B) i of
             Some c \<Rightarrow> if phase c = Sending then Some (handle_fanout is_open i c B) else None
           | None \<Rightarrow> None))"

inductive broker_reach :: "Broker \<Rightarrow> bool" where
  start: "broker_reach new_broker"
| step: "broker_reach B \<Longrightarrow> broker_step is_open ev B = Some B' \<Longrightarrow> broker_reach B'"

section \<open>The raw client\<close>

definition peer_connect_frame :: Frame where
  "peer_connect_frame =
     frame_with_header ''heart-beat'' ''0,0'' (frame_with_header ''host'' ''/''
       (frame_with_header ''accept-version'' ''1.2'' (new_frame ''CONNECT'')))"

definition peer_subscribe_frame :: "string \<Rightarrow> string \<Rightarrow> Frame" where
  "peer_subscribe_frame i dest =
     frame_with_header ''ack'' ''auto'' (frame_with_header ''destination'' dest
       (frame_with_header ''id'' i (new_frame ''SUBSCRIBE'')))"

definition peer_send_frame :: "string \<Rightarrow> bytes \<Rightarrow> (string \<times> string) list \<Rightarrow> Frame" where
  "peer_send_frame dest b extra =
     fold (\<lambda>(k, v). frame_with_header k v) extra
       (frame_with_body b (frame_with_header ''destination'' dest (new_frame ''SEND'')))"

text \<open>\<open>StompPeer::recv\<close> over the reads it is answered with; \<open>None\<close> is a read that times out, as is one
  that is never answered. It panics on everything but a frame.\<close>

datatype peer_panic = BadFrame CodecError | RecvTimeout | ReadFailed string | PeerClosed | NotConnected

fun peer_recv :: "bytes \<Rightarrow> (string + bytes) option list \<Rightarrow> (peer_panic + Frame) \<times> bytes" where
  "peer_recv buf reads =
     (case decode_one buf of
        (Inl e, b) \<Rightarrow> (Inl (BadFrame e), b)
      | (Inr (Some f), b) \<Rightarrow> (Inr f, b)
      | (Inr None, b) \<Rightarrow>
          (case reads of
             Some (Inr bs) # rs \<Rightarrow> (if bs = [] then (Inl PeerClosed, b) else peer_recv (b @ bs) rs)
           | Some (Inl e) # rs \<Rightarrow> (Inl (ReadFailed e), b)
           | _ \<Rightarrow> (Inl RecvTimeout, b)))"

declare peer_recv.simps [simp del]

text \<open>\<open>StompPeer::handshake\<close>: the frames it writes, then the buffer of the connected client.\<close>

definition handshake :: "(string + bytes) option list \<Rightarrow> Frame list \<times> (peer_panic + bytes)" where
  "handshake reads =
     ([peer_connect_frame],
      case peer_recv [] reads of
        (Inl e, b) \<Rightarrow> Inl e
      | (Inr f, b) \<Rightarrow> if command f = ''CONNECTED'' then Inr b else Inl NotConnected)"

text \<open>The configuration \<open>start_stomp_adapter_with\<close> starts the adapter with.\<close>

definition start_stomp_adapter_config :: "string \<Rightarrow> string list \<Rightarrow> (StompConfig \<Rightarrow> StompConfig) \<Rightarrow> StompConfig" where
  "start_stomp_adapter_config addr ts edit =
     edit (default_stomp_config\<lparr>broker := addr, topics := ts, reconnect := False\<rparr>)"

section \<open>The table of subscriptions\<close>

text \<open>The subscriptions to a destination, in the order they were made.\<close>

definition subs_at :: "BrokerState \<Rightarrow> string \<Rightarrow> Sub list" where
  "subs_at S d = or_default [] (fmlookup (subs S) d)"

lemma subs_at_simps [simp]:
  "subs_at empty_broker_state d = []"
  "subs_at (S\<lparr>next_msg := n\<rparr>) d = subs_at S d"
  "subs_at (add_sub dest s S) d = (if d = dest then subs_at S d @ [s] else subs_at S d)"
  "subs_at (S\<lparr>subs := fmmap (filter P) (subs S)\<rparr>) d = filter P (subs_at S d)"
  by (auto simp: subs_at_def empty_broker_state_def add_sub_def or_default_def split: option.splits)

lemma subs_at_drop [simp]: "subs_at (drop_conn_subs i S) d = filter (\<lambda>s. conn_id s \<noteq> i) (subs_at S d)"
  by (auto simp: subs_at_def drop_conn_subs_def or_default_def Let_def split: option.splits)

lemma next_msg_simps [simp]:
  "next_msg (add_sub dest s S) = next_msg S" "next_msg (drop_conn_subs i S) = next_msg S"
  by (simp_all add: add_sub_def drop_conn_subs_def Let_def)

lemma dispatch_send:
  assumes "command f = ''SEND''" "header f ''destination'' = Some dest"
  shows "dispatch is_open i c f S = (Inr (), S\<lparr>next_msg := next_msg S + 1\<rparr>, [],
    map (\<lambda>s. (sub_tx s, message_frame dest s (next_msg S) f)) (subs_at S dest))"
  using assms by (simp add: dispatch_def subs_at_def Let_def)

lemma dispatch_subscribe:
  assumes "command f = ''SUBSCRIBE''" "header f ''destination'' = Some dest" "header f ''id'' = Some n"
  shows "dispatch is_open i c f S = (Inr (), add_sub dest \<lparr>conn_id = i, sub_name = n, sub_tx = c\<rparr> S, [], [])"
  using assms by (simp add: dispatch_def)

lemma header_message_frame:
  "header (message_frame dest s mid f) n =
     (if n = ''destination'' then Some dest
      else if n = ''subscription'' then Some (sub_name s)
      else if n = ''message-id'' then Some (show_nat (unat mid))
      else header f n)"
proof -
  have "n \<noteq> ''destination'' \<Longrightarrow>
      find (\<lambda>(k, v). k = n) (filter (\<lambda>(k, v). k \<noteq> ''destination'') hs) = find (\<lambda>(k, v). k = n) (hs :: (string \<times> string) list)" for hs
    by (induction hs) auto
  then show ?thesis
    by (simp add: header_def message_frame_def frame_with_header_def new_frame_def Let_def)
qed

lemma message_relayed:
  assumes "header f ''destination'' = Some dest"
  shows "relayed f (message_frame dest s mid f)"
  using assms by (simp add: relayed_def header_message_frame hdr_defs)
    (simp add: message_frame_def frame_with_header_def new_frame_def Let_def)

section \<open>Frames on the wire\<close>

abbreviation on_wire :: "Frame \<Rightarrow> Frame" where
  "on_wire f \<equiv> f\<lparr>fheaders := wire_headers f\<rparr>"

definition text_ok :: "string \<Rightarrow> bool" where
  "text_ok s \<longleftrightarrow> utf8_valid s \<and> NUL \<notin> set s"

lemma decode_encoded:
  assumes "frame_wf f" "fits f m"
  shows "decode_one_with_limit (encode f @ rest) m = (Inr (Some (on_wire f)), rest)"
  using decode_wire [OF assms, of "body f @ NUL # rest"] by (simp add: encode_wire)

lemma header_in: "header f n = Some v \<Longrightarrow> (n, v) \<in> set (fheaders f)"
  by (auto simp: header_def find_Some_iff in_set_conv_nth)

lemma header_on_wire:
  assumes "n \<noteq> CONTENT_LENGTH"
  shows "header (on_wire f) n = header f n"
proof -
  have "find (\<lambda>(k, v). k = n) (hs @ [(CONTENT_LENGTH, l)]) = find (\<lambda>(k, v). k = n) hs" for hs :: "(string \<times> string) list" and l
    using assms by (induction hs) auto
  then show ?thesis by (simp add: header_def wire_headers_def)
qed

lemma on_wire_wf:
  assumes "frame_wf f" "length (body f) < 2 ^ 64"
  shows "frame_wf (on_wire f)"
  using assms wire_headers_wf [OF assms(1)] wire_headers_length [OF assms]
  by (auto simp: frame_wf_def)

lemma text_ok_show_nat: "text_ok (show_nat n)"
  using show_nat_digits [of n] by (auto simp: text_ok_def list_all_iff is_ascii_digit_def byte_def)

lemma message_frame_wf:
  assumes "frame_wf f" "header f ''destination'' = Some dest" "text_ok (sub_name s)"
  shows "frame_wf (message_frame dest s mid f)"
proof -
  have "text_ok dest" using assms(1) header_in [OF assms(2)] by (auto simp: frame_wf_def text_ok_def)
  moreover have "good_line ''MESSAGE''" "text_ok ''MESSAGE''" "text_ok ''destination''" "text_ok ''subscription''"
    "text_ok ''message-id''" by (simp_all add: good_line_def text_ok_def byte_def)
  ultimately show ?thesis
    using assms text_ok_show_nat [of "unat mid"]
    by (auto simp: frame_wf_def message_frame_def frame_with_header_def new_frame_def Let_def CONTENT_LENGTH_def text_ok_def)
qed

lemma relayed_wire:
  assumes "header f ''destination'' = Some dest"
  shows "relayed f (on_wire (message_frame dest s mid (on_wire f)))"
proof -
  have "header (on_wire f) ''destination'' = Some dest" using assms by (simp add: header_on_wire CONTENT_LENGTH_def)
  then have "relayed (on_wire f) (message_frame dest s mid (on_wire f))" by (rule message_relayed)
  then show ?thesis
    by (simp add: relayed_def header_on_wire CONTENT_LENGTH_def hdr_defs)
qed

text \<open>The frames that reach a subscriber of this broker, as it reads them, are a relay as the adapter needs it.\<close>

definition broker_relays :: "Frame \<Rightarrow> Frame \<Rightarrow> bool" where
  "broker_relays f g \<longleftrightarrow>
     (\<exists>dest s mid. header f ''destination'' = Some dest \<and> g = on_wire (message_frame dest s mid (on_wire f)))"

interpretation mini_relay: stomp_relay broker_relays
  by unfold_locales (auto simp: broker_relays_def intro: relayed_wire)

section \<open>Steps\<close>

text \<open>A run: each step with the channels that are open when it is taken.\<close>

type_synonym schedule = "((chan \<Rightarrow> bool) \<times> broker_event) list"

primrec broker_run :: "schedule \<Rightarrow> Broker \<Rightarrow> Broker option" where
  "broker_run [] B = Some B"
| "broker_run (x # xs) B = Option.bind (broker_step (fst x) (snd x) B) (broker_run xs)"

lemma broker_run_reach:
  "broker_run xs B = Some B' \<Longrightarrow> broker_reach B \<Longrightarrow> broker_reach B'"
  by (induction xs arbitrary: B) (auto simp: Option.bind_eq_Some_conv intro: broker_reach.step)

lemma broker_run_append: "broker_run (xs @ ys) B = Option.bind (broker_run xs B) (broker_run ys)"
  by (induction xs arbitrary: B) (simp_all add: Option.bind_assoc cong: Option.bind_cong)

fun event_conn :: "broker_event \<Rightarrow> 64 word option" where
  "event_conn (ConnShutdown i) = Some i"
| "event_conn (ConnRead i r) = Some i"
| "event_conn (ConnFrame i) = Some i"
| "event_conn (ConnSend i) = Some i"
| "event_conn _ = None"

lemma dispatch_isolated:
  assumes "dispatch is_open i c f S = (r, S', out, todo)"
  shows "filter (\<lambda>s. conn_id s \<noteq> i) (subs_at S' d) = filter (\<lambda>s. conn_id s \<noteq> i) (subs_at S d)"
proof -
  have guard: "((conn_id s = i \<longrightarrow> P) \<and> conn_id s \<noteq> i) \<longleftrightarrow> conn_id s \<noteq> i" for s :: Sub and P by blast
  show ?thesis
    using assms by (auto simp: dispatch_def Let_def guard split: if_splits option.splits)
qed

lemma broker_step_frame:
  assumes "fmlookup (conns B) i = Some c" "phase c = Draining"
    and "decode_one (rbuf c) = (Inr (Some f), b)" "dispatch is_open i (out_chan c) f (broker_state B) = (r, S, out, todo)"
  shows "broker_step is_open (ConnFrame i) B = Some (B\<lparr>broker_state := S, log := log B @ map (Pair i) out,
    conns := fmupd i (c\<lparr>rbuf := b, fanout := todo,
      phase := (if todo \<noteq> [] then Sending else case r of Inl _ \<Rightarrow> Waiting | Inr _ \<Rightarrow> Draining)\<rparr>) (conns B)\<rparr>)"
  using assms by (simp add: broker_step_def handle_buffered_def)

text \<open>The loop of a SEND ends: it takes one step for each target.\<close>

lemma sending_ends:
  assumes "fmlookup (conns B) i = Some c" "phase c = (if fanout c = [] then Draining else Sending)"
    and "length opens = length (fanout c)"
  shows "\<exists>B'. broker_run (map (\<lambda>p. (p, ConnSend i)) opens) B = Some B' \<and>
    fmlookup (conns B') i = Some (c\<lparr>fanout := [], phase := Draining\<rparr>)"
  using assms
proof (induction opens arbitrary: B c)
  case Nil
  then show ?case by (cases c) simp
next
  case (Cons p opens)
  obtain t g todo where f: "fanout c = (t, g) # todo" using Cons.prems(3) by (cases "fanout c") auto
  let ?c = "c\<lparr>fanout := todo, phase := (if todo = [] then Draining else Sending)\<rparr>"
  let ?B = "B\<lparr>log := log B @ map (Pair i) (send_to p t g), conns := fmupd i ?c (conns B)\<rparr>"
  have "broker_step p (ConnSend i) B = Some ?B"
    using Cons.prems(1,2) f by (simp add: broker_step_def handle_fanout_def)
  moreover have "\<exists>B'. broker_run (map (\<lambda>p. (p, ConnSend i)) opens) ?B = Some B' \<and>
      fmlookup (conns B') i = Some (?c\<lparr>fanout := [], phase := Draining\<rparr>)"
    by (rule Cons.IH) (use Cons.prems(3) f in simp_all)
  ultimately show ?case by simp
qed

lemma draining_step:
  assumes "fmlookup (conns B) i = Some c" "phase c = Draining"
  obtains xs B' where "broker_run xs B = Some B'" "snd ` set xs \<subseteq> {ConnFrame i, ConnSend i}"
    "\<And>c'. fmlookup (conns B') i = Some c' \<Longrightarrow> phase c' = Waiting \<or> phase c' = Draining \<and> length (rbuf c') < length (rbuf c)"
proof (cases "\<exists>f b. decode_one (rbuf c) = (Inr (Some f), b)")
  case True
  then obtain f b where f: "decode_one (rbuf c) = (Inr (Some f), b)" by blast
  obtain r S out todo where d: "dispatch (\<lambda>_. True) i (out_chan c) f (broker_state B) = (r, S, out, todo)"
    by (cases "dispatch (\<lambda>_. True) i (out_chan c) f (broker_state B)")
  have less: "length b < length (rbuf c)" using decode_Some_shrinks f by (simp add: decode_one_def)
  define c1 where "c1 = c\<lparr>rbuf := b, fanout := todo, phase := (if todo \<noteq> [] then Sending else case r of Inl _ \<Rightarrow> Waiting | Inr _ \<Rightarrow> Draining)\<rparr>"
  obtain B1 where B1: "broker_step (\<lambda>_. True) (ConnFrame i) B = Some B1" "fmlookup (conns B1) i = Some c1"
    using broker_step_frame [OF assms f d] by (simp add: c1_def)
  show thesis
  proof (cases "todo = []")
    case True
    then have "phase c1 = Waiting \<or> phase c1 = Draining \<and> length (rbuf c1) < length (rbuf c)"
      using less by (simp add: c1_def split: sum.split)
    then show thesis using that [of "[(\<lambda>_. True, ConnFrame i)]" B1] B1 by simp
  next
    case False
    obtain B2 where B2: "broker_run (map (\<lambda>p. (p, ConnSend i)) (replicate (length todo) (\<lambda>_. True))) B1 = Some B2"
        "fmlookup (conns B2) i = Some (c1\<lparr>fanout := [], phase := Draining\<rparr>)"
      using sending_ends [OF B1(2), of "replicate (length todo) (\<lambda>_. True)"] False by (auto simp: c1_def)
    show thesis
      using that [of "(\<lambda>_. True, ConnFrame i) # map (\<lambda>p. (p, ConnSend i)) (replicate (length todo) (\<lambda>_. True))" B2] B1(1) B2 less
      by (auto simp: c1_def)
  qed
next
  case False
  obtain q b where q: "decode_one (rbuf c) = (q, b)" by (cases "decode_one (rbuf c)")
  have step: "broker_step (\<lambda>_. True) (ConnFrame i) B = Some (handle_buffered (\<lambda>_. True) i c B)"
    using assms by (simp add: broker_step_def)
  have "phase c' = Waiting" if "fmlookup (conns (handle_buffered (\<lambda>_. True) i c B)) i = Some c'" for c'
    using that False q by (auto simp: handle_buffered_def abort_conn_def split: sum.splits option.splits)
  then show thesis using that [of "[(\<lambda>_. True, ConnFrame i)]"] step by simp
qed

text \<open>The inner loop ends: whatever bytes it was sent, a connection that goes on by itself comes to wait for
  its next read or is gone.\<close>

lemma draining_ends:
  assumes "fmlookup (conns B) i = Some c" "phase c = Draining"
  shows "\<exists>xs B'. broker_run xs B = Some B' \<and> snd ` set xs \<subseteq> {ConnFrame i, ConnSend i} \<and>
    (\<forall>c'. fmlookup (conns B') i = Some c' \<longrightarrow> phase c' = Waiting)"
  using assms
proof (induction "length (rbuf c)" arbitrary: B c rule: less_induct)
  case less
  obtain xs B1 where B1: "broker_run xs B = Some B1" "snd ` set xs \<subseteq> {ConnFrame i, ConnSend i}"
    "\<And>c'. fmlookup (conns B1) i = Some c' \<Longrightarrow> phase c' = Waiting \<or> phase c' = Draining \<and> length (rbuf c') < length (rbuf c)"
    using draining_step [OF less.prems] by blast
  show ?case
  proof (cases "\<exists>c'. fmlookup (conns B1) i = Some c' \<and> phase c' = Draining")
    case True
    then obtain c' where c': "fmlookup (conns B1) i = Some c'" "phase c' = Draining" by blast
    then have "length (rbuf c') < length (rbuf c)" using B1(3) by fastforce
    from less.hyps [OF this c'] obtain ys B' where "broker_run ys B1 = Some B'" "snd ` set ys \<subseteq> {ConnFrame i, ConnSend i}"
      "\<forall>c'. fmlookup (conns B') i = Some c' \<longrightarrow> phase c' = Waiting" by blast
    then show ?thesis
      using B1(1,2) by (intro exI [where x = "xs @ ys"] exI [where x = B']) (auto simp: broker_run_append)
  next
    case False
    then show ?thesis using B1 by blast
  qed
qed

text \<open>Isolation: a step of one connection leaves the subscriptions of all others as they are, at every
  destination and in their order.\<close>

lemma broker_step_isolated:
  assumes "broker_step is_open ev B = Some B'" "event_conn ev = Some i"
  shows "filter (\<lambda>s. conn_id s \<noteq> i) (subs_at (broker_state B') d) = filter (\<lambda>s. conn_id s \<noteq> i) (subs_at (broker_state B) d)"
proof (cases ev)
  case (ConnFrame j)
  then obtain c where c: "fmlookup (conns B) i = Some c" "phase c = Draining" "B' = handle_buffered is_open i c B"
    using assms by (auto simp: broker_step_def split: option.splits if_splits)
  show ?thesis
    using dispatch_isolated [of is_open i "out_chan c" _ "broker_state B" _ _ _ _ d] c(3)
    by (auto simp: handle_buffered_def abort_conn_def split: prod.splits sum.splits option.splits)
qed (use assms in \<open>auto simp: broker_step_def handle_read_def handle_fanout_def abort_conn_def finish_conn_def filter_filter
    split: option.splits if_splits sum.splits list.splits\<close>)

section \<open>Bytes in, messages out\<close>

lemma step_encoded:
  assumes "fmlookup (conns B) i = Some c" "phase c = Draining" "rbuf c = encode f @ rest"
    and "frame_wf f" "fits f DEFAULT_MAX_FRAME_SIZE"
    and "dispatch is_open i (out_chan c) (on_wire f) (broker_state B) = (Inr (), S, out, todo)"
  shows "broker_step is_open (ConnFrame i) B = Some (B\<lparr>broker_state := S, log := log B @ map (Pair i) out,
    conns := fmupd i (c\<lparr>rbuf := rest, fanout := todo, phase := (if todo = [] then Draining else Sending)\<rparr>) (conns B)\<rparr>)"
proof -
  have "decode_one (rbuf c) = (Inr (Some (on_wire f)), rest)"
    using decode_encoded [OF assms(4,5)] by (simp add: decode_one_def assms(3))
  from broker_step_frame [OF assms(1,2) this assms(6)] show ?thesis by (cases "todo = []") simp_all
qed

text \<open>A SEND is to reach every subscriber that its exact destination has at that moment once, in the order
  they subscribed, as a MESSAGE with one fresh id; nobody else is to receive anything.\<close>

lemma broker_fan_out:
  assumes "fmlookup (conns B) i = Some c" "phase c = Draining" "rbuf c = encode f @ rest"
    and "frame_wf f" "fits f DEFAULT_MAX_FRAME_SIZE" "command f = ''SEND''" "header f ''destination'' = Some dest"
  defines "todo \<equiv> map (\<lambda>s. (sub_tx s, message_frame dest s (next_msg (broker_state B)) (on_wire f))) (subs_at (broker_state B) dest)"
  shows "broker_step is_open (ConnFrame i) B = Some (B\<lparr>
    broker_state := (broker_state B)\<lparr>next_msg := next_msg (broker_state B) + 1\<rparr>,
    conns := fmupd i (c\<lparr>rbuf := rest, fanout := todo, phase := (if todo = [] then Draining else Sending)\<rparr>) (conns B)\<rparr>)"
proof -
  have "command (on_wire f) = ''SEND''" "header (on_wire f) ''destination'' = Some dest"
    using assms(6,7) by (simp_all add: header_on_wire CONTENT_LENGTH_def)
  from step_encoded [OF assms(1-5) dispatch_send [OF this]] show ?thesis by (simp add: todo_def)
qed

text \<open>The frames the task of a connection has put on channels, and the steps of a run that are sends of
  connection \<open>i\<close>, when all of its steps are.\<close>

definition own_log :: "64 word \<Rightarrow> Broker \<Rightarrow> sends" where
  "own_log i B = map snd (filter (\<lambda>x. fst x = i) (log B))"

definition only_sends :: "64 word \<Rightarrow> (chan \<Rightarrow> bool) list \<Rightarrow> schedule \<Rightarrow> bool" where
  "only_sends i opens xs \<longleftrightarrow> filter (\<lambda>x. event_conn (snd x) = Some i) xs = map (\<lambda>p. (p, ConnSend i)) opens"

lemma own_log_simps [simp]:
  "own_log i (B'\<lparr>log := log B @ map (Pair j) out\<rparr>) = (if i = j then own_log i B @ out else own_log i B)"
  "own_log i (B\<lparr>broker_state := S\<rparr>) = own_log i B" "own_log i (B\<lparr>conns := cs\<rparr>) = own_log i B"
  "own_log i (B\<lparr>accepting := b\<rparr>) = own_log i B" "own_log i (B\<lparr>conn_seq := n\<rparr>) = own_log i B"
  by (simp_all add: own_log_def filter_map o_def)

text \<open>A step of another connection, or of the accept loop, changes nothing for this one.\<close>

lemma other_step:
  assumes "broker_step is_open ev B = Some B'" "event_conn ev \<noteq> Some i" "i < conn_seq B" "unat (conn_seq B) + 1 < 2 ^ 64"
  shows "fmlookup (conns B') i = fmlookup (conns B) i \<and> own_log i B' = own_log i B \<and> i < conn_seq B' \<and>
    unat (conn_seq B') \<le> unat (conn_seq B) + 1"
proof -
  have suc: "conn_seq B < conn_seq B + 1" "unat (conn_seq B + 1) = unat (conn_seq B) + 1"
    using assms(4) by (simp_all add: word_less_nat_alt unat_word_ariths)
  have "i < conn_seq B + 1" using assms(3) suc(1) by simp
  then show ?thesis
    using assms(1-3) suc(2)
    by (cases ev) (auto simp: broker_step_def run_broker_def finish_conn_def abort_conn_def handle_read_def handle_buffered_def
        handle_fanout_def Let_def split: if_splits option.splits sum.splits list.splits prod.splits)
qed

text \<open>However the other connections and the accept loop interleave with it, the loop of a SEND puts the
  messages it started with on their channels, in order, leaving out those whose channel is closed when
  their turn comes.\<close>

lemma fanout_interleaved:
  assumes "broker_run xs B = Some B'" "only_sends i opens xs" "length opens \<le> length todo"
    and "fmlookup (conns B) i = Some c" "fanout c = todo" "phase c = (if todo = [] then Draining else Sending)"
    and "i < conn_seq B" "unat (conn_seq B) + length xs < 2 ^ 64"
  shows "own_log i B' = own_log i B @ map fst (filter (\<lambda>(m, p). p (fst m)) (zip todo opens))"
  using assms
proof (induction xs arbitrary: B c todo opens)
  case Nil
  then show ?case by (simp add: only_sends_def)
next
  case (Cons x xs)
  obtain B1 where B1: "broker_step (fst x) (snd x) B = Some B1" "broker_run xs B1 = Some B'"
    using Cons.prems(1) by (auto simp: Option.bind_eq_Some_conv)
  show ?case
  proof (cases "event_conn (snd x) = Some i")
    case False
    have "unat (conn_seq B) + 1 < 2 ^ 64" using Cons.prems(8) by simp
    from other_step [OF B1(1) False Cons.prems(7) this] have o:
      "fmlookup (conns B1) i = Some c" "own_log i B1 = own_log i B" "i < conn_seq B1" "unat (conn_seq B1) + length xs < 2 ^ 64"
      using Cons.prems(4,8) by simp_all
    have "only_sends i opens xs" using Cons.prems(2) False by (simp add: only_sends_def)
    from Cons.IH [OF B1(2) this Cons.prems(3) o(1) Cons.prems(5,6) o(3,4)] show ?thesis using o(2) by simp
  next
    case True
    obtain p opens' where p: "opens = p # opens'" "x = (p, ConnSend i)" "only_sends i opens' xs"
      using Cons.prems(2) True by (cases opens) (auto simp: only_sends_def)
    obtain t g rest where f: "todo = (t, g) # rest" using Cons.prems(3) p(1) by (cases todo) auto
    let ?c = "c\<lparr>fanout := rest, phase := (if rest = [] then Draining else Sending)\<rparr>"
    have B1': "B1 = B\<lparr>log := log B @ map (Pair i) (send_to p t g), conns := fmupd i ?c (conns B)\<rparr>"
      using B1(1) Cons.prems(4-6) p(2) f by (simp add: broker_step_def handle_fanout_def)
    have "own_log i B' = own_log i B1 @ map fst (filter (\<lambda>(m, p). p (fst m)) (zip rest opens'))"
      by (rule Cons.IH [where c = ?c and todo = rest, OF B1(2) p(3)]) (use Cons.prems(3,7,8) p(1) f in \<open>simp_all add: B1'\<close>)
    then show ?thesis by (simp add: B1' p(1) f send_to_def)
  qed
qed

lemma subscribe_frame_header [simp]:
  "header (subscribe_frame n dest) ''destination'' = Some dest" "header (subscribe_frame n dest) ''id'' = Some n"
  "command (subscribe_frame n dest) = ''SUBSCRIBE''"
  by (simp_all add: subscribe_frame_def frame_with_header_def new_frame_def)

lemma subscribe_frame_wf: "text_ok n \<Longrightarrow> text_ok dest \<Longrightarrow> frame_wf (subscribe_frame n dest)"
  by (auto simp: subscribe_frame_def frame_with_header_def new_frame_def frame_wf_def good_line_def text_ok_def
      CONTENT_LENGTH_def) (simp_all add: byte_def)

text \<open>What the adapter's SUBSCRIBE does: its channel is appended to the subscribers of the destination.\<close>

lemma broker_subscribes:
  assumes "fmlookup (conns B) i = Some c" "phase c = Draining" "rbuf c = encode (subscribe_frame n dest) @ rest"
    and "text_ok n" "text_ok dest" "fits (subscribe_frame n dest) DEFAULT_MAX_FRAME_SIZE"
  shows "broker_step is_open (ConnFrame i) B = Some (B\<lparr>
    broker_state := add_sub dest \<lparr>conn_id = i, sub_name = n, sub_tx = out_chan c\<rparr> (broker_state B),
    conns := fmupd i (c\<lparr>rbuf := rest, fanout := [], phase := Draining\<rparr>) (conns B)\<rparr>)"
proof -
  have "dispatch is_open i (out_chan c) (on_wire (subscribe_frame n dest)) (broker_state B) =
      (Inr (), add_sub dest \<lparr>conn_id = i, sub_name = n, sub_tx = out_chan c\<rparr> (broker_state B), [], [])"
    by (rule dispatch_subscribe) (simp_all add: header_on_wire CONTENT_LENGTH_def)
  from step_encoded [OF assms(1-3) subscribe_frame_wf [OF assms(4,5)] assms(6) this] show ?thesis by simp
qed

section \<open>Ends of connections\<close>

text \<open>A connection whose peer closes it, or that is shut down, takes exactly its own subscriptions with
  it. One that ends on a failed read or on bytes that are no frame takes none: its subscriptions stay in
  the table, and a SEND to them is tried on a channel that has no writer.\<close>

lemma broker_conn_ends:
  assumes "fmlookup (conns B) i = Some c"
  shows "phase c = Waiting \<Longrightarrow> ev \<in> {ConnShutdown i, ConnRead i (Inr [])} \<Longrightarrow>
      \<exists>B'. broker_step is_open ev B = Some B' \<and> fmlookup (conns B') i = None \<and>
        (\<forall>d. subs_at (broker_state B') d = filter (\<lambda>s. conn_id s \<noteq> i) (subs_at (broker_state B) d))"
    and "phase c = Waiting \<Longrightarrow> \<exists>B'. broker_step is_open (ConnRead i (Inl ())) B = Some B' \<and>
        fmlookup (conns B') i = None \<and> broker_state B' = broker_state B"
    and "phase c = Draining \<Longrightarrow> decode_one (rbuf c) = (Inl e, b) \<Longrightarrow>
      \<exists>B'. broker_step is_open (ConnFrame i) B = Some B' \<and> fmlookup (conns B') i = None \<and> broker_state B' = broker_state B"
  using assms by (auto simp: broker_step_def handle_read_def handle_buffered_def finish_conn_def abort_conn_def)

section \<open>The client against the broker\<close>

lemma peer_recv_one:
  assumes "frame_wf f" "fits f DEFAULT_MAX_FRAME_SIZE"
  shows "peer_recv (encode f @ rest) reads = (Inr (on_wire f), rest)"
  using decode_encoded [OF assms, of rest] by (simp add: peer_recv.simps decode_one_def)

lemma connected_reply_wf: "frame_wf connected_reply"
  by (auto simp: connected_reply_def frame_with_header_def new_frame_def frame_wf_def good_line_def CONTENT_LENGTH_def)
    (simp_all add: byte_def)

lemma connected_reply_fits: "fits connected_reply DEFAULT_MAX_FRAME_SIZE"
  by (simp add: fits_def wire_block_def wire_headers_def block_def header_line_def connected_reply_def new_frame_def
      frame_with_header_def has_len_def CONTENT_LENGTH_def show_nat.simps escape_header_def escape_char_def DEFAULT_MAX_FRAME_SIZE_def)

text \<open>A client that reads the broker's answer in one piece is connected with nothing left over.\<close>

lemma handshake_succeeds:
  "handshake [Some (Inr (encode connected_reply))] = ([peer_connect_frame], Inr [])"
proof -
  have "decode_one [] = (Inr None, [])" by (simp add: decode_one_def decode_one_with_limit_def)
  moreover have "encode connected_reply \<noteq> []" by (simp add: encode_def)
  ultimately have "peer_recv [] [Some (Inr (encode connected_reply))] = peer_recv (encode connected_reply) []"
    by (simp add: peer_recv.simps [of "[]"])
  also have "\<dots> = (Inr (on_wire connected_reply), [])"
    using peer_recv_one [OF connected_reply_wf connected_reply_fits, of "[]" "[]"] by simp
  finally show ?thesis
    by (simp add: handshake_def connected_reply_def frame_with_header_def new_frame_def)
qed

lemma start_config_one_session:
  "snd (serve_inner (start_stomp_adapter_config addr ts id) a turns) \<le> 1"
proof (cases turns)
  case (Cons t rest)
  then show ?thesis
    by (cases "ended t" rule: joined_cases) (simp_all add: serve_inner_def start_stomp_adapter_config_def)
qed (simp add: serve_inner_def)

end
