(* ===== verification/Spec2Isabelle.thy ===== *)
theory Spec2Isabelle
  imports Core_Concurrent Host Bench_Scenarios Test_Support Mini_Broker
begin

text \<open>
  A verification development of OA-Gateway, the message gateway under \<open>src/crates\<close>. The gateway accepts
  OWP clients over WebSocket, holds a STOMP connection to a broker and takes part in a DDS domain, and
  routes what each of them publishes to the others through one in-process engine. Payloads are UCI
  messages, as OMS JSON or as UCI XML, some of them inside A-GRA transport wrappers.

  \<^bold>\<open>The parts and how they interact.\<close> The engine (\<open>oa-gateway-core\<close>) keeps subscriptions by topic and type
  and hands each published envelope to the bounded channels that match it. An adapter publishes what
  arrives at its network side and forwards what arrives on its channels. It marks its own envelopes with
  its id, so that it does not send them back. Each adapter runs under \<open>supervise\<close> (\<open>oa-gateway-adapter\<close>),
  which restarts its session after an error or a panic as configured. The OWP adapter converts between
  JSON and XML with the schema of \<open>oa-gateway-uci\<close>. The OWP and DDS adapters check messages against it.
  All three bridging adapters open A-GRA wrappers with \<open>oa-gateway-agra\<close>. The host (\<open>oa-gateway\<close>) reads its
  configuration, compiles the schema, loads TLS material and starts the adapters.

  \<^bold>\<open>Theories and sources.\<close>
  \<^item> \<open>Gateway_Prelude\<close>, \<open>Btree_Map\<close>, \<open>Xml_Text\<close>, \<open>Json_Value\<close>: what the sources use of Rust and its standard
    library, \<open>BTreeMap\<close>, the raw scan of XML text, and the values of \<open>serde_json\<close> and \<open>roxmltree\<close>. A byte is a
    \<open>char\<close>, and a \<open>String\<close> is the list of its UTF-8 bytes. Fallible code is a sum with the error on the left.
  \<^item> \<open>Core_Types\<close>, \<open>Core_Engine\<close>, \<open>Core_Concurrent\<close>: \<open>oa-gateway-core\<close>. \<open>Core_Engine\<close> has one function per
    method of \<open>Engine\<close> on the record of its four indexes and three 64-bit counters. \<open>Core_Concurrent\<close> takes
    \<open>publish\<close> apart at its lock and counter accesses and interleaves any number of callers.
  \<^item> \<open>Agra\<close>: \<open>oa-gateway-agra/src/lib.rs\<close>.
  \<^item> \<open>Adapter_Host\<close>, \<open>Adapter_Tls\<close>, \<open>Loopback\<close>: \<open>oa-gateway-adapter/src\<close> (\<open>lib.rs\<close>, \<open>supervise.rs\<close>,
    \<open>tls.rs\<close>) and \<open>oa-gateway-loopback\<close>.
  \<^item> \<open>Stomp_Codec\<close>, \<open>Stomp_Adapter\<close>: \<open>oa-gateway-stomp\<close>, the frame codec and its read loop, then destinations,
    the handshake and the session.
  \<^item> \<open>Uci_Primitive\<close>, \<open>Uci_Schema\<close>, \<open>Uci_Json\<close>, \<open>Uci_Xml\<close>, \<open>Uci_Validate\<close>, \<open>Uci_Xsd\<close>: \<open>oa-gateway-uci\<close>, in the
    order in which a message meets them, and the XSD compiler.
  \<^item> \<open>Owp_Codec\<close>, \<open>Owp_Convert\<close>, \<open>Owp_Session\<close>, \<open>Owp_Session_Laws\<close>, \<open>Owp_Server\<close>: \<open>oa-gateway-owp\<close>. A
    session is a record of what \<open>session::run\<close> holds in locals and channels, and one step per arm of its
    \<open>select!\<close>. The server interleaves the sessions it has accepted over one engine.
  \<^item> \<open>Dds_Provider\<close>, \<open>Dds_Adapter\<close>: \<open>oa-gateway-dds\<close>.
  \<^item> \<open>Host_Config\<close>, \<open>Host\<close>: \<open>oa-gateway/src\<close>, from the command line to the running adapters.
  \<^item> \<open>Float_Ops\<close>, \<open>Bench_Cli\<close>, \<open>Bench_Report\<close>, \<open>Bench_Client\<close>, \<open>Bench_Scenarios\<close>: \<open>oa-gateway-bench\<close>, the load
    generator: \<open>f64\<close> arithmetic, the command line, payloads and reports with the engine scenario, the OWP
    client with the ping scenario, and the output with the other scenarios.
  \<^item> \<open>Mini_Broker\<close>, \<open>Test_Support\<close>: \<open>oa-gateway-testing\<close>, the STOMP broker with its raw client, and the
    embedded OWP server with its client, the test configurations and certificates.
  \<^item> This theory: what holds of the STOMP adapter, the engine and the broker together.

  \<^bold>\<open>What the lemmas show.\<close>
  \<^item> Engine: the indexes implement a plain table of subscriptions. Every operation keeps them consistent. A
    publish reaches each matching subscription once, and its report counts what happened. With concurrent
    callers the counters account for every send.
  \<^item> Codecs: STOMP and OWP frames decode to what was encoded, in whatever pieces they arrive; the decoders
    respect their limits; the OWP parser is its grammar.
  \<^item> Wrappers: unwrapping undoes wrapping. The nesting scan of this crate is exact on documents without
    CDATA sections, which evade it, and without a \<open>>\<close> inside a declaration of the DOCTYPE, which makes it
    count too much; the scan of \<open>oa-gateway-uci\<close> skips CDATA sections and is exact on documents with them too.
  \<^item> UCI: a message comes back from its JSON form, and one that keeps to its schema from its XML form, when
    the form can carry it: no floats and at most 127 levels of JSON, plain names, text that XML allows
    without carriage returns and at most 96 levels of XML. Validation reports exactly
    the violations of a reference definition of conformance. Integer types accept exactly their ranges.
    Collecting the elements of a type ends. The compiler accepts exactly the schemas it should and loses
    no declaration. Every type of a compiled schema is defined.
  \<^item> Adapters: no adapter sends back what it received. Sessions leave no subscription behind and touch no
    other adapter's. A supervised loop ends exactly when its settings say. An OWP session is silent until
    INIT, publishes a PUB as a whole, and stays within its limits under every interleaving, with or without
    TLS.
  \<^item> Host: an OWP adapter with an XML baseline has a schema to convert with. TLS is never left off
    silently. What is running when a start fails is said exactly.
  \<^item> Load generator: what its engine and loopback scenarios report is what the engine counted, and what its
    OWP scenario reports as sent is what was written; no message of its own is counted as unmatched. Its
    latency summary is ordered, its median and mean are exact. A ping succeeds exactly when the server
    follows the protocol.
  \<^item> Together: a typed message that is not a wrapper crosses two gateways through the broker intact, however
    other connections interleave. The ping gets through the embedded gateway under every schedule. The broker serves the frames of one connection without touching the subscriptions of
    another, and its inner loop ends on any input.
  \<^item> Some theorems state what the code does against its own documentation: the evaded nesting scan, the
    \<open>-ERR\<close> that is never written, the session that waits for itself, the DDS sample that ends its session,
    the STOMP message that comes back to its sender, and the adapters that run when a start is refused.

  \<^bold>\<open>Interfaces.\<close> A locale states what a client may rely on: \<open>map_spec\<close> for a sorted map, \<open>mpsc\<close> and
  \<open>delivery_channels\<close> for bounded channels, \<open>router\<close> for the engine as the adapters see it, \<open>stamped_bridge\<close>
  for an adapter that marks what it publishes, \<open>stomp_relay\<close> for a broker as the STOMP adapter sees it, \<open>nesting_scanner\<close> for the two nesting scans, \<open>report_step\<close> for a
  step of the validator. Each is interpreted on the definitions of the component that provides it; the
  channels, which \<open>tokio\<close> provides, on a bounded queue.

  \<^bold>\<open>Parameters.\<close> Code outside the repository is an argument of the definitions that call it, mostly as a
  record of functions: \<open>Host\<close>, \<open>Codecs\<close>, \<open>OwpSerde\<close>, \<open>DdsLib\<close>, \<open>TlsLib\<close>, \<open>HostLib\<close> and \<open>ReportLib\<close> hold \<open>tokio\<close> channels, \<open>serde_json\<close>,
  \<open>roxmltree\<close>, \<open>regex\<close>, \<open>serde\<close>, \<open>rustdds\<close>, \<open>rustls\<close>, the file system and the TOML reader. What a theorem relies
  on is a named predicate such as \<open>mpsc\<close>, \<open>hash_order\<close>, \<open>serde_reproduces\<close> (JSON without floats and within
  the nesting limit of \<open>serde_json\<close> is read back as it was written) or \<open>xml_reads\<close>, and each theorem that has one comes
  with a concrete instance for which it holds.

  \<^bold>\<open>Bounds and termination.\<close> Every recursion ends, with a proof where it is not structural. Loops that may run for ever are run on the
  list of events they see. As in the code, extension chains are walked with the set of names already seen, so
  a cycle ends in its error, and restriction chains are followed for \<open>MAX_SIMPLE_DEPTH\<close> links. Counters and sequence numbers are 64-bit words.

  \<^bold>\<open>Not modelled.\<close> Log lines and \<open>init_tracing\<close>, which have no result. Sockets, timers and TLS handshakes,
  which are calls into \<open>tokio\<close> and \<open>rustls\<close>: what they answer is an event or an argument. The code that
  \<open>serde\<close> derives. Of \<open>oa-gateway-testing\<close>, the certificates it generates with \<open>rcgen\<close>, its fixture files and
  its timed waits. A session of the OWP adapter handles one frame as one step; in the code it awaits
  room in its frame channel between the engine call and the reply, so a \<open>MSG\<close> may come before the \<open>+OK\<close> of the \<open>PUB\<close> that caused it. A session that panics is a value of the join its
  supervisor sees; that the STOMP and DDS sessions then skip their final \<open>drop_adapter\<close>, and the next
  session's first one does its work, is not part of their models.
\<close>

section \<open>Two gateways and a broker\<close>

lemma outbound_command [simp]: "command (outbound_frame h a m e) = ''SEND''"
  by (simp add: outbound_frame_def send_frame_def new_frame_def frame_with_header_def Let_def)

text \<open>C13: A typed message crosses from one gateway to the others through the broker. The envelope has a
  non-empty type hint and a content type without parameters, its frames are valid STOMP and within the
  frame limits of broker and receiver, and the receiver does not unwrap or the payload is not an A-GRA
  wrapper (a wrapper would be published as two envelopes). When the broker reads the bytes that one STOMP
  adapter writes for such an envelope, its task can go on to send to each subscriber; and however other
  connections interleave with that, it puts one frame on the channel of each subscriber that the
  destination had when the bytes were read and whose channel is open when its turn comes, in the order
  they subscribed, and nothing else. The bytes of each of these frames decode at the receiving adapter,
  which makes of them one envelope to publish, with the same topic, type hint, payload and content type,
  stamped with its own origin, whatever destination prefix it uses. (Connection ids are 64-bit and wrap;
  the statement is for runs before they do.)\<close>

theorem broker_bridges_gateways:
  fixes h :: "'w Host" and h' :: "'v Host"
  assumes f_def: "f = outbound_frame h a m e"
    and "fmlookup (conns B) i = Some c" "phase c = Draining" "rbuf c = encode f @ rest"
    and "frame_wf f" "fits f DEFAULT_MAX_FRAME_SIZE"
    and "subs_at (broker_state B) (to_stomp m (topic (route e))) = ss" "length opens = length ss" "i < conn_seq B"
    and "\<And>s. s \<in> set ss \<Longrightarrow> text_ok (sub_name s) \<and>
      fits (message_frame (to_stomp m (topic (route e))) s (next_msg (broker_state B)) (on_wire f)) (max_frame_size cfg)"
    and "type_hint (route e) = Some hint" "hint \<noteq> []" "plain_mime (ct_str (content_type e))"
    and "\<not> unwrap_ma_payloads cfg \<or> wrapper_kind (json_parse h') (xml_parse h') (payload e) = None"
  shows "(\<exists>B'. broker_run ((is_open, ConnFrame i) # map (\<lambda>p. (p, ConnSend i)) opens) B = Some B') \<and>
    (\<forall>xs B'. broker_run ((is_open, ConnFrame i) # xs) B = Some B' \<and> only_sends i opens xs \<and> unat (conn_seq B) + length xs < 2 ^ 64 \<longrightarrow>
      (\<exists>out. own_log i B' = own_log i B @ out \<and>
        map fst out = map (\<lambda>(s, p). sub_tx s) (filter (\<lambda>(s, p). p (sub_tx s)) (zip ss opens)) \<and>
        (\<forall>(t, g) \<in> set out. \<exists>g' e'. decode_one_with_limit (encode g) (max_frame_size cfg) = (Inr (Some g'), []) \<and>
           inbound_envelopes h' cfg b m' g' W = Inr ([e'], 1) \<and> route e' = route e \<and> payload e' = payload e \<and>
           content_type e' = content_type e \<and> origin e' = Some (adapter_str b))))"
proof -
  let ?dest = "to_stomp m (topic (route e))" and ?mid = "next_msg (broker_state B)"
  let ?msg = "\<lambda>s. message_frame ?dest s ?mid (on_wire f)"
  let ?todo = "map (\<lambda>s. (sub_tx s, ?msg s)) ss"
  have f: "command f = ''SEND''" "header f ''destination'' = Some ?dest"
    by (simp_all add: f_def outbound_header(1))
  have len: "length (body f) < 2 ^ 64" using assms(6) by (simp add: fits_def)
  have dest: "header (on_wire f) ''destination'' = Some ?dest" using f(2) by (simp add: header_on_wire CONTENT_LENGTH_def)
  have arrives: "\<exists>g' e'. decode_one_with_limit (encode (?msg s)) (max_frame_size cfg) = (Inr (Some g'), []) \<and>
      inbound_envelopes h' cfg b m' g' W = Inr ([e'], 1) \<and> route e' = route e \<and> payload e' = payload e \<and>
      content_type e' = content_type e \<and> origin e' = Some (adapter_str b)"
    if s: "s \<in> set ss" for s
  proof -
    have wf: "frame_wf (?msg s)"
      using message_frame_wf [OF on_wire_wf [OF assms(5) len] dest] assms(10) [OF s] by blast
    have "decode_one_with_limit (encode (?msg s)) (max_frame_size cfg) = (Inr (Some (on_wire (?msg s))), [])"
      using decode_encoded [OF wf, of "max_frame_size cfg" "[]"] assms(10) [OF s] by simp
    moreover have "broker_relays (outbound_frame h a m e) (on_wire (?msg s))"
      using f(2) unfolding f_def broker_relays_def by blast
    ultimately show ?thesis using mini_relay.crosses [OF _ assms(11-14)] by blast
  qed
  let ?c = "c\<lparr>rbuf := rest, fanout := ?todo, phase := (if ?todo = [] then Draining else Sending)\<rparr>"
  let ?B = "B\<lparr>broker_state := (broker_state B)\<lparr>next_msg := ?mid + 1\<rparr>, conns := fmupd i ?c (conns B)\<rparr>"
  have step: "broker_step is_open (ConnFrame i) B = Some ?B"
    using broker_fan_out [OF assms(2-6) f, of is_open] unfolding assms(7) .
  have conn: "fmlookup (conns ?B) i = Some ?c" "fanout ?c = ?todo" "phase ?c = (if ?todo = [] then Draining else Sending)" by simp_all
  have "\<exists>B'. broker_run (map (\<lambda>p. (p, ConnSend i)) opens) ?B = Some B'"
    using sending_ends [OF conn(1), of opens] conn(2,3) assms(8) by auto
  then have runs: "\<exists>B'. broker_run ((is_open, ConnFrame i) # map (\<lambda>p. (p, ConnSend i)) opens) B = Some B'"
    unfolding broker_run.simps fst_conv snd_conv step by simp
  have exact: "\<exists>out. own_log i B' = own_log i B @ out \<and>
        map fst out = map (\<lambda>(s, p). sub_tx s) (filter (\<lambda>(s, p). p (sub_tx s)) (zip ss opens)) \<and>
        (\<forall>(t, g) \<in> set out. \<exists>g' e'. decode_one_with_limit (encode g) (max_frame_size cfg) = (Inr (Some g'), []) \<and>
           inbound_envelopes h' cfg b m' g' W = Inr ([e'], 1) \<and> route e' = route e \<and> payload e' = payload e \<and>
           content_type e' = content_type e \<and> origin e' = Some (adapter_str b))"
    if run: "broker_run ((is_open, ConnFrame i) # xs) B = Some B'" "only_sends i opens xs" "unat (conn_seq B) + length xs < 2 ^ 64" for xs B'
  proof -
    have rest: "broker_run xs ?B = Some B'" using run(1) unfolding broker_run.simps fst_conv snd_conv step by simp
    let ?out = "map (\<lambda>(s, p). (sub_tx s, ?msg s)) (filter (\<lambda>(s, p). p (sub_tx s)) (zip ss opens))"
    have "own_log i B' = own_log i ?B @ map fst (filter (\<lambda>(m, p). p (fst m)) (zip ?todo opens))"
      using fanout_interleaved [OF rest run(2) _ conn] assms(8,9) run(3) by simp
    also have "map fst (filter (\<lambda>(m, p). p (fst m)) (zip ?todo opens)) = ?out"
      by (auto simp: zip_map1 filter_map o_def case_prod_unfold)
    finally have "own_log i B' = own_log i B @ ?out" by simp
    moreover have "map fst ?out = map (\<lambda>(s, p). sub_tx s) (filter (\<lambda>(s, p). p (sub_tx s)) (zip ss opens))"
      by (simp add: case_prod_unfold o_def)
    moreover have "\<forall>(t, g) \<in> set ?out. \<exists>s \<in> set ss. g = ?msg s" by (auto dest: set_zip_leftD)
    ultimately show ?thesis using arrives by (intro exI [where x = ?out]) fastforce
  qed
  show ?thesis using runs exact by blast
qed

definition demo_sent :: Frame where
  "demo_sent = outbound_frame demo_host (AdapterId ''stomp'') default_destination_map demo_envelope"

definition demo_subscriber :: Sub where
  "demo_subscriber = \<lparr>conn_id = 2, sub_name = ''sub-0'', sub_tx = 7\<rparr>"

definition demo_broker :: Broker where
  "demo_broker = new_broker\<lparr>broker_state := add_sub ''/topic/demo'' demo_subscriber empty_broker_state,
     conns := fmupd 1 \<lparr>out_chan = 6, rbuf = encode demo_sent, fanout = [], phase = Draining\<rparr> fmempty, conn_seq := 2\<rparr>"

lemma demo_sent_eq:
  "demo_sent = \<lparr>command = ''SEND'', fheaders = [(''destination'', ''/topic/demo''), (''content-type'', ''application/octet-stream''),
     (HDR_ORIGIN, ''stomp''), (HDR_TOPIC, ''demo''), (HDR_ID, ''7''), (HDR_TYPE_HINT, ''Ping'')], body = ''x''\<rparr>"
  by (simp add: demo_sent_def outbound_frame_def send_frame_def outbound_headers_def demo_envelope_def demo_host_def
      default_destination_map_def new_destination_map_def to_stomp_def suffix_def frame_with_header_def new_frame_def
      Let_def octet_stream_def show_nat.simps new_envelope_def hdr_defs)

lemmas demo_sizes = fits_def wire_block_def wire_headers_def block_def header_line_def has_len_def CONTENT_LENGTH_def
  show_nat.simps escape_header_def escape_char_def DEFAULT_MAX_FRAME_SIZE_def hdr_defs

lemma demo_sent_wf: "frame_wf demo_sent" "fits demo_sent DEFAULT_MAX_FRAME_SIZE"
  "fits (message_frame ''/topic/demo'' demo_subscriber 1 (on_wire demo_sent)) DEFAULT_MAX_FRAME_SIZE"
  by (auto simp: demo_sent_eq frame_wf_def good_line_def CONTENT_LENGTH_def hdr_defs byte_def)
    (simp_all add: demo_sent_eq demo_subscriber_def message_frame_def frame_with_header_def new_frame_def Let_def demo_sizes)

lemma demo_envelope_facts:
  "type_hint (route demo_envelope) = Some ''Ping''" "payload demo_envelope = ''x''" "topic (route demo_envelope) = ''demo''"
  "plain_mime (ct_str (content_type demo_envelope))"
  "wrapper_kind (json_parse demo_host) (xml_parse demo_host) (payload demo_envelope) = None"
  by (simp_all add: demo_envelope_def octet_stream_def plain_mime_def trim_def trim_start_def trim_end_def
      strip_any.simps unicode_ws_def wrapper_kind_def)

lemma demo_dest: "to_stomp default_destination_map ''demo'' = ''/topic/demo''"
  by (simp add: default_destination_map_def new_destination_map_def to_stomp_def suffix_def)

theorem broker_bridges_gateways_witness:
  "\<exists>B' g g' e'. broker_run [(\<lambda>_. True, ConnFrame 1), (\<lambda>_. False, Accept 9 True), (\<lambda>_. True, ConnSend 1)] demo_broker = Some B' \<and>
     own_log 1 B' = [(7, g)] \<and>
     decode_one_with_limit (encode g) DEFAULT_MAX_FRAME_SIZE = (Inr (Some g'), []) \<and>
     inbound_envelopes demo_host default_stomp_config (AdapterId ''b'') (new_destination_map ''/queue'') g' (world demo_bridge) =
       Inr ([e'], 1) \<and> route e' = route_typed ''demo'' ''Ping'' \<and> payload e' = ''x''"
proof -
  let ?c = "\<lparr>out_chan = 6, rbuf = encode demo_sent, fanout = [], phase = Draining\<rparr>"
  let ?xs = "[(\<lambda>_. False, Accept 9 True), (\<lambda>_. True, ConnSend 1)] :: schedule"
  have at: "subs_at (broker_state demo_broker) ''/topic/demo'' = [demo_subscriber]" "next_msg (broker_state demo_broker) = 1"
    by (simp_all add: demo_broker_def new_broker_def) (simp add: empty_broker_state_def)
  have ss: "subs_at (broker_state demo_broker) (to_stomp default_destination_map (topic (route demo_envelope))) = [demo_subscriber]"
    by (simp add: demo_envelope_facts demo_dest at)
  have conn: "fmlookup (conns demo_broker) 1 = Some ?c" "phase ?c = Draining" "rbuf ?c = encode demo_sent @ []"
    by (simp_all add: demo_broker_def)
  have sub: "text_ok (sub_name s) \<and> fits (message_frame (to_stomp default_destination_map (topic (route demo_envelope))) s
      (next_msg (broker_state demo_broker)) (on_wire demo_sent)) (max_frame_size default_stomp_config)"
    if "s \<in> set [demo_subscriber]" for s
    using that demo_sent_wf(3)
    by (simp add: demo_envelope_facts demo_dest at default_stomp_config_def)
      (simp add: demo_subscriber_def text_ok_def byte_def)
  have hint: "''Ping'' \<noteq> ([] :: string)" by simp
  note bridges = broker_bridges_gateways [OF demo_sent_def conn demo_sent_wf(1,2) ss _ _ sub demo_envelope_facts(1) hint
      demo_envelope_facts(4) disjI2 [OF demo_envelope_facts(5)], where opens = "[\<lambda>_. True]" and is_open = "\<lambda>_. True"
      and b = "AdapterId ''b''" and m' = "new_destination_map ''/queue''" and W = "world demo_bridge"]
  have seq: "conn_seq demo_broker = 2" "accepting demo_broker" "log demo_broker = []" by (simp_all add: demo_broker_def new_broker_def)
  have "\<exists>B'. broker_run ((\<lambda>_. True, ConnFrame 1) # ?xs) demo_broker = Some B'"
  proof -
    have "header demo_sent ''destination'' = Some ''/topic/demo''" "command demo_sent = ''SEND''" by (simp_all add: demo_sent_eq)
    from broker_fan_out [OF conn demo_sent_wf(1,2) this(2,1), where is_open = "\<lambda>_. True"] show ?thesis
      by (simp add: at) (simp add: broker_step_def run_broker_def handle_fanout_def seq Let_def)
  qed
  then obtain B' where B': "broker_run ((\<lambda>_. True, ConnFrame 1) # ?xs) demo_broker = Some B'" by blast
  have "only_sends 1 [\<lambda>_. True] ?xs" by (simp add: only_sends_def)
  then obtain out where out: "own_log 1 B' = own_log 1 demo_broker @ out" "map fst out = [7]"
    "\<forall>(t, g) \<in> set out. \<exists>g' e'. decode_one_with_limit (encode g) (max_frame_size default_stomp_config) = (Inr (Some g'), []) \<and>
       inbound_envelopes demo_host default_stomp_config (AdapterId ''b'') (new_destination_map ''/queue'') g' (world demo_bridge) =
         Inr ([e'], 1) \<and> route e' = route demo_envelope \<and> payload e' = payload demo_envelope"
    using bridges B' seq(1) by (fastforce simp: demo_subscriber_def)
  obtain g where g: "out = [(7, g)]" using out(2) by (cases out) auto
  have "own_log 1 demo_broker = []" by (simp add: own_log_def seq(3))
  then show ?thesis
    using B' out g by (auto simp: demo_envelope_facts default_stomp_config_def demo_envelope_def)
qed

section \<open>A gateway's own message\<close>

lemma publish_one_exact:
  assumes "mpsc (try_send h) queue capacity shut" "host_ok h" "world_ok W"
  shows "queue (chans (publish_one h e W)) b = queue (chans W) b @
      map (\<lambda>k. \<lparr>del_sub = sub_id k, del_envelope = e\<rparr>)
        (take (chan_room queue capacity shut (chans W) b) (spec_share (key_order h) (by_key (engine_state (engine W))) (route e) b))"
    and "chan_room queue capacity shut (chans (publish_one h e W)) b = chan_room queue capacity shut (chans W) b -
      length (spec_share (key_order h) (by_key (engine_state (engine W))) (route e) b)"
  using publish_queue [of "engine W" "key_order h" "try_send h" queue capacity shut "chans W" e b]
    publish_room [of "engine W" "key_order h" "try_send h" queue capacity shut "chans W" e b] assms
  by (simp_all add: publish_one_def case_prod_unfold world_ok_def host_ok_def)

text \<open>C14: A gateway's own message comes back to it. The STOMP adapter is subscribed at the broker to the
  destinations it sends to and does not look at the origin that its frames carry, so when the broker
  relays what the adapter sent for an envelope of another adapter back to it, the adapter publishes the
  message a second time: every channel with room gets one more delivery of the same topic, type hint and
  payload for each of its matching subscriptions. Echo suppression then stops the copy from being sent again, but not from being
  delivered.\<close>

theorem stomp_own_message_returns:
  assumes "mpsc (try_send h) queue capacity shut" "host_ok h" "world_ok W"
    and "relayed (outbound_frame h a m e) g"
    and "type_hint (route e) = Some hint" "hint \<noteq> []" "plain_mime (ct_str (content_type e))"
    and "\<not> unwrap_ma_payloads cfg \<or> wrapper_kind (json_parse h) (xml_parse h) (payload e) = None"
    and "spec_share (key_order h) (by_key (engine_state (engine W))) (route e) b = ks"
    and "2 * length ks \<le> chan_room queue capacity shut (chans W) b"
  shows "\<exists>e'. queue (chans (snd (handle_frame h cfg a m g (publish_one h e W)))) b = queue (chans W) b @
      map (\<lambda>k. \<lparr>del_sub = sub_id k, del_envelope = e\<rparr>) ks @ map (\<lambda>k. \<lparr>del_sub = sub_id k, del_envelope = e'\<rparr>) ks \<and>
    route e' = route e \<and> payload e' = payload e \<and> content_type e' = content_type e \<and>
    (suppress_echo cfg \<longrightarrow> (\<forall>s. forward_outbound h cfg a wr m \<lparr>del_sub = s, del_envelope = e'\<rparr> Br = (Inr (), Br)))"
proof -
  let ?W = "publish_one h e W"
  let ?W' = "?W\<lparr>drawn := drawn ?W + 1\<rparr>"
  obtain e' where e': "handle_frame h cfg a m g ?W = (Inr (), publish_all h [e'] ?W')" "route e' = route e" "payload e' = payload e"
    "content_type e' = content_type e" "origin e' = Some (adapter_str a)"
    using plain_relay.crosses [OF assms(4-8), of a m ?W] by blast
  have again: "snd (handle_frame h cfg a m g ?W) = publish_one h e' ?W'" by (simp add: e'(1) publish_all_def)
  have ok: "world_ok ?W'" "engine_state (engine ?W') = engine_state (engine W)" "chans ?W' = chans ?W"
    using assms(3) by (simp_all add: world_ok_def)
  have first: "queue (chans ?W) b = queue (chans W) b @ map (\<lambda>k. \<lparr>del_sub = sub_id k, del_envelope = e\<rparr>) ks"
    "length ks \<le> chan_room queue capacity shut (chans ?W) b"
    using publish_one_exact [OF assms(1-3), of e b] assms(9,10) by simp_all
  have "queue (chans (publish_one h e' ?W')) b = queue (chans ?W) b @ map (\<lambda>k. \<lparr>del_sub = sub_id k, del_envelope = e'\<rparr>) ks"
    using publish_one_exact(1) [OF assms(1,2) ok(1), of e' b] ok(2,3) first(2) assms(9) e'(2) by simp
  then show ?thesis
    using again first(1) e' by (intro exI [where x = e']) (simp add: forward_outbound_def is_echo_of_def)
qed

theorem stomp_own_message_returns_witness:
  "\<exists>e'. bq_queue (chans (snd (handle_frame demo_host default_stomp_config (AdapterId ''stomp'') default_destination_map
      (on_wire (message_frame ''/topic/demo'' demo_subscriber 1 (on_wire demo_sent)))
      (publish_one demo_host demo_envelope \<lparr>engine = demo_engine, chans = (\<lambda>c. (64, False, [])), drawn = 0\<rparr>)))) 0 =
      [\<lparr>del_sub = SubId ''s1'', del_envelope = demo_envelope\<rparr>, \<lparr>del_sub = SubId ''s1'', del_envelope = e'\<rparr>] \<and>
    payload e' = ''x'' \<and> origin demo_envelope = None"
proof -
  let ?W = "\<lparr>engine = demo_engine, chans = (\<lambda>c. (64, False, [])), drawn = 0\<rparr> :: Delivery bq World"
  let ?g = "on_wire (message_frame ''/topic/demo'' demo_subscriber 1 (on_wire demo_sent))"
  have ok: "world_ok ?W" using demo_engine_inv by (simp add: world_ok_def)
  have "header demo_sent ''destination'' = Some ''/topic/demo''" by (simp add: demo_sent_eq)
  then have rel: "relayed (outbound_frame demo_host (AdapterId ''stomp'') default_destination_map demo_envelope) ?g"
    using relayed_wire demo_sent_def by metis
  have share: "spec_share (key_order demo_host) (by_key (engine_state (engine ?W))) (route demo_envelope) 0 =
      [SubscriberKey (AdapterId ''owp'') (SubId ''s1'')]"
  proof -
    have "spec_share sorted_list_of_fset (by_key (engine_state demo_engine)) (route demo_envelope) 0 =
        [SubscriberKey (AdapterId ''owp'') (SubId ''s1'')]" by code_simp
    then show ?thesis by (simp add: demo_host_def)
  qed
  have room: "2 * length [SubscriberKey (AdapterId ''owp'') (SubId ''s1'')] \<le>
      chan_room bq_queue bq_capacity bq_closed (chans ?W) 0" and empty: "bq_queue (chans ?W) 0 = []"
    by (simp_all add: chan_room_def bq_queue_def bq_capacity_def bq_closed_def)
  have hint: "''Ping'' \<noteq> ([] :: string)" by simp
  have none: "origin demo_envelope = None" by (simp add: demo_envelope_def new_envelope_def origin_def)
  obtain e' where "bq_queue (chans (snd (handle_frame demo_host default_stomp_config (AdapterId ''stomp'') default_destination_map ?g
      (publish_one demo_host demo_envelope ?W)))) 0 =
      [\<lparr>del_sub = SubId ''s1'', del_envelope = demo_envelope\<rparr>, \<lparr>del_sub = SubId ''s1'', del_envelope = e'\<rparr>]"
    "payload e' = payload demo_envelope"
    using stomp_own_message_returns [OF demo_host_ok(2) demo_host_ok(1) ok rel demo_envelope_facts(1) hint demo_envelope_facts(4)
        disjI2 [OF demo_envelope_facts(5)] share room, where cfg = default_stomp_config
          and wr = "\<lambda>_ _. Inr ()" and Br = demo_bridge]
    unfolding empty by auto
  then show ?thesis using none demo_envelope_facts(2) by auto
qed

end
